(* ===== verification/Go_Prelude.thy ===== *)
theory Go_Prelude
  imports Main "HOL-Library.Sublist"
begin

text \<open>
  Shared vocabulary of the development.

  A Go \<^verbatim>\<open>string\<close> is an immutable sequence of bytes, and so is a HOL \<^typ>\<open>string\<close>: a list of
  8-bit characters.  Every definition below therefore works on bytes; where the source treats a
  string as runes (\<^verbatim>\<open>unicode/utf8\<close>) the decoding is written out.

  The functions of Go's \<^verbatim>\<open>strings\<close>, \<^verbatim>\<open>strconv\<close>, \<^verbatim>\<open>fmt\<close> and \<^verbatim>\<open>unicode/utf8\<close> packages that the
  sources call are modelled here, each on the arguments the sources pass: separators and needles
  are never empty where Go would switch to rune-wise behaviour.  Case mapping (\<open>to_lower\<close>,
  \<open>equal_fold\<close>) is the ASCII one: Go also maps letters beyond ASCII, which the model leaves alone.

  Go's \<^verbatim>\<open>int\<close> is 64 bits wide.  Counters and sizes that grow by one per event are modelled by
  \<^typ>\<open>int\<close> or \<^typ>\<open>nat\<close>; where an argument chosen by the model server enters an addition, the
  wrap-around is written out with \<open>wrap64\<close>.
\<close>

named_theorems gostr \<open>laws of the string functions\<close>
named_theorems inv_intros \<open>preservation lemmas: one operation keeps one invariant\<close>
named_theorems frame \<open>fields an operation leaves alone\<close>

section \<open>Results\<close>

text \<open>
  A Go function with result \<^verbatim>\<open>(T, error)\<close> returns \<open>Ok\<close> or \<open>Err\<close>; a run-time panic (an index or
  slice bound out of range) is a third outcome.
\<close>

datatype 'a gores = Ok 'a | Err string | Panic

primrec gores_bind :: "'a gores \<Rightarrow> ('a \<Rightarrow> 'b gores) \<Rightarrow> 'b gores" where
  "gores_bind (Ok x) f = f x"
| "gores_bind (Err e) f = Err e"
| "gores_bind Panic f = Panic"

lemma gores_bind_Ok [simp]: "gores_bind r f = Ok y \<longleftrightarrow> (\<exists>x. r = Ok x \<and> f x = Ok y)"
  by (cases r) auto

lemma gores_bind_Panic [simp]:
  "gores_bind r f = Panic \<longleftrightarrow> r = Panic \<or> (\<exists>x. r = Ok x \<and> f x = Panic)"
  by (cases r) auto

section \<open>Composite keys\<close>

lemma nul_key_inject:
  assumes "CHR 0x00 \<notin> set s" "CHR 0x00 \<notin> set s'"
  shows "s @ [CHR 0x00] @ c = s' @ [CHR 0x00] @ c' \<longleftrightarrow> s = s' \<and> c = c'"
proof
  assume eq: "s @ [CHR 0x00] @ c = s' @ [CHR 0x00] @ c'"
  have t: "takeWhile (\<lambda>x. x \<noteq> CHR 0x00) (s @ [CHR 0x00] @ c) = s" if "CHR 0x00 \<notin> set s" for s c
    using that by (subst takeWhile_append2) auto
  have "s = s'" using t [OF assms(1), of c] t [OF assms(2), of c'] eq by simp
  with eq show "s = s' \<and> c = c'" by simp
qed simp

section \<open>State machines\<close>

text \<open>
  The contract of a component that runs as a state machine: initial states satisfy the invariant
  and every transition keeps it.  The lemmas lift both to reachable states, also for a predicate
  that, once established, only survives under the invariant.
\<close>

locale invariant_system =
  fixes start :: "'s \<Rightarrow> bool" and step :: "'s \<Rightarrow> 's \<Rightarrow> bool" and inv :: "'s \<Rightarrow> bool"
  assumes start_inv: "start s \<Longrightarrow> inv s"
    and step_inv: "inv s \<Longrightarrow> step s t \<Longrightarrow> inv t"
begin

definition reachable :: "'s \<Rightarrow> bool" where
  "reachable t \<longleftrightarrow> (\<exists>s. start s \<and> step\<^sup>*\<^sup>* s t)"

lemma steps_inv: "step\<^sup>*\<^sup>* s t \<Longrightarrow> inv s \<Longrightarrow> inv t"
  by (induction rule: rtranclp_induct) (auto intro: step_inv)

lemma run_inv: "start s \<Longrightarrow> step\<^sup>*\<^sup>* s t \<Longrightarrow> inv t"
  by (blast intro: start_inv steps_inv)

lemma stable:
  assumes "step\<^sup>*\<^sup>* s t" "inv s" "P s" "\<And>u v. inv u \<Longrightarrow> P u \<Longrightarrow> step u v \<Longrightarrow> P v"
  shows "P t"
  using assms(1)
proof (induction rule: rtranclp_induct)
  case (step u v)
  then show ?case using steps_inv [OF step(1) assms(2)] assms(4) by blast
qed (fact assms(3))

end

section \<open>Machine integers\<close>

definition wrap64 :: "int \<Rightarrow> int" where
  "wrap64 x = (x + 2 ^ 63) mod 2 ^ 64 - 2 ^ 63"

definition in_int64 :: "int \<Rightarrow> bool" where
  "in_int64 x \<longleftrightarrow> - (2 ^ 63) \<le> x \<and> x < 2 ^ 63"

lemma wrap64_id: "in_int64 x \<Longrightarrow> wrap64 x = x"
  by (simp add: wrap64_def in_int64_def)

lemma wrap64_range: "in_int64 (wrap64 x)"
proof -
  have "0 \<le> (x + 2 ^ 63) mod 2 ^ 64" "(x + 2 ^ 63) mod 2 ^ 64 < 2 ^ 64"
    by simp_all
  then show ?thesis by (simp add: wrap64_def in_int64_def)
qed

section \<open>Decimal printing and reading\<close>

definition digit_char :: "nat \<Rightarrow> char" where
  "digit_char d = char_of (48 + d)"

definition is_digit :: "char \<Rightarrow> bool" where
  "is_digit c \<longleftrightarrow> 48 \<le> (of_char c :: nat) \<and> (of_char c :: nat) \<le> 57"

definition digit_val :: "char \<Rightarrow> nat" where
  "digit_val c = of_char c - 48"

fun dec :: "nat \<Rightarrow> string" where
  "dec n = (if n < 10 then [digit_char n] else dec (n div 10) @ [digit_char (n mod 10)])"

declare dec.simps [simp del]

definition itoa :: "int \<Rightarrow> string" where
  \<comment> \<open>\<^verbatim>\<open>%d\<close> and \<^verbatim>\<open>strconv.Itoa\<close>\<close>
  "itoa i = (if i < 0 then CHR ''-'' # dec (nat (- i)) else dec (nat i))"

definition dec_val :: "string \<Rightarrow> nat" where
  "dec_val s = foldl (\<lambda>acc c. 10 * acc + digit_val c) 0 s"

lemma of_char_digit_char: "d < 10 \<Longrightarrow> (of_char (digit_char d) :: nat) = 48 + d"
  by (simp add: digit_char_def)

lemma digit_val_digit_char [simp]: "d < 10 \<Longrightarrow> digit_val (digit_char d) = d"
  by (simp add: digit_val_def of_char_digit_char)

lemma is_digit_digit_char [simp]: "d < 10 \<Longrightarrow> is_digit (digit_char d)"
  by (simp add: is_digit_def of_char_digit_char)

lemma dec_digits: "\<forall>c \<in> set (dec n). is_digit c"
proof (induction n rule: dec.induct)
  case (1 n)
  then show ?case by (cases "n < 10") (auto simp: dec.simps [of n])
qed

lemma dec_not_Nil [simp]: "dec n \<noteq> []"
  by (subst dec.simps) simp

lemma dec_val_snoc [simp]: "dec_val (s @ [c]) = 10 * dec_val s + digit_val c"
  by (simp add: dec_val_def)

lemma dec_val_dec [simp]: "dec_val (dec n) = n"
proof (induction n rule: dec.induct)
  case (1 n)
  show ?case
  proof (cases "n < 10")
    case True
    then show ?thesis by (simp add: dec.simps [of n] dec_val_def)
  next
    case False
    with 1 show ?thesis by (simp add: dec.simps [of n])
  qed
qed

lemma dec_inject [simp]: "dec m = dec n \<longleftrightarrow> m = n"
  by (metis dec_val_dec)

lemma is_digit_minus [simp]: "\<not> is_digit (CHR ''-'')"
  by (simp add: is_digit_def)

lemma itoa_not_Nil [simp]: "itoa i \<noteq> []"
  by (simp add: itoa_def)

lemma dec_hd_not_minus: "dec n \<noteq> CHR ''-'' # s"
  using dec_digits [of n] by (metis is_digit_minus list.set_intros(1))

lemma itoa_inject [simp]: "itoa i = itoa j \<longleftrightarrow> i = j"
  using dec_hd_not_minus dec_hd_not_minus [symmetric] by (auto simp: itoa_def)

end
