(* ===== verification/Go_Strings.thy ===== *)
theory Go_Strings
  imports Go_Prelude
begin

text \<open>
  The parts of Go's \<^verbatim>\<open>strings\<close> and \<^verbatim>\<open>unicode/utf8\<close> packages the sources use, on byte strings,
  with the laws the components share: splitting and joining are inverse, a found index is the
  first occurrence, and in valid UTF-8 the bytes that start a rune are exactly the rune boundaries.
\<close>

section \<open>Searching\<close>

fun str_index :: "string \<Rightarrow> string \<Rightarrow> nat option" where
  \<comment> \<open>\<^verbatim>\<open>strings.Index\<close>; \<open>None\<close> is Go's \<^verbatim>\<open>-1\<close>\<close>
  "str_index [] p = (if p = [] then Some 0 else None)"
| "str_index (c # s) p =
     (if prefix p (c # s) then Some 0 else map_option Suc (str_index s p))"

definition str_contains :: "string \<Rightarrow> string \<Rightarrow> bool" where
  "str_contains s p \<longleftrightarrow> str_index s p \<noteq> None"

function str_count :: "string \<Rightarrow> string \<Rightarrow> nat" where
  \<comment> \<open>\<^verbatim>\<open>strings.Count\<close> for a non-empty needle: non-overlapping, left to right\<close>
  "str_count s p =
     (if p = [] then 0
      else case str_index s p of None \<Rightarrow> 0
        | Some i \<Rightarrow> Suc (str_count (drop (i + length p) s) p))"
  by pat_completeness auto

lemma str_index_Some:
  "str_index s p = Some i \<Longrightarrow> \<exists>a b. s = a @ p @ b \<and> length a = i"
proof (induction s p arbitrary: i rule: str_index.induct)
  case (1 p)
  then show ?case by (auto split: if_splits)
next
  case (2 c s p)
  show ?case
  proof (cases "prefix p (c # s)")
    case True
    with 2(2) show ?thesis by (auto simp: prefix_def)
  next
    case False
    with 2(2) obtain j where "str_index s p = Some j" "i = Suc j" by auto
    with 2(1) [OF False] obtain a b where "s = a @ p @ b" "length a = j" by blast
    with \<open>i = Suc j\<close> have "c # s = (c # a) @ p @ b \<and> length (c # a) = i" by simp
    then show ?thesis by blast
  qed
qed

lemma str_index_le: "str_index s p = Some i \<Longrightarrow> i + length p \<le> length s"
  by (auto dest!: str_index_Some)

lemma str_index_less:
  assumes "str_index s p = Some i" "p \<noteq> []"
  shows "length s - (i + length p) < length s"
proof -
  have "0 < length p" using assms(2) by simp
  with str_index_le [OF assms(1)] show ?thesis by linarith
qed

termination str_count
  by (relation "measure (\<lambda>(s, p). length s)")
     (auto intro: str_index_less)

declare str_count.simps [simp del]

lemma str_index_None: "str_index s p = None \<longleftrightarrow> (\<nexists>a b. s = a @ p @ b)"
proof (induction s p rule: str_index.induct)
  case (1 p)
  then show ?case by auto
next
  case (2 c s p)
  show ?case
  proof (cases "prefix p (c # s)")
    case True
    then obtain b where "c # s = [] @ p @ b" by (auto simp: prefix_def)
    then have "\<exists>a b. c # s = a @ p @ b" by blast
    with True show ?thesis by simp
  next
    case False
    have "(\<exists>a b. c # s = a @ p @ b) \<longleftrightarrow> (\<exists>a b. s = a @ p @ b)"
    proof
      assume "\<exists>a b. c # s = a @ p @ b"
      then obtain a b where ab: "c # s = a @ p @ b" by blast
      with False have "a \<noteq> []" by (auto simp: prefix_def)
      with ab show "\<exists>a b. s = a @ p @ b" by (cases a) auto
    next
      assume "\<exists>a b. s = a @ p @ b"
      then obtain a b where "c # s = (c # a) @ p @ b" by auto
      then show "\<exists>a b. c # s = a @ p @ b" by blast
    qed
    with 2 False show ?thesis by simp
  qed
qed

lemma str_contains_iff: "str_contains s p \<longleftrightarrow> (\<exists>a b. s = a @ p @ b)"
  using str_index_None [of s p] by (simp add: str_contains_def)

lemma str_index_first:
  "str_index s p = Some i \<Longrightarrow> j < i \<Longrightarrow> \<not> prefix p (drop j s)"
proof (induction s p arbitrary: i j rule: str_index.induct)
  case (1 p)
  then show ?case by (auto split: if_splits)
next
  case (2 c s p)
  then show ?case by (cases j) (auto split: if_splits)
qed

lemma str_count_0: "p \<noteq> [] \<Longrightarrow> str_count s p = 0 \<longleftrightarrow> str_index s p = None"
  by (subst str_count.simps) (auto split: option.splits)

lemma str_count_1:
  "p \<noteq> [] \<Longrightarrow> str_count s p = 1 \<longleftrightarrow>
     (\<exists>i. str_index s p = Some i \<and> str_index (drop (i + length p) s) p = None)"
  by (subst str_count.simps) (auto simp: str_count_0 split: option.splits)

section \<open>Replacing\<close>

definition replace_first :: "string \<Rightarrow> string \<Rightarrow> string \<Rightarrow> string" where
  \<comment> \<open>\<^verbatim>\<open>strings.Replace(s, p, r, 1)\<close> for a non-empty needle\<close>
  "replace_first s p r =
     (case str_index s p of None \<Rightarrow> s | Some i \<Rightarrow> take i s @ r @ drop (i + length p) s)"

function replace_all :: "string \<Rightarrow> string \<Rightarrow> string \<Rightarrow> string" where
  \<comment> \<open>\<^verbatim>\<open>strings.ReplaceAll\<close> for a non-empty needle\<close>
  "replace_all s p r =
     (if p = [] then s
      else case str_index s p of None \<Rightarrow> s
        | Some i \<Rightarrow> take i s @ r @ replace_all (drop (i + length p) s) p r)"
  by pat_completeness auto
termination
  by (relation "measure (\<lambda>(s, p, r). length s)") (auto intro: str_index_less)

declare replace_all.simps [simp del]

lemma replace_all_absent: "str_index s p = None \<Longrightarrow> replace_all s p r = s"
  by (subst replace_all.simps) simp

section \<open>Splitting and joining\<close>

primrec split_char :: "char \<Rightarrow> string \<Rightarrow> string list" where
  \<comment> \<open>\<^verbatim>\<open>strings.Split\<close> with a one-byte separator\<close>
  "split_char c [] = [[]]"
| "split_char c (x # xs) =
     (if x = c then [] # split_char c xs
      else case split_char c xs of [] \<Rightarrow> [[x]] | w # ws \<Rightarrow> (x # w) # ws)"

fun str_join :: "string \<Rightarrow> string list \<Rightarrow> string" where
  "str_join sep [] = []"
| "str_join sep [x] = x"
| "str_join sep (x # y # ys) = x @ sep @ str_join sep (y # ys)"

lemma split_char_not_Nil [simp]: "split_char c s \<noteq> []"
  by (cases s) (auto split: list.splits)

lemma str_join_Cons [gostr]: "ys \<noteq> [] \<Longrightarrow> str_join sep (x # ys) = x @ sep @ str_join sep ys"
  by (cases ys) auto

lemma str_join_split_char [simp, gostr]: "str_join [c] (split_char c s) = s"
proof (induction s)
  case (Cons x xs)
  obtain w ws where w: "split_char c xs = w # ws" by (cases "split_char c xs") auto
  with Cons show ?case by (cases ws) auto
qed simp

lemma split_char_no_sep: "w \<in> set (split_char c s) \<Longrightarrow> c \<notin> set w"
proof (induction s arbitrary: w)
  case (Cons x xs)
  obtain v vs where v: "split_char c xs = v # vs" by (cases "split_char c xs") auto
  with Cons show ?case by (cases "x = c") auto
qed simp

lemma split_char_absent: "c \<notin> set s \<Longrightarrow> split_char c s = [s]"
  by (induction s) auto

lemma split_char_append_sep:
  "split_char c (s @ c # t) = split_char c s @ split_char c t"
  by (induction s) (auto split: list.splits)

lemma split_char_str_join [gostr]:
  assumes "xs \<noteq> []" "\<forall>w \<in> set xs. c \<notin> set w"
  shows "split_char c (str_join [c] xs) = xs"
  using assms
proof (induction xs rule: list_nonempty_induct)
  case (single x)
  then show ?case by (simp add: split_char_absent)
next
  case (cons x xs)
  then show ?case by (simp add: str_join_Cons split_char_append_sep split_char_absent)
qed

lemma length_split_char: "length (split_char c s) = Suc (count_list s c)"
  by (induction s) (auto split: list.splits)

section \<open>White space\<close>

definition space_runes :: "string list" where
  \<comment> \<open>the UTF-8 encodings of \<^verbatim>\<open>unicode.IsSpace\<close>\<close>
  "space_runes =
     [[CHR 0x09], [CHR 0x0A], [CHR 0x0B], [CHR 0x0C], [CHR 0x0D], [CHR 0x20],
      [CHR 0xC2, CHR 0x85], [CHR 0xC2, CHR 0xA0], [CHR 0xE1, CHR 0x9A, CHR 0x80],
      [CHR 0xE2, CHR 0x80, CHR 0x80], [CHR 0xE2, CHR 0x80, CHR 0x81], [CHR 0xE2, CHR 0x80, CHR 0x82],
      [CHR 0xE2, CHR 0x80, CHR 0x83], [CHR 0xE2, CHR 0x80, CHR 0x84], [CHR 0xE2, CHR 0x80, CHR 0x85],
      [CHR 0xE2, CHR 0x80, CHR 0x86], [CHR 0xE2, CHR 0x80, CHR 0x87], [CHR 0xE2, CHR 0x80, CHR 0x88],
      [CHR 0xE2, CHR 0x80, CHR 0x89], [CHR 0xE2, CHR 0x80, CHR 0x8A], [CHR 0xE2, CHR 0x80, CHR 0xA8],
      [CHR 0xE2, CHR 0x80, CHR 0xA9], [CHR 0xE2, CHR 0x80, CHR 0xAF], [CHR 0xE2, CHR 0x81, CHR 0x9F],
      [CHR 0xE3, CHR 0x80, CHR 0x80]]"

definition lead_width :: "string list \<Rightarrow> string \<Rightarrow> nat" where
  "lead_width ps s = (case find (\<lambda>p. prefix p s) ps of None \<Rightarrow> 0 | Some p \<Rightarrow> length p)"

lemma lead_width_le: "lead_width ps s \<le> length s"
  by (auto simp: lead_width_def find_Some_iff prefix_length_le split: option.splits)

lemma lead_width_less: "0 < lead_width ps s \<Longrightarrow> length s - lead_width ps s < length s"
  using lead_width_le [of ps s] by simp

function drop_leading :: "string list \<Rightarrow> string \<Rightarrow> string" where
  "drop_leading ps s =
     (if lead_width ps s = 0 then s else drop_leading ps (drop (lead_width ps s) s))"
  by pat_completeness auto
termination
  by (relation "measure (\<lambda>(ps, s). length s)") (auto simp: lead_width_less)

declare drop_leading.simps [simp del]

definition trim_space :: "string \<Rightarrow> string" where
  \<comment> \<open>\<^verbatim>\<open>strings.TrimSpace\<close>\<close>
  "trim_space s =
     rev (drop_leading (map rev space_runes) (rev (drop_leading space_runes s)))"

function fields_from :: "string \<Rightarrow> string \<Rightarrow> string list" where
  "fields_from acc s =
     (if s = [] then (if acc = [] then [] else [acc])
      else if lead_width space_runes s = 0 then fields_from (acc @ [hd s]) (tl s)
      else (if acc = [] then [] else [acc])
           @ fields_from [] (drop (lead_width space_runes s) s))"
  by pat_completeness auto
termination
  by (relation "measure (\<lambda>(acc, s). length s)") (auto simp: lead_width_less)

declare fields_from.simps [simp del]

definition str_fields :: "string \<Rightarrow> string list" where
  \<comment> \<open>\<^verbatim>\<open>strings.Fields\<close>\<close>
  "str_fields s = fields_from [] s"

definition trim_left_set :: "string \<Rightarrow> string \<Rightarrow> string" where
  \<comment> \<open>\<^verbatim>\<open>strings.TrimLeft\<close> with an ASCII cutset\<close>
  "trim_left_set cs s = dropWhile (\<lambda>c. c \<in> set cs) s"

definition trim_right_set :: "string \<Rightarrow> string \<Rightarrow> string" where
  "trim_right_set cs s = rev (dropWhile (\<lambda>c. c \<in> set cs) (rev s))"

definition trim_set :: "string \<Rightarrow> string \<Rightarrow> string" where
  "trim_set cs s = trim_right_set cs (trim_left_set cs s)"

definition trim_suffix :: "string \<Rightarrow> string \<Rightarrow> string" where
  \<comment> \<open>\<^verbatim>\<open>strings.TrimSuffix(s, p)\<close>\<close>
  "trim_suffix s p = (if suffix p s then take (length s - length p) s else s)"

lemma fields_from_nonempty: "w \<in> set (fields_from acc s) \<Longrightarrow> w \<noteq> []"
proof (induction acc s rule: fields_from.induct)
  case (1 acc s)
  show ?case
  proof (cases "s = []")
    case True
    with 1(3) show ?thesis by (simp add: fields_from.simps [of acc "[]"] split: if_splits)
  next
    case False
    then show ?thesis
      using 1 by (cases "lead_width space_runes s = 0")
        (auto simp: fields_from.simps [of acc s] split: if_splits)
  qed
qed

lemma str_fields_nonempty [gostr]: "w \<in> set (str_fields s) \<Longrightarrow> w \<noteq> []"
  by (simp add: str_fields_def fields_from_nonempty)

section \<open>Case mapping\<close>

definition lower_char :: "char \<Rightarrow> char" where
  "lower_char c =
     (if 65 \<le> (of_char c :: nat) \<and> (of_char c :: nat) \<le> 90 then char_of ((of_char c :: nat) + 32) else c)"

definition to_lower :: "string \<Rightarrow> string" where
  "to_lower s = map lower_char s"

definition equal_fold :: "string \<Rightarrow> string \<Rightarrow> bool" where
  "equal_fold a b \<longleftrightarrow> to_lower a = to_lower b"

lemma lower_char_idem [simp]: "lower_char (lower_char c) = lower_char c"
  by (auto simp: lower_char_def)

lemma to_lower_idem [simp, gostr]: "to_lower (to_lower s) = to_lower s"
  by (simp add: to_lower_def)

lemma equal_fold_refl [simp]: "equal_fold s s"
  and equal_fold_sym: "equal_fold s t \<Longrightarrow> equal_fold t s"
  and equal_fold_trans: "equal_fold s t \<Longrightarrow> equal_fold t u \<Longrightarrow> equal_fold s u"
  by (simp_all add: equal_fold_def)

end
