(* ===== verification/Go_UTF8.thy ===== *)
theory Go_UTF8
  imports Go_Strings
begin

text \<open>
  UTF-8 as Go's \<^verbatim>\<open>unicode/utf8\<close> package defines it: \<open>rune_width\<close> decodes the rune at the head of a
  byte string (\<open>None\<close> for an invalid or truncated encoding, where Go reports \<^verbatim>\<open>RuneError\<close> with
  width 1), \<open>valid_utf8\<close> is \<^verbatim>\<open>ValidString\<close>, \<open>rune_start\<close> is \<^verbatim>\<open>RuneStart\<close>.  The main fact is
  that in a valid string the bytes accepted by \<open>rune_start\<close> are exactly the rune boundaries.
\<close>

definition byte :: "char \<Rightarrow> nat" where
  "byte c = of_char c"

definition rune_start :: "char \<Rightarrow> bool" where
  "rune_start c \<longleftrightarrow> \<not> (128 \<le> byte c \<and> byte c \<le> 191)"

definition lead_byte :: "nat \<Rightarrow> (nat \<times> nat \<times> nat) option" where
  \<comment> \<open>width and admissible second byte for a leading byte, as in the package's accept ranges\<close>
  "lead_byte x =
     (if x \<le> 0x7F then Some (1, 0, 0)
      else if x < 0xC2 then None
      else if x \<le> 0xDF then Some (2, 0x80, 0xBF)
      else if x = 0xE0 then Some (3, 0xA0, 0xBF)
      else if x = 0xED then Some (3, 0x80, 0x9F)
      else if x \<le> 0xEF then Some (3, 0x80, 0xBF)
      else if x = 0xF0 then Some (4, 0x90, 0xBF)
      else if x \<le> 0xF3 then Some (4, 0x80, 0xBF)
      else if x = 0xF4 then Some (4, 0x80, 0x8F)
      else None)"

definition rune_width :: "string \<Rightarrow> nat option" where
  "rune_width s =
     (case s of [] \<Rightarrow> None
      | b # r \<Rightarrow> (case lead_byte (byte b) of None \<Rightarrow> None
          | Some (w, lo, hi) \<Rightarrow>
              if w = 1 then Some 1
              else if w \<le> length s \<and> lo \<le> byte (s ! 1) \<and> byte (s ! 1) \<le> hi
                   \<and> list_all (\<lambda>c. \<not> rune_start c) (drop 2 (take w s))
              then Some w else None))"

definition decode_width :: "string \<Rightarrow> nat" where
  \<comment> \<open>the width \<^verbatim>\<open>utf8.DecodeRune\<close> reports: 0 for no bytes, 1 for an invalid encoding\<close>
  "decode_width s = (if s = [] then 0 else case rune_width s of None \<Rightarrow> 1 | Some w \<Rightarrow> w)"

lemma lead_byte_bounds:
  assumes "lead_byte x = Some (w, lo, hi)"
  shows "1 \<le> w" "w \<le> 4" "\<not> (128 \<le> x \<and> x \<le> 191)" "w \<noteq> 1 \<Longrightarrow> 128 \<le> lo \<and> hi \<le> 191"
  using assms by (auto simp: lead_byte_def split: if_splits)

lemma rune_width_iff:
  "rune_width s = Some w \<longleftrightarrow>
     s \<noteq> [] \<and> (\<exists>lo hi. lead_byte (byte (s ! 0)) = Some (w, lo, hi) \<and>
       (w = 1 \<or> w \<le> length s \<and> lo \<le> byte (s ! 1) \<and> byte (s ! 1) \<le> hi
                \<and> list_all (\<lambda>c. \<not> rune_start c) (drop 2 (take w s))))"
  by (cases s) (auto simp: rune_width_def split: option.splits if_splits)

lemma rune_width_bounds:
  assumes "rune_width s = Some w"
  shows "1 \<le> w \<and> w \<le> 4 \<and> w \<le> length s"
proof -
  from assms obtain lo hi where l: "lead_byte (byte (s ! 0)) = Some (w, lo, hi)"
    and "s \<noteq> []" "w = 1 \<or> w \<le> length s"
    by (auto simp: rune_width_iff)
  then show ?thesis using lead_byte_bounds(1,2) [OF l] by (cases s) auto
qed

function valid_utf8 :: "string \<Rightarrow> bool" where
  "valid_utf8 s =
     (if s = [] then True
      else case rune_width s of None \<Rightarrow> False | Some w \<Rightarrow> valid_utf8 (drop w s))"
  by pat_completeness auto
termination
proof (relation "measure length", simp)
  fix s :: string and w
  assume "s \<noteq> []" "rune_width s = Some w"
  with rune_width_bounds [of s w] show "(drop w s, s) \<in> measure length" by auto
qed

declare valid_utf8.simps [simp del]

lemma valid_utf8_Nil [simp]: "valid_utf8 []"
  by (simp add: valid_utf8.simps)

lemma valid_utf8_step: "rune_width s = Some w \<Longrightarrow> valid_utf8 s = valid_utf8 (drop w s)"
  by (cases "s = []") (simp_all add: rune_width_def valid_utf8.simps [of s])

lemma valid_utf8_width: "valid_utf8 s \<Longrightarrow> s \<noteq> [] \<Longrightarrow> \<exists>w. rune_width s = Some w"
  by (subst (asm) valid_utf8.simps) (auto split: option.splits)

lemma rune_width_hd: "rune_width s = Some w \<Longrightarrow> rune_start (s ! 0)"
  by (auto simp: rune_width_iff rune_start_def dest: lead_byte_bounds(3))

lemma rune_width_tail:
  assumes "rune_width s = Some w" "0 < j" "j < w"
  shows "\<not> rune_start (s ! j)"
proof -
  from assms(1) obtain lo hi where l: "lead_byte (byte (s ! 0)) = Some (w, lo, hi)"
    and r: "w = 1 \<or> w \<le> length s \<and> lo \<le> byte (s ! 1) \<and> byte (s ! 1) \<le> hi
                \<and> list_all (\<lambda>c. \<not> rune_start c) (drop 2 (take w s))"
    by (auto simp: rune_width_iff)
  from assms have w1: "w \<noteq> 1" by simp
  show ?thesis
  proof (cases "j = 1")
    case True
    with r w1 lead_byte_bounds(4) [OF l w1] show ?thesis by (auto simp: rune_start_def)
  next
    case False
    with assms(2) have "2 \<le> j" by simp
    with r w1 assms(3) have "drop 2 (take w s) ! (j - 2) = s ! j" "j - 2 < length (drop 2 (take w s))"
      by (auto simp: numeral_2_eq_2 Suc_diff_Suc)
    with r w1 show ?thesis by (metis list_all_length)
  qed
qed

lemma rune_width_append:
  assumes "rune_width a = Some w"
  shows "rune_width (a @ b) = Some w"
proof -
  have "a \<noteq> []" "w \<le> length a" using assms rune_width_bounds [OF assms] by (auto simp: rune_width_iff)
  then have "(a @ b) ! 0 = a ! 0" "take w (a @ b) = take w a" "w \<noteq> 1 \<Longrightarrow> w \<noteq> 0 \<Longrightarrow> (a @ b) ! 1 = a ! 1"
    by (auto simp: nth_append)
  with assms rune_width_bounds [OF assms] show ?thesis
    unfolding rune_width_iff by auto
qed

lemma rune_width_take:
  assumes "rune_width s = Some w" "w \<le> n"
  shows "rune_width (take n s) = Some w"
proof -
  note b = rune_width_bounds [OF assms(1)]
  then have "take n s ! 0 = s ! 0" "take w (take n s) = take w s" "w \<noteq> 1 \<Longrightarrow> take n s ! 1 = s ! 1"
    using assms(2) by (auto simp: min_def)
  with assms b show ?thesis unfolding rune_width_iff by auto
qed

lemma valid_utf8_append: "valid_utf8 a \<Longrightarrow> valid_utf8 (a @ b) = valid_utf8 b"
proof (induction a rule: valid_utf8.induct)
  case (1 a)
  show ?case
  proof (cases "a = []")
    case False
    with 1(2) obtain w where w: "rune_width a = Some w" using valid_utf8_width by blast
    from rune_width_bounds [OF w] have le: "w \<le> length a" by simp
    have "valid_utf8 (a @ b) = valid_utf8 (drop w a @ b)"
      using valid_utf8_step [OF rune_width_append [OF w, of b]] le by simp
    also have "\<dots> = valid_utf8 b"
      using 1(1) [OF False w] 1(2) valid_utf8_step [OF w] by simp
    finally show ?thesis .
  qed simp
qed

lemma valid_utf8_hd: "valid_utf8 s \<Longrightarrow> s \<noteq> [] \<Longrightarrow> rune_start (s ! 0)"
  using valid_utf8_width rune_width_hd by blast

lemma rune_start_boundary:
  "valid_utf8 s \<Longrightarrow> i < length s \<Longrightarrow> rune_start (s ! i) \<longleftrightarrow> valid_utf8 (drop i s)"
proof (induction s arbitrary: i rule: valid_utf8.induct)
  case (1 s)
  then have ne: "s \<noteq> []" by auto
  with 1(2) obtain w where w: "rune_width s = Some w" using valid_utf8_width by blast
  note wb = rune_width_bounds [OF w]
  consider "i = 0" | "0 < i" "i < w" | "w \<le> i" by linarith
  then show ?case
  proof cases
    case 1
    with \<open>valid_utf8 s\<close> ne show ?thesis by (simp add: valid_utf8_hd)
  next
    case 2
    have "\<not> rune_start (s ! i)" using w 2 by (rule rune_width_tail)
    moreover have "rune_start (drop i s ! 0)" if "valid_utf8 (drop i s)"
      using that \<open>i < length s\<close> by (intro valid_utf8_hd) auto
    ultimately show ?thesis using \<open>i < length s\<close> by auto
  next
    case 3
    with \<open>i < length s\<close> wb have "drop i s = drop (i - w) (drop w s)" "s ! i = drop w s ! (i - w)"
      by simp_all
    then show ?thesis
      using 1(1) [OF ne w, of "i - w"] 3 \<open>i < length s\<close> \<open>valid_utf8 s\<close> valid_utf8_step [OF w]
      by (simp add: less_diff_conv2)
  qed
qed

lemma valid_utf8_take:
  "valid_utf8 s \<Longrightarrow> valid_utf8 (drop i s) \<Longrightarrow> valid_utf8 (take i s)"
proof (induction s arbitrary: i rule: valid_utf8.induct)
  case (1 s)
  show ?case
  proof (cases "s = [] \<or> i = 0 \<or> length s \<le> i")
    case True
    with 1(2) show ?thesis by auto
  next
    case False
    then have ne: "s \<noteq> []" and i: "0 < i" "i < length s" by auto
    from 1(2) ne obtain w where w: "rune_width s = Some w" using valid_utf8_width by blast
    note wb = rune_width_bounds [OF w]
    have "rune_start (s ! i)" using rune_start_boundary [OF 1(2) i(2)] 1(3) by simp
    then have wi: "w \<le> i" using rune_width_tail [OF w i(1)] by (meson not_le)
    have whole: "take w s @ take (i - w) (drop w s) = take i s"
      using wi by (metis le_add_diff_inverse take_add)
    have head: "valid_utf8 (take w s)"
    proof -
      have "rune_width (take w s) = Some w" using w by (rule rune_width_take) simp
      from valid_utf8_step [OF this] show ?thesis by simp
    qed
    have "valid_utf8 (take (i - w) (drop w s))"
      using 1(1) [OF ne w, of "i - w"] 1(2,3) valid_utf8_step [OF w] wi by simp
    with valid_utf8_append [OF head] whole show ?thesis by metis
  qed
qed

end
