(* ===== verification/Events_Model.thy ===== *)
theory Events_Model
  imports Complex_Main Go_Strings
begin

text \<open>
  The data that flows between the components: messages, tool calls and events
  (\<^verbatim>\<open>internal/events/event.go\<close>), and the values of Go's \<^verbatim>\<open>any\<close> that event payloads and tool
  arguments carry.

  A \<^verbatim>\<open>map[string]any\<close> is an association list whose order has no meaning; JSON numbers are
  \<^verbatim>\<open>float64\<close> and every finite one is a rational.  Optional pointers (\<^verbatim>\<open>*bool\<close>) are options.
\<close>

section \<open>Messages\<close>

record toolCall =
  tc_ID :: string
  tc_Name :: string
  tc_Arguments :: string

record attachment =
  at_Path :: string
  at_Bytes :: int
  at_SHA256 :: string
  at_Kind :: string
  at_Outcome :: string

record planProposal =
  pp_ID :: string
  pp_Kind :: string
  pp_Path :: string
  pp_OldText :: string
  pp_NewText :: string
  pp_ItemID :: string
  pp_SourceMessageIDs :: "string list"

record message =
  msg_ID :: string
  msg_Role :: string
  msg_Content :: string
  msg_Reasoning :: string
  msg_ToolCalls :: "toolCall list"
  msg_ToolCallID :: string
  msg_Name :: string
  msg_Category :: string
  msg_Tokens :: int
  msg_Estimated :: bool
  msg_Elided :: bool
  msg_Turn :: int
  msg_OK :: "bool option"
  msg_Attachments :: "attachment list"
  msg_PlanProposals :: "planProposal list"

definition emptyMessage :: message where
  \<comment> \<open>the zero value \<^verbatim>\<open>events.Message{}\<close>\<close>
  "emptyMessage =
     \<lparr>msg_ID = [], msg_Role = [], msg_Content = [], msg_Reasoning = [], msg_ToolCalls = [],
      msg_ToolCallID = [], msg_Name = [], msg_Category = [], msg_Tokens = 0, msg_Estimated = False,
      msg_Elided = False, msg_Turn = 0, msg_OK = None, msg_Attachments = [], msg_PlanProposals = []\<rparr>"

record modelUsage =
  mu_PromptTokens :: int
  mu_CompletionTokens :: int
  mu_CachedTokens :: "int option"

record compactionSummaryData =
  cs_Role :: string
  cs_ProfileID :: string
  cs_Model :: string
  cs_Outcome :: string
  cs_Reason :: string
  cs_FallbackReason :: string
  cs_Dispatched :: bool
  cs_EstimatedPromptTokens :: int
  cs_Estimated :: bool
  cs_NCtx :: int
  cs_Usage :: modelUsage
  cs_DurationMS :: int

section \<open>Dynamic values\<close>

datatype gval =
    GNil
  | GBool bool
  | GInt int
  | GFloat rat
  | GStr string
  | GStrs "string list"
  | GList "gval list"
  | GMap "(string \<times> gval) list"
  | GCalls "toolCall list"
  | GMessage message
  | GUsage modelUsage
  | GSummary compactionSummaryData

type_synonym gmap = "(string \<times> gval) list"

definition gget :: "gmap \<Rightarrow> string \<Rightarrow> gval" where
  \<comment> \<open>\<^verbatim>\<open>m[k]\<close>: the zero value \<^verbatim>\<open>nil\<close> for an absent key\<close>
  "gget m k = (case map_of m k of None \<Rightarrow> GNil | Some v \<Rightarrow> v)"

definition ghas :: "gmap \<Rightarrow> string \<Rightarrow> bool" where
  "ghas m k \<longleftrightarrow> map_of m k \<noteq> None"

fun as_string :: "gval \<Rightarrow> string option" where
  \<comment> \<open>the type assertion \<^verbatim>\<open>v.(string)\<close>\<close>
  "as_string (GStr s) = Some s"
| "as_string _ = None"

definition str_or_empty :: "gval \<Rightarrow> string" where
  \<comment> \<open>\<^verbatim>\<open>s, _ := v.(string)\<close>\<close>
  "str_or_empty v = (case as_string v of None \<Rightarrow> [] | Some s \<Rightarrow> s)"

fun as_bool :: "gval \<Rightarrow> bool" where
  \<comment> \<open>\<^verbatim>\<open>b, _ := v.(bool)\<close>\<close>
  "as_bool (GBool b) = b"
| "as_bool _ = False"

definition trunc_rat :: "rat \<Rightarrow> int" where
  \<comment> \<open>the conversion \<^verbatim>\<open>int(x)\<close> of a \<^verbatim>\<open>float64\<close>: towards zero\<close>
  "trunc_rat q = (if q < 0 then - \<lfloor>- q\<rfloor> else \<lfloor>q\<rfloor>)"

lemma trunc_rat_of_int [simp]: "trunc_rat (of_int i) = i"
  by (simp add: trunc_rat_def flip: of_int_minus)

section \<open>Events\<close>

record event =
  ev_Seq :: int
  ev_TS :: string
  ev_SessionID :: string
  ev_RunID :: string
  ev_Type :: string
  ev_Data :: gval

definition events_New :: "string \<Rightarrow> string \<Rightarrow> string \<Rightarrow> gval \<Rightarrow> event" where
  \<comment> \<open>\<^verbatim>\<open>events.New\<close>; the wall-clock time stamp is left empty and is filled in by the bus\<close>
  "events_New etype sessionID runID d =
     \<lparr>ev_Seq = 0, ev_TS = [], ev_SessionID = sessionID, ev_RunID = runID, ev_Type = etype, ev_Data = d\<rparr>"

lemma events_New_simps [simp]:
  "ev_SessionID (events_New t s r d) = s" "ev_RunID (events_New t s r d) = r"
  "ev_Type (events_New t s r d) = t" "ev_Data (events_New t s r d) = d"
  by (simp_all add: events_New_def)

lemma events_New_inject [simp]:
  "events_New t s r d = events_New t' s' r' d' \<longleftrightarrow> t = t' \<and> s = s' \<and> r = r' \<and> d = d'"
  by (auto simp: events_New_def)

text \<open>The interface every component that publishes relies on: a publication is appended, once,
  to what was published before, and changes nothing the component can observe.\<close>

locale event_emitter =
  fixes emit :: "event \<Rightarrow> 's \<Rightarrow> 's"
    and published :: "'s \<Rightarrow> event list"
  assumes published_emit: "published (emit e s) = published s @ [e]"
begin

lemma published_emits: "published (fold emit es s) = published s @ es"
  by (induction es arbitrary: s) (simp_all add: published_emit)

lemma emit_keeps_history: "prefix (published s) (published (fold emit es s))"
  by (simp add: published_emits)

lemma emitted_mem: "e \<in> set (published (fold emit es s)) \<longleftrightarrow> e \<in> set (published s) \<or> e \<in> set es"
  by (simp add: published_emits)

end

end
