(* ===== verification/Byte_Window.thy ===== *)
theory Byte_Window
  imports Go_UTF8 Events_Model
begin

text \<open>
  The windowed readers: \<^verbatim>\<open>internal/tools/byte_window.go\<close> and the window functions of
  \<^verbatim>\<open>internal/tools/read_file.go\<close>.

  A byte window is one-based and is cut back to a rune boundary; a line window counts lines.  Both
  hand the caller a cursor for the next window.  The interface \<open>pager\<close> states what the caller
  relies on, that the cursor can be passed back unchanged and that the windows join up; the two
  readers are its interpretations, and following the cursors reads the whole file exactly once.
\<close>

section \<open>The cursor contract\<close>

fun page_loop :: "nat \<Rightarrow> ('src \<Rightarrow> int \<Rightarrow> 'w gores) \<Rightarrow> ('w \<Rightarrow> 'a list) \<Rightarrow> ('w \<Rightarrow> int option)
    \<Rightarrow> 'src \<Rightarrow> int \<Rightarrow> 'a list option" where
  \<comment> \<open>a client that follows the cursors; \<open>None\<close> when a request fails or the fuel runs out\<close>
  "page_loop 0 page items nextc src c = None"
| "page_loop (Suc fuel) page items nextc src c =
     (case page src c of
        Ok w \<Rightarrow> (case nextc w of None \<Rightarrow> Some (items w)
          | Some c' \<Rightarrow> map_option ((@) (items w)) (page_loop fuel page items nextc src c'))
      | _ \<Rightarrow> None)"

locale pager =
  fixes whole :: "'src \<Rightarrow> 'a list"
    and page :: "'src \<Rightarrow> int \<Rightarrow> 'w gores"
    and items :: "'w \<Rightarrow> 'a list"
    and nextc :: "'w \<Rightarrow> int option"
    and good :: "'src \<Rightarrow> int \<Rightarrow> bool"
  assumes page_total: "good src c \<Longrightarrow> \<exists>w. page src c = Ok w"
    and page_cut: "good src c \<Longrightarrow> page src c = Ok w \<Longrightarrow>
      1 \<le> c \<and> items w = take (length (items w)) (drop (nat (c - 1)) (whole src))"
    and page_last: "good src c \<Longrightarrow> page src c = Ok w \<Longrightarrow> nextc w = None \<Longrightarrow>
      length (whole src) \<le> nat (c - 1) + length (items w)"
    and page_next: "good src c \<Longrightarrow> page src c = Ok w \<Longrightarrow> nextc w = Some c' \<Longrightarrow>
      c' = c + int (length (items w)) \<and> items w \<noteq> [] \<and> good src c'
        \<and> nat (c' - 1) \<le> length (whole src)"
begin

lemma page_loop_reads_rest:
  assumes "good src c" "length (whole src) - nat (c - 1) < fuel" "nat (c - 1) \<le> length (whole src)"
  shows "page_loop fuel page items nextc src c = Some (drop (nat (c - 1)) (whole src))"
  using assms
proof (induction fuel arbitrary: c)
  case (Suc fuel)
  from page_total [OF Suc.prems(1)] obtain w where w: "page src c = Ok w" by blast
  note ctr = page_cut [OF Suc.prems(1) w]
  show ?case
  proof (cases "nextc w")
    case None
    from page_last [OF Suc.prems(1) w None] ctr
    have "items w = drop (nat (c - 1)) (whole src)" by (metis length_drop diff_le_mono add_diff_cancel_left' take_all)
    with w None show ?thesis by simp
  next
    case (Some c')
    note nx = page_next [OF Suc.prems(1) w Some]
    have c': "nat (c' - 1) = nat (c - 1) + length (items w)" using nx ctr by auto
    have "length (whole src) - nat (c' - 1) < fuel"
      using Suc.prems(2,3) nx c' by (cases "items w") auto
    with Suc.IH [of c'] nx
    have "page_loop fuel page items nextc src c' = Some (drop (nat (c' - 1)) (whole src))" by blast
    with w Some c' show ?thesis
      by simp (metis append_take_drop_id ctr drop_drop add.commute)
  qed
qed simp

end

section \<open>Byte windows\<close>

record byteWindow =
  bw_Content :: string
  bw_Offset :: int
  bw_Bytes :: int
  bw_TotalBytes :: int
  bw_More :: bool
  bw_NextOffset :: int

function back_off :: "string \<Rightarrow> int \<Rightarrow> int \<Rightarrow> int" where
  \<comment> \<open>\<^verbatim>\<open>for end > start && end < len(data) && !utf8.RuneStart(data[end]) { end-- }\<close>\<close>
  "back_off bs start e =
     (if start < e \<and> e < int (length bs) \<and> \<not> rune_start (bs ! nat e)
      then back_off bs start (e - 1) else e)"
  by pat_completeness auto
termination
  by (relation "measure (\<lambda>(bs, start, e). nat (e - start))") auto

declare back_off.simps [simp del]

definition windowUTF8 :: "string \<Rightarrow> int \<Rightarrow> int \<Rightarrow> byteWindow gores" where
  "windowUTF8 text offset limit =
     (if offset < 1 then Err ''offset must be at least 1''
      else if limit < 1 then Err ''limit must be positive''
      else if \<not> valid_utf8 text then Err ''text is not valid UTF-8''
      else let n = int (length text) in
        if n + 1 < offset
        then Err (''offset '' @ itoa offset @ '' exceeds text byte length '' @ itoa n)
        else let start = offset - 1 in
          if start < n \<and> \<not> rune_start (text ! nat start)
          then Err (''offset '' @ itoa offset @ '' is inside a multi-byte UTF-8 rune'')
          else let e = back_off text start (min n (wrap64 (start + limit))) in
            if e = start \<and> start < n
            then Err (''limit '' @ itoa limit @ '' is too small for the ''
                  @ itoa (int (decode_width (drop (nat start) text)))
                  @ ''-byte UTF-8 rune at offset '' @ itoa offset)
            else if e < start then Panic
            else Ok \<lparr>bw_Content = take (nat (e - start)) (drop (nat start) text),
                     bw_Offset = offset, bw_Bytes = e - start, bw_TotalBytes = n,
                     bw_More = e < n, bw_NextOffset = (if e < n then e + 1 else 0)\<rparr>)"

definition byteWindowHeader :: "byteWindow \<Rightarrow> string" where
  "byteWindowHeader w =
     ''[byte window: offset='' @ itoa (bw_Offset w) @ '' bytes='' @ itoa (bw_Bytes w)
       @ '' total='' @ itoa (bw_TotalBytes w) @ '' more='' @ (if bw_More w then ''true'' else ''false'')
       @ (if bw_More w then '' next_offset='' @ itoa (bw_NextOffset w) else []) @ '']''"

lemma back_off_bounds: "start \<le> e \<Longrightarrow> start \<le> back_off bs start e \<and> back_off bs start e \<le> e"
proof (induction bs start e rule: back_off.induct)
  case (1 bs start e)
  then show ?case by (auto simp: back_off.simps [of bs start e])
qed

lemma back_off_below: "e \<le> start \<Longrightarrow> back_off bs start e = e"
  by (subst back_off.simps) simp

lemma back_off_stop:
  "start \<le> e \<Longrightarrow> let r = back_off bs start e in
     r = start \<or> int (length bs) \<le> r \<or> rune_start (bs ! nat r)"
proof (induction bs start e rule: back_off.induct)
  case (1 bs start e)
  then show ?case by (auto simp: back_off.simps [of bs start e] Let_def)
qed

lemma back_off_skips:
  "back_off bs start e < k \<Longrightarrow> k \<le> e \<Longrightarrow> k < int (length bs) \<and> \<not> rune_start (bs ! nat k)"
proof (induction bs start e rule: back_off.induct)
  case (1 bs start e)
  show ?case
  proof (cases "start < e \<and> e < int (length bs) \<and> \<not> rune_start (bs ! nat e)")
    case True
    with 1 show ?thesis by (cases "k = e") (auto simp: back_off.simps [of bs start e])
  next
    case False
    with 1(2,3) show ?thesis by (auto simp: back_off.simps [of bs start e] split: if_splits)
  qed
qed

definition boundary :: "string \<Rightarrow> int \<Rightarrow> bool" where
  \<comment> \<open>a one-based offset that starts a rune, or the end of the text\<close>
  "boundary text c \<longleftrightarrow> 1 \<le> c \<and> c \<le> int (length text) + 1 \<and> valid_utf8 (drop (nat (c - 1)) text)"

text \<open>One description of a successful call, from which the laws below follow.\<close>

lemma windowUTF8_Ok:
  assumes "windowUTF8 text offset limit = Ok w" "in_int64 (offset - 1 + limit)"
  defines "start \<equiv> offset - 1"
  defines "e \<equiv> back_off text start (min (int (length text)) (start + limit))"
  shows "valid_utf8 text" "1 \<le> limit" "boundary text offset" "start \<le> e" "e \<le> int (length text)"
    "e \<le> start + limit" "start < int (length text) \<Longrightarrow> start < e"
    "w = \<lparr>bw_Content = take (nat (e - start)) (drop (nat start) text), bw_Offset = offset,
          bw_Bytes = e - start, bw_TotalBytes = int (length text), bw_More = e < int (length text),
          bw_NextOffset = (if e < int (length text) then e + 1 else 0)\<rparr>"
proof -
  have wr: "wrap64 (start + limit) = start + limit" using assms(2) by (simp add: start_def wrap64_id)
  from assms(1) show v: "valid_utf8 text" and l: "1 \<le> limit"
    by (auto simp: windowUTF8_def split: if_splits)
  from assms(1) have o: "1 \<le> offset" "offset \<le> int (length text) + 1"
    and rs: "start < int (length text) \<Longrightarrow> rune_start (text ! nat start)"
    and ne: "\<not> (e = start \<and> start < int (length text))"
    and w: "w = \<lparr>bw_Content = take (nat (e - start)) (drop (nat start) text), bw_Offset = offset,
          bw_Bytes = e - start, bw_TotalBytes = int (length text), bw_More = e < int (length text),
          bw_NextOffset = (if e < int (length text) then e + 1 else 0)\<rparr>"
    using wr by (auto simp: windowUTF8_def Let_def start_def [symmetric] e_def [symmetric] split: if_splits)
  have "start \<le> min (int (length text)) (start + limit)" using o l by (simp add: start_def)
  from back_off_bounds [OF this, of "text"]
  show "start \<le> e" and "e \<le> int (length text)" and "e \<le> start + limit"
    by (simp_all add: e_def)
  with ne show "start < int (length text) \<Longrightarrow> start < e" by linarith
  show "boundary text offset"
  proof (cases "start < int (length text)")
    case True
    have i: "nat start < length text" using True o(1) by (simp add: start_def)
    have "rune_start (text ! nat start)" using rs [OF True] .
    then have "valid_utf8 (drop (nat start) text)" using rune_start_boundary [OF v i] by simp
    with o show ?thesis by (simp add: boundary_def start_def)
  next
    case False
    with o show ?thesis by (auto simp: boundary_def start_def)
  qed
  show "w = \<lparr>bw_Content = take (nat (e - start)) (drop (nat start) text), bw_Offset = offset,
          bw_Bytes = e - start, bw_TotalBytes = int (length text), bw_More = e < int (length text),
          bw_NextOffset = (if e < int (length text) then e + 1 else 0)\<rparr>" by (rule w)
qed


lemma boundary_rune_start:
  assumes "valid_utf8 text" "boundary text c" "c \<le> int (length text)"
  shows "rune_start (text ! nat (c - 1))"
proof -
  have "nat (c - 1) < length text" using assms(2,3) by (auto simp: boundary_def)
  with rune_start_boundary [OF assms(1) this] assms(2) show ?thesis by (simp add: boundary_def)
qed

text \<open>The cut never loses the rune at the start of the window when the limit has room for it.\<close>

lemma back_off_covers_rune:
  assumes v: "valid_utf8 text" and start: "0 \<le> start" and w: "rune_width (drop (nat start) text) = Some w"
    and l: "int w \<le> limit"
  shows "start + int w \<le> back_off text start (min (int (length text)) (start + limit))"
proof (rule ccontr)
  let ?e = "back_off text start (min (int (length text)) (start + limit))"
  let ?k = "start + int w"
  assume "\<not> ?k \<le> ?e"
  then have lt: "?e < ?k" by simp
  note wb = rune_width_bounds [OF w]
  from wb start have kn: "?k \<le> int (length text)" by auto
  with l have "?k \<le> min (int (length text)) (start + limit)" by simp
  from back_off_skips [OF lt this] have "?k < int (length text)" "\<not> rune_start (text ! nat ?k)" by simp_all
  moreover have "valid_utf8 (drop (nat ?k) text)"
  proof -
    have "nat start < length text" using wb by auto
    with rune_width_hd [OF w] have "rune_start (text ! nat start)" by simp
    then have "valid_utf8 (drop (nat start) text)"
      using rune_start_boundary [OF v, of "nat start"] wb by auto
    then have "valid_utf8 (drop w (drop (nat start) text))" using valid_utf8_step [OF w] by simp
    then show ?thesis using start by (simp add: nat_add_distrib add.commute)
  qed
  ultimately show False using rune_start_boundary [OF v, of "nat ?k"] start by auto
qed

lemma windowUTF8_Ok_iff:
  assumes "in_int64 (offset - 1 + limit)"
  shows "(\<exists>w. windowUTF8 text offset limit = Ok w) \<longleftrightarrow>
    1 \<le> limit \<and> valid_utf8 text \<and> boundary text offset
      \<and> int (decode_width (drop (nat (offset - 1)) text)) \<le> limit"
    (is "?L \<longleftrightarrow> ?R")
proof
  assume ?L
  then obtain w where ok: "windowUTF8 text offset limit = Ok w" by blast
  note d = windowUTF8_Ok [OF ok assms]
  have "int (decode_width (drop (nat (offset - 1)) text)) \<le> limit"
  proof (cases "offset - 1 < int (length text)")
    case False
    with d(2) show ?thesis by (simp add: decode_width_def)
  next
    case True
    let ?e = "back_off text (offset - 1) (min (int (length text)) (offset - 1 + limit))"
    have nz: "drop (nat (offset - 1)) text \<noteq> []" and vd: "valid_utf8 (drop (nat (offset - 1)) text)"
      using True d(3) by (auto simp: boundary_def)
    then obtain k where k: "rune_width (drop (nat (offset - 1)) text) = Some k"
      using valid_utf8_width by blast
    note kb = rune_width_bounds [OF k]
    have e: "offset - 1 < ?e" using d(7) True by simp
    have "int k \<le> ?e - (offset - 1)"
    proof (rule ccontr)
      assume "\<not> ?thesis"
      then have j: "0 < nat (?e - (offset - 1))" "nat (?e - (offset - 1)) < k" using e by auto
      from rune_width_tail [OF k j] have nrs: "\<not> rune_start (text ! nat ?e)"
        using e d(3) kb j(2) by (auto simp: boundary_def nth_drop nat_add_distrib [symmetric])
      have "?e < int (length text)" using kb j(2) d(3) by (auto simp: boundary_def)
      with back_off_stop [of "offset - 1" "min (int (length text)) (offset - 1 + limit)" "text"] d(2) True e nrs
      show False by (auto simp: Let_def)
    qed
    with d(6) k nz show ?thesis by (simp add: decode_width_def)
  qed
  with d show ?R by simp
next
  assume r: ?R
  let ?s = "offset - 1"
  let ?e = "back_off text ?s (min (int (length text)) (?s + limit))"
  have "?s \<le> min (int (length text)) (?s + limit)" using r by (auto simp: boundary_def)
  from back_off_bounds [OF this, of "text"] have ge: "?s \<le> ?e" by simp
  have "?s < ?e" if "?s < int (length text)"
  proof -
    have "drop (nat ?s) text \<noteq> []" "valid_utf8 (drop (nat ?s) text)"
      using that r by (auto simp: boundary_def)
    then obtain k where k: "rune_width (drop (nat ?s) text) = Some k"
      using valid_utf8_width by blast
    moreover have "0 \<le> ?s" using r by (simp add: boundary_def)
    ultimately have "?s + int k \<le> ?e"
      using r that by (intro back_off_covers_rune) (auto simp: decode_width_def split: if_splits)
    with rune_width_bounds [OF k] show ?thesis by simp
  qed
  with ge r assms boundary_rune_start [of "text" offset] show ?L
    by (auto simp: windowUTF8_def Let_def boundary_def wrap64_id)
qed

lemma windowUTF8_next:
  assumes ok: "windowUTF8 text offset limit = Ok w" and fit: "in_int64 (offset - 1 + limit)"
    and more: "bw_More w"
  shows "boundary text (bw_NextOffset w)" "bw_NextOffset w = offset + bw_Bytes w"
    "0 < bw_Bytes w" "bw_NextOffset w \<le> int (length text)"
proof -
  note d = windowUTF8_Ok [OF ok fit]
  let ?s = "offset - 1"
  let ?e = "back_off text ?s (min (int (length text)) (?s + limit))"
  from more d(8) have en: "?e < int (length text)" by simp
  with d(4) have sn: "?s < ?e" using d(7) by simp
  have "?s \<le> min (int (length text)) (?s + limit)" using d(2,3) by (simp add: boundary_def)
  from back_off_stop [OF this, of "text"] en sn have "rune_start (text ! nat ?e)"
    by (auto simp: Let_def)
  moreover have "0 \<le> ?e" using sn d(3) by (auto simp: boundary_def)
  ultimately have "valid_utf8 (drop (nat ?e) text)"
    using rune_start_boundary [OF d(1), of "nat ?e"] en by auto
  with en \<open>0 \<le> ?e\<close> d(8) show "boundary text (bw_NextOffset w)" by (simp add: boundary_def)
  show "bw_NextOffset w = offset + bw_Bytes w" "0 < bw_Bytes w" "bw_NextOffset w \<le> int (length text)"
    using d(8) en sn by simp_all
qed

lemma windowUTF8_length:
  assumes "windowUTF8 text offset limit = Ok w" "in_int64 (offset - 1 + limit)"
  shows "int (length (bw_Content w)) = bw_Bytes w"
proof -
  note d = windowUTF8_Ok [OF assms]
  let ?e = "back_off text (offset - 1) (min (int (length text)) (offset - 1 + limit))"
  have "bw_Content w = take (nat (?e - (offset - 1))) (drop (nat (offset - 1)) text)"
    and "bw_Bytes w = ?e - (offset - 1)" using d(8) by simp_all
  with d(3,4,5) show ?thesis by (auto simp: boundary_def min_def)
qed

definition byte_cursor :: "byteWindow \<Rightarrow> int option" where
  "byte_cursor w = (if bw_More w then Some (bw_NextOffset w) else None)"

interpretation byte_pages: pager
  "fst" "\<lambda>(text, limit) c. windowUTF8 text c limit" bw_Content byte_cursor
  "\<lambda>(text, limit) c. valid_utf8 text \<and> 4 \<le> limit \<and> boundary text c
     \<and> in_int64 (int (length text) + limit)"
proof (unfold_locales, goal_cases)
  case (1 src c)
  obtain tx limit where src: "src = (tx, limit)" by (cases src)
  have "decode_width (drop (nat (c - 1)) tx) \<le> 4"
    using rune_width_bounds by (auto simp: decode_width_def split: option.splits)
  with 1 src windowUTF8_Ok_iff [of c limit tx] show ?case
    by (auto simp: in_int64_def boundary_def)
next
  case (2 src c w)
  obtain tx limit where src: "src = (tx, limit)" by (cases src)
  with 2 have "in_int64 (c - 1 + limit)" by (auto simp: in_int64_def boundary_def)
  with 2 src windowUTF8_Ok [of tx c limit w] show ?case by (auto simp: boundary_def)
next
  case (3 src c w)
  obtain tx limit where src: "src = (tx, limit)" by (cases src)
  with 3 have "in_int64 (c - 1 + limit)" by (auto simp: in_int64_def boundary_def)
  with 3 src windowUTF8_Ok [of tx c limit w] show ?case
    by (auto simp: boundary_def byte_cursor_def split: if_splits)
next
  case (4 src c w c')
  obtain tx limit where src: "src = (tx, limit)" by (cases src)
  with 4 have f: "in_int64 (c - 1 + limit)" by (auto simp: in_int64_def boundary_def)
  have ok: "windowUTF8 tx c limit = Ok w" and m: "bw_More w" and c': "c' = bw_NextOffset w"
    using 4 src by (auto simp: byte_cursor_def split: if_splits)
  note n = windowUTF8_next [OF ok f m]
  have "int (length (bw_Content w)) = bw_Bytes w"
    using ok f by (rule windowUTF8_length)
  with n c' 4 src show ?case by auto
qed

section \<open>Line windows and the read\_file renderings\<close>

abbreviation LF :: char where "LF \<equiv> CHR 0x0A"
abbreviation CR :: char where "CR \<equiv> CHR 0x0D"

definition text_lines :: "string \<Rightarrow> string list" where
  \<comment> \<open>\<^verbatim>\<open>strings.Split(text, "\n")\<close> without the empty piece after a final newline\<close>
  "text_lines text = (let values = split_char LF text in
     if suffix [LF] text then butlast values else values)"

record lineWindow =
  lw_Line :: int
  lw_Values :: "string list"
  lw_Total :: int
  lw_More :: bool
  lw_Next :: int

definition line_window :: "string \<Rightarrow> int \<Rightarrow> int \<Rightarrow> lineWindow gores" where
  "line_window text line count =
     (if line < 1 then Err ''line must be at least 1''
      else if count < 1 \<or> 2000 < count then Err ''lines must be between 1 and 2000''
      else let values = text_lines text; total = int (length values); start = line - 1 in
        if total < start
        then Err (''line '' @ itoa line @ '' is past end of file ('' @ itoa total @ '' lines)'')
        else let e = min total (start + count) in
          Ok \<lparr>lw_Line = line, lw_Values = take (nat (e - start)) (drop (nat start) values),
              lw_Total = total, lw_More = e < total, lw_Next = (if e < total then e + 1 else 0)\<rparr>)"

definition fmt_bool :: "bool \<Rightarrow> string" where
  "fmt_bool b = (if b then ''true'' else ''false'')"

definition number_lines :: "int \<Rightarrow> string list \<Rightarrow> string list" where
  \<comment> \<open>\<^verbatim>\<open>fmt.Sprintf("%d: %s", n, strings.TrimSuffix(line, "\r"))\<close> for consecutive n\<close>
  "number_lines n ls = map (\<lambda>(i, l). itoa i @ '': '' @ trim_suffix l [CR]) (zip [n..n + int (length ls)] ls)"

definition numberedReadFileLines :: "string \<Rightarrow> int \<Rightarrow> int \<Rightarrow> string gores" where
  "numberedReadFileLines text line count =
     gores_bind (line_window text line count) (\<lambda>w.
       let header = ''[line window: line='' @ itoa (lw_Line w)
             @ '' lines='' @ itoa (int (length (lw_Values w)))
             @ '' total_lines='' @ itoa (lw_Total w) @ '' more='' @ fmt_bool (lw_More w)
             @ (if lw_More w then '' next_line='' @ itoa (lw_Next w) else []) @ '']''
       in if lw_Values w = [] then Ok header
          else Ok (header @ [LF] @ str_join [LF] (number_lines (lw_Line w) (lw_Values w))))"

definition numberedReadFileWindow :: "string \<Rightarrow> byteWindow \<Rightarrow> string" where
  "numberedReadFileWindow text w =
     (let start = nat (bw_Offset w - 1); e = start + nat (bw_Bytes w);
          startLine = 1 + int (count_list (take start text) LF);
          startMidLine = (0 < start \<and> text ! (start - 1) \<noteq> LF);
          endMidLine = (e < length text \<and> (e = 0 \<or> text ! (e - 1) \<noteq> LF));
          header = butlast (byteWindowHeader w) @ '' start_line='' @ itoa startLine
            @ '' start_mid_line='' @ fmt_bool startMidLine @ '' end_mid_line='' @ fmt_bool endMidLine @ '']''
      in if bw_Content w = [] then header
         else let trailing = suffix [LF] (bw_Content w);
                  ls = (if trailing then butlast (split_char LF (bw_Content w)) else split_char LF (bw_Content w));
                  body = str_join [LF] (number_lines startLine ls)
              in header @ [LF] @ body @ (if trailing then [LF] else []))"

record readFileTool =
  rf_DefaultLimit :: int
  rf_MaxLimit :: int

fun number :: "gval \<Rightarrow> int \<Rightarrow> int" where
  "number (GFloat n) fallback = trunc_rat n"
| "number (GInt n) fallback = n"
| "number _ fallback = fallback"

definition readFileWindow :: "string \<Rightarrow> gmap \<Rightarrow> readFileTool \<Rightarrow> string gores" where
  "readFileWindow text args cfg =
     (if ghas args ''line'' then
        if ghas args ''offset'' then Err ''line mode cannot be combined with byte offset''
        else if ghas args ''limit'' then Err ''line mode cannot be combined with byte limit''
        else numberedReadFileLines text (number (gget args ''line'') 1) (number (gget args ''lines'') 200)
      else if ghas args ''lines'' then Err ''lines requires line''
      else gores_bind
        (windowUTF8 text (number (gget args ''offset'') 1)
           (min (number (gget args ''limit'') (rf_DefaultLimit cfg)) (rf_MaxLimit cfg)))
        (\<lambda>w. Ok (numberedReadFileWindow text w)))"

lemma text_lines_nonempty: "text_lines text \<noteq> []"
proof (cases "suffix [LF] text")
  case True
  then obtain s where s: "text = s @ [LF]" by (auto simp: suffix_def)
  have "split_char LF text = split_char LF s @ [[]]"
    using split_char_append_sep [of LF s "[]"] s by simp
  with True show ?thesis by (simp add: text_lines_def)
qed (simp add: text_lines_def)

lemma text_lines_join:
  "str_join [LF] (text_lines text) @ (if suffix [LF] text then [LF] else []) = text"
proof (cases "suffix [LF] text")
  case True
  then obtain s where s: "text = s @ [LF]" by (auto simp: suffix_def)
  have "split_char LF text = split_char LF s @ [[]]"
    using split_char_append_sep [of LF s "[]"] s by simp
  with True s show ?thesis by (simp add: text_lines_def)
qed (simp add: text_lines_def)

definition line_cursor :: "lineWindow \<Rightarrow> int option" where
  "line_cursor w = (if lw_More w then Some (lw_Next w) else None)"

interpretation line_pages: pager
  "\<lambda>(text, count). text_lines text" "\<lambda>(text, count) c. line_window text c count" lw_Values line_cursor
  "\<lambda>(text, count) c. 1 \<le> count \<and> count \<le> 2000 \<and> 1 \<le> c \<and> c \<le> int (length (text_lines text))"
  by unfold_locales (auto simp: line_window_def Let_def line_cursor_def split: if_splits)

text \<open>
  C18. Following \<^verbatim>\<open>next_offset\<close> from offset 1 reads a valid UTF-8 file completely and exactly once:
  for every limit of at least four bytes each request succeeds, and the windows concatenate to the
  text.
\<close>

theorem byte_windows_read_everything:
  assumes "valid_utf8 text" "4 \<le> limit" "in_int64 (int (length text) + limit)"
  shows "page_loop (Suc (length text)) (\<lambda>(t, l) c. windowUTF8 t c l) bw_Content byte_cursor (text, limit) 1
     = Some text"
  using byte_pages.page_loop_reads_rest [of "(text, limit)" 1 "Suc (length text)"] assms
  by (simp add: boundary_def)

theorem byte_windows_read_everything_witness:
  "valid_utf8 ''abcdefghi'' \<and> page_loop 10 (\<lambda>(t, l) c. windowUTF8 t c l) bw_Content byte_cursor (''abcdefghi'', 4) 1
     = Some ''abcdefghi''"
proof -
  have v: "valid_utf8 ''abcdefghi''" by code_simp
  have "in_int64 (int (length ''abcdefghi'') + 4)" by (simp add: in_int64_def)
  from byte_windows_read_everything [OF v _ this] v show ?thesis
    by (simp add: eval_nat_numeral)
qed

end
