(* ===== verification/Guards.thy ===== *)
theory Guards
  imports Events_Model
begin

text \<open>
  The run guards of \<^verbatim>\<open>internal/agent/guards.go\<close>: after every tool call the runner asks
  \<open>Observe\<close> whether the run repeats itself or fails too often in a row.

  \<^verbatim>\<open>digest\<close> (SHA-256 of a string in hex) and \<^verbatim>\<open>json.Marshal\<close> enter as arbitrary functions: every
  result below holds for each choice of them.  The specification side describes the guard's answer
  in terms of the whole history of calls, without the bounded buffer the code keeps.
\<close>

record guardPair =
  gp_argsHash :: string
  gp_resultHash :: string
  gp_callID :: string

record runGuards =
  rg_window :: int
  rg_maxErrors :: int
  rg_recent :: "guardPair list"
  rg_errorCount :: int

definition newRunGuards :: "int \<Rightarrow> int \<Rightarrow> runGuards" where
  "newRunGuards window maxErrors =
     \<lparr>rg_window = window, rg_maxErrors = maxErrors, rg_recent = [], rg_errorCount = 0\<rparr>"

definition same_pair :: "guardPair \<Rightarrow> guardPair \<Rightarrow> bool" where
  "same_pair p q \<longleftrightarrow> gp_argsHash p = gp_argsHash q \<and> gp_resultHash p = gp_resultHash q"

record observation =
  ob_callID :: string
  ob_name :: string
  ob_args :: gmap
  ob_result :: string
  ob_ok :: bool

definition pair_of :: "(string \<Rightarrow> string) \<Rightarrow> (gmap \<Rightarrow> string) \<Rightarrow> observation \<Rightarrow> guardPair" where
  "pair_of digest marshal o1 =
     \<lparr>gp_argsHash = digest (ob_name o1 @ marshal (ob_args o1)), gp_resultHash = digest (ob_result o1),
      gp_callID = ob_callID o1\<rparr>"

definition last_match :: "guardPair \<Rightarrow> guardPair list \<Rightarrow> string" where
  \<comment> \<open>\<^verbatim>\<open>priorCallID\<close> after the loop: the call of the last matching pair, empty when there is none\<close>
  "last_match p rs = foldl (\<lambda>acc q. if same_pair q p then gp_callID q else acc) [] rs"

definition Observe ::
  "(string \<Rightarrow> string) \<Rightarrow> (gmap \<Rightarrow> string) \<Rightarrow> runGuards \<Rightarrow> observation
     \<Rightarrow> runGuards \<times> (string \<times> string \<times> string)" where
  "Observe digest marshal g o1 =
     (let g1 = g\<lparr>rg_errorCount := (if ob_ok o1 then 0 else rg_errorCount g + 1)\<rparr>;
          p = pair_of digest marshal o1;
          errors = (if 0 < rg_maxErrors g1 \<and> rg_maxErrors g1 \<le> rg_errorCount g1
                    then (''tool_errors'', ob_result o1, []) else ([], [], []))
      in if 0 < rg_window g1 then
           let matches = length (filter (\<lambda>q. same_pair q p) (rg_recent g1));
               prior = last_match p (rg_recent g1);
               consecutive = (rg_recent g1 \<noteq> [] \<and> same_pair (last (rg_recent g1)) p);
               appended = rg_recent g1 @ [p];
               kept = (if rg_window g1 < int (length appended)
                       then drop (length appended - nat (rg_window g1)) appended else appended);
               g2 = g1\<lparr>rg_recent := kept\<rparr>
           in if consecutive \<or> 2 \<le> matches
              then (g2, (''cycle'', ob_name o1 @ '' repeated with identical arguments and identical result'', prior))
              else (g2, errors)
         else (g1, errors))"

definition ResetCycle :: "runGuards \<Rightarrow> runGuards" where
  "ResetCycle g = g\<lparr>rg_recent := []\<rparr>"

text \<open>What a run does with its guard: it observes every tool call, and when the operator answers a
  cycle with \<^verbatim>\<open>continue\<close> it resets the cycle detection (\<^verbatim>\<open>run.go\<close>, the loop over the results).\<close>

datatype guard_event = Observed observation | Continued

fun guards_run :: "(string \<Rightarrow> string) \<Rightarrow> (gmap \<Rightarrow> string) \<Rightarrow> runGuards \<Rightarrow> guard_event list \<Rightarrow> runGuards" where
  "guards_run digest marshal g [] = g"
| "guards_run digest marshal g (Observed x # es) = guards_run digest marshal (fst (Observe digest marshal g x)) es"
| "guards_run digest marshal g (Continued # es) = guards_run digest marshal (ResetCycle g) es"

section \<open>Specification over the whole history\<close>

definition last_n :: "nat \<Rightarrow> 'a list \<Rightarrow> 'a list" where
  "last_n n xs = drop (length xs - n) xs"

lemma last_n_snoc: "0 < n \<Longrightarrow> last_n n (last_n n xs @ [x]) = last_n n (xs @ [x])"
  by (cases "length xs \<le> n") (auto simp: last_n_def Suc_diff_le)

lemma last_n_all: "length xs \<le> n \<Longrightarrow> last_n n xs = xs"
  by (simp add: last_n_def)

lemma length_last_n: "length (last_n n xs) = min n (length xs)"
  by (simp add: last_n_def)

lemma last_last_n: "0 < n \<Longrightarrow> xs \<noteq> [] \<Longrightarrow> last (last_n n xs) = last xs"
  by (simp add: last_n_def last_drop)

fun observations :: "guard_event list \<Rightarrow> observation list" where
  "observations [] = []"
| "observations (Observed x # es) = x # observations es"
| "observations (Continued # es) = observations es"

definition since_reset :: "guard_event list \<Rightarrow> observation list" where
  \<comment> \<open>the calls after the last time the operator let a cycle continue\<close>
  "since_reset es = observations (rev (takeWhile (\<lambda>e. e \<noteq> Continued) (rev es)))"

lemma observations_append [simp]: "observations (es @ fs) = observations es @ observations fs"
  by (induction es rule: observations.induct) simp_all

lemma since_reset_snoc [simp]:
  "since_reset [] = []" "since_reset (es @ [Observed x]) = since_reset es @ [x]" "since_reset (es @ [Continued]) = []"
  by (simp_all add: since_reset_def)

definition trailing_failures :: "observation list \<Rightarrow> nat" where
  "trailing_failures xs = length (takeWhile (\<lambda>x. \<not> ob_ok x) (rev xs))"

definition cycle_spec ::
  "(string \<Rightarrow> string) \<Rightarrow> (gmap \<Rightarrow> string) \<Rightarrow> nat \<Rightarrow> observation list \<Rightarrow> observation \<Rightarrow> bool" where
  \<comment> \<open>the call repeats the one before it, or two of the last \<open>n\<close> calls\<close>
  "cycle_spec digest marshal n xs x \<longleftrightarrow>
     (let p = pair_of digest marshal; same = (\<lambda>y. same_pair (p y) (p x)) in
      xs \<noteq> [] \<and> same (last xs) \<or> 2 \<le> length (filter same (last_n n xs)))"

definition verdict_spec ::
  "(string \<Rightarrow> string) \<Rightarrow> (gmap \<Rightarrow> string) \<Rightarrow> int \<Rightarrow> int \<Rightarrow> guard_event list \<Rightarrow> observation \<Rightarrow> string" where
  "verdict_spec digest marshal window maxErrors es x =
     (if 0 < window \<and> cycle_spec digest marshal (nat window) (since_reset es) x then ''cycle''
      else if 0 < maxErrors \<and> maxErrors \<le> int (trailing_failures (observations es @ [x])) then ''tool_errors''
      else [])"

definition guards_abs :: "(string \<Rightarrow> string) \<Rightarrow> (gmap \<Rightarrow> string) \<Rightarrow> runGuards \<Rightarrow> guard_event list \<Rightarrow> bool" where
  "guards_abs digest marshal g es \<longleftrightarrow>
     rg_recent g = (if 0 < rg_window g then map (pair_of digest marshal) (last_n (nat (rg_window g)) (since_reset es)) else [])
     \<and> rg_errorCount g = int (trailing_failures (observations es))"

lemma trailing_failures_snoc:
  "trailing_failures (xs @ [x]) = (if ob_ok x then 0 else Suc (trailing_failures xs))"
  by (simp add: trailing_failures_def)

lemma guards_abs_new: "guards_abs digest marshal (newRunGuards w m) []"
  by (simp add: guards_abs_def newRunGuards_def last_n_def trailing_failures_def)

lemma Observe_frame [frame]:
  "rg_window (fst (Observe digest marshal g x)) = rg_window g"
  "rg_maxErrors (fst (Observe digest marshal g x)) = rg_maxErrors g"
  by (simp_all add: Observe_def Let_def)

lemma Observe_recent:
  "rg_recent (fst (Observe digest marshal g x)) =
     (if 0 < rg_window g then last_n (nat (rg_window g)) (rg_recent g @ [pair_of digest marshal x])
      else rg_recent g)"
  by (auto simp: Observe_def Let_def last_n_def)

lemma Observe_errorCount:
  "rg_errorCount (fst (Observe digest marshal g x)) = (if ob_ok x then 0 else rg_errorCount g + 1)"
  by (simp add: Observe_def Let_def)

lemma Observe_simulates [inv_intros]:
  assumes "guards_abs digest marshal g es"
  shows "guards_abs digest marshal (fst (Observe digest marshal g x)) (es @ [Observed x])"
proof -
  let ?xs = "since_reset es"
  have "last_n (nat (rg_window g)) (map (pair_of digest marshal) (last_n (nat (rg_window g)) ?xs) @ [pair_of digest marshal x])
      = map (pair_of digest marshal) (last_n (nat (rg_window g)) (?xs @ [x]))" if "0 < rg_window g"
    using last_n_snoc [of "nat (rg_window g)" ?xs x, symmetric] that
    by (simp add: last_n_def drop_map [symmetric])
  with assms show ?thesis
    by (simp add: guards_abs_def Observe_frame Observe_recent Observe_errorCount trailing_failures_snoc)
qed

lemma ResetCycle_simulates [inv_intros]:
  "guards_abs digest marshal g es \<Longrightarrow> guards_abs digest marshal (ResetCycle g) (es @ [Continued])"
  by (simp add: guards_abs_def ResetCycle_def last_n_def)

lemma guards_run_simulates:
  "guards_abs digest marshal g es \<Longrightarrow> guards_abs digest marshal (guards_run digest marshal g fs) (es @ fs)"
proof (induction fs arbitrary: g es)
  case (Cons f fs)
  show ?case
  proof (cases f)
    case (Observed x)
    with Cons.IH [OF Observe_simulates [OF Cons.prems, of x]] show ?thesis by simp
  next
    case Continued
    with Cons.IH [OF ResetCycle_simulates [OF Cons.prems]] show ?thesis by simp
  qed
qed simp

lemma guards_run_frame [frame]:
  "rg_window (guards_run digest marshal g es) = rg_window g"
  "rg_maxErrors (guards_run digest marshal g es) = rg_maxErrors g"
  by (induction digest marshal g es rule: guards_run.induct) (simp_all add: Observe_frame ResetCycle_def)

lemma Observe_verdict:
  assumes "guards_abs digest marshal g es"
  shows "fst (snd (Observe digest marshal g x)) = verdict_spec digest marshal (rg_window g) (rg_maxErrors g) es x"
proof -
  define xs where "xs = since_reset es"
  have recent: "rg_recent g = map (pair_of digest marshal) (last_n (nat (rg_window g)) xs)" if "0 < rg_window g"
    using assms that by (simp add: guards_abs_def xs_def)
  let ?p = "pair_of digest marshal"
  have c: "rg_recent g \<noteq> [] \<and> same_pair (last (rg_recent g)) (?p x) \<longleftrightarrow> xs \<noteq> [] \<and> same_pair (?p (last xs)) (?p x)"
    if "0 < rg_window g"
  proof (cases "xs = []")
    case False
    with that have "last_n (nat (rg_window g)) xs \<noteq> []" by (simp add: last_n_def not_le)
    with False that show ?thesis
      by (simp add: recent last_map last_last_n)
  qed (use that in \<open>simp add: recent last_n_def\<close>)
  have m: "length (filter (\<lambda>q. same_pair q (?p x)) (rg_recent g))
      = length (filter (\<lambda>y. same_pair (?p y) (?p x)) (last_n (nat (rg_window g)) xs))" if "0 < rg_window g"
    using that by (simp add: recent filter_map o_def)
  have e: "(if ob_ok x then 0 else rg_errorCount g + 1) = int (trailing_failures (observations es @ [x]))"
    using assms by (simp add: guards_abs_def trailing_failures_snoc)
  show ?thesis
    using c m unfolding verdict_spec_def cycle_spec_def e [symmetric] xs_def [symmetric]
    by (simp add: Observe_def Let_def)
qed

lemma last_match_hit:
  "(\<exists>q \<in> set rs. same_pair q p) \<Longrightarrow> \<exists>q \<in> set rs. same_pair q p \<and> last_match p rs = gp_callID q"
proof (induction rs rule: rev_induct)
  case (snoc r rs)
  then show ?case by (cases "same_pair r p") (auto simp: last_match_def)
qed simp

text \<open>
  C17. After any sequence of tool calls, and of resets of the cycle detection after the operator let
  a cycle continue, the guard's verdict on the next call is the one the history determines: \<^verbatim>\<open>cycle\<close>
  when the window is positive and, among the calls since the last reset, the call repeats its
  predecessor, or two of the last \<^verbatim>\<open>window\<close> calls, with equal arguments and equal result (equality of
  the digests the code compares); otherwise \<^verbatim>\<open>tool_errors\<close> when \<^verbatim>\<open>maxErrors\<close> is positive and the last
  \<^verbatim>\<open>maxErrors\<close> calls of the run, across resets, all failed; otherwise nothing.  The buffer of recent
  pairs the code trims to the window loses nothing that the verdict depends on.
\<close>

theorem guard_verdict_is_history_verdict:
  "fst (snd (Observe digest marshal (guards_run digest marshal (newRunGuards window maxErrors) es) x))
     = verdict_spec digest marshal window maxErrors es x"
proof -
  have "guards_abs digest marshal (guards_run digest marshal (newRunGuards window maxErrors) es) es"
    using guards_run_simulates [OF guards_abs_new] by force
  from Observe_verdict [OF this, of x] show ?thesis
    by (simp add: guards_run_frame newRunGuards_def)
qed

text \<open>
  The buffer of recent pairs never grows beyond the configured window, and the call a
  \<^verbatim>\<open>cycle\<close> verdict points back to is one of the buffered calls with the same arguments and result.
\<close>

theorem guard_buffer_bounded_and_cycle_cites_match:
  fixes es :: "guard_event list" and digest :: "string \<Rightarrow> string" and marshal :: "gmap \<Rightarrow> string"
    and window maxErrors :: int and x :: observation
  assumes "0 < window"
  defines "g \<equiv> guards_run digest marshal (newRunGuards window maxErrors) es"
  shows "int (length (rg_recent g)) \<le> window
    \<and> (fst (snd (Observe digest marshal g x)) = ''cycle'' \<longrightarrow>
        (\<exists>q \<in> set (rg_recent g). same_pair q (pair_of digest marshal x)
           \<and> snd (snd (snd (Observe digest marshal g x))) = gp_callID q))"
proof -
  have a: "guards_abs digest marshal g es"
    unfolding g_def using guards_run_simulates [OF guards_abs_new] by force
  have w: "rg_window g = window" by (simp add: g_def guards_run_frame newRunGuards_def)
  have len: "int (length (rg_recent g)) \<le> window"
    using a w assms by (simp add: guards_abs_def length_last_n)
  let ?p = "pair_of digest marshal x"
  let ?con = "rg_recent g \<noteq> [] \<and> same_pair (last (rg_recent g)) ?p"
  let ?m = "length (filter (\<lambda>q. same_pair q ?p) (rg_recent g))"
  have hit: "\<exists>q \<in> set (rg_recent g). same_pair q ?p" if "?con \<or> 2 \<le> ?m"
  proof -
    have "filter (\<lambda>q. same_pair q ?p) (rg_recent g) \<noteq> []" if "2 \<le> ?m" using that by auto
    with that show ?thesis by (auto simp: filter_empty_conv intro: last_in_set)
  qed
  have "\<exists>q \<in> set (rg_recent g). same_pair q ?p \<and> snd (snd (snd (Observe digest marshal g x))) = gp_callID q"
    if "fst (snd (Observe digest marshal g x)) = ''cycle''"
  proof -
    from that w assms(1) have "?con \<or> 2 \<le> ?m"
      by (simp add: Observe_def Let_def split: if_splits)
    with w assms(1) last_match_hit [OF hit] show ?thesis
      by (auto simp: Observe_def Let_def)
  qed
  with len show ?thesis by blast
qed

theorem guard_buffer_bounded_and_cycle_cites_match_witness:
  "let o1 = \<lparr>ob_callID = ''c1'', ob_name = ''shell'', ob_args = [], ob_result = ''x'', ob_ok = True\<rparr>;
       o2 = o1\<lparr>ob_callID := ''c2''\<rparr>;
       g = guards_run id (\<lambda>_. ''{}'') (newRunGuards 2 3) [Continued, Observed o1]
   in int (length (rg_recent g)) \<le> 2 \<and> fst (snd (Observe id (\<lambda>_. ''{}'') g o2)) = ''cycle''
      \<and> (\<exists>q \<in> set (rg_recent g). same_pair q (pair_of id (\<lambda>_. ''{}'') o2)
           \<and> snd (snd (snd (Observe id (\<lambda>_. ''{}'') g o2))) = gp_callID q)"
  using guard_buffer_bounded_and_cycle_cites_match [where window = 2 and digest = id and marshal = "\<lambda>_. ''{}''"
      and maxErrors = 3 and x = "\<lparr>ob_callID = ''c2'', ob_name = ''shell'', ob_args = [], ob_result = ''x'', ob_ok = True\<rparr>"
      and es = "[Continued, Observed \<lparr>ob_callID = ''c1'', ob_name = ''shell'', ob_args = [], ob_result = ''x'', ob_ok = True\<rparr>]"]
  by (simp add: Observe_def Let_def newRunGuards_def ResetCycle_def pair_of_def same_pair_def last_match_def)

end
