(* ===== verification/Event_Bus.thy ===== *)
theory Event_Bus
  imports Events_Model
begin

text \<open>
  The event bus of \<^verbatim>\<open>internal/events/bus.go\<close>.

  A publication runs in phases: under the lock it takes the next sequence number and a snapshot of
  the subscribers; then, outside the lock, it calls the sink and offers the event to each
  subscriber of the snapshot.  Subscribers are buffered channels of capacity 128; one that is full
  is removed and closed.  The phases are separate definitions (\<open>stamp\<close>, \<open>send_to\<close>), so that both
  a whole publication (\<open>Publish\<close>) and an interleaving of two of them can be expressed.
  Sending on a closed channel panics in Go, also inside a \<^verbatim>\<open>select\<close> with a \<^verbatim>\<open>default\<close> branch.

  Sinks and callbacks are functions installed by the program's start-up code; the calls made to
  them are recorded in the trace.
\<close>

record logCursor =
  lc_Generation :: string
  lc_Offset :: int
  lc_Path :: string

datatype bus_effect =
    SinkWrite event
  | AfterAppend event logCursor
  | AppendError event string
  | CloseChan nat

record chan =
  ch_buf :: "event list"
  ch_closed :: bool

record bus =
  bus_seq :: int
  bus_next :: nat
  bus_subs :: "nat list"
  bus_chans :: "nat \<Rightarrow> chan"
  bus_sink :: "(event \<Rightarrow> string option) option"
  bus_durableSink :: "(event \<Rightarrow> logCursor \<times> string option) option"
  bus_afterAppend :: bool
  bus_appendError :: bool
  bus_trace :: "bus_effect list"

definition chan_cap :: nat where "chan_cap = 128"

definition NewBus :: bus where
  "NewBus = \<lparr>bus_seq = 0, bus_next = 0, bus_subs = [], bus_chans = (\<lambda>_. \<lparr>ch_buf = [], ch_closed = False\<rparr>),
     bus_sink = None, bus_durableSink = None, bus_afterAppend = False, bus_appendError = False,
     bus_trace = []\<rparr>"

definition SetSink :: "bus \<Rightarrow> (event \<Rightarrow> string option) \<Rightarrow> bus" where
  "SetSink b s = b\<lparr>bus_sink := Some s\<rparr>"

definition SetDurableSink :: "bus \<Rightarrow> (event \<Rightarrow> logCursor \<times> string option) \<Rightarrow> bool \<Rightarrow> bool \<Rightarrow> bus" where
  "SetDurableSink b s appended failed =
     b\<lparr>bus_durableSink := Some s, bus_afterAppend := appended, bus_appendError := failed\<rparr>"

definition Subscribe :: "bus \<Rightarrow> bus \<times> nat" where
  "Subscribe b = (b\<lparr>bus_next := Suc (bus_next b), bus_subs := bus_subs b @ [bus_next b],
      bus_chans := (bus_chans b)(bus_next b := \<lparr>ch_buf = [], ch_closed = False\<rparr>)\<rparr>, bus_next b)"

definition Unsubscribe :: "bus \<Rightarrow> nat \<Rightarrow> bus" where
  "Unsubscribe b i = b\<lparr>bus_subs := removeAll i (bus_subs b)\<rparr>"

definition receive :: "bus \<Rightarrow> nat \<Rightarrow> bus" where
  \<comment> \<open>the subscriber takes the oldest buffered event\<close>
  "receive b i = b\<lparr>bus_chans := (bus_chans b)(i := (bus_chans b i)\<lparr>ch_buf := tl (ch_buf (bus_chans b i))\<rparr>)\<rparr>"

definition stamp :: "bus \<Rightarrow> string \<Rightarrow> event \<Rightarrow> bus \<times> event \<times> nat list" where
  \<comment> \<open>the locked prefix of \<^verbatim>\<open>publish\<close>; \<open>now\<close> is the clock reading used for an unstamped event\<close>
  "stamp b now e =
     (let s = bus_seq b + 1;
          e' = (if ev_TS e = [] then (events_New (ev_Type e) (ev_SessionID e) (ev_RunID e) (ev_Data e))\<lparr>ev_TS := now, ev_Seq := s\<rparr>
                else e\<lparr>ev_Seq := s\<rparr>)
      in (b\<lparr>bus_seq := s\<rparr>, e', bus_subs b))"

definition run_sink :: "bus \<Rightarrow> event \<Rightarrow> bool \<Rightarrow> bus \<times> string option" where
  "run_sink b e writeSink =
     (let (b1, cursor, err) =
        (case (writeSink, bus_sink b, bus_durableSink b) of
           (True, Some s, _) \<Rightarrow> (b\<lparr>bus_trace := bus_trace b @ [SinkWrite e]\<rparr>, \<lparr>lc_Generation = [], lc_Offset = 0, lc_Path = []\<rparr>, s e)
         | (True, None, Some d) \<Rightarrow> (b\<lparr>bus_trace := bus_trace b @ [SinkWrite e]\<rparr>, fst (d e), snd (d e))
         | _ \<Rightarrow> (b, \<lparr>lc_Generation = [], lc_Offset = 0, lc_Path = []\<rparr>, None))
      in if err = None \<and> ev_SessionID e \<noteq> [] \<and> 0 < lc_Offset cursor \<and> bus_afterAppend b1
         then (b1\<lparr>bus_trace := bus_trace b1 @ [AfterAppend e cursor]\<rparr>, err)
         else case err of
             Some m \<Rightarrow> if bus_appendError b1 then (b1\<lparr>bus_trace := bus_trace b1 @ [AppendError e m]\<rparr>, err) else (b1, err)
           | None \<Rightarrow> (b1, err))"

definition send_to :: "bus \<Rightarrow> event \<Rightarrow> nat \<Rightarrow> bus gores" where
  "send_to b e i =
     (if ch_closed (bus_chans b i) then Panic
      else if length (ch_buf (bus_chans b i)) < chan_cap
      then Ok (b\<lparr>bus_chans := (bus_chans b)(i := (bus_chans b i)\<lparr>ch_buf := ch_buf (bus_chans b i) @ [e]\<rparr>)\<rparr>)
      else if i \<in> set (bus_subs b)
      then Ok (b\<lparr>bus_subs := removeAll i (bus_subs b),
                 bus_chans := (bus_chans b)(i := (bus_chans b i)\<lparr>ch_closed := True\<rparr>),
                 bus_trace := bus_trace b @ [CloseChan i]\<rparr>)
      else Ok b)"

fun deliver :: "bus \<Rightarrow> event \<Rightarrow> nat list \<Rightarrow> bus gores" where
  "deliver b e [] = Ok b"
| "deliver b e (i # is) = gores_bind (send_to b e i) (\<lambda>b'. deliver b' e is)"

definition publish_once :: "bus \<Rightarrow> string \<Rightarrow> event \<Rightarrow> bool \<Rightarrow> (bus \<times> event \<times> string option) gores" where
  "publish_once b now e writeSink =
     (let (b1, e', subs) = stamp b now e; (b2, err) = run_sink b1 e' writeSink
      in gores_bind (deliver b2 e' subs) (\<lambda>b3. Ok (b3, e', err)))"

definition lost_event :: "event \<Rightarrow> string \<Rightarrow> event" where
  \<comment> \<open>the event a failed append is reported with\<close>
  "lost_event e m = events_New ''error'' (ev_SessionID e) (ev_RunID e)
     (GMap [(''where'', GStr ''event_log''), (''message'', GStr m), (''lost_event_type'', GStr (ev_Type e))])"

definition Publish :: "bus \<Rightarrow> string \<Rightarrow> event \<Rightarrow> (bus \<times> event) gores" where
  \<comment> \<open>the recursive call for a failed sink runs with \<^verbatim>\<open>writeSink = false\<close> and so never recurses\<close>
  "Publish b now e =
     gores_bind (publish_once b now e True) (\<lambda>(b1, e', err).
       case err of None \<Rightarrow> Ok (b1, e')
       | Some m \<Rightarrow> gores_bind
           (publish_once b1 now (lost_event e' m) False)
           (\<lambda>(b2, _, _). Ok (b2, e')))"

definition SubscriberCount :: "bus \<Rightarrow> nat" where
  "SubscriberCount b = length (bus_subs b)"

section \<open>Invariant: registered channels are open\<close>

definition bus_wf :: "bus \<Rightarrow> bool" where
  "bus_wf b \<longleftrightarrow> distinct (bus_subs b) \<and> (\<forall>i \<in> set (bus_subs b). i < bus_next b \<and> \<not> ch_closed (bus_chans b i)
      \<and> length (ch_buf (bus_chans b i)) \<le> chan_cap)"

lemma bus_wf_New [inv_intros]: "bus_wf NewBus"
  by (simp add: bus_wf_def NewBus_def)

lemma bus_wf_Subscribe [inv_intros]: "bus_wf b \<Longrightarrow> bus_wf (fst (Subscribe b))"
  by (force simp: bus_wf_def Subscribe_def)

lemma bus_wf_Unsubscribe [inv_intros]: "bus_wf b \<Longrightarrow> bus_wf (Unsubscribe b i)"
  by (auto simp: bus_wf_def Unsubscribe_def distinct_removeAll)

lemma bus_wf_receive [inv_intros]: "bus_wf b \<Longrightarrow> bus_wf (receive b i)"
  by (auto simp: bus_wf_def receive_def)

lemma bus_wf_stamp [inv_intros]: "bus_wf b \<Longrightarrow> bus_wf (fst (stamp b now e))"
  by (auto simp: bus_wf_def stamp_def Let_def)

lemma run_sink_frame [frame]:
  "bus_subs (fst (run_sink b e ws)) = bus_subs b" "bus_chans (fst (run_sink b e ws)) = bus_chans b"
  "bus_seq (fst (run_sink b e ws)) = bus_seq b" "bus_next (fst (run_sink b e ws)) = bus_next b"
  "bus_sink (fst (run_sink b e ws)) = bus_sink b" "bus_durableSink (fst (run_sink b e ws)) = bus_durableSink b"
  "bus_afterAppend (fst (run_sink b e ws)) = bus_afterAppend b" "bus_appendError (fst (run_sink b e ws)) = bus_appendError b"
  by (auto simp: run_sink_def Let_def split: bool.splits option.splits prod.splits)

lemma send_to_frame [frame]:
  "send_to b e i = Ok b' \<Longrightarrow> bus_seq b' = bus_seq b \<and> bus_next b' = bus_next b \<and> bus_sink b' = bus_sink b
     \<and> bus_durableSink b' = bus_durableSink b \<and> bus_afterAppend b' = bus_afterAppend b
     \<and> bus_appendError b' = bus_appendError b \<and> set (bus_subs b') \<subseteq> set (bus_subs b)"
  by (auto simp: send_to_def split: if_splits)

lemma send_to_wf [inv_intros]: "bus_wf b \<Longrightarrow> send_to b e i = Ok b' \<Longrightarrow> bus_wf b'"
  by (auto simp: bus_wf_def send_to_def distinct_removeAll split: if_splits)

text \<open>What one offer does to the channels: the addressee grows by the event or is closed, every
  other channel is untouched.\<close>

lemma send_to_effect:
  assumes "send_to b e i = Ok b'" "i \<in> set (bus_subs b)"
  shows "(bus_chans b' i = (bus_chans b i)\<lparr>ch_buf := ch_buf (bus_chans b i) @ [e]\<rparr> \<and> bus_subs b' = bus_subs b)
    \<or> (ch_closed (bus_chans b' i) \<and> i \<notin> set (bus_subs b') \<and> ch_buf (bus_chans b' i) = ch_buf (bus_chans b i))"
  using assms by (auto simp: send_to_def split: if_splits)

lemma send_to_other:
  assumes "send_to b e i = Ok b'" "j \<noteq> i"
  shows "bus_chans b' j = bus_chans b j \<and> (j \<in> set (bus_subs b') \<longleftrightarrow> j \<in> set (bus_subs b))"
  using assms by (auto simp: send_to_def split: if_splits)

lemma deliver_other:
  "deliver b e is = Ok b' \<Longrightarrow> j \<notin> set is \<Longrightarrow>
     bus_chans b' j = bus_chans b j \<and> (j \<in> set (bus_subs b') \<longleftrightarrow> j \<in> set (bus_subs b))"
proof (induction "is" arbitrary: b)
  case (Cons i "is")
  from Cons.prems(1) obtain b1 where b1: "send_to b e i = Ok b1" and d: "deliver b1 e is = Ok b'"
    by (auto split: gores.splits)
  with Cons.IH [OF d] Cons.prems(2) send_to_other [OF b1, of j] show ?case by auto
qed simp

lemma deliver_wf [inv_intros]: "bus_wf b \<Longrightarrow> deliver b e is = Ok b' \<Longrightarrow> bus_wf b'"
  by (induction "is" arbitrary: b) (auto split: gores.splits intro: send_to_wf)

lemma deliver_frame [frame]:
  "deliver b e is = Ok b' \<Longrightarrow> bus_seq b' = bus_seq b \<and> bus_next b' = bus_next b \<and> bus_sink b' = bus_sink b
     \<and> bus_durableSink b' = bus_durableSink b \<and> bus_afterAppend b' = bus_afterAppend b
     \<and> bus_appendError b' = bus_appendError b \<and> set (bus_subs b') \<subseteq> set (bus_subs b)"
proof (induction "is" arbitrary: b)
  case (Cons i "is")
  from Cons.prems obtain b1 where b1: "send_to b e i = Ok b1" and d: "deliver b1 e is = Ok b'"
    by (auto split: gores.splits)
  with Cons.IH [OF d] send_to_frame [OF b1] show ?case by auto
qed simp

lemma send_to_total: "\<not> ch_closed (bus_chans b i) \<Longrightarrow> \<exists>b'. send_to b e i = Ok b'"
  by (simp add: send_to_def)

lemma deliver_total:
  "(\<forall>i \<in> set is. \<not> ch_closed (bus_chans b i)) \<Longrightarrow> distinct is \<Longrightarrow> \<exists>b'. deliver b e is = Ok b'"
proof (induction "is" arbitrary: b)
  case (Cons i "is")
  then obtain b1 where b1: "send_to b e i = Ok b1" using send_to_total by (meson list.set_intros(1))
  have "\<forall>j \<in> set is. \<not> ch_closed (bus_chans b1 j)"
    using Cons.prems send_to_other [OF b1] by (metis distinct.simps(2) list.set_intros(2))
  with Cons b1 show ?case by auto
qed simp

lemma deliver_each:
  assumes "deliver b e is = Ok b'" "distinct is" "i \<in> set is" "i \<in> set (bus_subs b)"
  shows "(i \<in> set (bus_subs b') \<and> bus_chans b' i = (bus_chans b i)\<lparr>ch_buf := ch_buf (bus_chans b i) @ [e]\<rparr>)
    \<or> (i \<notin> set (bus_subs b') \<and> ch_closed (bus_chans b' i))"
  using assms
proof (induction "is" arbitrary: b)
  case (Cons j "is")
  from Cons.prems(1) obtain b1 where b1: "send_to b e j = Ok b1" and d: "deliver b1 e is = Ok b'"
    by (auto split: gores.splits)
  show ?case
  proof (cases "i = j")
    case True
    with Cons.prems(2) have "i \<notin> set is" by auto
    from deliver_other [OF d this] send_to_effect [OF b1 [folded True] Cons.prems(4)] Cons.prems(4)
    show ?thesis by auto
  next
    case False
    with Cons send_to_other [OF b1 False] d show ?thesis by auto
  qed
qed simp

section \<open>Whole publications\<close>

lemma publish_once_cases:
  assumes "publish_once b now e ws = Ok (b', e', err)"
  shows "\<exists>b2. run_sink (b\<lparr>bus_seq := bus_seq b + 1\<rparr>) e' ws = (b2, err)
    \<and> deliver b2 e' (bus_subs b) = Ok b' \<and> ev_Seq e' = bus_seq b + 1 \<and> ev_Type e' = ev_Type e
    \<and> ev_SessionID e' = ev_SessionID e \<and> ev_RunID e' = ev_RunID e \<and> ev_Data e' = ev_Data e"
  using assms
  by (auto simp: publish_once_def stamp_def Let_def split: prod.splits if_splits)

lemma publish_once_total:
  assumes "bus_wf b"
  shows "\<exists>b' e' err. publish_once b now e ws = Ok (b', e', err) \<and> bus_wf b'"
proof -
  obtain b1 e' subs where s: "stamp b now e = (b1, e', subs)" by (cases "stamp b now e")
  obtain b2 err where r: "run_sink b1 e' ws = (b2, err)" by (cases "run_sink b1 e' ws")
  have sub: "subs = bus_subs b" and c1: "bus_chans b1 = bus_chans b" "bus_subs b1 = bus_subs b"
    using s by (auto simp: stamp_def Let_def)
  have w1: "bus_wf b1" using bus_wf_stamp [OF assms, of now e] s by simp
  have f: "bus_chans b2 = bus_chans b1" "bus_subs b2 = bus_subs b1" "bus_next b2 = bus_next b1"
    using run_sink_frame [of b1 e' ws] r by simp_all
  then have w2: "bus_wf b2" using w1 by (simp add: bus_wf_def)
  obtain b3 where d: "deliver b2 e' subs = Ok b3"
    using deliver_total [of subs b2 e'] w2 sub f c1 by (auto simp: bus_wf_def)
  with s r deliver_wf [OF w2 d] show ?thesis by (simp add: publish_once_def)
qed

lemma run_sink_no_write: "run_sink b e False = (b, None)"
  by (simp add: run_sink_def)

lemma Publish_cases:
  assumes "Publish b now e = Ok (b', e')"
  obtains (written) "publish_once b now e True = Ok (b', e', None)"
  | (failed) b1 m b2 where "publish_once b now e True = Ok (b1, e', Some m)"
      "publish_once b1 now (lost_event e' m) False = Ok (b', b2)"
proof -
  from assms obtain b1 e1 err where p: "publish_once b now e True = Ok (b1, e1, err)"
    and r: "(case err of None \<Rightarrow> Ok (b1, e1) | Some m \<Rightarrow>
       gores_bind (publish_once b1 now (lost_event e1 m) False) (\<lambda>(b2, _, _). Ok (b2, e1))) = Ok (b', e')"
    by (auto simp: Publish_def)
  show ?thesis
  proof (cases err)
    case None
    with p r written show ?thesis by simp
  next
    case (Some m)
    with r obtain x where "publish_once b1 now (lost_event e1 m) False = Ok (b', x)" "e1 = e'" by auto
    with p Some failed show ?thesis by simp
  qed
qed

lemma publish_once_each:
  assumes "bus_wf b" "publish_once b now e ws = Ok (b', e', err)" "i \<in> set (bus_subs b)"
  shows "(i \<in> set (bus_subs b') \<and> bus_chans b' i = (bus_chans b i)\<lparr>ch_buf := ch_buf (bus_chans b i) @ [e']\<rparr>)
    \<or> (i \<notin> set (bus_subs b') \<and> ch_closed (bus_chans b' i))"
proof -
  from publish_once_cases [OF assms(2)] obtain b2 where
    r: "run_sink (b\<lparr>bus_seq := bus_seq b + 1\<rparr>) e' ws = (b2, err)" and
    d: "deliver b2 e' (bus_subs b) = Ok b'" by blast
  have f: "bus_chans b2 = bus_chans b" "bus_subs b2 = bus_subs b"
    using run_sink_frame [of "b\<lparr>bus_seq := bus_seq b + 1\<rparr>" e' ws] r by simp_all
  from deliver_each [OF d, of i] assms(1,3) f show ?thesis by (simp add: bus_wf_def)
qed

lemma publish_once_closed_stays:
  assumes "publish_once b now e ws = Ok (b', e', err)" "i \<notin> set (bus_subs b)"
  shows "bus_chans b' i = bus_chans b i \<and> i \<notin> set (bus_subs b')"
proof -
  from publish_once_cases [OF assms(1)] obtain b2 where
    r: "run_sink (b\<lparr>bus_seq := bus_seq b + 1\<rparr>) e' ws = (b2, err)" and
    d: "deliver b2 e' (bus_subs b) = Ok b'" by blast
  have f: "bus_chans b2 = bus_chans b" "bus_subs b2 = bus_subs b"
    using run_sink_frame [of "b\<lparr>bus_seq := bus_seq b + 1\<rparr>" e' ws] r by simp_all
  from deliver_other [OF d assms(2)] f assms(2) show ?thesis by simp
qed

lemma publish_once_seq: "publish_once b now e ws = Ok (b', e', err) \<Longrightarrow> bus_seq b' = bus_seq b + 1 \<and> ev_Seq e' = bus_seq b + 1"
  using publish_once_cases [of b now e ws b' e' err] run_sink_frame(3) [of "b\<lparr>bus_seq := bus_seq b + 1\<rparr>" e' ws]
    deliver_frame by (metis (no_types, lifting) bus.select_convs(1) bus.surjective bus.update_convs(1) fst_conv)

text \<open>
  A publication that is not interleaved with another one never panics and keeps the bus
  well formed; it stamps the event with the next sequence number; and it never loses an event
  silently: every subscriber registered at that moment either finds the event appended to its
  channel (followed by the \<^verbatim>\<open>error\<close> event when the sink failed) or has been unregistered and its
  channel closed.
\<close>

theorem publish_reaches_every_subscriber:
  assumes "bus_wf b"
  shows "\<exists>b' e'. Publish b now e = Ok (b', e') \<and> bus_wf b' \<and> ev_Seq e' = bus_seq b + 1 \<and> bus_seq b < bus_seq b'
    \<and> (\<forall>i \<in> set (bus_subs b).
          (i \<in> set (bus_subs b') \<and> (\<exists>rest. ch_buf (bus_chans b' i) = ch_buf (bus_chans b i) @ e' # rest \<and> length rest \<le> 1))
          \<or> (i \<notin> set (bus_subs b') \<and> ch_closed (bus_chans b' i)))"
proof -
  from publish_once_total [OF assms, of now e True] obtain b1 e' err where
    p: "publish_once b now e True = Ok (b1, e', err)" and w1: "bus_wf b1" by blast
  note s1 = publish_once_seq [OF p] and each1 = publish_once_each [OF assms p]
  show ?thesis
  proof (cases err)
    case None
    with p have "Publish b now e = Ok (b1, e')" by (simp add: Publish_def)
    moreover have "\<forall>i \<in> set (bus_subs b).
          (i \<in> set (bus_subs b1) \<and> (\<exists>rest. ch_buf (bus_chans b1 i) = ch_buf (bus_chans b i) @ e' # rest \<and> length rest \<le> 1))
          \<or> (i \<notin> set (bus_subs b1) \<and> ch_closed (bus_chans b1 i))"
      using each1 by fastforce
    ultimately show ?thesis using w1 s1 by (intro exI [of _ b1] exI [of _ e']) auto
  next
    case (Some m)
    from publish_once_total [OF w1, of now "lost_event e' m" False] obtain b2 e2 err2 where
      p2: "publish_once b1 now (lost_event e' m) False = Ok (b2, e2, err2)" and w2: "bus_wf b2" by blast
    with p Some have ok: "Publish b now e = Ok (b2, e')" by (simp add: Publish_def)
    note s2 = publish_once_seq [OF p2]
    have "(i \<in> set (bus_subs b2) \<and> (\<exists>rest. ch_buf (bus_chans b2 i) = ch_buf (bus_chans b i) @ e' # rest \<and> length rest \<le> 1))
          \<or> (i \<notin> set (bus_subs b2) \<and> ch_closed (bus_chans b2 i))" if i: "i \<in> set (bus_subs b)" for i
      using each1 [OF i] publish_once_each [OF w1 p2, of i] publish_once_closed_stays [OF p2, of i] by fastforce
    with ok w2 s1 s2 show ?thesis by (intro exI [of _ b2] exI [of _ e']) auto
  qed
qed

theorem publish_reaches_every_subscriber_witness:
  "\<exists>b' e'. Publish (fst (Subscribe NewBus)) ''t'' (events_New ''run.started'' ''s1'' ''r1'' GNil) = Ok (b', e')
     \<and> ch_buf (bus_chans b' 0) = [e'] \<and> ev_Seq e' = 1"
proof -
  have w: "bus_wf (fst (Subscribe NewBus))" by (intro inv_intros)
  from publish_reaches_every_subscriber [OF w, of "''t''" "events_New ''run.started'' ''s1'' ''r1'' GNil"]
  show ?thesis
    by (simp add: Publish_def publish_once_def stamp_def Subscribe_def NewBus_def run_sink_def send_to_def
        chan_cap_def events_New_def)
qed

definition sink_writes :: "bus \<Rightarrow> event list" where
  "sink_writes b = concat (map (\<lambda>x. case x of SinkWrite e \<Rightarrow> [e] | _ \<Rightarrow> []) (bus_trace b))"

lemma sink_writes_run_sink:
  "sink_writes (fst (run_sink b e ws)) =
     sink_writes b @ (if ws \<and> (bus_sink b \<noteq> None \<or> bus_durableSink b \<noteq> None) then [e] else [])"
  by (auto simp: run_sink_def Let_def sink_writes_def split: bool.splits option.splits prod.splits)

lemma sink_writes_send_to: "send_to b e i = Ok b' \<Longrightarrow> sink_writes b' = sink_writes b"
  by (auto simp: send_to_def sink_writes_def split: if_splits)

lemma sink_writes_deliver: "deliver b e is = Ok b' \<Longrightarrow> sink_writes b' = sink_writes b"
  by (induction "is" arbitrary: b) (auto simp: sink_writes_send_to split: gores.splits)

lemma sink_writes_publish_once:
  assumes "publish_once b now e ws = Ok (b', e', err)"
  shows "sink_writes b' = sink_writes b @ (if ws \<and> (bus_sink b \<noteq> None \<or> bus_durableSink b \<noteq> None) then [e'] else [])"
proof -
  from publish_once_cases [OF assms] obtain b2 where
    r: "run_sink (b\<lparr>bus_seq := bus_seq b + 1\<rparr>) e' ws = (b2, err)" and
    d: "deliver b2 e' (bus_subs b) = Ok b'" by blast
  have "sink_writes b2 = sink_writes (b\<lparr>bus_seq := bus_seq b + 1\<rparr>)
      @ (if ws \<and> (bus_sink b \<noteq> None \<or> bus_durableSink b \<noteq> None) then [e'] else [])"
    using sink_writes_run_sink [of "b\<lparr>bus_seq := bus_seq b + 1\<rparr>" e' ws] r by simp
  with sink_writes_deliver [OF d] show ?thesis by (simp add: sink_writes_def)
qed

text \<open>
  A sink that fails is called once per publication and is never handed the report of its own
  failure: the report is stamped and delivered with \<^verbatim>\<open>writeSink = false\<close>, so the sink sees each
  published event exactly once and the recursion in \<^verbatim>\<open>publish\<close> has depth at most two.
\<close>

theorem publish_writes_sink_once:
  assumes "Publish b now e = Ok (b', e')"
  shows "sink_writes b' = sink_writes b @ (if bus_sink b \<noteq> None \<or> bus_durableSink b \<noteq> None then [e'] else [])"
  using assms
proof (cases rule: Publish_cases)
  case written
  from sink_writes_publish_once [OF this] show ?thesis by simp
next
  case (failed b1 m b2)
  obtain e2 err2 where "b2 = (e2, err2)" by (cases b2)
  with sink_writes_publish_once [OF failed(1)] sink_writes_publish_once [of b1 now "lost_event e' m" False b' e2 err2] failed(2)
  show ?thesis by simp
qed

theorem publish_writes_sink_once_witness:
  "\<exists>b' e'. Publish (SetSink NewBus (\<lambda>_. Some ''disk full'')) ''t'' (events_New ''budget'' ''s1'' [] GNil) = Ok (b', e')
     \<and> sink_writes b' = [e'] \<and> bus_seq b' = 2"
proof -
  let ?b = "SetSink NewBus (\<lambda>_. Some ''disk full'')"
  let ?e = "events_New ''budget'' ''s1'' [] GNil"
  have "\<exists>b' e'. Publish ?b ''t'' ?e = Ok (b', e') \<and> bus_seq b' = 2"
    by (simp add: Publish_def publish_once_def stamp_def SetSink_def NewBus_def run_sink_def events_New_def)
  then obtain b' e' where p: "Publish ?b ''t'' ?e = Ok (b', e')" "bus_seq b' = 2" by blast
  from publish_writes_sink_once [OF p(1)] p show ?thesis
    by (auto simp: SetSink_def NewBus_def sink_writes_def)
qed

text \<open>
  C34. Two publications that overlap can crash the process.  Both take their snapshot of the
  subscribers before either delivers; when a subscriber's channel is full, the first delivery
  removes it and closes the channel, and the second delivery, which still holds the old snapshot,
  sends on the closed channel.  The state is well formed before, and each publication alone
  succeeds.
\<close>

theorem overlapping_publications_panic:
  fixes b :: bus
  assumes wf: "bus_wf b" and sub: "i \<in> set (bus_subs b)"
    and full: "length (ch_buf (bus_chans b i)) = chan_cap"
  shows "let (b1, e1, s1) = stamp b now x; (b2, e2, s2) = stamp b1 now y in
    i \<in> set s1 \<and> i \<in> set s2 \<and> (\<exists>b3. send_to b2 e1 i = Ok b3 \<and> send_to b3 e2 i = Panic)"
proof -
  have "\<not> ch_closed (bus_chans b i)" using wf sub by (simp add: bus_wf_def)
  with sub full show ?thesis by (auto simp: stamp_def Let_def send_to_def)
qed

definition full_bus :: bus where
  "full_bus = (fst (Subscribe NewBus))\<lparr>bus_chans :=
     (\<lambda>_. \<lparr>ch_buf = replicate 128 (events_New ''stage'' ''s1'' ''r1'' GNil), ch_closed = False\<rparr>)\<rparr>"

theorem overlapping_publications_panic_witness:
  "bus_wf full_bus \<and> (let x = events_New ''budget'' ''s1'' [] GNil;
      (b1, e1, s1) = stamp full_bus ''t'' x; (b2, e2, s2) = stamp b1 ''t'' x in
    0 \<in> set s1 \<and> 0 \<in> set s2 \<and> (\<exists>b3. send_to b2 e1 0 = Ok b3 \<and> send_to b3 e2 0 = Panic))"
proof -
  have w: "bus_wf full_bus"
    by (simp add: full_bus_def Subscribe_def NewBus_def bus_wf_def chan_cap_def)
  have m: "0 \<in> set (bus_subs full_bus)" "length (ch_buf (bus_chans full_bus 0)) = chan_cap"
    by (simp_all add: full_bus_def Subscribe_def NewBus_def chan_cap_def)
  from overlapping_publications_panic [OF w m] w show ?thesis by (simp add: Let_def)
qed

end
