(* ===== verification/Session_Model.thy ===== *)
theory Session_Model
  imports Events_Model
begin

text \<open>
  A chat session (\<^verbatim>\<open>internal/session/session.go\<close>): its run state, messages, tool switches and
  counters, with the operations other components call, and the parts of
  \<^verbatim>\<open>internal/session/registry.go\<close> that decide which tools a session starts with.

  The fields of \<^verbatim>\<open>Session\<close> that only carry display text, paths or hooks are left out; the
  lock of a session is not modelled because every operation holds it from beginning to end.
\<close>

record runState =
  rs_Status :: string
  rs_RunID :: string
  rs_Turn :: int
  rs_MaxTurns :: int
  rs_QueuePosition :: int
  rs_Partial :: string
  rs_LastStopReason :: string
  rs_LastStopDetail :: string
  rs_LastRunID :: string
  rs_ArmedDetectors :: "string list"
  rs_ResultLabel :: string

definition emptyRunState :: runState where
  "emptyRunState = \<lparr>rs_Status = [], rs_RunID = [], rs_Turn = 0, rs_MaxTurns = 0, rs_QueuePosition = 0,
     rs_Partial = [], rs_LastStopReason = [], rs_LastStopDetail = [], rs_LastRunID = [],
     rs_ArmedDetectors = [], rs_ResultLabel = []\<rparr>"

record policy =
  po_ApprovalMode :: string
  po_DefaultToolset :: "string list"
  po_RunGrantDefaults :: "string list"
  po_OperatorCommandsAdd :: "string list"
  po_SkipRootsAdd :: "string list"

definition emptyPolicy :: policy where
  "emptyPolicy = \<lparr>po_ApprovalMode = [], po_DefaultToolset = [], po_RunGrantDefaults = [],
     po_OperatorCommandsAdd = [], po_SkipRootsAdd = []\<rparr>"

record policyState =
  ps_Path :: string
  ps_Hash :: string
  ps_Approved :: bool
  ps_Error :: string
  ps_Policy :: policy

record session =
  s_ID :: string
  s_Label :: string
  s_AgentID :: string
  s_ServerID :: string
  s_AgentName :: string
  s_BProfile :: string
  s_PromptAddendum :: string
  s_Workspace :: string
  s_Role :: string
  s_Closed :: bool
  s_Messages :: "message list"
  s_Run :: runState
  s_ToolsEnabled :: "string \<rightharpoonup> bool"
  s_ToolCalls :: "string \<rightharpoonup> int"
  s_RepoPolicy :: "policyState option"
  s_PendingRepoPolicy :: "policyState option"
  s_ProjectBlock :: string
  s_ProjectFiles :: "string list"
  s_ProjectNotes :: "string list"
  s_Runnable :: bool
  s_NotRunnableReason :: string
  s_queuedMessages :: int
  s_modelTurns :: int
  s_compactionCount :: int
  s_compactionTokenDelta :: int
  s_compactionModelCalls :: int
  s_compactionPrompt :: int
  s_compactionCompletion :: int
  s_submitting :: int
  s_planPage :: bool
  s_planAccept :: bool

section \<open>Operations\<close>

definition busy_status :: "string \<Rightarrow> bool" where
  "busy_status st \<longleftrightarrow> st = ''running'' \<or> st = ''queued'' \<or> st = ''paused'' \<or> st = ''stopping'' \<or> st = ''held''"

definition IsRunning :: "session \<Rightarrow> bool" where
  "IsRunning s \<longleftrightarrow> busy_status (rs_Status (s_Run s))"

definition IsClosed :: "session \<Rightarrow> bool" where
  "IsClosed s \<longleftrightarrow> s_Closed s"

definition Close :: "session \<Rightarrow> session gores" where
  "Close s =
     (if s_Closed s then Err ''session is already closed''
      else if busy_status (rs_Status (s_Run s)) then Err ''session is running; stop the run before closing''
      else if 0 < s_submitting s then Err ''session is running; stop the run before closing''
      else Ok (s\<lparr>s_Closed := True\<rparr>))"

definition BeginSubmission :: "session \<Rightarrow> bool \<times> session" where
  "BeginSubmission s = (if s_Closed s then (False, s) else (True, s\<lparr>s_submitting := s_submitting s + 1\<rparr>))"

definition EndSubmission :: "session \<Rightarrow> session" where
  "EndSubmission s = s\<lparr>s_submitting := s_submitting s - 1\<rparr>"

definition AppendProject :: "session \<Rightarrow> string \<Rightarrow> string list \<Rightarrow> string list \<Rightarrow> bool \<times> session" where
  "AppendProject s block files notes =
     (let newFiles = filter (\<lambda>f. f \<notin> set (s_ProjectFiles s)) files in
      if newFiles = [] then (False, s)
      else (True, s\<lparr>s_ProjectBlock :=
              (if block = [] then s_ProjectBlock s
               else (if s_ProjectBlock s = [] then [] else s_ProjectBlock s @ [CHR 0x0A, CHR 0x0A]) @ block),
              s_ProjectFiles := s_ProjectFiles s @ newFiles,
              s_ProjectNotes := s_ProjectNotes s @ notes\<rparr>))"

definition Policy :: "session \<Rightarrow> policy" where
  "Policy s = (case s_RepoPolicy s of None \<Rightarrow> emptyPolicy | Some st \<Rightarrow> ps_Policy st)"

definition SetRepoPolicy :: "session \<Rightarrow> policyState option \<Rightarrow> session" where
  "SetRepoPolicy s v = s\<lparr>s_RepoPolicy := v, s_PendingRepoPolicy := None\<rparr>"

definition lookup_bool :: "(string \<rightharpoonup> bool) \<Rightarrow> string \<Rightarrow> bool" where
  \<comment> \<open>\<^verbatim>\<open>m[k]\<close> on a \<^verbatim>\<open>map[string]bool\<close>\<close>
  "lookup_bool m k \<longleftrightarrow> m k = Some True"

definition ToolEnabled :: "session \<Rightarrow> string \<Rightarrow> bool" where
  "ToolEnabled s name \<longleftrightarrow> lookup_bool (s_ToolsEnabled s) name"

definition ToggleTool :: "session \<Rightarrow> string \<Rightarrow> bool \<Rightarrow> bool \<times> session" where
  "ToggleTool s name enabled =
     (if s_Closed s then (False, s)
      else if s_ToolsEnabled s name = None then (False, s)
      else if s_Role s = ''d'' \<and> enabled \<and> (name = ''shell'' \<or> name = ''run_script'') then (False, s)
      else (True, s\<lparr>s_ToolsEnabled := (s_ToolsEnabled s)(name \<mapsto> enabled)\<rparr>))"

definition IncrementToolCall :: "session \<Rightarrow> string \<Rightarrow> session" where
  "IncrementToolCall s name =
     (if s_ToolsEnabled s name = None then s
      else s\<lparr>s_ToolCalls := (s_ToolCalls s)(name \<mapsto> (case s_ToolCalls s name of None \<Rightarrow> 0 | Some n \<Rightarrow> n) + 1)\<rparr>)"

definition FullToolset :: "string list" where
  "FullToolset = [''read_file'', ''list_dir'', ''write_file'', ''edit_file'', ''search_text'', ''shell'',
     ''remember'', ''recall'', ''fetch_url'', ''find_files'', ''run_script'', ''call_service'']"

record agent =
  ag_Name :: string
  ag_B :: string
  ag_C :: string
  ag_D :: string
  ag_Toolset :: "string list"
  ag_PromptAddendum :: string

fun set_all :: "bool \<Rightarrow> string list \<Rightarrow> (string \<rightharpoonup> bool) \<Rightarrow> (string \<rightharpoonup> bool)" where
  "set_all v [] m = m"
| "set_all v (n # ns) m = set_all v ns (m(n \<mapsto> v))"

definition agent_tools :: "string list \<Rightarrow> (string \<rightharpoonup> bool)" where
  "agent_tools toolset = set_all True toolset (set_all False FullToolset Map.empty)"

definition no_shell :: "(string \<rightharpoonup> bool) \<Rightarrow> (string \<rightharpoonup> bool)" where
  "no_shell m = m(''shell'' \<mapsto> False, ''run_script'' \<mapsto> False)"

definition ApplyAgentConfig :: "session \<Rightarrow> string \<Rightarrow> agent \<Rightarrow> string \<Rightarrow> bool \<times> session" where
  \<comment> \<open>the last argument is \<^verbatim>\<open>profile.Label\<close>\<close>
  "ApplyAgentConfig s agentID ag label =
     (let e0 = agent_tools (ag_Toolset ag);
          profileID = (if s_Role s = ''d'' then ag_D ag else ag_B ag);
          e1 = (if s_Role s = ''d'' then no_shell e0 else e0);
          e2 = (case s_RepoPolicy s of None \<Rightarrow> e1
                | Some st \<Rightarrow> if po_DefaultToolset (ps_Policy st) = [] then e1
                   else (\<lambda>n. map_option (\<lambda>v. v \<and> n \<in> set (po_DefaultToolset (ps_Policy st))) (e1 n)));
          changed = (s_AgentID s \<noteq> agentID \<or> s_ServerID s \<noteq> profileID \<or> s_AgentName s \<noteq> ag_Name ag
             \<or> s_BProfile s \<noteq> label \<or> s_PromptAddendum s \<noteq> ag_PromptAddendum ag
             \<or> (\<exists>n \<in> set (FullToolset @ ag_Toolset ag). lookup_bool (s_ToolsEnabled s) n \<noteq> lookup_bool e2 n))
      in (changed, s\<lparr>s_AgentID := agentID, s_ServerID := profileID, s_AgentName := ag_Name ag, s_BProfile := label,
            s_PromptAddendum := ag_PromptAddendum ag, s_ToolsEnabled := e2\<rparr>))"

definition Append :: "session \<Rightarrow> message \<Rightarrow> session" where
  "Append s m = s\<lparr>s_Messages := s_Messages s @ [m]\<rparr>"

definition SetRun :: "session \<Rightarrow> runState \<Rightarrow> session" where
  "SetRun s r = s\<lparr>s_Run := r\<rparr>"

definition UpdatePartial :: "session \<Rightarrow> string \<Rightarrow> session" where
  "UpdatePartial s p = s\<lparr>s_Run := (s_Run s)\<lparr>rs_Partial := p\<rparr>\<rparr>"

definition SetQueuedMessages :: "session \<Rightarrow> int \<Rightarrow> session" where
  "SetQueuedMessages s n = s\<lparr>s_queuedMessages := n\<rparr>"

definition RecordModelTurn :: "session \<Rightarrow> session" where
  "RecordModelTurn s = s\<lparr>s_modelTurns := s_modelTurns s + 1\<rparr>"

definition RecordCompaction :: "session \<Rightarrow> int \<Rightarrow> session" where
  "RecordCompaction s delta =
     s\<lparr>s_compactionCount := s_compactionCount s + 1, s_compactionTokenDelta := s_compactionTokenDelta s + delta\<rparr>"

definition RecordCompactionModel :: "session \<Rightarrow> int \<Rightarrow> int \<Rightarrow> session" where
  "RecordCompactionModel s prompt completion =
     s\<lparr>s_compactionModelCalls := s_compactionModelCalls s + 1, s_compactionPrompt := s_compactionPrompt s + prompt,
       s_compactionCompletion := s_compactionCompletion s + completion\<rparr>"

definition SetRunnable :: "session \<Rightarrow> bool \<Rightarrow> string \<Rightarrow> session" where
  "SetRunnable s ok reason = s\<lparr>s_Runnable := ok, s_NotRunnableReason := reason\<rparr>"

definition ReplaceMessages :: "session \<Rightarrow> message list \<Rightarrow> session" where
  "ReplaceMessages s ms = s\<lparr>s_Messages := ms\<rparr>"

definition SetPlanPage :: "session \<Rightarrow> bool \<Rightarrow> session" where
  "SetPlanPage s enabled = s\<lparr>s_planPage := enabled\<rparr>"

definition BeginPlanAccept :: "session \<Rightarrow> bool \<times> session" where
  "BeginPlanAccept s = (if \<not> s_planPage s then (False, s) else (True, s\<lparr>s_planAccept := True\<rparr>))"

definition EndPlanAccept :: "session \<Rightarrow> session" where
  "EndPlanAccept s = s\<lparr>s_planAccept := False\<rparr>"

definition PlanWriteAllowed :: "session \<Rightarrow> bool" where
  "PlanWriteAllowed s \<longleftrightarrow> \<not> s_planPage s \<or> s_planAccept s"

definition DropLastMessage :: "session \<Rightarrow> (message \<times> bool) \<times> session" where
  "DropLastMessage s =
     (if s_Messages s = [] then ((emptyMessage, False), s)
      else ((last (s_Messages s), True), s\<lparr>s_Messages := butlast (s_Messages s)\<rparr>))"

definition SetMessageCounts :: "session \<Rightarrow> (string \<rightharpoonup> int \<times> bool) \<Rightarrow> session" where
  "SetMessageCounts s values =
     s\<lparr>s_Messages := map (\<lambda>m. case values (msg_ID m) of None \<Rightarrow> m
         | Some (t, e) \<Rightarrow> m\<lparr>msg_Tokens := t, msg_Estimated := e\<rparr>) (s_Messages s)\<rparr>"

section \<open>Tools at creation and under a repository policy\<close>

definition create_tools ::
  "(string \<rightharpoonup> bool) option \<Rightarrow> string list \<Rightarrow> string \<Rightarrow> policyState option \<Rightarrow> (string \<rightharpoonup> bool)" where
  \<comment> \<open>the tool map \<^verbatim>\<open>Registry.create\<close> builds from the inherited switches (if any), the agent's
     toolset, the role and the active (approved) policy\<close>
  "create_tools enabled toolset role activePolicy =
     (let t0 = (case enabled of Some m \<Rightarrow> m | None \<Rightarrow> agent_tools toolset);
          t1 = (if role = ''d'' then no_shell t0 else t0)
      in case activePolicy of
           Some st \<Rightarrow> if po_DefaultToolset (ps_Policy st) = [] then t1
             else (\<lambda>n. if t1 n = None then None else Some (n \<in> set (po_DefaultToolset (ps_Policy st))))
         | None \<Rightarrow> t1)"

definition active_policy :: "policyState \<Rightarrow> policyState option" where
  "active_policy st = (if ps_Path st \<noteq> [] \<and> ps_Approved st \<and> ps_Error st = [] then Some st else None)"

definition all_off :: "session \<Rightarrow> session" where
  \<comment> \<open>\<^verbatim>\<open>for name := range enabled { s.ToggleTool(name, false) }\<close>, in any order\<close>
  "all_off s = (if s_Closed s then s
     else s\<lparr>s_ToolsEnabled := (\<lambda>n. map_option (\<lambda>_. False) (s_ToolsEnabled s n))\<rparr>)"

definition ApplyRepoPolicySession :: "session \<Rightarrow> policyState \<Rightarrow> session" where
  "ApplyRepoPolicySession s st =
     (let s1 = SetRepoPolicy s (Some st) in
      if po_DefaultToolset (ps_Policy st) = [] then s1
      else fold (\<lambda>n acc. snd (ToggleTool acc n True)) (po_DefaultToolset (ps_Policy st)) (all_off s1))"

lemma all_off_is_toggle_loop:
  assumes "set ns = dom (s_ToolsEnabled s)"
  shows "fold (\<lambda>n acc. snd (ToggleTool acc n False)) ns s = all_off s"
proof (cases "s_Closed s")
  case True
  then show ?thesis by (induction ns) (simp_all add: ToggleTool_def all_off_def)
next
  case False
  have *: "fold (\<lambda>n acc. snd (ToggleTool acc n False)) ns s
      = s\<lparr>s_ToolsEnabled := (\<lambda>n. if n \<in> set ns then map_option (\<lambda>_. False) (s_ToolsEnabled s n) else s_ToolsEnabled s n)\<rparr>"
    if "\<not> s_Closed s" for ns and s :: session
    using that
  proof (induction ns arbitrary: s)
    case (Cons n ns)
    let ?s = "snd (ToggleTool s n False)"
    have "\<not> s_Closed ?s" using Cons.prems by (simp add: ToggleTool_def)
    from Cons.IH [OF this] Cons.prems show ?case
      by (cases "s_ToolsEnabled s n")
        (auto simp: ToggleTool_def fun_eq_iff intro!: session.equality)
  qed simp
  have "(if n \<in> dom (s_ToolsEnabled s) then map_option (\<lambda>_. False) (s_ToolsEnabled s n) else s_ToolsEnabled s n)
      = map_option (\<lambda>_. False) (s_ToolsEnabled s n)" for n
    by (cases "s_ToolsEnabled s n") auto
  with * [OF False, of ns] assms False show ?thesis by (simp add: all_off_def)
qed

section \<open>Which sessions can run commands\<close>

definition shell_off :: "session \<Rightarrow> bool" where
  \<comment> \<open>a planner session (role \<^verbatim>\<open>d\<close>) has no command tool switched on\<close>
  "shell_off s \<longleftrightarrow> (s_Role s = ''d'' \<longrightarrow> \<not> ToolEnabled s ''shell'' \<and> \<not> ToolEnabled s ''run_script'')"

datatype tool_op =
    OpToggle string bool
  | OpAgent string agent string
  | OpPolicy policyState
  | OpSetPolicy "policyState option"

fun tool_step :: "session \<Rightarrow> tool_op \<Rightarrow> session" where
  "tool_step s (OpToggle n e) = snd (ToggleTool s n e)"
| "tool_step s (OpAgent i a l) = snd (ApplyAgentConfig s i a l)"
| "tool_step s (OpPolicy st) = ApplyRepoPolicySession s st"
| "tool_step s (OpSetPolicy v) = SetRepoPolicy s v"

lemma shell_off_ToggleTool [inv_intros]: "shell_off s \<Longrightarrow> shell_off (snd (ToggleTool s n e))"
  by (auto simp: shell_off_def ToggleTool_def ToolEnabled_def lookup_bool_def)

lemma shell_off_SetRepoPolicy [inv_intros]: "shell_off s \<Longrightarrow> shell_off (SetRepoPolicy s v)"
  by (simp add: shell_off_def SetRepoPolicy_def ToolEnabled_def)

lemma shell_off_all_off [inv_intros]: "shell_off s \<Longrightarrow> shell_off (all_off s)"
  by (auto simp: shell_off_def all_off_def ToolEnabled_def lookup_bool_def)

lemma shell_off_toggles [inv_intros]:
  "shell_off s \<Longrightarrow> shell_off (fold (\<lambda>n acc. snd (ToggleTool acc n True)) ns s)"
  by (induction ns arbitrary: s) (simp_all add: shell_off_ToggleTool)

lemma shell_off_ApplyAgentConfig [inv_intros]: "shell_off (snd (ApplyAgentConfig s i a l))"
  by (auto simp: shell_off_def ApplyAgentConfig_def Let_def ToolEnabled_def lookup_bool_def no_shell_def
      split: option.splits)

lemma shell_off_ApplyRepoPolicySession [inv_intros]:
  "shell_off s \<Longrightarrow> shell_off (ApplyRepoPolicySession s st)"
  by (simp add: ApplyRepoPolicySession_def Let_def inv_intros)

lemma shell_off_step: "shell_off s \<Longrightarrow> shell_off (tool_step s op)"
  by (cases op) (simp_all add: inv_intros)

text \<open>
  No sequence of operator toggles, agent re-bindings and repository-policy changes ever
  switches \<^verbatim>\<open>shell\<close> or \<^verbatim>\<open>run_script\<close> on in a planner session that starts with both off.
\<close>

theorem planner_operations_never_enable_shell:
  assumes "shell_off s"
  shows "shell_off (fold (\<lambda>op acc. tool_step acc op) ops s)"
  using assms by (induction ops arbitrary: s) (simp_all add: shell_off_step)

text \<open>
  Creation breaks that rule.  \<^verbatim>\<open>Registry.create\<close> switches the command tools of a planner
  session off and then replaces the whole map by the default toolset of the approved repository
  policy: whenever that list names \<^verbatim>\<open>shell\<close>, the new planner session has \<^verbatim>\<open>shell\<close> switched on,
  and it has every listed tool on even when the agent's own toolset leaves it out.
\<close>

theorem create_policy_enables_shell_for_planner:
  assumes "active_policy st = Some pol" "''shell'' \<in> set (po_DefaultToolset (ps_Policy pol))"
  shows "lookup_bool (create_tools None toolset ''d'' (active_policy st)) ''shell''"
  using assms by (auto simp: create_tools_def Let_def lookup_bool_def no_shell_def)

definition shell_policy_state :: policyState where
  "shell_policy_state = \<lparr>ps_Path = ''/repo/agentb.json'', ps_Hash = ''h'', ps_Approved = True, ps_Error = [],
     ps_Policy = emptyPolicy\<lparr>po_DefaultToolset := [''read_file'', ''shell'']\<rparr>\<rparr>"

theorem create_policy_enables_shell_for_planner_witness:
  "lookup_bool (create_tools None [''read_file''] ''d'' (active_policy shell_policy_state)) ''shell''
   \<and> \<not> lookup_bool (create_tools None [''read_file''] ''d'' None) ''shell''"
proof -
  have "active_policy shell_policy_state = Some shell_policy_state"
    "''shell'' \<in> set (po_DefaultToolset (ps_Policy shell_policy_state))"
    by (simp_all add: active_policy_def shell_policy_state_def)
  from create_policy_enables_shell_for_planner [OF this, of "[''read_file'']"] show ?thesis
    by (simp add: create_tools_def Let_def lookup_bool_def no_shell_def)
qed

section \<open>Closing and submitting exclude each other\<close>

definition submission_ok :: "session \<Rightarrow> bool" where
  "submission_ok s \<longleftrightarrow> 0 \<le> s_submitting s \<and> (s_Closed s \<longrightarrow> s_submitting s = 0)"

datatype submit_op = SBegin | SEnd | SClose

inductive submit_step :: "session \<Rightarrow> submit_op \<Rightarrow> session \<Rightarrow> bool" where
  sub_begin: "BeginSubmission s = (True, s') \<Longrightarrow> submit_step s SBegin s'"
| sub_end: "0 < s_submitting s \<Longrightarrow> submit_step s SEnd (EndSubmission s)"
| sub_close: "Close s = Ok s' \<Longrightarrow> submit_step s SClose s'"

inductive_cases submit_stepE: "submit_step s op s'"

lemma submission_ok_step [inv_intros]: "submit_step s op s' \<Longrightarrow> submission_ok s \<Longrightarrow> submission_ok s'"
  by (auto elim!: submit_stepE simp: submission_ok_def BeginSubmission_def EndSubmission_def Close_def split: if_splits)

text \<open>
  A session never closes under an unfinished submission, and a closed session accepts none:
  in every state reached by beginning and ending submissions and closing, a closed session has no
  submission in flight.
\<close>

theorem closed_sessions_have_no_submission:
  assumes "(\<lambda>a b. \<exists>op. submit_step a op b)\<^sup>*\<^sup>* s t" "submission_ok s" "s_Closed t"
  shows "s_submitting t = 0 \<and> fst (BeginSubmission t) = False"
proof -
  from assms(1,2) have "submission_ok t"
    by (induction rule: rtranclp_induct) (auto intro: submission_ok_step)
  with assms(3) show ?thesis by (simp add: submission_ok_def BeginSubmission_def)
qed

definition idle_session :: "string \<Rightarrow> string \<Rightarrow> session" where
  \<comment> \<open>a session as \<^verbatim>\<open>Registry.create\<close> leaves it, for examples\<close>
  "idle_session sid agentID = \<lparr>s_ID = sid, s_Label = sid, s_AgentID = agentID, s_ServerID = ''local'',
     s_AgentName = agentID, s_BProfile = [], s_PromptAddendum = [], s_Workspace = [], s_Role = ''b'', s_Closed = False,
     s_Messages = [], s_Run = emptyRunState\<lparr>rs_Status := ''idle''\<rparr>, s_ToolsEnabled = agent_tools FullToolset,
     s_ToolCalls = Map.empty, s_RepoPolicy = None, s_PendingRepoPolicy = None, s_ProjectBlock = [], s_ProjectFiles = [],
     s_ProjectNotes = [], s_Runnable = True, s_NotRunnableReason = [], s_queuedMessages = 0, s_modelTurns = 0,
     s_compactionCount = 0, s_compactionTokenDelta = 0, s_compactionModelCalls = 0, s_compactionPrompt = 0,
     s_compactionCompletion = 0, s_submitting = 0, s_planPage = False, s_planAccept = False\<rparr>"

theorem planner_operations_never_enable_shell_witness:
  "shell_off (fold (\<lambda>op acc. tool_step acc op) [OpToggle ''shell'' True, OpPolicy shell_policy_state]
     ((idle_session ''s1'' ''a'')\<lparr>s_Role := ''d'', s_ToolsEnabled := no_shell (agent_tools FullToolset)\<rparr>))"
  by (rule planner_operations_never_enable_shell)
    (simp add: shell_off_def ToolEnabled_def lookup_bool_def no_shell_def)

theorem closed_sessions_have_no_submission_witness:
  "let t = (idle_session ''s1'' ''a'')\<lparr>s_Closed := True\<rparr> in
     s_submitting t = 0 \<and> fst (BeginSubmission t) = False"
proof -
  let ?s = "idle_session ''s1'' ''a''" and ?t = "(idle_session ''s1'' ''a'')\<lparr>s_Closed := True\<rparr>"
  have "submit_step ?s SClose ?t"
    by (rule sub_close) (simp add: Close_def idle_session_def busy_status_def emptyRunState_def)
  then have r: "(\<lambda>a b. \<exists>op. submit_step a op b)\<^sup>*\<^sup>* ?s ?t" by blast
  from closed_sessions_have_no_submission [OF r] show ?thesis
    by (simp add: submission_ok_def idle_session_def)
qed

end
