(* ===== verification/Human_Notice.thy ===== *)
theory Human_Notice
  imports Events_Model
begin

text \<open>
  The operator-facing notice attached to approval and stop events
  (\<^verbatim>\<open>internal/events/human.go\<close>).  A notice is stored in the event payload under \<^verbatim>\<open>human\<close>.
\<close>

record humanNotice =
  hn_Happened :: string
  hn_HarnessAction :: string
  hn_Question :: string
  hn_Actions :: "string list"

definition textValue :: "gval \<Rightarrow> string \<Rightarrow> string" where
  "textValue v fallback =
     (case as_string v of Some s \<Rightarrow> if trim_space s \<noteq> [] then trim_space s else fallback | None \<Rightarrow> fallback)"

definition HumanNoticeFor :: "string \<Rightarrow> gmap \<Rightarrow> humanNotice" where
  "HumanNoticeFor eventType d =
     (if eventType = ''approval.required'' then
        let name = textValue (gget d ''name'') ''This action'' in
        if gget d ''kind'' = GStr ''cycle'' \<or> name = ''run.cycle''
        then \<lparr>hn_Happened = ''The same action and result repeated without progress.'',
              hn_HarnessAction = ''The harness paused the run without starting another turn.'',
              hn_Question = ''Continue this run?'', hn_Actions = [''Continue'', ''Stop'']\<rparr>
        else \<lparr>hn_Happened = name @ '' needs your approval before it can continue.'',
              hn_HarnessAction = ''The harness paused before running the action.'',
              hn_Question = ''Allow this action?'', hn_Actions = [''Yes, for this chat'', ''Just once'', ''No'']\<rparr>
      else if eventType = ''run.stopped'' then
        let reason = replace_all (textValue (gget d ''reason'') ''an unknown reason'') ''_'' '' '' in
        if reason = ''done''
        then \<lparr>hn_Happened = ''The run finished.'',
              hn_HarnessAction = ''The harness kept the completed work in this chat.'', hn_Question = [], hn_Actions = []\<rparr>
        else \<lparr>hn_Happened = ''The run stopped because of '' @ reason @ ''.'',
              hn_HarnessAction = ''The harness kept completed work and did not start another action.'',
              hn_Question = ''What should happen next?'', hn_Actions = [''Continue'', ''Revise plan'', ''Stop'']\<rparr>
      else if eventType = ''item.done'' then
        \<lparr>hn_Happened = ''The current plan item finished.'',
         hn_HarnessAction = ''The harness kept its completed work and advanced the plan record.'', hn_Question = [], hn_Actions = []\<rparr>
      else if eventType = ''plan.done'' then
        \<lparr>hn_Happened = ''The plan finished.'',
         hn_HarnessAction = ''The harness kept the completed work and returned the chat to you.'', hn_Question = [], hn_Actions = []\<rparr>
      else \<lparr>hn_Happened = [], hn_HarnessAction = [], hn_Question = [], hn_Actions = []\<rparr>)"

definition notice_val :: "humanNotice \<Rightarrow> gval" where
  "notice_val n = GMap [(''happened'', GStr (hn_Happened n)), (''harness_action'', GStr (hn_HarnessAction n)),
     (''question'', GStr (hn_Question n)), (''actions'', GStrs (hn_Actions n))]"

definition WithHuman :: "string \<Rightarrow> gmap \<Rightarrow> gmap" where
  "WithHuman eventType d = filter (\<lambda>(k, v). k \<noteq> ''human'') d @ [(''human'', notice_val (HumanNoticeFor eventType d))]"

lemma map_of_filter_other: "k \<noteq> h \<Longrightarrow> map_of (filter (\<lambda>(k, v). k \<noteq> h) d) k = map_of d k"
  by (induction d) auto

lemma WithHuman_keeps [simp]: "k \<noteq> ''human'' \<Longrightarrow> gget (WithHuman t d) k = gget d k"
  by (auto simp: gget_def WithHuman_def map_add_def map_of_filter_other split: option.splits)

end
