(* ===== verification/Gate.thy ===== *)
theory Gate
  imports Session_Model Human_Notice
begin

text \<open>
  The approval gate of \<^verbatim>\<open>internal/agent/gate.go\<close>.

  A tool call that needs a decision creates an \<^verbatim>\<open>approvalWait\<close> and blocks on its channel until
  the operator decides, the run is cancelled, or a newer wait of the same session supersedes it.
  Waits are heap objects shared by the gate's map and by the blocked goroutine, so the model keeps
  an explicit heap from addresses to waits.  \<open>gate_live\<close> holds the addresses whose goroutine has
  not returned, \<open>gate_returned\<close> what each returned goroutine handed back.  One transition of
  \<open>gate_step\<close> is one critical section of the code: beginning a wait, a decision, the wake-up of a
  waiter by its channel or by cancellation, one poll of the operator's mailbox.

  The channel has capacity one and is modelled by an option; sending on a full channel would block
  while the gate's lock is held, and is the outcome \<open>Panic\<close> of \<open>signal\<close>.
\<close>

datatype approvalScopeKind = NoScopes | ShellScopes | FileScopes | PolicyScopes | Cycle

record approvalWait =
  aw_chan :: "(string \<times> bool) option" \<comment> \<open>decision, already logged\<close>
  aw_scopeKind :: approvalScopeKind
  aw_sessionID :: string
  aw_runID :: string
  aw_callID :: string
  aw_decided :: bool

record gate =
  gate_heap :: "nat \<Rightarrow> approvalWait"
  gate_next :: nat
  gate_waiting :: "string \<rightharpoonup> nat"
  gate_pending :: "string \<rightharpoonup> string"
  gate_live :: "nat list"
  gate_returned :: "nat \<rightharpoonup> string \<times> bool" \<comment> \<open>decision, with error\<close>
  gate_sessions :: "string \<Rightarrow> session"
  gate_events :: "event list"
  gate_decisions :: "(nat \<times> string) list" \<comment> \<open>published decisions by wait, in order\<close>

definition approvalKey :: "string \<Rightarrow> string \<Rightarrow> string" where
  "approvalKey sessionID callID = sessionID @ [CHR 0x00] @ callID"

lemma approvalKey_inject:
  "CHR 0x00 \<notin> set s \<Longrightarrow> CHR 0x00 \<notin> set s' \<Longrightarrow> approvalKey s c = approvalKey s' c' \<longleftrightarrow> s = s' \<and> c = c'"
  unfolding approvalKey_def by (rule nul_key_inject)

definition approvalRequired :: "string \<Rightarrow> string \<Rightarrow> bool" where
  "approvalRequired mode name \<longleftrightarrow>
     (if mode = ''boundary-only'' \<or> mode = ''off'' then False
      else if mode = ''mutating'' then name = ''write_file'' \<or> name = ''edit_file'' \<or> name = ''shell'' \<or> name = ''run_script''
      else mode = ''all'')"

definition requiredFor :: "string \<Rightarrow> session \<Rightarrow> string \<Rightarrow> bool" where
  \<comment> \<open>the first argument is the configured \<^verbatim>\<open>Approval.Mode\<close>\<close>
  "requiredFor cfgMode s name =
     (let mode = po_ApprovalMode (Policy s) in approvalRequired (if mode = [] then cfgMode else mode) name)"

definition validApprovalDecision :: "string \<Rightarrow> bool" where
  "validApprovalDecision d \<longleftrightarrow>
     d \<in> {''approve'', ''once'', ''run'', ''session'', ''operator_mode'', ''deny'', ''continue'', ''stop''}"

definition approvalGranted :: "string \<Rightarrow> bool" where
  "approvalGranted d \<longleftrightarrow> d \<in> {''approve'', ''once'', ''run'', ''session'', ''operator_mode''}"

definition gate_emit :: "event \<Rightarrow> gate \<Rightarrow> gate" where
  "gate_emit e g = g\<lparr>gate_events := gate_events g @ [e]\<rparr>"

interpretation gate_emitter: event_emitter gate_emit gate_events
  by unfold_locales (simp add: gate_emit_def)

definition publishDecision :: "gate \<Rightarrow> nat \<Rightarrow> string \<Rightarrow> gate" where
  "publishDecision g a d =
     (let w = gate_heap g a in
      (gate_emit (events_New ''approval.decided'' (aw_sessionID w) (aw_runID w)
         (GMap [(''call_id'', GStr (aw_callID w)), (''decision'', GStr d)])) g)
        \<lparr>gate_decisions := gate_decisions g @ [(a, d)]\<rparr>)"

definition signal :: "gate \<Rightarrow> nat \<Rightarrow> string \<times> bool \<Rightarrow> gate gores" where
  \<comment> \<open>\<^verbatim>\<open>wait.decision <- approvalSignal{...}\<close>\<close>
  "signal g a sg =
     (case aw_chan (gate_heap g a) of
        None \<Rightarrow> Ok (g\<lparr>gate_heap := (gate_heap g)(a := (gate_heap g a)\<lparr>aw_chan := Some sg\<rparr>)\<rparr>)
      | Some _ \<Rightarrow> Panic)"

definition mark_decided :: "gate \<Rightarrow> nat \<Rightarrow> gate" where
  "mark_decided g a = g\<lparr>gate_heap := (gate_heap g)(a := (gate_heap g a)\<lparr>aw_decided := True\<rparr>)\<rparr>"

definition set_status :: "gate \<Rightarrow> string \<Rightarrow> string \<Rightarrow> gate" where
  \<comment> \<open>\<^verbatim>\<open>state := s.Snapshot().Run; state.Status = st; s.SetRun(state)\<close>\<close>
  "set_status g sid st =
     g\<lparr>gate_sessions := (gate_sessions g)(sid := SetRun (gate_sessions g sid) ((s_Run (gate_sessions g sid))\<lparr>rs_Status := st\<rparr>))\<rparr>"

definition lookup_str :: "(string \<rightharpoonup> string) \<Rightarrow> string \<Rightarrow> string" where
  \<comment> \<open>\<^verbatim>\<open>m[k]\<close> on a \<^verbatim>\<open>map[string]string\<close>\<close>
  "lookup_str m k = (case m k of None \<Rightarrow> [] | Some v \<Rightarrow> v)"

definition beginWait :: "gate \<Rightarrow> string \<Rightarrow> string \<Rightarrow> string \<Rightarrow> approvalScopeKind \<Rightarrow> (gate \<times> nat) gores" where
  "beginWait g sid runID callID kind =
     (let key = approvalKey sid callID; a = gate_next g;
          w = \<lparr>aw_chan = None, aw_scopeKind = kind, aw_sessionID = sid, aw_runID = runID, aw_callID = callID, aw_decided = False\<rparr>;
          g0 = g\<lparr>gate_heap := (gate_heap g)(a := w), gate_next := Suc a, gate_live := gate_live g @ [a]\<rparr>;
          priorKey = lookup_str (gate_pending g0) sid;
          superseded = (if priorKey \<noteq> [] \<and> priorKey \<noteq> key
             then case gate_waiting g0 priorKey of None \<Rightarrow> None
                  | Some p \<Rightarrow> if aw_decided (gate_heap g0 p) then None else Some p
             else None);
          g1 = (case superseded of None \<Rightarrow> g0 | Some p \<Rightarrow> mark_decided g0 p);
          g2 = (if priorKey \<noteq> [] \<and> priorKey \<noteq> key then g1\<lparr>gate_waiting := (gate_waiting g1)(priorKey := None)\<rparr> else g1);
          g3 = g2\<lparr>gate_waiting := (gate_waiting g2)(key \<mapsto> a), gate_pending := (gate_pending g2)(sid \<mapsto> key)\<rparr>
      in gores_bind (case superseded of None \<Rightarrow> Ok g3
            | Some p \<Rightarrow> signal (publishDecision g3 p ''superseded'') p (''superseded'', True))
           (\<lambda>g4. Ok (set_status g4 sid ''paused'', a)))"

definition approval_event :: "string \<Rightarrow> string \<Rightarrow> gmap \<Rightarrow> event" where
  "approval_event sid runID d = events_New ''approval.required'' sid runID (GMap (WithHuman ''approval.required'' d))"

definition startPolicyWait :: "gate \<Rightarrow> string \<Rightarrow> string \<Rightarrow> string \<Rightarrow> string \<Rightarrow> gmap \<Rightarrow> (gate \<times> nat) gores" where
  \<comment> \<open>\<^verbatim>\<open>WaitPolicyDecision\<close> up to the blocking wait\<close>
  "startPolicyWait g sid runID callID name args =
     gores_bind (beginWait g sid runID callID (if name = ''shell'' then ShellScopes else PolicyScopes)) (\<lambda>(g1, a).
       Ok (gate_emit (approval_event sid runID [(''call_id'', GStr callID), (''name'', GStr name),
             (''args'', GMap args), (''boundary_escape'', GBool False)]) g1, a))"

definition startBoundaryWait :: "gate \<Rightarrow> string \<Rightarrow> string \<Rightarrow> string \<Rightarrow> string \<Rightarrow> gmap \<Rightarrow> (gate \<times> nat) gores" where
  "startBoundaryWait g sid runID callID name args =
     gores_bind (beginWait g sid runID callID
         (if name = ''shell.operator_override'' \<or> name = ''shell.operator_command'' then ShellScopes else FileScopes)) (\<lambda>(g1, a).
       Ok (gate_emit (approval_event sid runID [(''call_id'', GStr callID), (''name'', GStr name),
             (''args'', GMap args), (''boundary_escape'', GBool True)]) g1, a))"

definition startCycleWait :: "gate \<Rightarrow> string \<Rightarrow> string \<Rightarrow> string \<Rightarrow> gmap \<Rightarrow> (gate \<times> nat) gores" where
  "startCycleWait g sid runID callID args =
     gores_bind (beginWait g sid runID callID Cycle) (\<lambda>(g1, a).
       Ok (gate_emit (approval_event sid runID [(''call_id'', GStr callID), (''name'', GStr ''run.cycle''),
             (''kind'', GStr ''cycle''), (''args'', GMap args), (''boundary_escape'', GBool False)]) g1, a))"

definition cleanup :: "gate \<Rightarrow> nat \<Rightarrow> gate" where
  "cleanup g a =
     (let w = gate_heap g a; key = approvalKey (aw_sessionID w) (aw_callID w) in
      g\<lparr>gate_waiting := (if gate_waiting g key = Some a then (gate_waiting g)(key := None) else gate_waiting g),
        gate_pending := (if gate_pending g (aw_sessionID w) = Some key then (gate_pending g)(aw_sessionID w := None) else gate_pending g)\<rparr>)"

definition finish_wait :: "gate \<Rightarrow> nat \<Rightarrow> string \<Rightarrow> bool \<Rightarrow> gate" where
  \<comment> \<open>the goroutine returns: the deferred cleanup runs and the result is handed back\<close>
  "finish_wait g a d err =
     (let g1 = cleanup g a in g1\<lparr>gate_live := removeAll a (gate_live g1), gate_returned := (gate_returned g1)(a \<mapsto> (d, err))\<rparr>)"

definition await_cancel :: "gate \<Rightarrow> nat \<Rightarrow> gate" where
  \<comment> \<open>\<^verbatim>\<open>ctx.Done()\<close> while the wait is undecided\<close>
  "await_cancel g a = finish_wait (publishDecision (mark_decided g a) a ''dismissed'') a ''dismissed'' True"

definition await_signal :: "gate \<Rightarrow> nat \<Rightarrow> string \<times> bool \<Rightarrow> gate" where
  \<comment> \<open>the waiter takes \<open>sg\<close> off its channel (also when cancelled after a decision was made)\<close>
  "await_signal g a sg =
     (let (d, logged) = sg;
          g1 = g\<lparr>gate_heap := (gate_heap g)(a := (gate_heap g a)\<lparr>aw_chan := None\<rparr>)\<rparr>;
          g2 = (if logged then g1 else publishDecision g1 a d)
      in if d = ''superseded'' then finish_wait g2 a d True
         else finish_wait (if d \<noteq> ''dismissed'' then set_status g2 (aw_sessionID (gate_heap g2 a)) ''running'' else g2) a d False)"

definition DecideWith :: "gate \<Rightarrow> string \<Rightarrow> string \<Rightarrow> string \<Rightarrow> (gate \<Rightarrow> gate) \<Rightarrow> gate gores" where
  \<comment> \<open>\<open>before\<close> is the callback run before the decision takes effect; \<open>id\<close> is the code's \<^verbatim>\<open>nil\<close>\<close>
  "DecideWith g sid callID decision before =
     (if \<not> validApprovalDecision decision
      then Err ''decision must be approve, once, run, session, operator_mode, or deny''
      else case gate_waiting g (approvalKey sid callID) of
        None \<Rightarrow> Err ''approval not found''
      | Some a \<Rightarrow>
          let w = gate_heap g a; kind = aw_scopeKind w in
          if decision = ''run'' \<and> kind \<noteq> ShellScopes \<and> kind \<noteq> FileScopes
          then Err (''decision '' @ decision @ '' requires a run-scoped shell or file-tool approval'')
          else if decision = ''session'' \<and> kind = NoScopes
          then Err (''decision '' @ decision @ '' requires a scoped approval'')
          else if decision = ''operator_mode'' \<and> kind \<noteq> ShellScopes
          then Err (''decision '' @ decision @ '' is only valid for a shell approval'')
          else if (decision = ''continue'' \<or> decision = ''stop'') \<and> kind \<noteq> Cycle
          then Err (''decision '' @ decision @ '' is only valid for a cycle decision'')
          else if kind = Cycle \<and> decision \<noteq> ''continue'' \<and> decision \<noteq> ''stop''
          then Err ''cycle decision must be continue or stop''
          else if aw_decided w then Err ''approval already decided''
          else signal (mark_decided (before g) a) a (decision, False))"

definition Decide :: "gate \<Rightarrow> string \<Rightarrow> string \<Rightarrow> string \<Rightarrow> gate gores" where
  "Decide g sid callID decision = DecideWith g sid callID decision id"

definition mailbox_error :: "gate \<Rightarrow> nat \<Rightarrow> string \<Rightarrow> gate" where
  "mailbox_error g a m = gate_emit (events_New ''error'' (aw_sessionID (gate_heap g a)) (aw_runID (gate_heap g a))
      (GMap [(''where'', GStr ''mailbox''), (''message'', GStr m)])) g"

definition mailbox_poll :: "gate \<Rightarrow> nat \<Rightarrow> string \<Rightarrow> string option \<Rightarrow> gate gores" where
  \<comment> \<open>one tick of the mailbox timer; the mailbox answered \<open>(decision, err)\<close>\<close>
  "mailbox_poll g a decision err =
     (let g1 = (case err of None \<Rightarrow> g | Some m \<Rightarrow> mailbox_error g a m) in
      if decision = [] then Ok g1
      else case Decide g1 (aw_sessionID (gate_heap g1 a)) (aw_callID (gate_heap g1 a)) decision of
          Ok g2 \<Rightarrow> Ok g2
        | Err m \<Rightarrow> Ok (mailbox_error g1 a m)
        | Panic \<Rightarrow> Panic)"

definition init_gate :: "(string \<Rightarrow> session) \<Rightarrow> gate" where
  "init_gate ss = \<lparr>gate_heap = (\<lambda>_. \<lparr>aw_chan = None, aw_scopeKind = NoScopes, aw_sessionID = [], aw_runID = [],
       aw_callID = [], aw_decided = False\<rparr>), gate_next = 0, gate_waiting = Map.empty, gate_pending = Map.empty,
     gate_live = [], gate_returned = Map.empty, gate_sessions = ss, gate_events = [], gate_decisions = []\<rparr>"

section \<open>Transitions\<close>

definition akey :: "gate \<Rightarrow> nat \<Rightarrow> string" where
  "akey g a = approvalKey (aw_sessionID (gate_heap g a)) (aw_callID (gate_heap g a))"

inductive gate_step :: "gate \<Rightarrow> gate \<Rightarrow> bool" where
  gs_policy: "startPolicyWait g sid runID callID name args = Ok (g', a) \<Longrightarrow> gate_step g g'"
| gs_boundary: "startBoundaryWait g sid runID callID name args = Ok (g', a) \<Longrightarrow> gate_step g g'"
| gs_cycle: "startCycleWait g sid runID callID args = Ok (g', a) \<Longrightarrow> gate_step g g'"
| gs_decide: "(\<forall>e \<in> set es. ev_Type e \<noteq> ''approval.decided'') \<Longrightarrow> DecideWith g sid callID d (fold gate_emit es) = Ok g' \<Longrightarrow> gate_step g g'"
| gs_cancel: "a \<in> set (gate_live g) \<Longrightarrow> \<not> aw_decided (gate_heap g a) \<Longrightarrow> gate_step g (await_cancel g a)"
| gs_signal: "a \<in> set (gate_live g) \<Longrightarrow> aw_chan (gate_heap g a) = Some sg \<Longrightarrow> gate_step g (await_signal g a sg)"
| gs_mailbox: "a \<in> set (gate_live g) \<Longrightarrow> mailbox_poll g a d err = Ok g' \<Longrightarrow> gate_step g g'"

definition logged_of :: "gate \<Rightarrow> nat \<Rightarrow> string list" where
  "logged_of g a = map snd (filter (\<lambda>p. fst p = a) (gate_decisions g))"

definition expected_log :: "gate \<Rightarrow> nat \<Rightarrow> string list" where
  \<comment> \<open>what has been published about a wait: its returned decision, or the announced supersession\<close>
  "expected_log g a =
     (if a \<in> set (gate_live g) then (case aw_chan (gate_heap g a) of Some (d, True) \<Rightarrow> [d] | _ \<Rightarrow> [])
      else case gate_returned g a of Some (d, e) \<Rightarrow> [d] | None \<Rightarrow> [])"

definition gate_inv :: "gate \<Rightarrow> bool" where
  "gate_inv g \<longleftrightarrow>
     distinct (gate_live g) \<and> (\<forall>a \<in> set (gate_live g). a < gate_next g \<and> gate_returned g a = None)
     \<and> (\<forall>a. gate_next g \<le> a \<longrightarrow> gate_returned g a = None)
     \<and> (\<forall>k a. gate_waiting g k = Some a \<longrightarrow> a \<in> set (gate_live g) \<and> k = akey g a)
     \<and> (\<forall>a \<in> set (gate_live g). aw_decided (gate_heap g a) \<longleftrightarrow> aw_chan (gate_heap g a) \<noteq> None)
     \<and> (\<forall>a. logged_of g a = expected_log g a)"

lemma gate_invD:
  assumes "gate_inv g"
  shows "distinct (gate_live g)" "a \<in> set (gate_live g) \<Longrightarrow> a < gate_next g"
    "a \<in> set (gate_live g) \<Longrightarrow> gate_returned g a = None"
    "gate_next g \<le> a \<Longrightarrow> gate_returned g a = None"
    "gate_waiting g k = Some a \<Longrightarrow> a \<in> set (gate_live g) \<and> k = akey g a"
    "a \<in> set (gate_live g) \<Longrightarrow> aw_decided (gate_heap g a) \<longleftrightarrow> aw_chan (gate_heap g a) \<noteq> None"
    "logged_of g a = expected_log g a"
  using assms by (auto simp: gate_inv_def)

lemma gate_invI:
  assumes "distinct (gate_live g)" "\<And>a. a \<in> set (gate_live g) \<Longrightarrow> a < gate_next g"
    "\<And>a. a \<in> set (gate_live g) \<Longrightarrow> gate_returned g a = None"
    "\<And>a. gate_next g \<le> a \<Longrightarrow> gate_returned g a = None"
    "\<And>k a. gate_waiting g k = Some a \<Longrightarrow> a \<in> set (gate_live g) \<and> k = akey g a"
    "\<And>a. a \<in> set (gate_live g) \<Longrightarrow> aw_decided (gate_heap g a) \<longleftrightarrow> aw_chan (gate_heap g a) \<noteq> None"
    "\<And>a. logged_of g a = expected_log g a"
  shows "gate_inv g"
  unfolding gate_inv_def using assms by blast

lemma gate_inv_init: "gate_inv (init_gate ss)"
  by (auto simp: gate_inv_def init_gate_def logged_of_def expected_log_def)

lemma gate_inv_cong:
  assumes "gate_heap g' = gate_heap g" "gate_next g' = gate_next g" "gate_waiting g' = gate_waiting g"
    "gate_pending g' = gate_pending g" "gate_live g' = gate_live g" "gate_returned g' = gate_returned g"
    "gate_decisions g' = gate_decisions g"
  shows "gate_inv g' = gate_inv g"
proof -
  have "akey g' = akey g" by (rule ext) (simp add: akey_def assms)
  then show ?thesis unfolding gate_inv_def logged_of_def expected_log_def by (simp only: assms)
qed

lemma gate_emit_frame [simp]:
  "gate_heap (gate_emit e g) = gate_heap g" "gate_next (gate_emit e g) = gate_next g"
  "gate_waiting (gate_emit e g) = gate_waiting g" "gate_pending (gate_emit e g) = gate_pending g"
  "gate_live (gate_emit e g) = gate_live g" "gate_returned (gate_emit e g) = gate_returned g"
  "gate_sessions (gate_emit e g) = gate_sessions g" "gate_decisions (gate_emit e g) = gate_decisions g"
  by (simp_all add: gate_emit_def)

lemma gate_emits_frame [simp]:
  "gate_heap (fold gate_emit es g) = gate_heap g" "gate_next (fold gate_emit es g) = gate_next g"
  "gate_waiting (fold gate_emit es g) = gate_waiting g" "gate_pending (fold gate_emit es g) = gate_pending g"
  "gate_live (fold gate_emit es g) = gate_live g" "gate_returned (fold gate_emit es g) = gate_returned g"
  "gate_sessions (fold gate_emit es g) = gate_sessions g" "gate_decisions (fold gate_emit es g) = gate_decisions g"
  by (induction es arbitrary: g) simp_all

lemma gate_inv_emit [simp]: "gate_inv (gate_emit e g) = gate_inv g"
  by (rule gate_inv_cong) simp_all

lemma gate_inv_emits [simp]: "gate_inv (fold gate_emit es g) = gate_inv g"
  by (rule gate_inv_cong) simp_all

lemma gate_inv_status [simp]: "gate_inv (set_status g sid st) = gate_inv g"
  by (rule gate_inv_cong) (simp_all add: set_status_def)

lemma mailbox_error_frame [simp]:
  "gate_heap (mailbox_error g a m) = gate_heap g" "gate_live (mailbox_error g a m) = gate_live g"
  "gate_inv (mailbox_error g a m) = gate_inv g"
  by (simp_all add: mailbox_error_def)

text \<open>A send into an undecided live wait never finds the channel full.\<close>

definition with_signal :: "gate \<Rightarrow> nat \<Rightarrow> string \<times> bool \<Rightarrow> gate" where
  "with_signal g a sg = g\<lparr>gate_heap := (gate_heap g)(a := (gate_heap g a)\<lparr>aw_decided := True, aw_chan := Some sg\<rparr>)\<rparr>"

lemma akey_with_signal [simp]: "akey (with_signal g a sg) = akey g"
  by (rule ext) (simp add: akey_def with_signal_def)

lemma with_signal_frame [simp]:
  "gate_heap (with_signal g a sg) b = (if b = a then (gate_heap g a)\<lparr>aw_decided := True, aw_chan := Some sg\<rparr> else gate_heap g b)"
  "gate_next (with_signal g a sg) = gate_next g" "gate_waiting (with_signal g a sg) = gate_waiting g"
  "gate_pending (with_signal g a sg) = gate_pending g" "gate_live (with_signal g a sg) = gate_live g"
  "gate_returned (with_signal g a sg) = gate_returned g" "gate_decisions (with_signal g a sg) = gate_decisions g"
  by (simp_all add: with_signal_def)

lemma undecided_empty:
  assumes "gate_inv g" "a \<in> set (gate_live g)" "\<not> aw_decided (gate_heap g a)"
  shows "aw_chan (gate_heap g a) = None"
  using gate_invD(6) [OF assms(1,2)] assms(3) by blast

lemma undecided_unlogged:
  assumes "gate_inv g" "a \<in> set (gate_live g)" "\<not> aw_decided (gate_heap g a)"
  shows "logged_of g a = []"
  using gate_invD(7) [OF assms(1), of a] undecided_empty [OF assms] assms(2) by (simp add: expected_log_def)

lemma signal_undecided:
  assumes "gate_inv g" "a \<in> set (gate_live g)" "\<not> aw_decided (gate_heap g a)"
  shows "signal (mark_decided g a) a sg = Ok (with_signal g a sg)"
  using undecided_empty [OF assms] by (simp add: signal_def mark_decided_def with_signal_def)

lemma with_signal_inv:
  assumes inv: "gate_inv g" and live: "a \<in> set (gate_live g)" and und: "\<not> aw_decided (gate_heap g a)"
  shows "gate_inv (with_signal g a (d, False))"
proof -
  note di = gate_invD [OF inv]
  have "logged_of (with_signal g a (d, False)) b = expected_log (with_signal g a (d, False)) b" for b
    using di(7) [of b] undecided_unlogged [OF assms] live
    by (cases "b = a") (simp_all add: logged_of_def expected_log_def)
  then show ?thesis using di by (intro gate_invI) auto
qed

lemma DecideWith_Ok:
  assumes "gate_inv g" "DecideWith g sid callID d (fold gate_emit es) = Ok g'"
  obtains a where "gate_waiting g (approvalKey sid callID) = Some a" "a \<in> set (gate_live g)"
    "\<not> aw_decided (gate_heap g a)" "g' = with_signal (fold gate_emit es g) a (d, False)"
    "validApprovalDecision d"
proof -
  from assms(2) obtain a where w: "gate_waiting g (approvalKey sid callID) = Some a"
    and u: "\<not> aw_decided (gate_heap g a)" and s: "signal (mark_decided (fold gate_emit es g) a) a (d, False) = Ok g'"
    and v: "validApprovalDecision d"
    by (auto simp: DecideWith_def Let_def split: if_splits option.splits)
  from gate_invD(5) [OF assms(1) w] have live: "a \<in> set (gate_live g)" by simp
  have "g' = with_signal (fold gate_emit es g) a (d, False)"
    using signal_undecided [of "fold gate_emit es g" a "(d, False)"] assms(1) live u s by simp
  with w live u v that show ?thesis by blast
qed

lemma DecideWith_inv [inv_intros]:
  assumes "gate_inv g" "DecideWith g sid callID d (fold gate_emit es) = Ok g'"
  shows "gate_inv g'"
  using assms(2) by (rule DecideWith_Ok [OF assms(1)]) (simp add: assms(1) with_signal_inv)

lemma DecideWith_no_block:
  assumes "gate_inv g"
  shows "DecideWith g sid callID d (fold gate_emit es) \<noteq> Panic"
proof
  assume p: "DecideWith g sid callID d (fold gate_emit es) = Panic"
  then obtain a where w: "gate_waiting g (approvalKey sid callID) = Some a" "\<not> aw_decided (gate_heap g a)"
    "signal (mark_decided (fold gate_emit es g) a) a (d, False) = Panic"
    by (auto simp: DecideWith_def Let_def split: if_splits option.splits)
  from gate_invD(5) [OF assms w(1)] have "a \<in> set (gate_live g)" by simp
  with signal_undecided [of "fold gate_emit es g" a "(d, False)"] assms w(2,3) show False by simp
qed

lemma Decide_fold: "Decide g sid callID d = DecideWith g sid callID d (fold gate_emit [])"
  by (simp add: Decide_def id_def)

lemma mailbox_poll_inv [inv_intros]:
  assumes "gate_inv g" "mailbox_poll g a d err = Ok g'"
  shows "gate_inv g'"
proof -
  define g1 where "g1 = (case err of None \<Rightarrow> g | Some m \<Rightarrow> mailbox_error g a m)"
  have inv: "gate_inv g1" using assms(1) by (simp add: g1_def split: option.split)
  show ?thesis
    using assms(2) inv unfolding mailbox_poll_def g1_def [symmetric] Let_def Decide_fold
    by (auto split: if_splits gores.splits dest: DecideWith_inv simp del: fold.simps)
qed

text \<open>A returning waiter leaves the live set with its decision published exactly once.\<close>

lemma finish_wait_frame [simp]:
  "gate_heap (finish_wait g a d e) = gate_heap g" "gate_next (finish_wait g a d e) = gate_next g"
  "gate_live (finish_wait g a d e) = removeAll a (gate_live g)"
  "gate_returned (finish_wait g a d e) = (gate_returned g)(a \<mapsto> (d, e))"
  "gate_decisions (finish_wait g a d e) = gate_decisions g" "akey (finish_wait g a d e) = akey g"
  by (auto simp: finish_wait_def cleanup_def Let_def akey_def fun_eq_iff)

lemma finish_wait_waiting:
  "gate_waiting (finish_wait g a d e) k = Some b \<longleftrightarrow> gate_waiting g k = Some b \<and> \<not> (k = akey g a \<and> b = a)"
  by (auto simp: finish_wait_def cleanup_def Let_def akey_def split: if_splits)

lemma finish_wait_pending:
  "gate_pending g s = Some k \<Longrightarrow> \<not> (s = aw_sessionID (gate_heap g a) \<and> k = akey g a)
    \<Longrightarrow> gate_pending (finish_wait g a d e) s = Some k"
  by (auto simp: finish_wait_def cleanup_def Let_def akey_def split: if_splits)

lemma finish_wait_inv:
  assumes inv: "gate_inv g" and live: "a \<in> set (gate_live g)"
    and heap: "gate_heap g' = (gate_heap g)(a := w)" "aw_sessionID w = aw_sessionID (gate_heap g a)" "aw_callID w = aw_callID (gate_heap g a)"
    and same: "gate_next g' = gate_next g" "gate_waiting g' = gate_waiting g" "gate_pending g' = gate_pending g"
      "gate_live g' = gate_live g" "gate_returned g' = gate_returned g"
    and log: "\<And>b. logged_of g' b = (if b = a then [d] else logged_of g b)"
  shows "gate_inv (finish_wait g' a d err)"
proof -
  have akey [simp]: "akey g' = akey g" by (rule ext) (simp add: akey_def heap)
  note di = gate_invD [OF inv]
  have wait: "b \<in> set (gate_live (finish_wait g' a d err)) \<and> k = akey (finish_wait g' a d err) b"
    if "gate_waiting (finish_wait g' a d err) k = Some b" for k b
    using that di(5) [of k b] by (auto simp: finish_wait_waiting same)
  have logs: "logged_of (finish_wait g' a d err) b = expected_log (finish_wait g' a d err) b" for b
  proof -
    have "logged_of (finish_wait g' a d err) b = (if b = a then [d] else logged_of g b)"
      using log [of b] by (simp add: logged_of_def)
    then show ?thesis using di(7) [of b] by (cases "b = a") (simp_all add: expected_log_def heap same)
  qed
  have lt: "\<not> gate_next g \<le> a" using di(2) [OF live] by simp
  show ?thesis
    by (intro gate_invI wait logs) (use di live lt in \<open>auto simp: same heap distinct_removeAll\<close>)
qed

lemma publishDecision_frame [simp]:
  "gate_heap (publishDecision g a d) = gate_heap g" "gate_next (publishDecision g a d) = gate_next g"
  "gate_waiting (publishDecision g a d) = gate_waiting g" "gate_pending (publishDecision g a d) = gate_pending g"
  "gate_live (publishDecision g a d) = gate_live g" "gate_returned (publishDecision g a d) = gate_returned g"
  "gate_sessions (publishDecision g a d) = gate_sessions g" "akey (publishDecision g a d) = akey g"
  "gate_decisions (publishDecision g a d) = gate_decisions g @ [(a, d)]"
  by (auto simp: publishDecision_def Let_def akey_def fun_eq_iff)

lemma logged_publish [simp]:
  "logged_of (publishDecision g a d) b = (if b = a then logged_of g a @ [d] else logged_of g b)"
  by (simp add: logged_of_def)

lemma set_status_frame [simp]:
  "gate_heap (set_status g s st) = gate_heap g" "gate_next (set_status g s st) = gate_next g"
  "gate_waiting (set_status g s st) = gate_waiting g" "gate_pending (set_status g s st) = gate_pending g"
  "gate_live (set_status g s st) = gate_live g" "gate_returned (set_status g s st) = gate_returned g"
  "gate_decisions (set_status g s st) = gate_decisions g" "logged_of (set_status g s st) = logged_of g"
  by (auto simp: set_status_def logged_of_def fun_eq_iff)

lemma await_cancel_inv [inv_intros]:
  assumes "gate_inv g" "a \<in> set (gate_live g)" "\<not> aw_decided (gate_heap g a)"
  shows "gate_inv (await_cancel g a)"
proof -
  have lg: "logged_of (mark_decided g a) b = logged_of g b" for b by (simp add: logged_of_def mark_decided_def)
  show ?thesis unfolding await_cancel_def
    by (rule finish_wait_inv [OF assms(1,2), where w = "(gate_heap g a)\<lparr>aw_decided := True\<rparr>"])
      (simp_all add: lg undecided_unlogged [OF assms], simp_all add: mark_decided_def)
qed

lemma await_signal_inv [inv_intros]:
  assumes "gate_inv g" "a \<in> set (gate_live g)" "aw_chan (gate_heap g a) = Some sg"
  shows "gate_inv (await_signal g a sg)"
proof -
  obtain d l where sg: "sg = (d, l)" by force
  define g1 where "g1 = g\<lparr>gate_heap := (gate_heap g)(a := (gate_heap g a)\<lparr>aw_chan := None\<rparr>)\<rparr>"
  define g2 where "g2 = (if l then g1 else publishDecision g1 a d)"
  define g3 where "g3 = (if d \<noteq> ''superseded'' \<and> d \<noteq> ''dismissed'' then set_status g2 (aw_sessionID (gate_heap g2 a)) ''running'' else g2)"
  have l1: "logged_of g1 b = logged_of g b" for b by (simp add: logged_of_def g1_def)
  have lg: "logged_of g a = (if l then [d] else [])"
    using gate_invD(7) [OF assms(1), of a] assms(2,3) by (simp add: expected_log_def sg)
  have l2: "logged_of g2 b = (if b = a then [d] else logged_of g b)" for b by (simp add: g2_def l1 lg)
  have eq: "await_signal g a sg = finish_wait g3 a d (d = ''superseded'')"
    by (simp add: await_signal_def sg g1_def [symmetric] g2_def [symmetric] g3_def Let_def)
  have l3: "logged_of g3 b = (if b = a then [d] else logged_of g b)" for b by (simp add: g3_def l2)
  show ?thesis unfolding eq
    by (rule finish_wait_inv [OF assms(1,2), where w = "(gate_heap g a)\<lparr>aw_chan := None\<rparr>"])
      (simp_all add: l3, simp_all add: g3_def g2_def g1_def)
qed

subsection \<open>Beginning a wait\<close>

definition register :: "gate \<Rightarrow> string \<Rightarrow> string \<Rightarrow> string \<Rightarrow> approvalScopeKind \<Rightarrow> gate" where
  \<comment> \<open>the new wait of \<open>beginWait\<close> is allocated and takes the session's single slot\<close>
  "register g sid runID callID kind =
     (let key = approvalKey sid callID; a = gate_next g; prior = lookup_str (gate_pending g) sid;
          w = \<lparr>aw_chan = None, aw_scopeKind = kind, aw_sessionID = sid, aw_runID = runID, aw_callID = callID, aw_decided = False\<rparr>
      in g\<lparr>gate_heap := (gate_heap g)(a := w), gate_next := Suc a, gate_live := gate_live g @ [a],
           gate_waiting := (if prior \<noteq> [] \<and> prior \<noteq> key then (gate_waiting g)(prior := None) else gate_waiting g)(key \<mapsto> a),
           gate_pending := (gate_pending g)(sid \<mapsto> key)\<rparr>)"

definition prior_wait :: "gate \<Rightarrow> string \<Rightarrow> string \<Rightarrow> nat option" where
  \<comment> \<open>the undecided wait that a new wait of this session supersedes\<close>
  "prior_wait g sid callID =
     (let prior = lookup_str (gate_pending g) sid in
      if prior \<noteq> [] \<and> prior \<noteq> approvalKey sid callID
      then case gate_waiting g prior of None \<Rightarrow> None | Some p \<Rightarrow> if aw_decided (gate_heap g p) then None else Some p
      else None)"

lemma approvalKey_neq_Nil [simp]: "approvalKey s c \<noteq> []" by (simp add: approvalKey_def)

lemma akey_neq_Nil [simp]: "akey g a \<noteq> []" by (simp add: akey_def)

lemma register_inv:
  assumes inv: "gate_inv g"
  shows "gate_inv (register g sid runID callID kind)"
proof -
  let ?g = "register g sid runID callID kind" and ?k = "approvalKey sid callID" and ?n = "gate_next g"
  note di = gate_invD [OF inv]
  have nl: "?n \<notin> set (gate_live g)" using di(2) by blast
  have live: "set (gate_live ?g) = insert ?n (set (gate_live g))" by (simp add: register_def Let_def)
  have heap: "gate_heap ?g b = gate_heap g b" if "b \<in> set (gate_live g)" for b
    using that nl by (auto simp: register_def Let_def)
  have akey: "akey ?g b = akey g b" if "b \<in> set (gate_live g)" for b using that by (simp add: akey_def heap)
  have akn: "akey ?g ?n = ?k" by (simp add: akey_def register_def Let_def)
  have wait: "b \<in> set (gate_live ?g) \<and> k = akey ?g b" if w: "gate_waiting ?g k = Some b" for k b
  proof (cases "k = ?k")
    case True
    with w have "b = ?n" by (simp add: register_def Let_def)
    with True akn show ?thesis by (simp add: live)
  next
    case False
    with w have "gate_waiting g k = Some b" by (auto simp: register_def Let_def split: if_splits)
    from di(5) [OF this] show ?thesis by (simp add: akey live)
  qed
  have logs: "logged_of ?g b = expected_log ?g b" for b
    using di(7) [of b] di(4) [of ?n] nl by (auto simp: logged_of_def expected_log_def register_def Let_def)
  show ?thesis
    by (intro gate_invI wait logs) (use di nl in \<open>auto simp: register_def Let_def less_Suc_eq\<close>)
qed

lemma supersede_inv:
  assumes inv: "gate_inv g" and live: "a \<in> set (gate_live g)" and und: "\<not> aw_decided (gate_heap g a)"
  shows "gate_inv (with_signal (publishDecision g a d) a (d, True))"
proof -
  note di = gate_invD [OF inv]
  have "logged_of (with_signal (publishDecision g a d) a (d, True)) b = expected_log (with_signal (publishDecision g a d) a (d, True)) b" for b
    using di(7) [of b] undecided_unlogged [OF assms] live
    by (cases "b = a") (simp_all add: logged_of_def expected_log_def)
  then show ?thesis using di by (intro gate_invI) auto
qed

lemma prior_wait_live:
  assumes "gate_inv g" "prior_wait g sid callID = Some p"
  shows "p \<in> set (gate_live g)" "\<not> aw_decided (gate_heap g p)" "p \<noteq> gate_next g"
  using assms(2) gate_invD(5) [OF assms(1), of _ p] gate_invD(2) [OF assms(1), of p]
  by (auto simp: prior_wait_def Let_def split: if_splits option.splits)

lemma beginWait_eq:
  assumes inv: "gate_inv g"
  shows "beginWait g sid runID callID kind =
     Ok (set_status (case prior_wait g sid callID of None \<Rightarrow> register g sid runID callID kind
        | Some p \<Rightarrow> with_signal (publishDecision (register g sid runID callID kind) p ''superseded'') p (''superseded'', True))
      sid ''paused'', gate_next g)"
proof -
  have nl: "gate_next g \<notin> set (gate_live g)" using gate_invD(2) [OF inv] by blast
  have w: "p \<noteq> gate_next g" if "gate_waiting g k = Some p" for k p using gate_invD(5) [OF inv that] nl by blast
  show ?thesis
  proof (cases "prior_wait g sid callID")
    case None
    then show ?thesis using w
      by (auto simp: beginWait_def prior_wait_def register_def Let_def split: option.splits if_splits)
  next
    case (Some p)
    note pl = prior_wait_live [OF inv Some]
    from undecided_empty [OF inv pl(1,2)] have ch: "aw_chan (gate_heap g p) = None" .
    from Some have "lookup_str (gate_pending g) sid \<noteq> []" "lookup_str (gate_pending g) sid \<noteq> approvalKey sid callID"
      "gate_waiting g (lookup_str (gate_pending g) sid) = Some p"
      by (auto simp: prior_wait_def Let_def split: option.splits if_splits)
    with pl ch show ?thesis
      by (simp add: Some beginWait_def register_def Let_def signal_def mark_decided_def with_signal_def publishDecision_def gate_emit_def fun_upd_twist)
  qed
qed

lemma beginWait_inv:
  assumes inv: "gate_inv g" and b: "beginWait g sid runID callID kind = Ok (g', a)"
  shows "gate_inv g'"
proof -
  note r = register_inv [OF inv, of sid runID callID kind]
  show ?thesis
  proof (cases "prior_wait g sid callID")
    case None
    with b r show ?thesis by (auto simp: beginWait_eq [OF inv])
  next
    case (Some p)
    note pl = prior_wait_live [OF inv Some]
    have "p \<in> set (gate_live (register g sid runID callID kind))" "\<not> aw_decided (gate_heap (register g sid runID callID kind) p)"
      using pl by (auto simp: register_def Let_def)
    from supersede_inv [OF r this] b Some show ?thesis by (auto simp: beginWait_eq [OF inv])
  qed
qed

subsection \<open>No wait is orphaned, and the published events are the decisions\<close>

definition decision_event :: "approvalWait \<Rightarrow> string \<Rightarrow> event" where
  "decision_event w d = events_New ''approval.decided'' (aw_sessionID w) (aw_runID w)
     (GMap [(''call_id'', GStr (aw_callID w)), (''decision'', GStr d)])"

definition decided_events :: "gate \<Rightarrow> event list" where
  "decided_events g = filter (\<lambda>e. ev_Type e = ''approval.decided'') (gate_events g)"

definition gate_log_inv :: "gate \<Rightarrow> bool" where
  "gate_log_inv g \<longleftrightarrow>
     decided_events g = map (\<lambda>(a, d). decision_event (gate_heap g a) d) (gate_decisions g)
     \<and> (\<forall>p \<in> set (gate_decisions g). fst p < gate_next g)"

definition same_ids :: "gate \<Rightarrow> gate \<Rightarrow> bool" where
  \<comment> \<open>allocated waits keep their identity\<close>
  "same_ids g g' \<longleftrightarrow> gate_next g \<le> gate_next g' \<and> (\<forall>a < gate_next g. aw_sessionID (gate_heap g' a) = aw_sessionID (gate_heap g a)
     \<and> aw_runID (gate_heap g' a) = aw_runID (gate_heap g a) \<and> aw_callID (gate_heap g' a) = aw_callID (gate_heap g a))"

lemma gate_log_keep:
  assumes "gate_log_inv g" "same_ids g g'" "gate_decisions g' = gate_decisions g" "decided_events g' = decided_events g"
  shows "gate_log_inv g'"
  using assms by (fastforce simp: gate_log_inv_def same_ids_def decision_event_def intro!: map_cong)

lemma gate_log_publish:
  assumes "gate_log_inv g" "a < gate_next g"
  shows "gate_log_inv (publishDecision g a d)"
  using assms by (auto simp: gate_log_inv_def decided_events_def publishDecision_def Let_def gate_emit_def decision_event_def)

lemma decided_events_simps [simp]:
  "ev_Type e \<noteq> ''approval.decided'' \<Longrightarrow> decided_events (gate_emit e g) = decided_events g"
  "decided_events (set_status g s st) = decided_events g"
  "decided_events (with_signal g a sg) = decided_events g"
  "decided_events (mark_decided g a) = decided_events g"
  "decided_events (finish_wait g a d err) = decided_events g"
  "decided_events (register g sid runID callID kind) = decided_events g"
  by (simp_all add: decided_events_def gate_emit_def set_status_def with_signal_def mark_decided_def
      finish_wait_def cleanup_def register_def Let_def)

lemma decided_events_fold [simp]:
  "\<forall>e \<in> set es. ev_Type e \<noteq> ''approval.decided'' \<Longrightarrow> decided_events (fold gate_emit es g) = decided_events g"
  by (induction es arbitrary: g) simp_all

lemma gate_log_emit [simp]:
  "ev_Type e \<noteq> ''approval.decided'' \<Longrightarrow> gate_log_inv g \<Longrightarrow> gate_log_inv (gate_emit e g)"
  by (rule gate_log_keep) (auto simp: same_ids_def)

lemma gate_log_mailbox_error [simp]: "gate_log_inv g \<Longrightarrow> gate_log_inv (mailbox_error g a m)"
  by (simp add: mailbox_error_def)

lemma gate_log_decide:
  assumes "gate_inv g" "gate_log_inv g" "\<forall>e \<in> set es. ev_Type e \<noteq> ''approval.decided''"
    "DecideWith g sid callID d (fold gate_emit es) = Ok g'"
  shows "gate_log_inv g'"
  using assms(4) by (rule DecideWith_Ok [OF assms(1)])
    (use assms(2,3) in \<open>auto intro!: gate_log_keep [OF assms(2)] simp: same_ids_def\<close>)

lemma gate_log_begin:
  assumes "gate_inv g" "gate_log_inv g" "beginWait g sid runID callID kind = Ok (g', a)"
  shows "gate_log_inv g'"
proof -
  let ?r = "register g sid runID callID kind"
  have r: "gate_log_inv ?r"
    by (rule gate_log_keep [OF assms(2)]) (auto simp: same_ids_def register_def Let_def decided_events_def)
  show ?thesis
  proof (cases "prior_wait g sid callID")
    case None
    with assms(1,3) have "g' = set_status ?r sid ''paused''" by (simp add: beginWait_eq)
    then show ?thesis using r by (auto intro!: gate_log_keep [OF r] simp: same_ids_def)
  next
    case (Some p)
    with assms(1,3) have g': "g' = set_status (with_signal (publishDecision ?r p ''superseded'') p (''superseded'', True)) sid ''paused''"
      by (simp add: beginWait_eq)
    have "p < gate_next ?r" using prior_wait_live [OF assms(1) Some] gate_invD(2) [OF assms(1)] by (auto simp: register_def Let_def less_SucI)
    from gate_log_publish [OF r this] have p: "gate_log_inv (publishDecision ?r p ''superseded'')" .
    then show ?thesis unfolding g' by (auto intro!: gate_log_keep [OF p] simp: same_ids_def)
  qed
qed

lemma gate_log_cancel:
  assumes "gate_inv g" "gate_log_inv g" "a \<in> set (gate_live g)"
  shows "gate_log_inv (await_cancel g a)"
proof -
  have m: "gate_log_inv (mark_decided g a)"
    by (rule gate_log_keep [OF assms(2)]) (auto simp: same_ids_def mark_decided_def decided_events_def)
  have "a < gate_next (mark_decided g a)" using gate_invD(2) [OF assms(1,3)] by (simp add: mark_decided_def)
  from gate_log_publish [OF m this] have p: "gate_log_inv (publishDecision (mark_decided g a) a ''dismissed'')" .
  show ?thesis unfolding await_cancel_def
    by (rule gate_log_keep [OF p]) (auto simp: same_ids_def)
qed

lemma gate_log_signal:
  assumes "gate_inv g" "gate_log_inv g" "a \<in> set (gate_live g)"
  shows "gate_log_inv (await_signal g a sg)"
proof -
  obtain d l where sg: "sg = (d, l)" by force
  define g1 where "g1 = g\<lparr>gate_heap := (gate_heap g)(a := (gate_heap g a)\<lparr>aw_chan := None\<rparr>)\<rparr>"
  define g2 where "g2 = (if l then g1 else publishDecision g1 a d)"
  have "gate_log_inv g1"
    by (rule gate_log_keep [OF assms(2)]) (auto simp: same_ids_def g1_def decided_events_def)
  moreover have "a < gate_next g1" using gate_invD(2) [OF assms(1,3)] by (simp add: g1_def)
  ultimately have p: "gate_log_inv g2" by (simp add: g2_def gate_log_publish)
  show ?thesis
    unfolding await_signal_def sg Let_def prod.case g1_def [symmetric] g2_def [symmetric]
    by (rule gate_log_keep [OF p]) (auto simp: same_ids_def)
qed

lemma mailbox_poll_cases:
  assumes "mailbox_poll g a d err = Ok g'"
  obtains g1 where "g1 = g \<or> (\<exists>m. g1 = mailbox_error g a m)"
    "g' = g1 \<or> (\<exists>m. g' = mailbox_error g1 a m)
     \<or> DecideWith g1 (aw_sessionID (gate_heap g1 a)) (aw_callID (gate_heap g1 a)) d (fold gate_emit []) = Ok g'"
proof -
  define g1 where "g1 = (case err of None \<Rightarrow> g | Some m \<Rightarrow> mailbox_error g a m)"
  have "g1 = g \<or> (\<exists>m. g1 = mailbox_error g a m)" by (auto simp: g1_def split: option.split)
  moreover have "g' = g1 \<or> (\<exists>m. g' = mailbox_error g1 a m)
     \<or> DecideWith g1 (aw_sessionID (gate_heap g1 a)) (aw_callID (gate_heap g1 a)) d (fold gate_emit []) = Ok g'"
    using assms unfolding mailbox_poll_def g1_def [symmetric] Let_def Decide_fold
    by (auto split: if_splits gores.splits simp del: fold.simps)
  ultimately show ?thesis by (rule that)
qed

lemma gate_log_mailbox:
  assumes "gate_inv g" "gate_log_inv g" "mailbox_poll g a d err = Ok g'"
  shows "gate_log_inv g'"
proof (rule mailbox_poll_cases [OF assms(3)])
  fix g1 assume g1: "g1 = g \<or> (\<exists>m. g1 = mailbox_error g a m)"
    and c: "g' = g1 \<or> (\<exists>m. g' = mailbox_error g1 a m)
     \<or> DecideWith g1 (aw_sessionID (gate_heap g1 a)) (aw_callID (gate_heap g1 a)) d (fold gate_emit []) = Ok g'"
  have "gate_inv g1" "gate_log_inv g1" using g1 assms by auto
  with c gate_log_decide [of g1 "[]" _ _ d g'] show ?thesis by (auto simp del: fold.simps)
qed

definition gate_ok :: "gate \<Rightarrow> bool" where
  "gate_ok g \<longleftrightarrow> gate_inv g \<and> gate_log_inv g"

lemma gate_ok_emit [simp]: "ev_Type e \<noteq> ''approval.decided'' \<Longrightarrow> gate_ok g \<Longrightarrow> gate_ok (gate_emit e g)"
  by (simp add: gate_ok_def)

lemma gate_ok_begin:
  assumes "gate_ok g" "beginWait g sid runID callID kind = Ok (g', a)"
  shows "gate_ok g'"
  using assms beginWait_inv gate_log_begin unfolding gate_ok_def by metis

lemma approval_event_type [simp]: "ev_Type (approval_event s r d) = ''approval.required''"
  by (simp add: approval_event_def)

lemma start_waits_begin:
  "startPolicyWait g sid runID callID name args = Ok (g', a) \<Longrightarrow>
     \<exists>g1 kind d. beginWait g sid runID callID kind = Ok (g1, a) \<and> g' = gate_emit (approval_event sid runID d) g1"
  "startBoundaryWait g sid runID callID name args = Ok (g', a) \<Longrightarrow>
     \<exists>g1 kind d. beginWait g sid runID callID kind = Ok (g1, a) \<and> g' = gate_emit (approval_event sid runID d) g1"
  "startCycleWait g sid runID callID args = Ok (g', a) \<Longrightarrow>
     \<exists>g1 kind d. beginWait g sid runID callID kind = Ok (g1, a) \<and> g' = gate_emit (approval_event sid runID d) g1"
  unfolding startPolicyWait_def startBoundaryWait_def startCycleWait_def by (auto split: prod.splits)

lemma gate_ok_start:
  assumes "gate_ok g"
    "\<exists>g1 kind d. beginWait g sid runID callID kind = Ok (g1, a) \<and> g' = gate_emit (approval_event sid runID d) g1"
  shows "gate_ok g'"
proof -
  from assms(2) obtain g1 kind d where b: "beginWait g sid runID callID kind = Ok (g1, a)"
    and g': "g' = gate_emit (approval_event sid runID d) g1" by blast
  from gate_ok_begin [OF assms(1) b] show ?thesis by (simp add: g')
qed

text \<open>The three ways of asking are one case of a step: a wait begins and is announced.\<close>

lemma gate_step_cases:
  assumes "gate_step g g'"
  obtains (asks) sid callID runID kind g1 a d where "beginWait g sid runID callID kind = Ok (g1, a)"
      "g' = gate_emit (approval_event sid runID d) g1"
  | (decides) es sid callID d where "\<forall>e \<in> set es. ev_Type e \<noteq> ''approval.decided''"
      "DecideWith g sid callID d (fold gate_emit es) = Ok g'"
  | (cancels) a where "g' = await_cancel g a" "a \<in> set (gate_live g)" "\<not> aw_decided (gate_heap g a)"
  | (signals) a sg where "g' = await_signal g a sg" "a \<in> set (gate_live g)" "aw_chan (gate_heap g a) = Some sg"
  | (polls) a d err where "a \<in> set (gate_live g)" "mailbox_poll g a d err = Ok g'"
  using assms
proof cases
  case gs_policy
  then show ?thesis using start_waits_begin(1) asks by metis
next
  case gs_boundary
  then show ?thesis using start_waits_begin(2) asks by metis
next
  case gs_cycle
  then show ?thesis using start_waits_begin(3) asks by metis
qed (use decides cancels signals polls in auto)

lemma gate_ok_step:
  assumes "gate_ok g" "gate_step g g'"
  shows "gate_ok g'"
  using assms(2)
proof (cases rule: gate_step_cases)
  case (asks sid callID runID kind g1 a d)
  then show ?thesis using gate_ok_start [OF assms(1)] by blast
next
  case (decides es sid callID d)
  then show ?thesis using assms(1) DecideWith_inv gate_log_decide unfolding gate_ok_def by metis
next
  case (cancels a)
  then show ?thesis using assms(1) await_cancel_inv gate_log_cancel by (simp add: gate_ok_def)
next
  case (signals a sg)
  then show ?thesis using assms(1) await_signal_inv gate_log_signal by (simp add: gate_ok_def)
next
  case (polls a d err)
  then show ?thesis using assms(1) mailbox_poll_inv gate_log_mailbox unfolding gate_ok_def by metis
qed

definition gate_started :: "gate \<Rightarrow> bool" where
  "gate_started g \<longleftrightarrow> (\<exists>ss. g = init_gate ss)"

interpretation gates: invariant_system gate_started gate_step gate_ok
proof
  fix g g' assume "gate_started g"
  then show "gate_ok g"
    by (auto simp: gate_started_def gate_ok_def gate_inv_init)
      (auto simp: init_gate_def gate_log_inv_def decided_events_def)
qed (rule gate_ok_step)

section \<open>What the gate promises\<close>

lemma gate_run_ok: "gate_step\<^sup>*\<^sup>* (init_gate ss) g \<Longrightarrow> gate_ok g"
  by (rule gates.run_inv) (auto simp: gate_started_def)

fun decisions_for :: "approvalScopeKind \<Rightarrow> string list" where
  \<comment> \<open>the abstract table: which answers fit which kind of question\<close>
  "decisions_for NoScopes = [''approve'', ''once'', ''deny'']"
| "decisions_for PolicyScopes = [''approve'', ''once'', ''session'', ''deny'']"
| "decisions_for FileScopes = [''approve'', ''once'', ''run'', ''session'', ''deny'']"
| "decisions_for ShellScopes = [''approve'', ''once'', ''run'', ''session'', ''operator_mode'', ''deny'']"
| "decisions_for Cycle = [''continue'', ''stop'']"

lemma DecideWith_table:
  assumes "gate_waiting g (approvalKey sid callID) = Some a" "\<not> aw_decided (gate_heap g a)"
    "d \<in> set (decisions_for (aw_scopeKind (gate_heap g a)))"
  shows "DecideWith g sid callID d before = signal (mark_decided (before g) a) a (d, False)"
  using assms by (cases "aw_scopeKind (gate_heap g a)") (auto simp: DecideWith_def validApprovalDecision_def Let_def)

lemma DecideWith_Ok_table:
  assumes "DecideWith g sid callID d before = Ok g'"
  shows "\<exists>a. gate_waiting g (approvalKey sid callID) = Some a \<and> \<not> aw_decided (gate_heap g a)
    \<and> d \<in> set (decisions_for (aw_scopeKind (gate_heap g a)))"
proof -
  from assms obtain a where w: "gate_waiting g (approvalKey sid callID) = Some a" and v: "validApprovalDecision d"
    by (auto simp: DecideWith_def split: if_splits option.splits)
  then show ?thesis using assms
    by (cases "aw_scopeKind (gate_heap g a)") (auto simp: DecideWith_def Let_def validApprovalDecision_def split: if_splits)
qed

definition demo_gate :: gate where
  "demo_gate = (case startPolicyWait (init_gate (\<lambda>i. idle_session i ''a'')) ''s'' ''r'' ''c'' ''shell'' [] of Ok (g, a) \<Rightarrow> g | _ \<Rightarrow> init_gate (\<lambda>i. idle_session i ''a''))"

lemma demo_start:
  "startPolicyWait (init_gate (\<lambda>i. idle_session i ''a'')) ''s'' ''r'' ''c'' ''shell'' [] = Ok (demo_gate, 0)"
  unfolding demo_gate_def startPolicyWait_def
  by (simp add: beginWait_def Let_def init_gate_def lookup_str_def)

lemma demo_reachable: "gate_step\<^sup>*\<^sup>* (init_gate (\<lambda>i. idle_session i ''a'')) demo_gate"
  by (rule r_into_rtranclp, rule gs_policy [OF demo_start])

lemma demo_simps [simp]:
  "gate_waiting demo_gate = [approvalKey ''s'' ''c'' \<mapsto> 0]" "gate_live demo_gate = [0]"
  "gate_heap demo_gate 0 = \<lparr>aw_chan = None, aw_scopeKind = ShellScopes, aw_sessionID = ''s'', aw_runID = ''r'', aw_callID = ''c'', aw_decided = False\<rparr>"
  unfolding demo_gate_def startPolicyWait_def
  by (simp_all add: beginWait_def Let_def init_gate_def lookup_str_def set_status_def)

text \<open>A decision is accepted exactly when it is one of the answers that fit the kind of
  question being asked, the named call is registered, and nobody has decided it yet; it is then in
  the waiter's channel.  Deciding never blocks on a full channel, in any reachable state.\<close>

theorem decide_accepts_exactly:
  assumes "gate_step\<^sup>*\<^sup>* (init_gate ss) g"
  shows "(case DecideWith g sid callID d (fold gate_emit es) of
      Ok g' \<Rightarrow> \<exists>a. gate_waiting g (approvalKey sid callID) = Some a \<and> aw_chan (gate_heap g' a) = Some (d, False)
    | Err m \<Rightarrow> \<not> (\<exists>a. gate_waiting g (approvalKey sid callID) = Some a \<and> \<not> aw_decided (gate_heap g a)
          \<and> d \<in> set (decisions_for (aw_scopeKind (gate_heap g a))))
    | Panic \<Rightarrow> False)"
proof -
  have inv: "gate_inv g" using gate_run_ok [OF assms] by (simp add: gate_ok_def)
  show ?thesis
  proof (cases "DecideWith g sid callID d (fold gate_emit es)")
    case (Ok g')
    show ?thesis using Ok by (rule DecideWith_Ok [OF inv]) (simp add: Ok)
  next
    case (Err m)
    have "DecideWith g sid callID d (fold gate_emit es) = Ok (with_signal (fold gate_emit es g) a (d, False))"
      if "gate_waiting g (approvalKey sid callID) = Some a" "\<not> aw_decided (gate_heap g a)"
        "d \<in> set (decisions_for (aw_scopeKind (gate_heap g a)))" for a
      using DecideWith_table [OF that] signal_undecided [of "fold gate_emit es g" a "(d, False)"] inv
        gate_invD(5) [OF inv that(1)] that(2) by simp
    with Err show ?thesis by auto
  next
    case Panic
    with DecideWith_no_block [OF inv] show ?thesis by blast
  qed
qed

theorem decide_accepts_exactly_witness:
  "(\<exists>g'. DecideWith demo_gate ''s'' ''c'' ''operator_mode'' (fold gate_emit []) = Ok g')
   \<and> \<not> (\<exists>g'. DecideWith demo_gate ''s'' ''c'' ''continue'' (fold gate_emit []) = Ok g')"
proof -
  note t = decide_accepts_exactly [OF demo_reachable, of "''s''" "''c''" _ "[]"]
  have "\<exists>g'. DecideWith demo_gate ''s'' ''c'' ''operator_mode'' (fold gate_emit []) = Ok g'"
    using t [of "''operator_mode''"] by (cases "DecideWith demo_gate ''s'' ''c'' ''operator_mode'' (fold gate_emit [])") auto
  moreover have "DecideWith demo_gate ''s'' ''c'' ''continue'' (fold gate_emit []) \<noteq> Ok g'" for g'
    by (simp add: DecideWith_def validApprovalDecision_def)
  ultimately show ?thesis by blast
qed

definition committed :: "nat \<Rightarrow> string \<Rightarrow> gate \<Rightarrow> bool" where
  "committed a d g \<longleftrightarrow> (a \<in> set (gate_live g) \<and> aw_chan (gate_heap g a) = Some (d, False)) \<or> gate_returned g a = Some (d, False)"

lemma committed_other:
  assumes "committed a d g" "gate_inv g" "b \<in> set (gate_live g)" "\<not> aw_decided (gate_heap g b)"
  shows "b \<noteq> a"
  using assms gate_invD(3) [OF assms(2,3)] undecided_empty [OF assms(2,3,4)] by (auto simp: committed_def)

lemma committed_cong:
  assumes "committed a d g" "aw_chan (gate_heap g' a) = aw_chan (gate_heap g a)" "gate_returned g' a = gate_returned g a"
    "a \<in> set (gate_live g) \<Longrightarrow> a \<in> set (gate_live g')"
  shows "committed a d g'"
  using assms by (auto simp: committed_def)

lemma committed_decide:
  assumes "committed a d g" "gate_inv g" "DecideWith g sid callID d' (fold gate_emit es) = Ok g'"
  shows "committed a d g'"
  using assms(3)
proof (rule DecideWith_Ok [OF assms(2)])
  fix b assume "b \<in> set (gate_live g)" "\<not> aw_decided (gate_heap g b)"
    and g': "g' = with_signal (fold gate_emit es g) b (d', False)"
  then have "b \<noteq> a" using committed_other [OF assms(1,2)] by blast
  then show ?thesis unfolding g' by (intro committed_cong [OF assms(1)]) auto
qed

lemma committed_mailbox:
  assumes "committed a d g" "gate_inv g" "mailbox_poll g b d' err = Ok g'"
  shows "committed a d g'"
proof (rule mailbox_poll_cases [OF assms(3)])
  fix g1 assume g1: "g1 = g \<or> (\<exists>m. g1 = mailbox_error g b m)"
    and c: "g' = g1 \<or> (\<exists>m. g' = mailbox_error g1 b m)
     \<or> DecideWith g1 (aw_sessionID (gate_heap g1 b)) (aw_callID (gate_heap g1 b)) d' (fold gate_emit []) = Ok g'"
  have e: "committed a d (mailbox_error h b m) = committed a d h" for h m by (simp add: committed_def mailbox_error_def)
  have "gate_inv g1" "committed a d g1" using g1 assms e by auto
  with c committed_decide [of a d g1 _ _ d' "[]" g'] e show ?thesis by (auto simp del: fold.simps)
qed

lemma committed_begin:
  assumes c: "committed a d g" and inv: "gate_inv g" and b: "beginWait g sid runID callID kind = Ok (g', n)"
  shows "committed a d g'"
proof -
  let ?r = "register g sid runID callID kind"
  have an: "a \<noteq> gate_next g" using c gate_invD(2) [OF inv, of a] gate_invD(4) [OF inv, of a] by (auto simp: committed_def)
  have r: "committed a d ?r" using an by (intro committed_cong [OF c]) (auto simp: register_def Let_def)
  show ?thesis
  proof (cases "prior_wait g sid callID")
    case None
    with b r show ?thesis by (auto simp: beginWait_eq [OF inv] committed_def)
  next
    case (Some p)
    note pl = prior_wait_live [OF inv Some]
    have "p \<noteq> a" using committed_other [OF c inv pl(1,2)] .
    with b r Some show ?thesis by (auto simp: beginWait_eq [OF inv] committed_def)
  qed
qed

lemma committed_start:
  assumes "committed a d g" "gate_inv g"
    "\<exists>g1 kind x. beginWait g sid runID callID kind = Ok (g1, n) \<and> g' = gate_emit (approval_event sid runID x) g1"
  shows "committed a d g'"
proof -
  from assms(3) obtain g1 kind x where b: "beginWait g sid runID callID kind = Ok (g1, n)"
    and g': "g' = gate_emit (approval_event sid runID x) g1" by blast
  from committed_begin [OF assms(1,2) b] show ?thesis by (simp add: g' committed_def)
qed

lemma committed_step:
  assumes inv: "gate_inv g" and c: "committed a d g" and d: "d \<noteq> ''superseded''" and step: "gate_step g g'"
  shows "committed a d g'"
  using step
proof (cases rule: gate_step_cases)
  case (asks sid callID runID kind g1 n x)
  then show ?thesis using committed_start [OF c inv] by blast
next
  case (cancels b)
  with committed_other [OF c inv] have "b \<noteq> a" by blast
  then show ?thesis unfolding cancels await_cancel_def
    by (intro committed_cong [OF c]) (auto simp: mark_decided_def)
next
  case (signals b sg)
  show ?thesis
  proof (cases "b = a")
    case True
    with signals c gate_invD(3) [OF inv] have "sg = (d, False)" by (auto simp: committed_def)
    with True d show ?thesis unfolding signals by (auto simp: await_signal_def Let_def committed_def)
  next
    case False
    then show ?thesis unfolding signals
      by (cases sg) (auto intro!: committed_cong [OF c] simp: await_signal_def Let_def)
  qed
qed (use committed_decide [OF c inv] committed_mailbox [OF c inv] in blast)+

text \<open>C6. An accepted decision is the one the blocked call returns: after a successful \<^verbatim>\<open>Decide\<close>, and
  whatever the other goroutines do next (cancellation, a superseding wait, further decisions, mailbox
  polls), the call is either still holding exactly that decision or has returned it without error.\<close>

theorem accepted_decision_is_returned:
  assumes run: "gate_step\<^sup>*\<^sup>* (init_gate ss) g" and dec: "DecideWith g sid callID d (fold gate_emit es) = Ok g'"
    and wait: "gate_waiting g (approvalKey sid callID) = Some a"
    and es: "\<forall>e \<in> set es. ev_Type e \<noteq> ''approval.decided''" and more: "gate_step\<^sup>*\<^sup>* g' g''"
  shows "(a \<in> set (gate_live g'') \<and> aw_chan (gate_heap g'' a) = Some (d, False)) \<or> gate_returned g'' a = Some (d, False)"
proof -
  have ok: "gate_ok g" by (rule gate_run_ok [OF run])
  then have inv: "gate_inv g" by (simp add: gate_ok_def)
  have ok': "gate_ok g'" using gate_ok_step [OF ok gs_decide [OF es dec]] .
  have "committed a d g'" and d: "d \<noteq> ''superseded''"
    using dec by (rule DecideWith_Ok [OF inv]; use wait in \<open>auto simp: committed_def validApprovalDecision_def\<close>)+
  with gates.stable [OF more ok', of "committed a d"] committed_step [of _ a d, OF _ _ d]
  have "committed a d g''" by (auto simp: gate_ok_def)
  then show ?thesis by (simp add: committed_def)
qed

theorem accepted_decision_is_returned_witness:
  "\<exists>g'. DecideWith demo_gate ''s'' ''c'' ''run'' (fold gate_emit []) = Ok g'
     \<and> (0 \<in> set (gate_live g') \<and> aw_chan (gate_heap g' 0) = Some (''run'', False) \<or> gate_returned g' 0 = Some (''run'', False))"
proof -
  obtain g' where g': "DecideWith demo_gate ''s'' ''c'' ''run'' (fold gate_emit []) = Ok g'"
    by (simp add: DecideWith_def validApprovalDecision_def signal_def mark_decided_def)
  from accepted_decision_is_returned [OF demo_reachable g', of 0 g'] g' show ?thesis by simp
qed

text \<open>Every decision is published exactly once: a call that returned has exactly one entry in the
  decision log, the decision it returned, whichever way it ended (decided, dismissed by cancellation,
  superseded); and the \<^verbatim>\<open>approval.decided\<close> events on the bus are exactly that log, in order.\<close>

theorem returned_decision_published_once:
  assumes "gate_step\<^sup>*\<^sup>* (init_gate ss) g"
  shows "(\<forall>a d e. gate_returned g a = Some (d, e) \<longrightarrow> filter (\<lambda>p. fst p = a) (gate_decisions g) = [(a, d)])
    \<and> filter (\<lambda>e. ev_Type e = ''approval.decided'') (gate_events g)
        = map (\<lambda>(a, d). decision_event (gate_heap g a) d) (gate_decisions g)"
proof -
  have ok: "gate_inv g" "gate_log_inv g" using gate_run_ok [OF assms] by (simp_all add: gate_ok_def)
  have "filter (\<lambda>p. fst p = a) (gate_decisions g) = [(a, d)]" if r: "gate_returned g a = Some (d, e)" for a d e
  proof -
    have "a \<notin> set (gate_live g)" using gate_invD(3) [OF ok(1)] r by auto
    with gate_invD(7) [OF ok(1), of a] r have "map snd (filter (\<lambda>p. fst p = a) (gate_decisions g)) = [d]"
      by (simp add: logged_of_def expected_log_def)
    then obtain p where p: "filter (\<lambda>p. fst p = a) (gate_decisions g) = [p]" "snd p = d" by (auto simp: map_eq_Cons_conv)
    then have "p \<in> set (filter (\<lambda>p. fst p = a) (gate_decisions g))" by simp
    then have "fst p = a" by simp
    with p show ?thesis by (cases p) simp
  qed
  with ok(2) show ?thesis by (auto simp: gate_log_inv_def decided_events_def)
qed

theorem returned_decision_published_once_witness:
  "gate_returned (await_cancel demo_gate 0) 0 = Some (''dismissed'', True)
   \<and> filter (\<lambda>p. fst p = 0) (gate_decisions (await_cancel demo_gate 0)) = [(0, ''dismissed'')]"
proof -
  have "gate_step demo_gate (await_cancel demo_gate 0)" by (rule gs_cancel) simp_all
  with demo_reachable have r: "gate_step\<^sup>*\<^sup>* (init_gate (\<lambda>i. idle_session i ''a'')) (await_cancel demo_gate 0)"
    by (rule rtranclp.rtrancl_into_rtrancl)
  have "gate_returned (await_cancel demo_gate 0) 0 = Some (''dismissed'', True)" by (simp add: await_cancel_def)
  with returned_decision_published_once [OF r] show ?thesis by blast
qed

section \<open>One pending decision per session\<close>

text \<open>
  \<^verbatim>\<open>beginWait\<close> gives a session one slot: a pending wait under another key is superseded.  A wait under the
  same key is not: it is overwritten in the table and stays blocked.  The runner asks about one call
  once at a time, but the call ids are the model server's, and two goroutines of one session can ask
  at once, so that is a condition on the environment: a step is \<^emph>\<open>orderly\<close> when a wait it begins is not
  under the key of a wait that is still blocked.
\<close>

definition orderly_step :: "gate \<Rightarrow> gate \<Rightarrow> bool" where
  "orderly_step g g' \<longleftrightarrow> gate_step g g'
     \<and> (gate_next g < gate_next g' \<longrightarrow> (\<forall>a \<in> set (gate_live g). akey g a \<noteq> akey g' (gate_next g)))"

definition slot_inv :: "gate \<Rightarrow> bool" where
  \<comment> \<open>blocked waits have different keys, the registered one is its session's pending one, and an
    undecided blocked wait is registered under its key, where a decision finds it\<close>
  "slot_inv g \<longleftrightarrow> inj_on (akey g) (set (gate_live g))
     \<and> (\<forall>k a. gate_waiting g k = Some a \<longrightarrow> gate_pending g (aw_sessionID (gate_heap g a)) = Some k)
     \<and> (\<forall>a \<in> set (gate_live g). \<not> aw_decided (gate_heap g a) \<longrightarrow> gate_waiting g (akey g a) = Some a)"

lemma slot_invD:
  assumes "slot_inv g"
  shows "a \<in> set (gate_live g) \<Longrightarrow> b \<in> set (gate_live g) \<Longrightarrow> akey g a = akey g b \<Longrightarrow> a = b"
    "gate_waiting g k = Some a \<Longrightarrow> gate_pending g (aw_sessionID (gate_heap g a)) = Some k"
    "a \<in> set (gate_live g) \<Longrightarrow> \<not> aw_decided (gate_heap g a) \<Longrightarrow> gate_waiting g (akey g a) = Some a"
  using assms by (auto simp: slot_inv_def inj_on_def)

lemma slot_inv_cong:
  assumes "gate_heap g' = gate_heap g" "gate_waiting g' = gate_waiting g" "gate_pending g' = gate_pending g" "gate_live g' = gate_live g"
  shows "slot_inv g' = slot_inv g"
proof -
  have "akey g' = akey g" by (rule ext) (simp add: akey_def assms)
  then show ?thesis by (simp add: slot_inv_def assms)
qed

lemma slot_inv_frame [simp]:
  "slot_inv (gate_emit e g) = slot_inv g" "slot_inv (fold gate_emit es g) = slot_inv g"
  "slot_inv (set_status g s st) = slot_inv g" "slot_inv (mailbox_error g a m) = slot_inv g"
  "slot_inv (publishDecision g a d) = slot_inv g"
  by (rule slot_inv_cong; simp add: mailbox_error_def)+

lemma slot_with_signal [simp]: "slot_inv g \<Longrightarrow> slot_inv (with_signal g a sg)"
  by (auto simp: slot_inv_def)

lemma slot_decide:
  assumes "gate_inv g" "slot_inv g" "DecideWith g sid callID d (fold gate_emit es) = Ok g'"
  shows "slot_inv g'"
  using assms(3) by (rule DecideWith_Ok [OF assms(1)]) (simp add: assms(2))

lemma slot_mailbox:
  assumes "gate_inv g" "slot_inv g" "mailbox_poll g a d err = Ok g'"
  shows "slot_inv g'"
proof (rule mailbox_poll_cases [OF assms(3)])
  fix g1 assume g1: "g1 = g \<or> (\<exists>m. g1 = mailbox_error g a m)"
    and c: "g' = g1 \<or> (\<exists>m. g' = mailbox_error g1 a m)
     \<or> DecideWith g1 (aw_sessionID (gate_heap g1 a)) (aw_callID (gate_heap g1 a)) d (fold gate_emit []) = Ok g'"
  have "gate_inv g1" "slot_inv g1" using g1 assms by auto
  with c slot_decide [of g1 _ _ d "[]" g'] show ?thesis by (auto simp del: fold.simps)
qed

lemma slot_finish:
  assumes inv: "gate_inv g" "slot_inv g" and live: "a \<in> set (gate_live g)"
    and heap: "gate_heap g' = (gate_heap g)(a := w)" "aw_sessionID w = aw_sessionID (gate_heap g a)" "aw_callID w = aw_callID (gate_heap g a)"
    and same: "gate_waiting g' = gate_waiting g" "gate_pending g' = gate_pending g" "gate_live g' = gate_live g"
  shows "slot_inv (finish_wait g' a d e)"
proof -
  have akey [simp]: "akey g' = akey g" by (rule ext) (simp add: akey_def heap)
  have sid [simp]: "aw_sessionID (gate_heap g' b) = aw_sessionID (gate_heap g b)" for b by (simp add: heap)
  have "gate_pending (finish_wait g' a d e) (aw_sessionID (gate_heap g b)) = Some k"
    if "gate_waiting g k = Some b" "b \<noteq> a" for k b
  proof -
    from gate_invD(5) [OF inv(1) that(1)] have b: "b \<in> set (gate_live g)" "k = akey g b" by simp_all
    with slot_invD(1) [OF inv(2) b(1) live] that(2) have "k \<noteq> akey g a" by auto
    with slot_invD(2) [OF inv(2) that(1)] show ?thesis by (intro finish_wait_pending) (auto simp: same)
  qed
  moreover have "b \<noteq> a" if "gate_waiting g k = Some b" "\<not> (k = akey g a \<and> b = a)" for k b
    using that gate_invD(5) [OF inv(1), of k b] by blast
  ultimately show ?thesis
    using inv(2) by (auto simp: slot_inv_def finish_wait_waiting same heap intro: inj_on_subset)
qed

definition begun :: "gate \<Rightarrow> string \<Rightarrow> string \<Rightarrow> string \<Rightarrow> approvalScopeKind \<Rightarrow> gate" where
  \<comment> \<open>the slot taken and the wait that held it superseded\<close>
  "begun g sid runID callID kind =
     (case prior_wait g sid callID of None \<Rightarrow> register g sid runID callID kind
      | Some p \<Rightarrow> with_signal (publishDecision (register g sid runID callID kind) p ''superseded'') p (''superseded'', True))"

lemma register_frame:
  assumes "gate_inv g" "c \<in> set (gate_live g)"
  shows "gate_heap (register g sid runID callID kind) c = gate_heap g c"
    "akey (register g sid runID callID kind) c = akey g c"
  using gate_invD(2) [OF assms] by (auto simp: register_def Let_def akey_def)

lemma register_new [simp]:
  "akey (register g sid runID callID kind) (gate_next g) = approvalKey sid callID"
  "gate_next (register g sid runID callID kind) = Suc (gate_next g)"
  "set (gate_live (register g sid runID callID kind)) = insert (gate_next g) (set (gate_live g))"
  "gate_waiting (register g sid runID callID kind) (approvalKey sid callID) = Some (gate_next g)"
  "\<not> aw_decided (gate_heap (register g sid runID callID kind) (gate_next g))"
  "aw_sessionID (gate_heap (register g sid runID callID kind) (gate_next g)) = sid"
  by (simp_all add: akey_def register_def Let_def)

lemma register_slot:
  assumes inv: "gate_inv g" "slot_inv g" and fresh: "\<forall>a \<in> set (gate_live g). akey g a \<noteq> approvalKey sid callID"
  shows "slot_inv (begun g sid runID callID kind)"
proof -
  let ?r = "register g sid runID callID kind" and ?n = "gate_next g" and ?k = "approvalKey sid callID"
  note frame = register_frame [OF inv(1), of _ sid runID callID kind]
  have waits: "gate_waiting ?r k = (if k = ?k then Some ?n else if k = lookup_str (gate_pending g) sid \<and> k \<noteq> [] then None else gate_waiting g k)" for k
    by (auto simp: register_def Let_def)
  have pend: "gate_pending ?r = (gate_pending g)(sid \<mapsto> ?k)" by (simp add: register_def Let_def)
  have "inj_on (akey ?r) (set (gate_live ?r))"
    using slot_invD(1) [OF inv(2)] fresh by (auto simp: inj_on_def frame)
  moreover have "gate_pending ?r (aw_sessionID (gate_heap ?r b)) = Some k" if w: "gate_waiting ?r k = Some b" for k b
  proof (cases "k = ?k")
    case True
    with w show ?thesis by (auto simp: pend)
  next
    case False
    with w have g: "gate_waiting g k = Some b" and np: "\<not> (k = lookup_str (gate_pending g) sid \<and> k \<noteq> [])"
      by (auto simp: waits split: if_splits)
    note b = gate_invD(5) [OF inv(1) g] and p = slot_invD(2) [OF inv(2) g]
    with np have "aw_sessionID (gate_heap g b) \<noteq> sid" by (auto simp: lookup_str_def)
    with b p show ?thesis by (simp add: frame pend)
  qed
  moreover have "gate_waiting ?r (akey ?r c) = Some c"
    if c: "c \<in> set (gate_live ?r)" "\<not> aw_decided (gate_heap ?r c)" "prior_wait g sid callID \<noteq> Some c" for c
  proof (cases "c = ?n")
    case False
    with c have cl: "c \<in> set (gate_live g)" by simp
    with c frame have u: "\<not> aw_decided (gate_heap g c)" by simp
    note w = slot_invD(3) [OF inv(2) cl u]
    have "akey g c \<noteq> lookup_str (gate_pending g) sid"
    proof
      assume e: "akey g c = lookup_str (gate_pending g) sid"
      with fresh cl akey_neq_Nil [of g c] have "lookup_str (gate_pending g) sid \<noteq> []"
        "lookup_str (gate_pending g) sid \<noteq> approvalKey sid callID" by fastforce+
      with w u have "prior_wait g sid callID = Some c" by (simp add: prior_wait_def Let_def e)
      with c(3) show False by contradiction
    qed
    with w cl fresh show ?thesis by (auto simp: frame waits)
  qed simp
  ultimately show ?thesis
    by (cases "prior_wait g sid callID") (auto simp: begun_def slot_inv_def)
qed

lemma slot_begin:
  assumes inv: "gate_inv g" "slot_inv g" and b: "beginWait g sid runID callID kind = Ok (g', n)"
    and fresh: "\<forall>a \<in> set (gate_live g). akey g a \<noteq> akey g' (gate_next g)"
  shows "slot_inv g'" "gate_next g < gate_next g'"
proof -
  let ?h = "begun g sid runID callID kind"
  have g': "g' = set_status ?h sid ''paused''" using b by (simp add: beginWait_eq [OF inv(1)] begun_def)
  have "akey ?h = akey (register g sid runID callID kind)" "gate_next ?h = Suc (gate_next g)"
    by (auto simp: begun_def split: option.split)
  then have "akey g' (gate_next g) = approvalKey sid callID" "gate_next g' = Suc (gate_next g)"
    by (simp_all add: g' akey_def set_status_def) (simp add: akey_def [symmetric])
  with register_slot [OF inv, of sid callID runID kind] fresh show "slot_inv g'" "gate_next g < gate_next g'"
    by (simp_all add: g')
qed

lemma beginWait_next:
  assumes "gate_inv g" "beginWait g sid runID callID kind = Ok (g', n)"
  shows "gate_next g < gate_next g'"
  using assms by (auto simp: beginWait_eq split: option.split)

lemma slot_step:
  assumes inv: "gate_inv g" and slot: "slot_inv g" and step: "orderly_step g g'"
  shows "slot_inv g'"
proof -
  from step have gs: "gate_step g g'" and fresh: "gate_next g < gate_next g' \<Longrightarrow> \<forall>a \<in> set (gate_live g). akey g a \<noteq> akey g' (gate_next g)"
    by (simp_all add: orderly_step_def)
  from gs show ?thesis
  proof (cases rule: gate_step_cases)
    case (asks sid callID runID kind g1 n d)
    have "\<forall>a \<in> set (gate_live g). akey g a \<noteq> akey g1 (gate_next g)"
      using fresh beginWait_next [OF inv asks(1)] by (simp add: asks(2) akey_def)
    from slot_begin [OF inv slot asks(1) this] show ?thesis by (simp add: asks(2))
  next
    case (decides es sid callID d)
    from slot_decide [OF inv slot decides(2)] show ?thesis .
  next
    case (cancels a)
    show ?thesis unfolding cancels(1) await_cancel_def
      by (rule slot_finish [OF inv slot cancels(2), where w = "(gate_heap g a)\<lparr>aw_decided := True\<rparr>"]) (simp_all add: mark_decided_def)
  next
    case (signals a sg)
    then show ?thesis
      by (cases sg) (auto simp: await_signal_def Let_def intro!: slot_finish [OF inv slot signals(2), where w = "(gate_heap g a)\<lparr>aw_chan := None\<rparr>"])
  next
    case (polls a d err)
    from slot_mailbox [OF inv slot polls(2)] show ?thesis .
  qed
qed

definition gate_slot_ok :: "gate \<Rightarrow> bool" where
  "gate_slot_ok g \<longleftrightarrow> gate_ok g \<and> slot_inv g"

interpretation orderly_gates: invariant_system gate_started orderly_step gate_slot_ok
proof
  fix g
  show "gate_started g \<Longrightarrow> gate_slot_ok g"
    using gates.start_inv [of g] by (auto simp: gate_slot_ok_def gate_started_def init_gate_def slot_inv_def)
next
  fix g g'
  assume g: "gate_slot_ok g" and step: "orderly_step g g'"
  then have "gate_ok g'" using gate_ok_step [of g g'] by (simp add: gate_slot_ok_def orderly_step_def)
  moreover have "slot_inv g'" using g slot_step [OF _ _ step] by (simp add: gate_slot_ok_def gate_ok_def)
  ultimately show "gate_slot_ok g'" by (simp add: gate_slot_ok_def)
qed

lemma orderly_run_ok: "orderly_step\<^sup>*\<^sup>* (init_gate ss) g \<Longrightarrow> gate_inv g \<and> slot_inv g"
  using orderly_gates.run_inv [of "init_gate ss" g] by (auto simp: gate_started_def gate_slot_ok_def gate_ok_def)

lemma demo_orderly: "orderly_step\<^sup>*\<^sup>* (init_gate (\<lambda>i. idle_session i ''a'')) demo_gate"
  by (rule r_into_rtranclp) (simp add: orderly_step_def gs_policy [OF demo_start], simp add: init_gate_def)

text \<open>C7. At most one decision is pending per session, and no blocked call is orphaned, as long as no
  call is asked about again while an earlier wait under the same session and call id is still blocked
  (the runs of \<open>orderly_step\<close>): two registered waits of one session are the same wait, and a
  call that is still blocked without an answer is registered, so that every answer that fits its
  question is accepted.\<close>

theorem one_pending_decision_per_session:
  assumes "orderly_step\<^sup>*\<^sup>* (init_gate ss) g"
  shows "(\<forall>k a k' a'. gate_waiting g k = Some a \<and> gate_waiting g k' = Some a'
      \<and> aw_sessionID (gate_heap g a) = aw_sessionID (gate_heap g a') \<longrightarrow> k = k' \<and> a = a')
    \<and> (\<forall>a \<in> set (gate_live g). aw_chan (gate_heap g a) \<noteq> None
      \<or> (\<forall>d \<in> set (decisions_for (aw_scopeKind (gate_heap g a))).
           \<exists>g'. Decide g (aw_sessionID (gate_heap g a)) (aw_callID (gate_heap g a)) d = Ok g'))"
proof (intro conjI allI impI ballI)
  have ok: "gate_inv g" "slot_inv g" using orderly_run_ok [OF assms] by simp_all
  fix k a k' a' assume "gate_waiting g k = Some a \<and> gate_waiting g k' = Some a'
      \<and> aw_sessionID (gate_heap g a) = aw_sessionID (gate_heap g a')"
  with slot_invD(2) [OF ok(2)] show "k = k'" "a = a'" by (metis option.inject)+
next
  have ok: "gate_inv g" "slot_inv g" using orderly_run_ok [OF assms] by simp_all
  fix a assume a: "a \<in> set (gate_live g)"
  show "aw_chan (gate_heap g a) \<noteq> None \<or> (\<forall>d \<in> set (decisions_for (aw_scopeKind (gate_heap g a))).
           \<exists>g'. Decide g (aw_sessionID (gate_heap g a)) (aw_callID (gate_heap g a)) d = Ok g')"
  proof (cases "aw_decided (gate_heap g a)")
    case False
    with slot_invD(3) [OF ok(2) a] have "gate_waiting g (approvalKey (aw_sessionID (gate_heap g a)) (aw_callID (gate_heap g a))) = Some a"
      by (simp add: akey_def)
    from DecideWith_table [OF this False, of _ id] signal_undecided [OF ok(1) a False] show ?thesis
      by (auto simp: Decide_def)
  qed (use gate_invD(6) [OF ok(1) a] in blast)
qed

theorem one_pending_decision_per_session_witness:
  "gate_live demo_gate = [0] \<and> (\<exists>g'. Decide demo_gate ''s'' ''c'' ''deny'' = Ok g')"
  using one_pending_decision_per_session [OF demo_orderly] by simp

section \<open>A reused call id\<close>

definition orphan :: "nat \<Rightarrow> gate \<Rightarrow> bool" where
  "orphan a g \<longleftrightarrow> a \<in> set (gate_live g) \<and> \<not> aw_decided (gate_heap g a) \<and> (\<forall>k. gate_waiting g k \<noteq> Some a)"

definition abandoned :: "nat \<Rightarrow> gate \<Rightarrow> bool" where
  "abandoned a g \<longleftrightarrow> orphan a g \<or> gate_returned g a = Some (''dismissed'', True)"

lemma abandoned_emit [simp]:
  "abandoned a (gate_emit e g) = abandoned a g" "abandoned a (fold gate_emit es g) = abandoned a g"
  "abandoned a (set_status g s st) = abandoned a g" "abandoned a (mailbox_error g b m) = abandoned a g"
  by (simp_all add: abandoned_def orphan_def mailbox_error_def)

lemma abandoned_live:
  assumes "gate_inv g" "abandoned a g" "b \<in> set (gate_live g)" "gate_waiting g k = Some b \<or> aw_decided (gate_heap g b)"
  shows "b \<noteq> a"
  using assms gate_invD(3) [OF assms(1,3)] by (auto simp: abandoned_def orphan_def)

lemma abandoned_with_signal: "b \<noteq> a \<Longrightarrow> abandoned a g \<Longrightarrow> abandoned a (with_signal g b sg)"
  by (auto simp: abandoned_def orphan_def)

lemma abandoned_finish:
  assumes "abandoned a g" "b \<noteq> a" "gate_heap g' a = gate_heap g a" "gate_live g' = gate_live g"
    "gate_waiting g' = gate_waiting g" "gate_returned g' = gate_returned g"
  shows "abandoned a (finish_wait g' b d e)"
  using assms by (auto simp: abandoned_def orphan_def finish_wait_waiting)

lemma abandoned_decide:
  assumes "gate_inv g" "abandoned a g" "DecideWith g sid callID d (fold gate_emit es) = Ok g'"
  shows "abandoned a g'"
  using assms(3) by (rule DecideWith_Ok [OF assms(1)])
    (use abandoned_live [OF assms(1,2)] assms(2) in \<open>auto intro!: abandoned_with_signal\<close>)

lemma abandoned_register:
  assumes "gate_inv g" "a \<noteq> gate_next g" "abandoned a g"
  shows "abandoned a (register g sid runID callID kind)"
  using assms by (auto simp: abandoned_def orphan_def register_def Let_def)

lemma abandoned_begin:
  assumes inv: "gate_inv g" and r: "abandoned a (register g sid runID callID kind)" and p: "prior_wait g sid callID \<noteq> Some a"
    and b: "beginWait g sid runID callID kind = Ok (g', n)"
  shows "abandoned a g'"
  using b r p by (auto simp: beginWait_eq [OF inv] abandoned_def orphan_def split: option.splits)

lemma abandoned_step:
  assumes inv: "gate_inv g" and ab: "abandoned a g" and step: "gate_step g g'"
  shows "abandoned a g'"
  using step
proof (cases rule: gate_step_cases)
  case (asks sid callID runID kind g1 n d)
  have "a \<noteq> gate_next g" using ab gate_invD(2) [OF inv, of a] gate_invD(4) [OF inv, of a] by (auto simp: abandoned_def orphan_def)
  moreover have "prior_wait g sid callID \<noteq> Some a"
    using ab gate_invD(3) [OF inv] prior_wait_live [OF inv, of sid callID a]
    by (auto simp: prior_wait_def Let_def abandoned_def orphan_def split: if_splits option.splits)
  ultimately show ?thesis
    using abandoned_begin [OF inv abandoned_register [OF inv _ ab] _ asks(1)] by (simp add: asks(2))
next
  case (cancels b)
  show ?thesis
  proof (cases "b = a")
    case True
    then show ?thesis by (simp add: cancels(1) await_cancel_def abandoned_def)
  next
    case False
    then show ?thesis unfolding cancels(1) await_cancel_def
      by (intro abandoned_finish [OF ab]) (simp_all add: mark_decided_def)
  qed
next
  case (signals b sg)
  have "b \<noteq> a" using abandoned_live [OF inv ab signals(2)] gate_invD(6) [OF inv signals(2)] signals(3) by simp
  then show ?thesis using signals(1) by (cases sg) (auto simp: await_signal_def Let_def intro!: abandoned_finish [OF ab])
next
  case (polls b d err)
  show ?thesis
  proof (rule mailbox_poll_cases [OF polls(2)])
    fix g1 assume g1: "g1 = g \<or> (\<exists>m. g1 = mailbox_error g b m)"
      and c: "g' = g1 \<or> (\<exists>m. g' = mailbox_error g1 b m)
       \<or> DecideWith g1 (aw_sessionID (gate_heap g1 b)) (aw_callID (gate_heap g1 b)) d (fold gate_emit []) = Ok g'"
    have "gate_inv g1" "abandoned a g1" using g1 inv ab by auto
    with c abandoned_decide [of g1 a _ _ d "[]" g'] show ?thesis by (auto simp del: fold.simps)
  qed
qed (use abandoned_decide [OF inv ab] in blast)

text \<open>C35. Outside orderly runs the slot is not kept: when a second question is asked under the session
  and call id of a wait that is still blocked, the first wait is overwritten in the table without
  being superseded.  Whatever happens afterwards, no decision and no mailbox answer reaches it and no
  newer question supersedes it: it stays blocked with an empty channel until its run is cancelled.\<close>

theorem reused_call_id_orphans_the_wait:
  assumes run: "gate_step\<^sup>*\<^sup>* (init_gate ss) g" and live: "a \<in> set (gate_live g)" and und: "\<not> aw_decided (gate_heap g a)"
    and again: "startPolicyWait g (aw_sessionID (gate_heap g a)) runID (aw_callID (gate_heap g a)) name args = Ok (g', n)"
    and more: "gate_step\<^sup>*\<^sup>* g' g''"
  shows "(a \<in> set (gate_live g'') \<and> aw_chan (gate_heap g'' a) = None \<and> (\<forall>k. gate_waiting g'' k \<noteq> Some a))
    \<or> gate_returned g'' a = Some (''dismissed'', True)"
proof -
  let ?s = "aw_sessionID (gate_heap g a)" and ?c = "aw_callID (gate_heap g a)"
  have ok: "gate_ok g" by (rule gate_run_ok [OF run])
  then have inv: "gate_inv g" by (simp add: gate_ok_def)
  from start_waits_begin(1) [OF again] obtain g1 kind d where b: "beginWait g ?s runID ?c kind = Ok (g1, n)"
    and g': "g' = gate_emit (approval_event ?s runID d) g1" by blast
  have lt: "a \<noteq> gate_next g" using gate_invD(2) [OF inv live] by simp
  have "abandoned a (register g ?s runID ?c kind)"
    using live und lt gate_invD(5) [OF inv, of _ a] by (auto simp: abandoned_def orphan_def register_def Let_def akey_def)
  moreover have "prior_wait g ?s ?c \<noteq> Some a"
    using gate_invD(5) [OF inv, of _ a] by (auto simp: prior_wait_def Let_def akey_def split: if_splits option.splits)
  ultimately have "abandoned a g'" using abandoned_begin [OF inv _ _ b] by (simp add: g')
  moreover have ok': "gate_ok g'" by (rule gate_ok_step [OF ok gs_policy [OF again]])
  ultimately have "abandoned a g''"
    using gates.stable [OF more ok', of "abandoned a"] abandoned_step by (auto simp: gate_ok_def)
  moreover have "gate_inv g''" using gates.steps_inv [OF more ok'] by (simp add: gate_ok_def)
  ultimately show ?thesis using undecided_empty by (auto simp: abandoned_def orphan_def)
qed

theorem reused_call_id_orphans_the_wait_witness:
  "\<exists>g'. startPolicyWait demo_gate ''s'' ''r2'' ''c'' ''shell'' [] = Ok (g', 1)
     \<and> gate_waiting g' (approvalKey ''s'' ''c'') = Some 1
     \<and> 0 \<in> set (gate_live g') \<and> (\<forall>k. gate_waiting g' k \<noteq> Some 0)"
proof -
  have inv: "gate_inv demo_gate" using gate_run_ok [OF demo_reachable] by (simp add: gate_ok_def)
  have n: "gate_next demo_gate = 1"
    by (simp add: demo_gate_def startPolicyWait_def beginWait_def Let_def init_gate_def lookup_str_def)
  obtain g' where g': "startPolicyWait demo_gate ''s'' ''r2'' ''c'' ''shell'' [] = Ok (g', 1)"
    by (simp add: startPolicyWait_def beginWait_eq [OF inv] n)
  have w: "gate_waiting g' (approvalKey ''s'' ''c'') = Some 1" "0 \<in> set (gate_live g')" "gate_returned g' 0 = None"
    using g' gate_invD(3) [OF inv, of 0]
    by (auto simp: startPolicyWait_def beginWait_eq [OF inv] n prior_wait_def Let_def split: option.splits) (simp_all add: register_def Let_def n)
  have "0 \<in> set (gate_live demo_gate)" "\<not> aw_decided (gate_heap demo_gate 0)" by simp_all
  from reused_call_id_orphans_the_wait [OF demo_reachable this, of "''r2''" "''shell''" "[]" g' 1 g'] g' w
  show ?thesis by auto
qed

end
