(* ===== verification/Grants.thy ===== *)
theory Grants
  imports Events_Model Session_Model "HOL-Library.Product_Lexorder" "HOL-Library.List_Lexorder" "HOL-Library.Char_ord"
begin

text \<open>
  The operator's standing approvals: \<^verbatim>\<open>internal/agent/shell_grant.go\<close> and
  \<^verbatim>\<open>internal/agent/file_grant.go\<close>.  The runner keeps six maps, each behind its own mutex; a missing
  key reads as the zero value, so a map to slices, strings or booleans is a total function.  The
  record \<open>grants\<close> holds the six maps and the events published about them.

  The locale \<open>tracked_permission\<close> is the contract a permission offers to tool execution: each operation
  either starts it, ends it, or leaves it alone.  It follows that the permission is in force exactly
  when some operation started it and none has ended it since.  The locale is interpreted for each of
  the six stores, over one datatype of all grant operations, so the laws also say that no operation
  on one store disturbs another.
\<close>

record shellRunGrant =
  sg_Rule :: string
  sg_Identity :: string
  sg_Executable :: string

record grants =
  gr_shellGrants :: "string \<Rightarrow> shellRunGrant list"
  gr_shellSessionGrants :: "string \<Rightarrow> (shellRunGrant \<times> string) list" \<comment> \<open>grant and its run\<close>
  gr_identityChatGrants :: "string \<Rightarrow> string"
  gr_policyChatGrants :: "string \<Rightarrow> string \<Rightarrow> bool"
  gr_fileRunGrants :: "string \<Rightarrow> bool"
  gr_fileSessionGrants :: "string \<Rightarrow> string"
  gr_events :: "event list"

definition no_grants :: grants where
  "no_grants = \<lparr>gr_shellGrants = (\<lambda>_. []), gr_shellSessionGrants = (\<lambda>_. []), gr_identityChatGrants = (\<lambda>_. []),
     gr_policyChatGrants = (\<lambda>_ _. False), gr_fileRunGrants = (\<lambda>_. False), gr_fileSessionGrants = (\<lambda>_. []), gr_events = []\<rparr>"

definition shellGrantPolicy :: string where "shellGrantPolicy = ''shell_policy''"
definition shellGrantBoundary :: string where "shellGrantBoundary = ''shell_boundary''"
definition shellGrantOperatorCommand :: string where "shellGrantOperatorCommand = ''operator_command''"

definition shellGrantKey :: "string \<Rightarrow> string \<Rightarrow> string" where
  "shellGrantKey sessionID runID = sessionID @ [CHR 0x00] @ runID"

definition grants_emit :: "event \<Rightarrow> grants \<Rightarrow> grants" where
  "grants_emit e g = g\<lparr>gr_events := gr_events g @ [e]\<rparr>"

interpretation grants_emitter: event_emitter grants_emit gr_events
  by unfold_locales (simp add: grants_emit_def)

definition same_grant :: "shellRunGrant \<Rightarrow> string \<Rightarrow> string \<Rightarrow> bool" where
  "same_grant grant rule executable \<longleftrightarrow> sg_Rule grant = rule \<and> equal_fold (sg_Executable grant) executable"

definition hasShellGrant :: "grants \<Rightarrow> string \<Rightarrow> string \<Rightarrow> string \<Rightarrow> string \<Rightarrow> bool" where
  "hasShellGrant g sessionID runID rule executable \<longleftrightarrow>
     (\<exists>grant \<in> set (gr_shellGrants g (shellGrantKey sessionID runID)). same_grant grant rule executable)
     \<or> (\<exists>stored \<in> set (gr_shellSessionGrants g sessionID). same_grant (fst stored) rule executable)"

definition shellGrantData :: "string \<Rightarrow> string \<Rightarrow> shellRunGrant \<Rightarrow> string \<Rightarrow> gmap" where
  "shellGrantData runID scope grant reason =
     [(''run_id'', GStr runID), (''scope'', GStr scope), (''rule'', GStr (sg_Rule grant)), (''identity'', GStr (sg_Identity grant))]
     @ (if sg_Executable grant \<noteq> [] then [(''executable'', GStr (sg_Executable grant))] else [])
     @ (if reason \<noteq> [] then [(''reason'', GStr reason)] else [])"

definition grantShellSession :: "grants \<Rightarrow> string \<Rightarrow> string \<Rightarrow> shellRunGrant \<Rightarrow> grants" where
  "grantShellSession g sid runID grant =
     (if \<exists>existing \<in> set (gr_shellSessionGrants g sid). same_grant (fst existing) (sg_Rule grant) (sg_Executable grant)
      then g
      else grants_emit (events_New ''shell.grant'' sid runID (GMap (shellGrantData runID ''session'' grant [])))
        (g\<lparr>gr_shellSessionGrants := (gr_shellSessionGrants g)(sid := gr_shellSessionGrants g sid @ [(grant, runID)])\<rparr>))"

definition grantShellRun :: "grants \<Rightarrow> string \<Rightarrow> string \<Rightarrow> shellRunGrant \<Rightarrow> grants" where
  "grantShellRun g sid runID grant =
     (let key = shellGrantKey sid runID in
      if \<exists>existing \<in> set (gr_shellGrants g key). same_grant existing (sg_Rule grant) (sg_Executable grant)
      then g
      else grants_emit (events_New ''shell.grant'' sid runID (GMap (shellGrantData runID ''run'' grant [])))
        (g\<lparr>gr_shellGrants := (gr_shellGrants g)(key := gr_shellGrants g key @ [grant])\<rparr>))"

definition grant_order :: "shellRunGrant \<Rightarrow> string \<times> string" where
  "grant_order grant = (sg_Rule grant, sg_Executable grant)"

definition lapseShellGrants :: "grants \<Rightarrow> string \<Rightarrow> string \<Rightarrow> grants" where
  "lapseShellGrants g sid runID =
     (let key = shellGrantKey sid runID;
          lapsed = sort_key grant_order (gr_shellGrants g key);
          g1 = g\<lparr>gr_shellGrants := (gr_shellGrants g)(key := [])\<rparr>
      in fold (\<lambda>grant. grants_emit (events_New ''shell.grant_lapsed'' sid runID (GMap (shellGrantData runID ''run'' grant ''run ended''))))
           lapsed g1)"

definition publishFileGrant :: "grants \<Rightarrow> string \<Rightarrow> string \<Rightarrow> string \<Rightarrow> string \<Rightarrow> string \<Rightarrow> grants" where
  "publishFileGrant g eventType sessionID runID scope reason =
     grants_emit (events_New eventType sessionID runID (GMap
       ([(''run_id'', GStr runID), (''scope'', GStr scope), (''identity'', GStr ''operator'')]
        @ (if reason \<noteq> [] then [(''reason'', GStr reason)] else [])))) g"

definition lapseSessionGrants_with :: "grants \<Rightarrow> string \<Rightarrow> string \<Rightarrow> grants" where
  \<comment> \<open>\<^verbatim>\<open>lapseSessionGrants(sessionID, reason)\<close>\<close>
  "lapseSessionGrants_with g sid reason =
     (let g1 = g\<lparr>gr_identityChatGrants := (gr_identityChatGrants g)(sid := []),
                 gr_policyChatGrants := (gr_policyChatGrants g)(sid := (\<lambda>_. False))\<rparr>;
          lapsed = sort_key (grant_order \<circ> fst) (gr_shellSessionGrants g1 sid);
          g2 = g1\<lparr>gr_shellSessionGrants := (gr_shellSessionGrants g1)(sid := [])\<rparr>;
          g3 = fold (\<lambda>stored. grants_emit (events_New ''shell.grant_lapsed'' sid (snd stored)
                 (GMap (shellGrantData (snd stored) ''session'' (fst stored) reason)))) lapsed g2;
          fileRunID = gr_fileSessionGrants g3 sid;
          g4 = g3\<lparr>gr_fileSessionGrants := (gr_fileSessionGrants g3)(sid := [])\<rparr>
      in if fileRunID \<noteq> [] then publishFileGrant g4 ''file.grant_lapsed'' sid fileRunID ''session'' reason else g4)"

definition LapseSessionGrants :: "grants \<Rightarrow> string \<Rightarrow> grants" where
  "LapseSessionGrants g sid = lapseSessionGrants_with g sid ''session closed''"

definition RevokeSessionGrants :: "grants \<Rightarrow> string \<Rightarrow> grants" where
  "RevokeSessionGrants g sid = lapseSessionGrants_with g sid ''revoked by operator''"

definition hasIdentityChatGrant :: "grants \<Rightarrow> string \<Rightarrow> bool" where
  "hasIdentityChatGrant g sid \<longleftrightarrow> gr_identityChatGrants g sid \<noteq> []"

definition grantIdentityChat :: "grants \<Rightarrow> string \<Rightarrow> string \<Rightarrow> grants" where
  "grantIdentityChat g sid runID = g\<lparr>gr_identityChatGrants := (gr_identityChatGrants g)(sid := runID)\<rparr>"

definition hasPolicyChatGrant :: "grants \<Rightarrow> string \<Rightarrow> string \<Rightarrow> bool" where
  "hasPolicyChatGrant g sid name = gr_policyChatGrants g sid name"

definition grantPolicyChat :: "grants \<Rightarrow> string \<Rightarrow> string \<Rightarrow> grants" where
  "grantPolicyChat g sid name = g\<lparr>gr_policyChatGrants := (gr_policyChatGrants g)(sid := (gr_policyChatGrants g sid)(name := True))\<rparr>"

definition fileGrantTool :: "string \<Rightarrow> bool" where
  "fileGrantTool name \<longleftrightarrow> name \<in> {''read_file'', ''list_dir'', ''write_file'', ''edit_file'', ''search_text'', ''find_files''}"

definition hasFileGrant :: "grants \<Rightarrow> string \<Rightarrow> string \<Rightarrow> bool" where
  "hasFileGrant g sid runID \<longleftrightarrow> gr_fileRunGrants g (shellGrantKey sid runID) \<or> gr_fileSessionGrants g sid \<noteq> []"

definition grantFileRun :: "grants \<Rightarrow> string \<Rightarrow> string \<Rightarrow> grants" where
  "grantFileRun g sid runID =
     (let key = shellGrantKey sid runID in
      if gr_fileRunGrants g key then g
      else publishFileGrant (g\<lparr>gr_fileRunGrants := (gr_fileRunGrants g)(key := True)\<rparr>) ''file.grant'' sid runID ''run'' [])"

definition grantFileSession :: "grants \<Rightarrow> string \<Rightarrow> string \<Rightarrow> grants" where
  "grantFileSession g sid runID =
     (if gr_fileSessionGrants g sid \<noteq> [] then g
      else publishFileGrant (g\<lparr>gr_fileSessionGrants := (gr_fileSessionGrants g)(sid := runID)\<rparr>) ''file.grant'' sid runID ''session'' [])"

definition lapseFileRunGrant :: "grants \<Rightarrow> string \<Rightarrow> string \<Rightarrow> grants" where
  "lapseFileRunGrant g sid runID =
     (let key = shellGrantKey sid runID; granted = gr_fileRunGrants g key;
          g1 = g\<lparr>gr_fileRunGrants := (gr_fileRunGrants g)(key := False)\<rparr>
      in if granted then publishFileGrant g1 ''file.grant_lapsed'' sid runID ''run'' ''run ended'' else g1)"

section \<open>Permissions over a history of operations\<close>

fun holds_since :: "('o \<Rightarrow> bool) \<Rightarrow> ('o \<Rightarrow> bool) \<Rightarrow> 'o list \<Rightarrow> bool" where
  \<comment> \<open>latest operation first: started, and not ended since\<close>
  "holds_since starts ends [] \<longleftrightarrow> False"
| "holds_since starts ends (x # xs) \<longleftrightarrow> starts x \<or> (\<not> ends x \<and> holds_since starts ends xs)"

locale tracked_permission =
  fixes has :: "'s \<Rightarrow> bool" and exec_op :: "'s \<Rightarrow> 'o \<Rightarrow> 's" and starts ends ok :: "'o \<Rightarrow> bool"
  assumes has_op: "ok x \<Longrightarrow> has (exec_op s x) \<longleftrightarrow> starts x \<or> (has s \<and> \<not> ends x)"
begin

lemma history:
  assumes "\<forall>x \<in> set ops. ok x" "\<not> has s"
  shows "has (foldl exec_op s ops) \<longleftrightarrow> holds_since starts ends (rev ops)"
  using assms(1) by (induction ops rule: rev_induct) (auto simp: assms(2) has_op)

lemma ended:
  assumes "\<forall>x \<in> set ops. ok x \<and> \<not> starts x" "ok y" "ends y" "\<not> starts y"
  shows "\<not> has (foldl exec_op s (y # ops))"
proof -
  have "\<not> has (foldl exec_op t ops)" if "\<not> has t" for t
    using assms(1) that by (induction ops arbitrary: t) (simp_all add: has_op)
  then show ?thesis by (simp add: has_op assms)
qed

end

datatype grant_op =
    ShellRun string string shellRunGrant
  | ShellSession string string shellRunGrant
  | LapseShell string string
  | LapseSession string string
  | IdentityChat string string
  | PolicyChat string string
  | FileRun string string
  | FileSession string string
  | LapseFile string string

fun apply_grant_op :: "grants \<Rightarrow> grant_op \<Rightarrow> grants" where
  "apply_grant_op g (ShellRun sid r gr) = grantShellRun g sid r gr"
| "apply_grant_op g (ShellSession sid r gr) = grantShellSession g sid r gr"
| "apply_grant_op g (LapseShell sid r) = lapseShellGrants g sid r"
| "apply_grant_op g (LapseSession sid reason) = lapseSessionGrants_with g sid reason"
| "apply_grant_op g (IdentityChat sid r) = grantIdentityChat g sid r"
| "apply_grant_op g (PolicyChat sid name) = grantPolicyChat g sid name"
| "apply_grant_op g (FileRun sid r) = grantFileRun g sid r"
| "apply_grant_op g (FileSession sid r) = grantFileSession g sid r"
| "apply_grant_op g (LapseFile sid r) = lapseFileRunGrant g sid r"

fun grant_op_ok :: "grant_op \<Rightarrow> bool" where
  \<comment> \<open>session identifiers are NUL-free and run identifiers are not empty\<close>
  "grant_op_ok (ShellRun sid r _) \<longleftrightarrow> CHR 0x00 \<notin> set sid"
| "grant_op_ok (LapseShell sid r) \<longleftrightarrow> CHR 0x00 \<notin> set sid"
| "grant_op_ok (FileRun sid r) \<longleftrightarrow> CHR 0x00 \<notin> set sid"
| "grant_op_ok (LapseFile sid r) \<longleftrightarrow> CHR 0x00 \<notin> set sid"
| "grant_op_ok (IdentityChat sid r) \<longleftrightarrow> r \<noteq> []"
| "grant_op_ok (FileSession sid r) \<longleftrightarrow> r \<noteq> []"
| "grant_op_ok _ \<longleftrightarrow> True"

lemma shellGrantKey_inject:
  "CHR 0x00 \<notin> set s \<Longrightarrow> CHR 0x00 \<notin> set s' \<Longrightarrow> shellGrantKey s c = shellGrantKey s' c' \<longleftrightarrow> s = s' \<and> c = c'"
  unfolding shellGrantKey_def by (rule nul_key_inject)

lemma grants_emit_frame [simp]:
  "gr_shellGrants (grants_emit e g) = gr_shellGrants g" "gr_shellSessionGrants (grants_emit e g) = gr_shellSessionGrants g"
  "gr_identityChatGrants (grants_emit e g) = gr_identityChatGrants g" "gr_policyChatGrants (grants_emit e g) = gr_policyChatGrants g"
  "gr_fileRunGrants (grants_emit e g) = gr_fileRunGrants g" "gr_fileSessionGrants (grants_emit e g) = gr_fileSessionGrants g"
  by (simp_all add: grants_emit_def)

lemma grants_emits_frame [simp]:
  "gr_shellGrants (fold (\<lambda>x. grants_emit (f x)) xs g) = gr_shellGrants g"
  "gr_shellSessionGrants (fold (\<lambda>x. grants_emit (f x)) xs g) = gr_shellSessionGrants g"
  "gr_identityChatGrants (fold (\<lambda>x. grants_emit (f x)) xs g) = gr_identityChatGrants g"
  "gr_policyChatGrants (fold (\<lambda>x. grants_emit (f x)) xs g) = gr_policyChatGrants g"
  "gr_fileRunGrants (fold (\<lambda>x. grants_emit (f x)) xs g) = gr_fileRunGrants g"
  "gr_fileSessionGrants (fold (\<lambda>x. grants_emit (f x)) xs g) = gr_fileSessionGrants g"
  by (induction xs arbitrary: g) simp_all

lemmas grant_ops = grantShellRun_def grantShellSession_def lapseShellGrants_def lapseSessionGrants_with_def
  grantIdentityChat_def grantPolicyChat_def grantFileRun_def grantFileSession_def lapseFileRunGrant_def
  publishFileGrant_def Let_def

lemma same_grant_trans:
  "same_grant e (sg_Rule gr) (sg_Executable gr) \<Longrightarrow> same_grant gr rule ex \<Longrightarrow> same_grant e rule ex"
  by (auto simp: same_grant_def equal_fold_def)

interpretation shell_run: tracked_permission
  "\<lambda>g. \<exists>grant \<in> set (gr_shellGrants g (shellGrantKey sid rid)). same_grant grant rule ex" apply_grant_op
  "\<lambda>x. \<exists>gr. x = ShellRun sid rid gr \<and> same_grant gr rule ex" "\<lambda>x. x = LapseShell sid rid"
  "\<lambda>x. grant_op_ok x \<and> CHR 0x00 \<notin> set sid" for sid rid rule ex
proof
  fix x :: grant_op and s :: grants
  assume "grant_op_ok x \<and> CHR 0x00 \<notin> set sid"
  then show "(\<exists>grant \<in> set (gr_shellGrants (apply_grant_op s x) (shellGrantKey sid rid)). same_grant grant rule ex)
    \<longleftrightarrow> (\<exists>gr. x = ShellRun sid rid gr \<and> same_grant gr rule ex)
      \<or> ((\<exists>grant \<in> set (gr_shellGrants s (shellGrantKey sid rid)). same_grant grant rule ex) \<and> x \<noteq> LapseShell sid rid)"
    by (cases x) (auto simp: grant_ops shellGrantKey_inject intro: same_grant_trans)
qed

interpretation shell_session: tracked_permission
  "\<lambda>g. \<exists>stored \<in> set (gr_shellSessionGrants g sid). same_grant (fst stored) rule ex" apply_grant_op
  "\<lambda>x. \<exists>r gr. x = ShellSession sid r gr \<and> same_grant gr rule ex" "\<lambda>x. \<exists>reason. x = LapseSession sid reason"
  grant_op_ok for sid rule ex
proof
  fix x :: grant_op and s :: grants
  assume "grant_op_ok x"
  then show "(\<exists>stored \<in> set (gr_shellSessionGrants (apply_grant_op s x) sid). same_grant (fst stored) rule ex)
    \<longleftrightarrow> (\<exists>r gr. x = ShellSession sid r gr \<and> same_grant gr rule ex)
      \<or> ((\<exists>stored \<in> set (gr_shellSessionGrants s sid). same_grant (fst stored) rule ex) \<and> \<not> (\<exists>reason. x = LapseSession sid reason))"
    by (cases x) (auto simp: grant_ops intro: same_grant_trans)
qed

interpretation identity_chat: tracked_permission "\<lambda>g. hasIdentityChatGrant g sid" apply_grant_op
  "\<lambda>x. \<exists>r. x = IdentityChat sid r" "\<lambda>x. \<exists>reason. x = LapseSession sid reason" grant_op_ok for sid
proof
  fix x :: grant_op and s :: grants
  assume "grant_op_ok x"
  then show "hasIdentityChatGrant (apply_grant_op s x) sid \<longleftrightarrow> (\<exists>r. x = IdentityChat sid r)
      \<or> (hasIdentityChatGrant s sid \<and> \<not> (\<exists>reason. x = LapseSession sid reason))"
    by (cases x) (auto simp: grant_ops hasIdentityChatGrant_def)
qed

interpretation policy_chat: tracked_permission "\<lambda>g. hasPolicyChatGrant g sid name" apply_grant_op
  "\<lambda>x. x = PolicyChat sid name" "\<lambda>x. \<exists>reason. x = LapseSession sid reason" grant_op_ok for sid name
proof
  fix x :: grant_op and s :: grants
  show "hasPolicyChatGrant (apply_grant_op s x) sid name \<longleftrightarrow> x = PolicyChat sid name
      \<or> (hasPolicyChatGrant s sid name \<and> \<not> (\<exists>reason. x = LapseSession sid reason))"
    by (cases x) (auto simp: grant_ops hasPolicyChatGrant_def)
qed

interpretation file_run: tracked_permission "\<lambda>g. gr_fileRunGrants g (shellGrantKey sid rid)" apply_grant_op
  "\<lambda>x. x = FileRun sid rid" "\<lambda>x. x = LapseFile sid rid" "\<lambda>x. grant_op_ok x \<and> CHR 0x00 \<notin> set sid" for sid rid
proof
  fix x :: grant_op and s :: grants
  assume "grant_op_ok x \<and> CHR 0x00 \<notin> set sid"
  then show "gr_fileRunGrants (apply_grant_op s x) (shellGrantKey sid rid) \<longleftrightarrow> x = FileRun sid rid
      \<or> (gr_fileRunGrants s (shellGrantKey sid rid) \<and> x \<noteq> LapseFile sid rid)"
    by (cases x) (auto simp: grant_ops shellGrantKey_inject)
qed

interpretation file_session: tracked_permission "\<lambda>g. gr_fileSessionGrants g sid \<noteq> []" apply_grant_op
  "\<lambda>x. \<exists>r. x = FileSession sid r" "\<lambda>x. \<exists>reason. x = LapseSession sid reason" grant_op_ok for sid
proof
  fix x :: grant_op and s :: grants
  assume "grant_op_ok x"
  then show "(gr_fileSessionGrants (apply_grant_op s x) sid \<noteq> []) \<longleftrightarrow> (\<exists>r. x = FileSession sid r)
      \<or> ((gr_fileSessionGrants s sid \<noteq> []) \<and> \<not> (\<exists>reason. x = LapseSession sid reason))"
    by (cases x) (auto simp: grant_ops)
qed

text \<open>C15. A standing approval is in force exactly when its history says so.  For every sequence of grant
  and lapse operations, a shell grant for a rule and executable holds in a run if and only if it was
  granted to that run and that run has not ended since, or to that session and the session's grants
  have not lapsed since; the file grant, the identity grant and the policy grant obey the same rule, and
  no operation for one of them, for another session or for another run interferes.\<close>

theorem grants_follow_history:
  assumes "\<forall>x \<in> set ops. grant_op_ok x" "CHR 0x00 \<notin> set sid"
  shows "(hasShellGrant (foldl apply_grant_op no_grants ops) sid rid rule ex \<longleftrightarrow>
       holds_since (\<lambda>x. \<exists>gr. x = ShellRun sid rid gr \<and> same_grant gr rule ex) (\<lambda>x. x = LapseShell sid rid) (rev ops)
       \<or> holds_since (\<lambda>x. \<exists>r gr. x = ShellSession sid r gr \<and> same_grant gr rule ex) (\<lambda>x. \<exists>reason. x = LapseSession sid reason) (rev ops))
    \<and> (hasFileGrant (foldl apply_grant_op no_grants ops) sid rid \<longleftrightarrow>
       holds_since (\<lambda>x. x = FileRun sid rid) (\<lambda>x. x = LapseFile sid rid) (rev ops)
       \<or> holds_since (\<lambda>x. \<exists>r. x = FileSession sid r) (\<lambda>x. \<exists>reason. x = LapseSession sid reason) (rev ops))
    \<and> (hasIdentityChatGrant (foldl apply_grant_op no_grants ops) sid \<longleftrightarrow>
       holds_since (\<lambda>x. \<exists>r. x = IdentityChat sid r) (\<lambda>x. \<exists>reason. x = LapseSession sid reason) (rev ops))
    \<and> (hasPolicyChatGrant (foldl apply_grant_op no_grants ops) sid name \<longleftrightarrow>
       holds_since (\<lambda>x. x = PolicyChat sid name) (\<lambda>x. \<exists>reason. x = LapseSession sid reason) (rev ops))"
proof -
  have ok: "\<forall>x \<in> set ops. grant_op_ok x \<and> CHR 0x00 \<notin> set sid" using assms by blast
  show ?thesis
    unfolding hasShellGrant_def hasFileGrant_def
    using shell_run.history [OF ok, of no_grants rid rule ex] shell_session.history [OF assms(1), of no_grants sid rule ex]
      file_run.history [OF ok, of no_grants rid] file_session.history [OF assms(1), of no_grants sid]
      identity_chat.history [OF assms(1), of no_grants sid] policy_chat.history [OF assms(1), of no_grants sid name]
    by (simp add: no_grants_def hasIdentityChatGrant_def hasPolicyChatGrant_def)
qed

lemma fold_Git: "equal_fold ''Git'' ''git''" by code_simp

theorem grants_follow_history_witness:
  "hasShellGrant (foldl apply_grant_op no_grants [ShellRun ''s'' ''r1'' \<lparr>sg_Rule = ''x'', sg_Identity = ''operator'', sg_Executable = ''Git''\<rparr>, LapseShell ''s'' ''r2''])
     ''s'' ''r1'' ''x'' ''git''"
  using grants_follow_history [of "[ShellRun ''s'' ''r1'' \<lparr>sg_Rule = ''x'', sg_Identity = ''operator'', sg_Executable = ''Git''\<rparr>, LapseShell ''s'' ''r2'']"
      "''s''" "''r1''" "''x''" "''git''"] fold_Git
  by (simp add: same_grant_def)

end
