(* ===== verification/Shell_Policy.thy ===== *)
theory Shell_Policy
  imports Go_Strings
begin

text \<open>
  The command-line policy of the shell tool (\<^verbatim>\<open>internal/tools/shell_policy.go\<close> and the executable
  matching of \<^verbatim>\<open>internal/tools/shell_identity.go\<close>): the quote-aware tokenizers, the routing of plain
  file reads and listings to the file tools, and the refusal rules.

  Go iterates over runes; every character the tokenizers compare against is ASCII, so on valid UTF-8,
  which decoded JSON arguments always are, iterating over bytes takes the same decisions.  The
  functions of \<^verbatim>\<open>path/filepath\<close> and \<^verbatim>\<open>exec.LookPath\<close> depend on the platform and on the machine: they
  are arguments, collected in the record \<open>path_ops\<close>.  The recursion depth of
  \<^verbatim>\<open>shellScriptExecutionsDepth\<close> is the code's own bound: it stops at depth 3, so three levels of fuel
  are exactly the code's behaviour.
\<close>

section \<open>Tokenizers\<close>

definition quote_chars :: "char list" where "quote_chars = [CHR 0x27, CHR 0x22]"

definition flush :: "string \<Rightarrow> string list" where "flush w = (if w = [] then [] else [w])"

fun words_go :: "char option \<Rightarrow> string \<Rightarrow> string \<Rightarrow> string list" where
  "words_go q w [] = flush w"
| "words_go (Some q) w (c # cs) = (if c = q then words_go None w cs else words_go (Some q) (w @ [c]) cs)"
| "words_go None w (c # cs) =
     (if c \<in> set quote_chars then words_go (Some c) w cs
      else if c \<in> {CHR 0x20, CHR 0x09, CHR 0x0D, CHR 0x0A} then flush w @ words_go None [] cs
      else words_go None (w @ [c]) cs)"

definition shellWords :: "string \<Rightarrow> string list" where
  "shellWords segment = words_go None [] (trim_space segment)"

definition command_separators :: "char list" where
  "command_separators = [CHR '';'', CHR ''|'', CHR ''&'', CHR 0x0A, CHR 0x0D]"

definition flush_segment :: "string \<Rightarrow> string list" where
  "flush_segment w = (if trim_space w \<noteq> [] then [w] else [])"

fun commands_go :: "char option \<Rightarrow> string \<Rightarrow> string \<Rightarrow> string list" where
  "commands_go q w [] = flush_segment w"
| "commands_go (Some q) w (c # cs) = commands_go (if c = q then None else Some q) (w @ [c]) cs"
| "commands_go None w (c # cs) =
     (if c \<in> set quote_chars then commands_go (Some c) (w @ [c]) cs
      else if c \<in> set command_separators then flush_segment w @ commands_go None [] cs
      else commands_go None (w @ [c]) cs)"

definition splitShellCommands :: "string \<Rightarrow> string list" where
  "splitShellCommands command = commands_go None [] command"

definition shellPolicyTokens :: "string \<Rightarrow> string list" where
  "shellPolicyTokens command = concat (map shellWords (splitShellCommands command))"

definition cleanShellScriptToken :: "string \<Rightarrow> string" where
  "cleanShellScriptToken value = trim_set ([CHR 0x27, CHR 0x22, CHR 0x60] @ ''(){}[],;'') value"

definition path_base :: "string \<Rightarrow> string" where
  \<comment> \<open>\<^verbatim>\<open>path.Base\<close>\<close>
  "path_base p =
     (if p = [] then ''.''
      else let q = trim_right_set ''/'' p; l = rev (takeWhile (\<lambda>c. c \<noteq> CHR ''/'') (rev q))
           in if l = [] then ''/'' else l)"

definition slashes :: "string \<Rightarrow> string" where
  \<comment> \<open>\<^verbatim>\<open>strings.ReplaceAll(value, `\`, "/")\<close>\<close>
  "slashes value = map (\<lambda>c. if c = CHR 0x5C then CHR ''/'' else c) value"

definition shellCommandName :: "string \<Rightarrow> string" where
  "shellCommandName value = to_lower (trim_suffix (path_base (slashes value)) ''.exe'')"

definition shellDialect :: "string \<Rightarrow> string" where
  "shellDialect executable =
     (let name = shellCommandName executable in
      if name = ''powershell'' \<or> name = ''pwsh'' then ''PowerShell''
      else if name = ''cmd'' then ''cmd.exe''
      else if name = [] then ''the configured shell'' else name)"

section \<open>Routing file access to the file tools\<close>

datatype shellSegmentKind = SegOther | SegDiscovery | SegRead | SegDisplay

definition shellDiscoveryCommands :: "string list" where
  "shellDiscoveryCommands = [''ls'', ''dir'', ''get-childitem'', ''gci'', ''find'', ''tree'', ''where'', ''where-object'', ''fd'']"

definition shellReadCommands :: "string list" where
  "shellReadCommands = [''cat'', ''type'', ''get-content'', ''gc'', ''head'', ''tail'', ''more'', ''less'']"

definition shellDisplayCommands :: "string list" where
  "shellDisplayCommands = [''select-object'', ''select'', ''sort-object'', ''sort'', ''format-table'', ''ft'',
     ''format-list'', ''fl'', ''out-string'']"

definition classifyShellSegment :: "string list \<Rightarrow> shellSegmentKind" where
  "classifyShellSegment ws =
     (if ws = [] then SegOther
      else let name = shellCommandName (hd ws) in
        if name \<in> set shellDiscoveryCommands then SegDiscovery
        else if name \<in> set shellReadCommands then SegRead
        else if name \<in> set shellDisplayCommands then SegDisplay
        else SegOther)"

record shellRoutingRefusal =
  rr_Reason :: string
  rr_Tool :: string
  rr_Arguments :: "(string \<times> string) list"
  rr_Command :: string

definition routingRefusal :: "string \<Rightarrow> string \<Rightarrow> string \<Rightarrow> (string \<times> string) list \<Rightarrow> shellRoutingRefusal" where
  "routingRefusal command reason tool arguments =
     \<lparr>rr_Reason = ''direct '' @ reason @ '' is routed to '' @ tool, rr_Tool = tool, rr_Arguments = arguments, rr_Command = command\<rparr>"

fun optionValue :: "string list \<Rightarrow> string list \<Rightarrow> string" where
  "optionValue (w # v # ws) names = (if \<exists>n \<in> set names. equal_fold w n then v else optionValue (v # ws) names)"
| "optionValue _ names = []"

definition positionalValues :: "string list \<Rightarrow> string list" where
  "positionalValues ws = filter (\<lambda>w. \<not> (prefix ''-'' w \<or> w = ''/s'' \<or> w = ''/b'' \<or> w = ''/a'')) ws"

definition firstPositional :: "string list \<Rightarrow> string" where
  "firstPositional ws = (case positionalValues ws of [] \<Rightarrow> [] | v # _ \<Rightarrow> v)"

definition path_split :: "string \<Rightarrow> string \<times> string" where
  \<comment> \<open>\<^verbatim>\<open>path.Split\<close>: directory including its slash, and file\<close>
  "path_split p = (let f = rev (takeWhile (\<lambda>c. c \<noteq> CHR ''/'') (rev p)) in (take (length p - length f) p, f))"

definition splitPatternPath :: "string \<Rightarrow> string \<times> string" where
  "splitPatternPath value =
     (let (dir, pat) = path_split (slashes value) in
      if dir = [] then (pat, ''.'') else (pat, trim_suffix dir ''/''))"

definition contains_any :: "string \<Rightarrow> string \<Rightarrow> bool" where
  \<comment> \<open>\<^verbatim>\<open>strings.ContainsAny\<close> with an ASCII set\<close>
  "contains_any s cs \<longleftrightarrow> (\<exists>c \<in> set s. c \<in> set cs)"

definition discovery_args :: "string \<Rightarrow> string \<Rightarrow> (string \<times> string) list" where
  "discovery_args pat root = [(''pattern'', pat), (''path'', root)]"

definition discoveryArguments :: "string list \<Rightarrow> (string \<times> string) list" where
  "discoveryArguments ws =
     (if length ws < 2 then discovery_args ''*'' ''.''
      else let name = shellCommandName (hd ws) in
        if name = ''find'' then
          let root = (if \<not> prefix ''-'' (ws ! 1) then ws ! 1 else ''.''); v = optionValue ws [''-name'', ''-iname'']
          in discovery_args (if v \<noteq> [] then v else ''*'') root
        else if name = ''get-childitem'' \<or> name = ''gci'' then
          let v = optionValue ws [''-path'', ''-literalpath''];
              root = (if v \<noteq> [] then v else if firstPositional (tl ws) \<noteq> [] then firstPositional (tl ws) else ''.'');
              f = optionValue ws [''-filter'', ''-include'']
          in discovery_args (if f \<noteq> [] then f else ''*'') root
        else if name = ''fd'' then
          let vs = positionalValues (tl ws)
          in discovery_args (if vs \<noteq> [] then vs ! 0 else ''*'') (if 1 < length vs then vs ! 1 else ''.'')
        else let v = firstPositional (tl ws) in
          if v = [] then discovery_args ''*'' ''.''
          else if contains_any v ''*?['' then case splitPatternPath v of (pat, root) \<Rightarrow> discovery_args pat root
          else if name = ''where'' \<or> name = ''where-object'' then discovery_args v ''.''
          else discovery_args ''*'' v)"

fun read_path :: "string \<Rightarrow> string list \<Rightarrow> string" where
  \<comment> \<open>the loop of \<^verbatim>\<open>readArguments\<close>; the first argument is the word before\<close>
  "read_path prev [] = ''<path>''"
| "read_path prev (w # ws) = (if prefix ''-'' w \<or> prev = ''-n'' \<or> prev = ''-c'' then read_path w ws else w)"

definition readArguments :: "string list \<Rightarrow> (string \<times> string) list" where
  \<comment> \<open>at index 1 the word before is not consulted\<close>
  "readArguments ws =
     (let v = optionValue ws [''-path'', ''-literalpath''] in
      [(''path'', if v \<noteq> [] then v else read_path [] (tl ws))])"

fun first_refusal :: "string \<Rightarrow> (shellSegmentKind \<times> string list) list \<Rightarrow> shellRoutingRefusal option" where
  "first_refusal command [] = None"
| "first_refusal command ((SegDiscovery, ws) # rest) =
     Some (routingRefusal command ''file discovery'' ''find_files'' (discoveryArguments ws))"
| "first_refusal command ((SegRead, ws) # rest) =
     Some (routingRefusal command ''file read'' ''read_file'' (readArguments ws))"
| "first_refusal command (_ # rest) = first_refusal command rest"

definition inspectShellFileRouting :: "string \<Rightarrow> shellRoutingRefusal option \<times> bool" where
  "inspectShellFileRouting command =
     (let segments = split_char (CHR ''|'') command;
          inspected = map (\<lambda>seg. (classifyShellSegment (shellWords seg), shellWords seg)) segments;
          hasFileShape = (\<exists>p \<in> set inspected. fst p = SegDiscovery \<or> fst p = SegRead);
          hasOther = (\<exists>p \<in> set inspected. fst p = SegOther)
      in if \<not> hasFileShape then (None, False)
         else if 1 < length segments \<and> hasOther then (None, True)
         else (first_refusal command inspected, False))"

section \<open>Refusal rules\<close>

fun lolbin_scan :: "string list \<Rightarrow> string" where
  "lolbin_scan [] = []"
| "lolbin_scan (w # ws) =
     (let name = shellCommandName w in
      if name = ''regsvr32'' \<or> name = ''rundll32'' then ''Windows LOLBin rule: regsvr32 and rundll32 execution is forbidden''
      else if name = ''certutil'' \<and> (\<exists>a \<in> set ws. trim_left_set ''-/'' (to_lower a) \<in> {''decode'', ''decodehex'', ''urlcache''})
      then ''Windows LOLBin rule: certutil decode and URL-cache operations are forbidden''
      else lolbin_scan ws)"

definition forbiddenLOLBinCommand :: "string \<Rightarrow> string" where
  "forbiddenLOLBinCommand command = lolbin_scan (shellPolicyTokens (to_lower command))"

definition signing_normalized :: "string \<Rightarrow> string" where
  \<comment> \<open>\<^verbatim>\<open>strings.NewReplacer("-", "", "_", "", ".", "", "\\", "/")\<close>\<close>
  "signing_normalized command = slashes (filter (\<lambda>c. c \<notin> set ''-_.'') (to_lower command))"

definition forbiddenSigningCommand :: "string \<Rightarrow> string" where
  "forbiddenSigningCommand command =
     (let normalized = signing_normalized command in
      if str_contains normalized ''setauthenticodesignature'' \<or> str_contains normalized ''signtool''
      then ''code-signing rule: signing commands are reserved for Settings > Security''
      else if str_contains normalized ''certutil''
        \<and> (\<exists>x \<in> set [''addstore'', ''delstore'', ''importpfx'', ''repairstore'', ''setreg'', ''pulse'']. str_contains normalized x)
      then ''certificate-store rule: certutil store operations are reserved for Settings > Security''
      else [])"

definition bypass_blank :: "char \<Rightarrow> char" where
  \<comment> \<open>the replacer of \<^verbatim>\<open>requestsExecutionPolicyBypass\<close>: punctuation becomes a blank\<close>
  "bypass_blank c = (if c \<in> set ([CHR 0x22, CHR 0x27, CHR 0x60] @ '':=(){}[];|&,'') then CHR '' '' else c)"

definition bypass_options :: "string list" where
  "bypass_options = [''-executionpolicy'', ''/executionpolicy'', ''-ep'', ''/ep'', ''-exec'', ''/exec'']"

fun bypass_scan :: "string list \<Rightarrow> bool" where
  "bypass_scan (a # b # ws) \<longleftrightarrow> (a \<in> set bypass_options \<and> b = ''bypass'') \<or> bypass_scan (b # ws)"
| "bypass_scan _ \<longleftrightarrow> False"

definition requestsExecutionPolicyBypass :: "string \<Rightarrow> bool" where
  "requestsExecutionPolicyBypass command = bypass_scan (str_fields (map bypass_blank (to_lower command)))"

definition script_suffixes :: "string list" where
  "script_suffixes = [''.ps1'', ''.psm1'', ''.cmd'', ''.bat'', ''.vbs'', ''.wsf'', ''.hta'']"

definition hasScriptSuffix :: "string \<Rightarrow> string list \<Rightarrow> bool" where
  "hasScriptSuffix value sfxs \<longleftrightarrow> (\<exists>x \<in> set sfxs. suffix x (to_lower (cleanShellScriptToken value)))"

definition containsScriptSuffix :: "string \<Rightarrow> bool" where
  "containsScriptSuffix value \<longleftrightarrow> (\<exists>x \<in> set script_suffixes. str_contains value x)"

definition after_last :: "char \<Rightarrow> string \<Rightarrow> string option" where
  \<comment> \<open>what follows \<^verbatim>\<open>strings.LastIndex\<close>, if found\<close>
  "after_last c w = (if c \<in> set w then Some (rev (takeWhile (\<lambda>x. x \<noteq> c) (rev w))) else None)"

fun redirect_scan :: "string list \<Rightarrow> bool" where
  "redirect_scan [] \<longleftrightarrow> False"
| "redirect_scan (w # ws) \<longleftrightarrow>
     (case after_last (CHR ''>'') w of None \<Rightarrow> redirect_scan ws
      | Some t \<Rightarrow>
          let target = trim_left_set ''>'' t;
              target = (if target = [] \<and> ws \<noteq> [] then hd ws else target)
          in hasScriptSuffix target script_suffixes \<or> redirect_scan ws)"

definition redirectsToScriptArtifact :: "string \<Rightarrow> bool" where
  "redirectsToScriptArtifact command = redirect_scan (shellPolicyTokens command)"

definition write_markers :: "string list" where
  "write_markers = [''set-content'', ''add-content'', ''out-file'', ''writealltext'', ''writeallbytes'', ''new-item'',
     ''copy-item'', ''move-item'', ''invoke-webrequest'', ''curl '', ''curl.exe'', ''wget '', ''wget.exe'', '' -outfile'', ''tee '']"

definition shellWritesScriptArtifact :: "string \<Rightarrow> bool" where
  "shellWritesScriptArtifact command =
     (let lower = to_lower command in
      if \<not> containsScriptSuffix lower then False
      else if \<exists>m \<in> set write_markers. str_contains lower m then True
      else redirectsToScriptArtifact command)"

definition scriptSuffixForInterpreter :: "string \<Rightarrow> string \<Rightarrow> bool" where
  "scriptSuffixForInterpreter name value \<longleftrightarrow> hasScriptSuffix value script_suffixes \<and> name \<noteq> []"

fun powershell_scan :: "(string \<Rightarrow> string list) \<Rightarrow> string list \<Rightarrow> string list" where
  "powershell_scan nested [] = []"
| "powershell_scan nested (w # ws) =
     (let word = cleanShellScriptToken w in
      if equal_fold word ''-command'' \<or> equal_fold word ''/command'' \<or> equal_fold word ''-c''
      then (if ws \<noteq> [] then nested (str_join '' '' ws) else [])
      else if equal_fold word ''-file'' \<or> equal_fold word ''/file'' \<or> equal_fold word ''-f''
      then (if ws \<noteq> [] then [cleanShellScriptToken (hd ws)] else [])
      else if hasScriptSuffix word [''.ps1'', ''.psm1''] then [word]
      else powershell_scan nested ws)"

fun cmd_scan :: "(string \<Rightarrow> string list) \<Rightarrow> string list \<Rightarrow> string list" where
  "cmd_scan nested [] = []"
| "cmd_scan nested (w # ws) =
     (let word = cleanShellScriptToken w in
      if (equal_fold word ''/c'' \<or> equal_fold word ''/k'') \<and> ws \<noteq> [] then nested (str_join '' '' ws)
      else if hasScriptSuffix word [''.cmd'', ''.bat''] then [word]
      else cmd_scan nested ws)"

fun first_script :: "string list \<Rightarrow> string list \<Rightarrow> string list" where
  "first_script sfxs [] = []"
| "first_script sfxs (w # ws) =
     (let word = cleanShellScriptToken w in if hasScriptSuffix word sfxs then [word] else first_script sfxs ws)"

definition call_operator :: "string \<Rightarrow> bool" where
  "call_operator w \<longleftrightarrow> w = ''&'' \<or> w = ''.'' \<or> equal_fold w ''call''"

definition segment_scripts :: "(string \<Rightarrow> string list) \<Rightarrow> string \<Rightarrow> string list" where
  "segment_scripts nested segment =
     (case dropWhile call_operator (shellWords segment) of [] \<Rightarrow> []
      | w # ws \<Rightarrow>
          let name = shellCommandName w in
          if scriptSuffixForInterpreter name w then [cleanShellScriptToken w]
          else if name = ''powershell'' \<or> name = ''pwsh'' then powershell_scan nested ws
          else if name = ''cmd'' then cmd_scan nested ws
          else if name = ''wscript'' \<or> name = ''cscript'' then first_script [''.vbs'', ''.wsf'', ''.js''] ws
          else if name = ''mshta'' then first_script [''.hta''] ws
          else if name = ''start-process'' then first_script script_suffixes ws
          else [])"

definition eval_scripts :: "string \<Rightarrow> string list" where
  "eval_scripts command =
     (let lower = to_lower command in
      if str_contains lower ''invoke-expression'' \<or> str_contains lower ''iex '' \<or> str_contains lower ''[scriptblock]::create''
      then filter (\<lambda>w. hasScriptSuffix w script_suffixes) (map cleanShellScriptToken (shellPolicyTokens command))
      else [])"

primrec shellScriptExecutionsDepth :: "nat \<Rightarrow> string \<Rightarrow> string list" where
  \<comment> \<open>the first argument is the number of levels left: \<^verbatim>\<open>3 - depth\<close>\<close>
  "shellScriptExecutionsDepth 0 command = []"
| "shellScriptExecutionsDepth (Suc n) command =
     eval_scripts command @ concat (map (segment_scripts (shellScriptExecutionsDepth n)) (splitShellCommands command))"

definition shellScriptExecutions :: "string \<Rightarrow> string list" where
  "shellScriptExecutions command = shellScriptExecutionsDepth 3 command"

section \<open>Paths and the combined rule\<close>

record path_ops =
  op_FromSlash :: "string \<Rightarrow> string"
  op_IsAbs :: "string \<Rightarrow> bool"
  op_Join :: "string \<Rightarrow> string \<Rightarrow> string"
  op_Abs :: "string \<Rightarrow> string option"
  op_Clean :: "string \<Rightarrow> string"
  op_Rel :: "string \<Rightarrow> string \<Rightarrow> string option"
  op_Separator :: char
  op_LookPath :: "string \<Rightarrow> string option"
  op_EvalSymlinks :: "string \<Rightarrow> string option"
  op_IsFile :: "string \<Rightarrow> bool" \<comment> \<open>\<^verbatim>\<open>os.Stat\<close> succeeds and it is not a directory\<close>

definition literalShellPath :: "path_ops \<Rightarrow> string \<Rightarrow> string \<Rightarrow> string option" where
  "literalShellPath P workspace value0 =
     (let value = cleanShellScriptToken value0 in
      if value = [] \<or> contains_any value ([CHR 0x60] @ ''$%*?'') then None
      else let v = op_FromSlash P value; v = (if op_IsAbs P v then v else op_Join P workspace v)
           in map_option (op_Clean P) (op_Abs P v))"

definition routingReplacementOutsideWorkspace :: "path_ops \<Rightarrow> string \<Rightarrow> shellRoutingRefusal option \<Rightarrow> bool" where
  "routingReplacementOutsideWorkspace P workspace refusal =
     (case refusal of None \<Rightarrow> False
      | Some r \<Rightarrow>
          let requested = (case map_of (rr_Arguments r) ''path'' of None \<Rightarrow> [] | Some v \<Rightarrow> v) in
          if requested = [] \<or> \<not> op_IsAbs P (op_FromSlash P requested) then False
          else case op_Abs P workspace of None \<Rightarrow> True
            | Some root \<Rightarrow> (case op_Rel P root (op_Clean P (op_FromSlash P requested)) of None \<Rightarrow> True
                | Some rel \<Rightarrow> rel = ''..'' \<or> prefix (''..'' @ [op_Separator P]) rel \<or> op_IsAbs P rel))"

fun script_refusal :: "path_ops \<Rightarrow> string option \<Rightarrow> (string \<Rightarrow> bool) option \<Rightarrow> string list \<Rightarrow> string" where
  \<comment> \<open>workspace of the session, if there is one; the provenance test of the file coordinator, if there is one\<close>
  "script_refusal P item coord [] = []"
| "script_refusal P item coord (candidate # rest) =
     (case item of
        None \<Rightarrow> ''Windows script-host rule: script execution without session provenance is forbidden; use run_script''
      | Some workspace \<Rightarrow>
          (case literalShellPath P workspace candidate of
             None \<Rightarrow> ''Windows script-host rule: script execution with a non-literal path is forbidden; use run_script''
           | Some resolved \<Rightarrow>
               if (case coord of None \<Rightarrow> True | Some agentWritten \<Rightarrow> agentWritten resolved)
               then ''Windows script-host rule: an agent-written host script cannot be executed; use run_script''
               else script_refusal P item coord rest))"

definition forbiddenShellCommand :: "path_ops \<Rightarrow> string \<Rightarrow> string option \<Rightarrow> (string \<Rightarrow> bool) option \<Rightarrow> string" where
  "forbiddenShellCommand P command item coord =
     (if forbiddenLOLBinCommand command \<noteq> [] then forbiddenLOLBinCommand command
      else if forbiddenSigningCommand command \<noteq> [] then forbiddenSigningCommand command
      else if requestsExecutionPolicyBypass command then ''PowerShell execution-policy bypass is forbidden''
      else if shellWritesScriptArtifact command
      then ''Windows script-host rule: writing host-executable script artifacts through shell is forbidden; use write_file or edit_file''
      else script_refusal P item coord (shellScriptExecutions command))"

section \<open>Operator commands\<close>

record operatorCommand =
  oc_Name :: string
  oc_Executable :: string

definition resolveOperatorExecutable :: "path_ops \<Rightarrow> string \<Rightarrow> string option" where
  "resolveOperatorExecutable P value0 =
     (let value = cleanShellScriptToken value0 in
      if value = [] \<or> contains_any value ([CHR 0x60] @ ''$%*?'') then None
      else case op_LookPath P value of None \<Rightarrow> None
        | Some resolved \<Rightarrow> (case op_Abs P resolved of None \<Rightarrow> None
            | Some absolute \<Rightarrow>
                let real = (case op_EvalSymlinks P absolute of None \<Rightarrow> absolute | Some e \<Rightarrow> e)
                in if op_IsFile P real then Some (op_Clean P real) else None))"

definition OperatorCommandWith :: "path_ops \<Rightarrow> string list \<Rightarrow> string \<Rightarrow> string list \<Rightarrow> operatorCommand option" where
  \<comment> \<open>configured commands, the command line, additional commands of the repository policy\<close>
  "OperatorCommandWith P configured command additional =
     (case splitShellCommands command of [] \<Rightarrow> None
      | segment # _ \<Rightarrow>
          (case dropWhile (\<lambda>w. w = ''&'' \<or> equal_fold w ''call'') (shellWords segment) of [] \<Rightarrow> None
           | w # _ \<Rightarrow>
               (case resolveOperatorExecutable P w of None \<Rightarrow> None
                | Some resolved \<Rightarrow>
                    if \<exists>c \<in> set (configured @ additional).
                         (case resolveOperatorExecutable P c of None \<Rightarrow> False | Some cp \<Rightarrow> equal_fold cp resolved)
                    then Some \<lparr>oc_Name = shellCommandName resolved, oc_Executable = resolved\<rparr> else None)))"

section \<open>Tokenizer laws\<close>

definition dq :: "string \<Rightarrow> string" where
  \<comment> \<open>a word in double quotes\<close>
  "dq w = [CHR 0x22] @ w @ [CHR 0x22]"

lemma lead_width_0: "(\<And>p. p \<in> set ps \<Longrightarrow> \<not> prefix p s) \<Longrightarrow> lead_width ps s = 0"
  by (auto simp: lead_width_def find_Some_iff split: option.splits dest: nth_mem)

lemma drop_leading_id: "lead_width ps s = 0 \<Longrightarrow> drop_leading ps s = s"
  by (subst drop_leading.simps) simp

lemma lead_width_quote: "lead_width space_runes (CHR 0x22 # s) = 0" "lead_width (map rev space_runes) (CHR 0x22 # s) = 0"
  by (rule lead_width_0, auto simp: space_runes_def)+

lemma trim_space_quoted: "trim_space (CHR 0x22 # s @ [CHR 0x22]) = CHR 0x22 # s @ [CHR 0x22]"
  by (simp add: trim_space_def drop_leading_id lead_width_quote)

lemma trim_space_Nil [simp]: "trim_space [] = []"
  by code_simp

lemma words_go_quoted:
  "q \<notin> set xs \<Longrightarrow> words_go (Some q) w (xs @ q # rest) = words_go None (w @ xs) rest"
  by (induction xs arbitrary: w) auto

lemma words_go_dq:
  "CHR 0x22 \<notin> set x \<Longrightarrow> words_go None w (dq x @ rest) = words_go None (w @ x) rest"
  by (simp add: dq_def quote_chars_def words_go_quoted)

lemma words_go_join:
  assumes "\<forall>w \<in> set ws. w \<noteq> [] \<and> CHR 0x22 \<notin> set w"
  shows "words_go None [] (str_join '' '' (map dq ws)) = ws"
  using assms
proof (induction ws)
  case (Cons w ws)
  show ?case
  proof (cases ws)
    case Nil
    then show ?thesis using Cons.prems words_go_dq [of w "[]" "[]"] by (simp add: flush_def)
  next
    case (Cons v vs)
    have "words_go None [] (str_join '' '' (map dq (w # ws))) = words_go None w (CHR '' '' # str_join '' '' (map dq ws))"
      using Cons.prems words_go_dq [of w "[]"] by (simp add: str_join_Cons Cons)
    also have "\<dots> = w # ws"
      using Cons.IH Cons.prems by (simp add: quote_chars_def flush_def)
    finally show ?thesis .
  qed
qed (simp add: flush_def)

lemma commands_go_quoted:
  "q \<notin> set xs \<Longrightarrow> commands_go (Some q) w (xs @ q # rest) = commands_go None (w @ xs @ [q]) rest"
  by (induction xs arbitrary: w) auto

lemma commands_go_dq: "CHR 0x22 \<notin> set x \<Longrightarrow> commands_go None w (dq x @ rest) = commands_go None (w @ dq x) rest"
  by (simp add: dq_def quote_chars_def commands_go_quoted)

lemma commands_go_join:
  assumes "\<forall>w \<in> set ws. CHR 0x22 \<notin> set w"
  shows "commands_go None acc (str_join '' '' (map dq ws)) = flush_segment (acc @ str_join '' '' (map dq ws))"
  using assms
proof (induction ws arbitrary: acc)
  case (Cons w ws)
  show ?case
  proof (cases ws)
    case Nil
    then show ?thesis using Cons.prems commands_go_dq [of w acc "[]"] by simp
  next
    case (Cons v vs)
    then show ?thesis
      using Cons.prems Cons.IH [of "acc @ dq w @ '' ''"] commands_go_dq [of w acc]
      by (simp add: str_join_Cons quote_chars_def command_separators_def)
  qed
qed simp

lemma join_dq_shape: "ws \<noteq> [] \<Longrightarrow> \<exists>s. str_join '' '' (map dq ws) = CHR 0x22 # s @ [CHR 0x22]"
proof (induction ws rule: list_nonempty_induct)
  case (cons w ws)
  then obtain s where s: "str_join '' '' (map dq ws) = CHR 0x22 # s @ [CHR 0x22]" by blast
  have "str_join '' '' (map dq (w # ws)) = CHR 0x22 # (w @ [CHR 0x22, CHR '' '', CHR 0x22] @ s) @ [CHR 0x22]"
    using cons(1) s by (simp add: str_join_Cons dq_def)
  then show ?case by blast
qed (simp add: dq_def)

lemma shellWords_join:
  assumes "\<forall>w \<in> set ws. w \<noteq> [] \<and> CHR 0x22 \<notin> set w"
  shows "shellWords (str_join '' '' (map dq ws)) = ws"
proof (cases "ws = []")
  case False
  then obtain s where s: "str_join '' '' (map dq ws) = CHR 0x22 # s @ [CHR 0x22]" using join_dq_shape by blast
  then show ?thesis using words_go_join [OF assms] by (simp add: shellWords_def s trim_space_quoted)
qed (simp add: shellWords_def flush_def)

lemma splitShellCommands_join:
  assumes "ws \<noteq> []" "\<forall>w \<in> set ws. CHR 0x22 \<notin> set w"
  shows "splitShellCommands (str_join '' '' (map dq ws)) = [str_join '' '' (map dq ws)]"
proof -
  from join_dq_shape [OF assms(1)] obtain s where s: "str_join '' '' (map dq ws) = CHR 0x22 # s @ [CHR 0x22]" by blast
  then show ?thesis
    unfolding splitShellCommands_def commands_go_join [OF assms(2)] by (simp add: flush_segment_def trim_space_quoted)
qed

text \<open>Quoting round trip: whatever words are passed, separators, pipes, blanks and newlines inside them
  included, quoting each one and joining them with blanks is one command whose words are read back exactly.\<close>

theorem quoted_words_round_trip:
  assumes "ws \<noteq> []" "\<forall>w \<in> set ws. w \<noteq> [] \<and> CHR 0x22 \<notin> set w"
  shows "splitShellCommands (str_join '' '' (map dq ws)) = [str_join '' '' (map dq ws)]
    \<and> shellWords (str_join '' '' (map dq ws)) = ws \<and> shellPolicyTokens (str_join '' '' (map dq ws)) = ws"
proof -
  have "\<forall>w \<in> set ws. CHR 0x22 \<notin> set w" using assms(2) by blast
  from splitShellCommands_join [OF assms(1) this] shellWords_join [OF assms(2)]
  show ?thesis by (simp add: shellPolicyTokens_def)
qed

theorem quoted_words_round_trip_witness:
  "shellPolicyTokens (str_join '' '' (map dq [''a b'', ''x;y|z''])) = [''a b'', ''x;y|z'']"
  using quoted_words_round_trip [of "[''a b'', ''x;y|z'']"] by simp

section \<open>What an allowed command cannot do\<close>

lemma lolbin_scan_empty:
  "lolbin_scan ws = [] \<longleftrightarrow>
     (\<forall>xs w ys. ws = xs @ w # ys \<longrightarrow> shellCommandName w \<noteq> ''regsvr32'' \<and> shellCommandName w \<noteq> ''rundll32''
        \<and> (shellCommandName w = ''certutil'' \<longrightarrow>
             (\<forall>a \<in> set ys. trim_left_set ''-/'' (to_lower a) \<notin> {''decode'', ''decodehex'', ''urlcache''})))"
  (is "_ \<longleftrightarrow> ?R ws")
proof (induction ws)
  case (Cons w ws)
  have split: "?R (w # ws) \<longleftrightarrow> (shellCommandName w \<noteq> ''regsvr32'' \<and> shellCommandName w \<noteq> ''rundll32''
        \<and> (shellCommandName w = ''certutil'' \<longrightarrow>
             (\<forall>a \<in> set ws. trim_left_set ''-/'' (to_lower a) \<notin> {''decode'', ''decodehex'', ''urlcache''}))) \<and> ?R ws"
    by (simp only: Cons_eq_append_conv) blast
  show ?case unfolding split Cons.IH [symmetric] by (simp add: Let_def)
qed simp

lemma script_refusal_empty:
  "script_refusal P item coord cs = [] \<longleftrightarrow>
     (\<forall>c \<in> set cs. \<exists>workspace resolved agentWritten. item = Some workspace \<and> coord = Some agentWritten
        \<and> literalShellPath P workspace c = Some resolved \<and> \<not> agentWritten resolved)"
  by (induction cs) (auto split: option.splits)

text \<open>A shell command is let through exactly when it invokes no registration or DLL host and no certutil
  decode or URL fetch, no signing or certificate-store operation, requests no execution-policy bypass, writes
  no script file, and every script it executes is a literal path that the session's own file tools did not
  write; without a session or without provenance data no script execution is let through at all.\<close>

theorem allowed_shell_command:
  "forbiddenShellCommand P command item coord = [] \<longleftrightarrow>
     (\<forall>xs w ys. shellPolicyTokens (to_lower command) = xs @ w # ys \<longrightarrow>
        shellCommandName w \<notin> {''regsvr32'', ''rundll32''}
        \<and> (shellCommandName w = ''certutil'' \<longrightarrow>
             (\<forall>a \<in> set ys. trim_left_set ''-/'' (to_lower a) \<notin> {''decode'', ''decodehex'', ''urlcache''})))
     \<and> forbiddenSigningCommand command = [] \<and> \<not> requestsExecutionPolicyBypass command
     \<and> \<not> shellWritesScriptArtifact command
     \<and> (\<forall>c \<in> set (shellScriptExecutions command). \<exists>workspace resolved agentWritten.
          item = Some workspace \<and> coord = Some agentWritten
          \<and> literalShellPath P workspace c = Some resolved \<and> \<not> agentWritten resolved)"
  unfolding forbiddenShellCommand_def forbiddenLOLBinCommand_def
  by (auto simp: lolbin_scan_empty script_refusal_empty)

definition slash_paths :: path_ops where
  \<comment> \<open>the path operations of a system with forward slashes, on clean paths\<close>
  "slash_paths = \<lparr>op_FromSlash = (\<lambda>p. p), op_IsAbs = (\<lambda>p. take 1 p = ''/''), op_Join = (\<lambda>a b. a @ ''/'' @ b),
     op_Abs = Some, op_Clean = (\<lambda>p. p), op_Rel = (\<lambda>_ p. Some p), op_Separator = CHR 0x2F, op_LookPath = (\<lambda>_. None),
     op_EvalSymlinks = Some, op_IsFile = (\<lambda>_. False)\<rparr>"

lemma unwritten_script:
  "shellScriptExecutions ''powershell -File x.ps1'' = [''x.ps1'']"
  "literalShellPath slash_paths ''/w'' ''x.ps1'' = Some ''/w/x.ps1''"
  by code_simp+

theorem allowed_shell_command_witness:
  "forbiddenShellCommand slash_paths ''powershell -File x.ps1'' (Some ''/w'') (Some (\<lambda>p. p = ''/w/y.ps1'')) = []
   \<and> literalShellPath slash_paths ''/w'' ''x.ps1'' = Some ''/w/x.ps1''"
proof -
  let ?c = "''powershell -File x.ps1''" and ?w = "\<lambda>p. p = ''/w/y.ps1''"
  have f: "forbiddenShellCommand slash_paths ?c (Some ''/w'') (Some ?w) = []" by code_simp
  then have "\<exists>r. literalShellPath slash_paths ''/w'' ''x.ps1'' = Some r \<and> \<not> ?w r"
    using allowed_shell_command [of slash_paths ?c "Some ''/w''" "Some ?w"]
    by (auto simp: unwritten_script)
  with f show ?thesis by (auto simp: unwritten_script)
qed

lemma names_powershell: "shellCommandName ''powershell'' = ''powershell''"
  "\<not> scriptSuffixForInterpreter ''powershell'' ''powershell''" "\<not> call_operator ''powershell''"
  by code_simp+

lemma file_option: "equal_fold (cleanShellScriptToken ''-File'') ''-file''"
  "\<not> equal_fold (cleanShellScriptToken ''-File'') ''-command''" "\<not> equal_fold (cleanShellScriptToken ''-File'') ''/command''"
  "\<not> equal_fold (cleanShellScriptToken ''-File'') ''-c''"
  by code_simp+

text \<open>A script file given to PowerShell with \<^verbatim>\<open>-File\<close> is recognised whatever its path contains: the path
  is among the script executions the provenance rule examines.\<close>

theorem quoted_script_is_detected:
  assumes "p \<noteq> []" "CHR 0x22 \<notin> set p"
  shows "cleanShellScriptToken p \<in> set (shellScriptExecutions (str_join '' '' (map dq [''powershell'', ''-File'', p])))"
proof -
  let ?ws = "[''powershell'', ''-File'', p]"
  have w: "\<forall>w \<in> set ?ws. w \<noteq> [] \<and> CHR 0x22 \<notin> set w" using assms by simp
  then have "splitShellCommands (str_join '' '' (map dq ?ws)) = [str_join '' '' (map dq ?ws)]"
    by (intro splitShellCommands_join) auto
  moreover have "segment_scripts nested (str_join '' '' (map dq ?ws)) = [cleanShellScriptToken p]" for nested
    unfolding segment_scripts_def shellWords_join [OF w] by (simp add: names_powershell file_option)
  ultimately show ?thesis by (simp add: shellScriptExecutions_def numeral_3_eq_3 del: str_join.simps list.map)
qed

theorem quoted_script_is_detected_witness:
  "''evil x.ps1'' \<in> set (shellScriptExecutions (str_join '' '' (map dq [''powershell'', ''-File'', ''evil x.ps1''])))"
proof -
  have "cleanShellScriptToken ''evil x.ps1'' = ''evil x.ps1''" by code_simp
  with quoted_script_is_detected [of "''evil x.ps1''"] show ?thesis by simp
qed

text \<open>The recognition depends on the case of the file extension: the executable suffix is removed before the
  name is lowered, so \<^verbatim>\<open>powershell.exe\<close> is recognised and \<^verbatim>\<open>POWERSHELL.EXE\<close>, the same program on Windows,
  is not; the agent-written script it names is then let through by the whole policy.\<close>

theorem uppercase_extension_evades_script_rule:
  "shellScriptExecutions ''powershell.exe -File x.ps1'' = [''x.ps1'']
   \<and> shellScriptExecutions ''POWERSHELL.EXE -File x.ps1'' = []
   \<and> forbiddenShellCommand P ''POWERSHELL.EXE -File x.ps1'' (Some workspace) (Some (\<lambda>_. True)) = []"
proof -
  have e: "shellScriptExecutions ''POWERSHELL.EXE -File x.ps1'' = []" by code_simp
  have "forbiddenLOLBinCommand ''POWERSHELL.EXE -File x.ps1'' = []" "forbiddenSigningCommand ''POWERSHELL.EXE -File x.ps1'' = []"
    "\<not> requestsExecutionPolicyBypass ''POWERSHELL.EXE -File x.ps1''" "\<not> shellWritesScriptArtifact ''POWERSHELL.EXE -File x.ps1''"
    by code_simp+
  moreover have "shellScriptExecutions ''powershell.exe -File x.ps1'' = [''x.ps1'']" by code_simp
  ultimately show ?thesis by (simp add: e forbiddenShellCommand_def)
qed

lemma first_refusal_None: "first_refusal c ps = None \<longleftrightarrow> (\<forall>p \<in> set ps. fst p = SegOther \<or> fst p = SegDisplay)"
  by (induction c ps rule: first_refusal.induct) auto

lemma first_refusal_Some:
  "first_refusal c ps = Some r \<Longrightarrow> (rr_Tool r = ''find_files'' \<or> rr_Tool r = ''read_file'') \<and> rr_Command r = c"
  by (induction c ps rule: first_refusal.induct) (auto simp: routingRefusal_def)

text \<open>File routing refuses only what the file tools can answer: a refusal is issued exactly when some segment
  of the pipeline reads or lists files and the pipeline does nothing else; it names \<^verbatim>\<open>find_files\<close> or
  \<^verbatim>\<open>read_file\<close> after the first such segment, and a mixed pipeline is let through and flagged.\<close>

theorem file_routing_refuses_only_file_pipelines:
  fixes command :: string
  defines "kinds \<equiv> map (\<lambda>seg. classifyShellSegment (shellWords seg)) (split_char (CHR ''|'') command)"
  shows "(fst (inspectShellFileRouting command) \<noteq> None \<longleftrightarrow>
       (SegDiscovery \<in> set kinds \<or> SegRead \<in> set kinds) \<and> \<not> (1 < length kinds \<and> SegOther \<in> set kinds))
    \<and> (snd (inspectShellFileRouting command) \<longleftrightarrow>
       (SegDiscovery \<in> set kinds \<or> SegRead \<in> set kinds) \<and> 1 < length kinds \<and> SegOther \<in> set kinds)
    \<and> (case fst (inspectShellFileRouting command) of None \<Rightarrow> True
       | Some r \<Rightarrow> rr_Tool r \<in> {''find_files'', ''read_file''} \<and> rr_Command r = command)"
proof -
  let ?ins = "map (\<lambda>seg. (classifyShellSegment (shellWords seg), shellWords seg)) (split_char (CHR ''|'') command)"
  have k: "kinds = map fst ?ins" by (simp add: kinds_def)
  have fshape: "(\<exists>p \<in> set ?ins. fst p = SegDiscovery \<or> fst p = SegRead) \<longleftrightarrow> SegDiscovery \<in> set kinds \<or> SegRead \<in> set kinds"
    and other: "(\<exists>p \<in> set ?ins. fst p = SegOther) \<longleftrightarrow> SegOther \<in> set kinds" and len: "length kinds = length (split_char (CHR ''|'') command)"
    unfolding k by (auto simp: image_iff) metis+
  have none: "first_refusal command ?ins = None \<longleftrightarrow> \<not> (SegDiscovery \<in> set kinds \<or> SegRead \<in> set kinds)"
    unfolding first_refusal_None fshape [symmetric] by (metis shellSegmentKind.exhaust shellSegmentKind.distinct)
  show ?thesis
    unfolding inspectShellFileRouting_def Let_def fshape other len [symmetric]
    using none first_refusal_Some [of command ?ins] by (auto split: option.splits)
qed

end
