(* ===== verification/Tool_Exec.thy ===== *)
theory Tool_Exec
  imports Gate Grants Shell_Policy
begin

text \<open>
  One tool call of the runner: \<^verbatim>\<open>executeTool\<close> and its helpers in \<^verbatim>\<open>internal/agent/run.go\<close>, the operator
  command path of \<^verbatim>\<open>internal/agent/shell_grant.go\<close>, and the redaction of credentials in what is shown
  and logged (\<^verbatim>\<open>internal/agent/tool_redaction.go\<close>).

  The tools themselves, the operator at the gate and the configuration are the environment, the record
  \<open>exec_env\<close>: what a wait returns (decision, error), what a tool returns under the configured identity and
  under the operator's identity, the sandbox target.  Every wait and every execution is recorded in an effect
  trace, so the order of asking and running, and the identity a tool ran under, can be stated.
\<close>

record callOutcome =
  co_Content :: string
  co_OK :: bool
  co_OperatorContext :: bool
  co_OverrideAvailable :: bool
  co_OverrideReason :: string
  co_Category :: string
  co_Untrusted :: bool
  co_Metadata :: gmap

definition plain_outcome :: "string \<Rightarrow> callOutcome" where
  \<comment> \<open>\<^verbatim>\<open>tools.CallOutcome{Content: c}\<close>\<close>
  "plain_outcome c = \<lparr>co_Content = c, co_OK = False, co_OperatorContext = False, co_OverrideAvailable = False,
     co_OverrideReason = [], co_Category = [], co_Untrusted = False, co_Metadata = []\<rparr>"

record exec_env =
  env_ServiceAccount :: bool
  env_OperatorContext :: bool
  env_ApprovalMode :: string
  env_ShellCommand :: "string list"
  env_OperatorCommands :: "string list"
  env_paths :: path_ops
  env_SandboxTarget :: "string option"
  env_policy_answer :: "string \<Rightarrow> string \<Rightarrow> gmap \<Rightarrow> string \<times> bool" \<comment> \<open>call, name, arguments: decision, error\<close>
  env_boundary_answer :: "string \<Rightarrow> string \<Rightarrow> gmap \<Rightarrow> string \<times> bool"
  env_CallDetailed :: "string \<Rightarrow> gmap \<Rightarrow> callOutcome"
  env_CallAsOperator :: "string \<Rightarrow> gmap \<Rightarrow> string \<times> bool"

datatype exec_effect =
    AskedPolicy string string gmap string bool
  | AskedBoundary string string gmap string bool
  | RanConfigured string gmap
  | RanOperator string gmap

record exec_state =
  xs_grants :: grants
  xs_trace :: "exec_effect list"

definition xnote :: "exec_effect \<Rightarrow> exec_state \<Rightarrow> exec_state" where
  "xnote e x = x\<lparr>xs_trace := xs_trace x @ [e]\<rparr>"

definition upd_grants :: "(grants \<Rightarrow> grants) \<Rightarrow> exec_state \<Rightarrow> exec_state" where
  "upd_grants f x = x\<lparr>xs_grants := f (xs_grants x)\<rparr>"

section \<open>Redaction\<close>

definition redactedToolValue :: string where "redactedToolValue = ''[redacted]''"

definition sensitiveServiceHeader :: "string \<Rightarrow> bool" where
  "sensitiveServiceHeader name \<longleftrightarrow>
     equal_fold (trim_space name) ''Authorization'' \<or> equal_fold (trim_space name) ''Proxy-Authorization''"

definition redact_headers :: "gmap \<Rightarrow> gmap" where
  "redact_headers hs = map (\<lambda>(k, v). if sensitiveServiceHeader k then (k, GStr redactedToolValue) else (k, v)) hs"

fun redact_entry :: "string \<times> gval \<Rightarrow> string \<times> gval" where
  "redact_entry (k, GMap hs) = (k, if k = ''headers'' then GMap (redact_headers hs) else GMap hs)"
| "redact_entry (k, v) = (k, v)"

definition sanitizedToolArguments :: "string \<Rightarrow> gmap \<Rightarrow> gmap" where
  \<comment> \<open>the clone of \<^verbatim>\<open>cloneToolValue\<close> is the value itself here: values are immutable\<close>
  "sanitizedToolArguments name args = (if name \<noteq> ''call_service'' then args else map redact_entry args)"

definition sanitized_call :: "(string \<Rightarrow> gmap option) \<Rightarrow> (gmap \<Rightarrow> string option) \<Rightarrow> toolCall \<Rightarrow> toolCall" where
  \<comment> \<open>one iteration of \<^verbatim>\<open>sanitizedToolCalls\<close>; decoding and encoding JSON are the first two arguments\<close>
  "sanitized_call decode encode call =
     (if tc_Name call \<noteq> ''call_service'' then call
      else case decode (tc_Arguments call) of
          None \<Rightarrow> call\<lparr>tc_Arguments := ''{\"redacted\":\"invalid call_service arguments\"}''\<rparr>
        | Some args \<Rightarrow> (case encode (sanitizedToolArguments (tc_Name call) args) of
              None \<Rightarrow> call\<lparr>tc_Arguments := ''{\"redacted\":\"unavailable\"}''\<rparr>
            | Some s \<Rightarrow> call\<lparr>tc_Arguments := s\<rparr>))"

definition sanitizedToolCalls :: "(string \<Rightarrow> gmap option) \<Rightarrow> (gmap \<Rightarrow> string option) \<Rightarrow> toolCall list \<Rightarrow> toolCall list" where
  "sanitizedToolCalls decode encode calls = map (sanitized_call decode encode) calls"

definition durableModelDeltaText :: "string \<Rightarrow> string \<Rightarrow> string" where
  "durableModelDeltaText kind value = (if kind = ''tool_call'' then [] else value)"

section \<open>Running a tool\<close>

definition isPowerShellCommand :: "string list \<Rightarrow> bool" where
  "isPowerShellCommand command =
     (case command of [] \<Rightarrow> False
      | c # _ \<Rightarrow>
          let name = to_lower (slashes c);
              name = (case after_last (CHR ''/'') name of None \<Rightarrow> name | Some t \<Rightarrow> t)
          in name \<in> {''powershell'', ''powershell.exe'', ''pwsh'', ''pwsh.exe''})"

definition sandboxResultMetadata :: "exec_env \<Rightarrow> string \<Rightarrow> gmap \<Rightarrow> gmap" where
  "sandboxResultMetadata E name args =
     (if name \<noteq> ''shell'' \<and> (name \<noteq> ''run_script'' \<or> \<not> equal_fold (trim_space (str_or_empty (gget args ''language''))) ''bash'')
      then []
      else case env_SandboxTarget E of Some target \<Rightarrow> [(''target'', GStr (''sandbox '' @ target))] | None \<Rightarrow> [])"

definition mergeResultMetadata :: "gmap \<Rightarrow> gmap \<Rightarrow> gmap" where
  \<comment> \<open>later keys win\<close>
  "mergeResultMetadata current added = filter (\<lambda>(k, v). \<not> ghas added k) current @ added"

definition no_output :: "string \<Rightarrow> bool \<Rightarrow> string" where
  "no_output content ok = (if ok \<and> trim_space content = [] then ''the tool completed with no output'' else content)"

definition callFileAsOperator :: "exec_env \<Rightarrow> exec_state \<Rightarrow> string \<Rightarrow> gmap \<Rightarrow> callOutcome \<times> exec_state" where
  "callFileAsOperator E x name args =
     (let (content, ok) = env_CallAsOperator E name args in
      ((plain_outcome (no_output content ok))\<lparr>co_OK := ok, co_OperatorContext := True\<rparr>, xnote (RanOperator name args) x))"

definition callShellAsOperator :: "exec_env \<Rightarrow> exec_state \<Rightarrow> string \<Rightarrow> gmap \<Rightarrow> callOutcome \<times> exec_state" where
  "callShellAsOperator E x name args =
     (let (content, ok) = env_CallAsOperator E name args in
      ((plain_outcome (no_output content ok))\<lparr>co_OK := ok, co_OperatorContext := True,
          co_Metadata := sandboxResultMetadata E name args\<rparr>, xnote (RanOperator name args) x))"

definition gput :: "gmap \<Rightarrow> string \<Rightarrow> gval \<Rightarrow> gmap" where
  \<comment> \<open>\<^verbatim>\<open>m[k] = v\<close>\<close>
  "gput m k v = (if ghas m k then map (\<lambda>(k', v'). if k' = k then (k, v) else (k', v')) m else m @ [(k, v)])"

definition callConfiguredCommandAsOperator :: "exec_env \<Rightarrow> exec_state \<Rightarrow> string \<Rightarrow> gmap \<Rightarrow> callOutcome \<times> exec_state" where
  "callConfiguredCommandAsOperator E x name args =
     callShellAsOperator E x name
       (case as_string (gget args ''command'') of
          Some command \<Rightarrow> if isPowerShellCommand (env_ShellCommand E)
            then gput args ''command'' (GStr (command @ ''; if ($null -ne $LASTEXITCODE) { exit $LASTEXITCODE }'')) else args
        | None \<Rightarrow> args)"

definition operator_command_args :: "gmap \<Rightarrow> operatorCommand \<Rightarrow> gmap" where
  "operator_command_args args command =
     [(''command'', gget args ''command''), (''identity'', GStr ''Agent_b operator (not Administrator)''),
      (''reason'', GStr (''operator command rule: '' @ oc_Name command @ '' runs as you for this run'')),
      (''rule'', GStr shellGrantOperatorCommand), (''executable'', GStr (oc_Executable command)),
      (''scope'', GStr ''run this configured operator command'')]"

definition executeOperatorCommand ::
  "exec_env \<Rightarrow> exec_state \<Rightarrow> string \<Rightarrow> string \<Rightarrow> string \<Rightarrow> string \<Rightarrow> gmap \<Rightarrow> operatorCommand \<Rightarrow> callOutcome \<times> exec_state" where
  "executeOperatorCommand E x sid runID callID name args command =
     (if hasIdentityChatGrant (xs_grants x) sid then callConfiguredCommandAsOperator E x name args
      else if hasShellGrant (xs_grants x) sid runID shellGrantOperatorCommand (oc_Executable command)
      then callConfiguredCommandAsOperator E x name args
      else
        let approvalArgs = operator_command_args args command;
            (decision, err) = env_boundary_answer E callID (name @ ''.operator_command'') approvalArgs;
            x1 = xnote (AskedBoundary callID (name @ ''.operator_command'') approvalArgs decision err) x;
            grant = \<lparr>sg_Rule = shellGrantOperatorCommand, sg_Identity = ''operator'', sg_Executable = oc_Executable command\<rparr>
        in if err then (plain_outcome ''error: operator command canceled'', x1)
           else if \<not> approvalGranted decision
           then (plain_outcome (''error: operator command rule: '' @ oc_Name command
                  @ '' must run as the operator; denied by user and not run as the service account''), x1)
           else
             let x2 = (if decision = ''run'' then upd_grants (\<lambda>g. grantShellRun g sid runID grant) x1 else x1);
                 x3 = (if decision = ''session''
                       then upd_grants (\<lambda>g. grantIdentityChat (grantShellSession g sid runID grant) sid runID) x2 else x2)
             in callConfiguredCommandAsOperator E x3 name args)"

definition repoRunGrantMatches :: "string list \<Rightarrow> gmap \<Rightarrow> bool" where
  "repoRunGrantMatches defaults args =
     (let normalized = str_join '' '' (str_fields (to_lower (str_or_empty (gget args ''command'')))) in
      \<exists>v \<in> set defaults. let candidate = str_join '' '' (str_fields (to_lower v)) in
        candidate \<noteq> [] \<and> (normalized = candidate \<or> prefix (candidate @ '' '') normalized))"

definition file_base :: "string \<Rightarrow> string" where
  \<comment> \<open>\<^verbatim>\<open>filepath.Base\<close> on Windows, for paths that are not UNC shares\<close>
  "file_base p =
     (if p = [] then ''.''
      else let sep = (\<lambda>c. c = CHR ''/'' \<or> c = CHR 0x5C);
               q = rev (dropWhile sep (rev p));
               v = (if 2 \<le> length q \<and> q ! 1 = CHR '':'' then drop 2 q else q);
               l = rev (takeWhile (\<lambda>c. \<not> sep c) (rev v))
           in if l = [] then [CHR 0x5C] else l)"

definition resolveRepoGrantedExecutable :: "exec_env \<Rightarrow> gmap \<Rightarrow> gmap" where
  "resolveRepoGrantedExecutable E args =
     (case env_ShellCommand E of [] \<Rightarrow> args
      | sh # _ \<Rightarrow>
          if to_lower (file_base sh) \<notin> {''powershell'', ''powershell.exe'', ''pwsh'', ''pwsh.exe''} then args
          else
            let command = str_or_empty (gget args ''command'') in
            case str_fields command of [] \<Rightarrow> args
            | f # _ \<Rightarrow>
                if contains_any f ([CHR 0x27, CHR 0x22] @ ''&|;$(){}[]'') then args
                else case op_LookPath (env_paths E) f of None \<Rightarrow> args
                  | Some resolved \<Rightarrow> (case op_Abs (env_paths E) resolved of None \<Rightarrow> args
                      | Some absolute \<Rightarrow>
                          let rest = trim_space (if prefix f command then drop (length f) command else command);
                              quoted = [CHR 0x27] @ replace_all absolute [CHR 0x27] [CHR 0x27, CHR 0x27] @ [CHR 0x27];
                              prepared = ''& '' @ quoted @ (if rest \<noteq> [] then '' '' @ rest else [])
                          in gput args ''command'' (GStr prepared)))"

definition ask_policy :: "exec_env \<Rightarrow> exec_state \<Rightarrow> string \<Rightarrow> string \<Rightarrow> gmap \<Rightarrow> string \<times> bool \<times> exec_state" where
  \<comment> \<open>\<^verbatim>\<open>WaitPolicyDecision\<close>\<close>
  "ask_policy E x callID name args =
     (let (d, err) = env_policy_answer E callID name args in (d, err, xnote (AskedPolicy callID name args d err) x))"

definition WaitDecision :: "exec_env \<Rightarrow> session \<Rightarrow> exec_state \<Rightarrow> string \<Rightarrow> string \<Rightarrow> gmap \<Rightarrow> string \<times> bool \<times> exec_state" where
  "WaitDecision E s x callID name args =
     (if \<not> requiredFor (env_ApprovalMode E) s name then (''approve'', False, x) else ask_policy E x callID name args)"

definition policy_phase :: "exec_env \<Rightarrow> session \<Rightarrow> exec_state \<Rightarrow> string \<Rightarrow> string \<Rightarrow> string \<Rightarrow> gmap \<Rightarrow> string \<times> bool \<times> exec_state" where
  "policy_phase E s x runID callID name eventArgs =
     (let sid = s_ID s; policyShell = hasShellGrant (xs_grants x) sid runID shellGrantPolicy [] in
      if name = ''run_script'' \<and> env_ServiceAccount E \<and> \<not> hasPolicyChatGrant (xs_grants x) sid name
      then ask_policy E x callID name eventArgs
      else if name = ''shell'' \<and> policyShell then (''approve'', False, x)
      else if name = ''shell'' \<and> env_ServiceAccount E \<and> \<not> env_OperatorContext E \<and> requiredFor (env_ApprovalMode E) s name
      then (if \<not> policyShell then ask_policy E x callID name eventArgs else (''approve'', False, x))
      else if hasPolicyChatGrant (xs_grants x) sid name then (''approve'', False, x)
      else WaitDecision E s x callID name eventArgs)"

definition policy_grants :: "exec_state \<Rightarrow> string \<Rightarrow> string \<Rightarrow> string \<Rightarrow> string \<Rightarrow> exec_state" where
  "policy_grants x sid runID name decision =
     (let grant = \<lparr>sg_Rule = shellGrantPolicy, sg_Identity = ''service'', sg_Executable = []\<rparr>;
          x1 = (if name = ''shell'' \<and> decision = ''run'' then upd_grants (\<lambda>g. grantShellRun g sid runID grant) x else x);
          x2 = (if name = ''shell'' \<and> decision = ''session'' then upd_grants (\<lambda>g. grantShellSession g sid runID grant) x1 else x1)
      in if decision = ''session'' then upd_grants (\<lambda>g. grantPolicyChat g sid name) x2 else x2)"

definition override_grants :: "exec_state \<Rightarrow> string \<Rightarrow> string \<Rightarrow> string \<Rightarrow> string \<Rightarrow> exec_state" where
  "override_grants x sid runID name decision =
     (let grant = \<lparr>sg_Rule = shellGrantBoundary, sg_Identity = ''operator'', sg_Executable = []\<rparr>;
          x1 = (if name = ''shell'' \<and> decision = ''run'' then upd_grants (\<lambda>g. grantShellRun g sid runID grant) x else x);
          x2 = (if name = ''shell'' \<and> decision = ''session'' then upd_grants (\<lambda>g. grantShellSession g sid runID grant) x1 else x1);
          x3 = (if fileGrantTool name \<and> decision = ''run'' then upd_grants (\<lambda>g. grantFileRun g sid runID) x2 else x2);
          x4 = (if fileGrantTool name \<and> decision = ''session'' then upd_grants (\<lambda>g. grantFileSession g sid runID) x3 else x3)
      in if decision = ''session'' then upd_grants (\<lambda>g. grantIdentityChat g sid runID) x4 else x4)"

definition override_args :: "string \<Rightarrow> gmap \<Rightarrow> string \<Rightarrow> gmap" where
  "override_args name args reason =
     (let command = str_or_empty (gget args ''command''); path = str_or_empty (gget args ''path'') in
      [(''identity'', GStr ''Agent_b operator (not Administrator)''), (''reason'', GStr reason),
       (''scope'', GStr (if name = ''shell'' \<or> name = ''run_script'' then ''rerun this exact command once'' else ''rerun this exact tool call once''))]
      @ (if command \<noteq> [] then [(''command'', GStr command)] else [])
      @ (if path \<noteq> [] then [(''path'', GStr path)] else []))"

definition override_phase :: "exec_env \<Rightarrow> session \<Rightarrow> exec_state \<Rightarrow> string \<Rightarrow> string \<Rightarrow> string \<Rightarrow> gmap \<Rightarrow> callOutcome \<Rightarrow> callOutcome \<times> exec_state" where
  \<comment> \<open>from the offer of a rerun under the operator's identity to the end of \<^verbatim>\<open>executeTool\<close>\<close>
  "override_phase E s x runID callID name args outcome =
     (let oargs = override_args name args (co_OverrideReason outcome);
          oid = callID @ '':operator''; oname = name @ ''.operator_override'';
          (d, err) = env_boundary_answer E oid oname oargs;
          x1 = xnote (AskedBoundary oid oname oargs d err) x
      in if err then (outcome\<lparr>co_Content := co_Content outcome @ [CHR 0x0A, CHR 0x0A] @ ''operator-identity override canceled'',
               co_OK := False, co_OperatorContext := False\<rparr>, x1)
         else if \<not> approvalGranted d
         then (outcome\<lparr>co_Content := co_Content outcome @ [CHR 0x0A, CHR 0x0A] @ ''operator-identity override was offered and denied by the user'',
               co_OK := False, co_OperatorContext := False\<rparr>, x1)
         else
           let x2 = override_grants x1 (s_ID s) runID name d;
               (content, ok) = env_CallAsOperator E name args;
               x3 = xnote (RanOperator name args) x2;
               subject = (if name = ''shell'' \<or> name = ''run_script'' then ''command'' else ''tool call'')
           in if ok
              then (outcome\<lparr>co_Content := ''operator-identity override succeeded; exact '' @ subject @ '' rerun once:'' @ [CHR 0x0A]
                       @ no_output content True, co_OK := True, co_OperatorContext := True,
                     co_Metadata := mergeResultMetadata (co_Metadata outcome) (sandboxResultMetadata E name args)\<rparr>, x3)
              else (outcome\<lparr>co_Content := co_Content outcome @ [CHR 0x0A, CHR 0x0A] @ ''operator-identity override was attempted but failed:''
                       @ [CHR 0x0A] @ content, co_OK := False, co_OperatorContext := True\<rparr>, x3))"

definition configured_phase :: "exec_env \<Rightarrow> session \<Rightarrow> exec_state \<Rightarrow> string \<Rightarrow> string \<Rightarrow> string \<Rightarrow> gmap \<Rightarrow> callOutcome \<times> exec_state" where
  \<comment> \<open>the body of \<^verbatim>\<open>executeTool\<close> after the short cuts for standing identity grants\<close>
  "configured_phase E s x0 runID callID name args0 =
     (let sid = s_ID s; repo = repoRunGrantMatches (po_RunGrantDefaults (Policy s)) args0;
          x = (if name = ''shell'' \<and> repo \<and> \<not> hasShellGrant (xs_grants x0) sid runID shellGrantPolicy []
               then upd_grants (\<lambda>g. grantShellRun g sid runID \<lparr>sg_Rule = shellGrantPolicy,
                      sg_Identity = (if env_ServiceAccount E then ''service'' else ''operator''), sg_Executable = []\<rparr>) x0
               else x0);
          (decision, err, x1) = policy_phase E s x runID callID name (sanitizedToolArguments name args0)
      in if err then (plain_outcome ''error: call canceled'', x1)
         else if \<not> approvalGranted decision then (plain_outcome ''error: call denied by user'', x1)
         else
           let x2 = policy_grants x1 sid runID name decision;
               args = (if name = ''shell'' \<and> repo then resolveRepoGrantedExecutable E args0 else args0);
               outcome = env_CallDetailed E name args;
               x3 = xnote (RanConfigured name args) x2
           in if \<not> co_OverrideAvailable outcome then (outcome, x3)
              else override_phase E s x3 runID callID name args outcome)"

definition operator_command_for :: "exec_env \<Rightarrow> session \<Rightarrow> gmap \<Rightarrow> operatorCommand option" where
  "operator_command_for E s args =
     OperatorCommandWith (env_paths E) (env_OperatorCommands E) (str_or_empty (gget args ''command'')) (po_OperatorCommandsAdd (Policy s))"

definition executeTool :: "exec_env \<Rightarrow> session \<Rightarrow> exec_state \<Rightarrow> string \<Rightarrow> string \<Rightarrow> string \<Rightarrow> gmap \<Rightarrow> callOutcome \<times> exec_state" where
  "executeTool E s x runID callID name args =
     (let sid = s_ID s; svc = env_ServiceAccount E \<and> \<not> env_OperatorContext E in
      if svc \<and> hasIdentityChatGrant (xs_grants x) sid \<and> fileGrantTool name then callFileAsOperator E x name args
      else if svc \<and> hasIdentityChatGrant (xs_grants x) sid \<and> (name = ''shell'' \<or> name = ''run_script'')
      then callShellAsOperator E x name args
      else if fileGrantTool name \<and> svc \<and> hasFileGrant (xs_grants x) sid runID then callFileAsOperator E x name args
      else if name = ''shell'' \<and> svc \<and> hasShellGrant (xs_grants x) sid runID shellGrantBoundary []
      then callShellAsOperator E x name args
      else if name = ''shell'' \<and> svc then
        (case operator_command_for E s args of
           Some command \<Rightarrow> executeOperatorCommand E x sid runID callID name args command
         | None \<Rightarrow> configured_phase E s x runID callID name args)
      else configured_phase E s x runID callID name args)"

section \<open>Traces of the phases\<close>

lemma trace_simps [simp]:
  "xs_trace (xnote e x) = xs_trace x @ [e]" "xs_grants (xnote e x) = xs_grants x"
  "xs_trace (upd_grants f x) = xs_trace x" "xs_grants (upd_grants f x) = f (xs_grants x)"
  by (simp_all add: xnote_def upd_grants_def)

lemma policy_grants_trace [simp]: "xs_trace (policy_grants x sid runID name d) = xs_trace x"
  by (simp add: policy_grants_def Let_def)

lemma override_grants_trace [simp]: "xs_trace (override_grants x sid runID name d) = xs_trace x"
  by (simp add: override_grants_def Let_def)

lemma callFileAsOperator_trace [simp]: "xs_trace (snd (callFileAsOperator E x name args)) = xs_trace x @ [RanOperator name args]"
  by (simp add: callFileAsOperator_def split: prod.split)

lemma callShellAsOperator_trace [simp]: "xs_trace (snd (callShellAsOperator E x name args)) = xs_trace x @ [RanOperator name args]"
  by (simp add: callShellAsOperator_def split: prod.split)

lemma callConfigured_trace:
  "\<exists>a. xs_trace (snd (callConfiguredCommandAsOperator E x name args)) = xs_trace x @ [RanOperator name a]"
  by (simp add: callConfiguredCommandAsOperator_def)

lemma executeOperatorCommand_trace:
  "\<exists>effs. xs_trace (snd (executeOperatorCommand E x sid runID callID name args command)) = xs_trace x @ effs
    \<and> ((\<exists>a. effs = [RanOperator name a]
          \<and> (hasIdentityChatGrant (xs_grants x) sid
             \<or> hasShellGrant (xs_grants x) sid runID shellGrantOperatorCommand (oc_Executable command)))
       \<or> (\<exists>oargs d. effs = [AskedBoundary callID (name @ ''.operator_command'') oargs d True])
       \<or> (\<exists>oargs d. effs = [AskedBoundary callID (name @ ''.operator_command'') oargs d False] \<and> \<not> approvalGranted d)
       \<or> (\<exists>oargs d a. effs = [AskedBoundary callID (name @ ''.operator_command'') oargs d False, RanOperator name a] \<and> approvalGranted d))"
  (is "\<exists>effs. ?t = xs_trace x @ effs \<and> ?P effs")
proof (cases "hasIdentityChatGrant (xs_grants x) sid \<or> hasShellGrant (xs_grants x) sid runID shellGrantOperatorCommand (oc_Executable command)")
  case True
  obtain a where "xs_trace (snd (callConfiguredCommandAsOperator E x name args)) = xs_trace x @ [RanOperator name a]"
    using callConfigured_trace by blast
  with True have "?t = xs_trace x @ [RanOperator name a]" by (auto simp: executeOperatorCommand_def)
  with True show ?thesis by blast
next
  case False
  define oa where "oa = operator_command_args args command"
  define nm where "nm = name @ ''.operator_command''"
  obtain d err where a: "env_boundary_answer E callID nm oa = (d, err)" by force
  let ?ask = "AskedBoundary callID nm oa d err"
  consider "err" | "\<not> err" "\<not> approvalGranted d" | "\<not> err" "approvalGranted d" by blast
  then show ?thesis
  proof cases
    case 1
    with False have "?t = xs_trace x @ [?ask]"
      by (simp add: executeOperatorCommand_def oa_def [symmetric] nm_def [symmetric] a Let_def)
    with 1 show ?thesis by (auto simp: nm_def)
  next
    case 2
    with False have "?t = xs_trace x @ [?ask]"
      by (simp add: executeOperatorCommand_def oa_def [symmetric] nm_def [symmetric] a Let_def)
    with 2 show ?thesis by (auto simp: nm_def)
  next
    case 3
    with False obtain y where "?t = xs_trace (snd (callConfiguredCommandAsOperator E y name args))" "xs_trace y = xs_trace x @ [?ask]"
      by (simp add: executeOperatorCommand_def oa_def [symmetric] nm_def [symmetric] a Let_def)
    with callConfigured_trace [of E y name args] 3 show ?thesis by (auto simp: nm_def)
  qed
qed

lemma override_phase_trace:
  "\<exists>effs. xs_trace (snd (override_phase E s x runID callID name args out)) = xs_trace x @ effs
    \<and> ((\<exists>oargs d err. effs = [AskedBoundary (callID @ '':operator'') (name @ ''.operator_override'') oargs d err] \<and> (err \<or> \<not> approvalGranted d))
       \<or> (\<exists>oargs d. effs = [AskedBoundary (callID @ '':operator'') (name @ ''.operator_override'') oargs d False, RanOperator name args] \<and> approvalGranted d))"
  (is "\<exists>effs. ?t = xs_trace x @ effs \<and> ?P effs")
proof -
  define oa where "oa = override_args name args (co_OverrideReason out)"
  define nm where "nm = name @ ''.operator_override''"
  define oid where "oid = callID @ '':operator''"
  obtain d err where a: "env_boundary_answer E oid nm oa = (d, err)" by force
  obtain content ok where op: "env_CallAsOperator E name args = (content, ok)" by force
  let ?ask = "AskedBoundary oid nm oa d err"
  show ?thesis
  proof (cases "err \<or> \<not> approvalGranted d")
    case True
    then have "?t = xs_trace x @ [?ask]"
      by (auto simp: override_phase_def oa_def [symmetric] nm_def [symmetric] oid_def [symmetric] a Let_def)
    with True show ?thesis by (auto simp: nm_def oid_def)
  next
    case False
    then have "?t = xs_trace x @ [?ask, RanOperator name args]"
      by (simp add: override_phase_def oa_def [symmetric] nm_def [symmetric] oid_def [symmetric] a op Let_def)
    with False show ?thesis by (auto simp: nm_def oid_def)
  qed
qed

definition policy_settled :: "exec_env \<Rightarrow> session \<Rightarrow> grants \<Rightarrow> string \<Rightarrow> string \<Rightarrow> gmap \<Rightarrow> bool" where
  \<comment> \<open>no question needs to be asked before the tool runs under the configured identity\<close>
  "policy_settled E s g runID name args \<longleftrightarrow>
     \<not> (name = ''run_script'' \<and> env_ServiceAccount E \<and> \<not> hasPolicyChatGrant g (s_ID s) name)
     \<and> (\<not> requiredFor (env_ApprovalMode E) s name \<or> hasPolicyChatGrant g (s_ID s) name
        \<or> (name = ''shell'' \<and> (hasShellGrant g (s_ID s) runID shellGrantPolicy []
                                \<or> repoRunGrantMatches (po_RunGrantDefaults (Policy s)) args)))"

lemma policy_phase_cases:
  assumes "policy_phase E s x runID callID name ea = (d, err, x')"
  shows "(x' = x \<and> d = ''approve'' \<and> \<not> err
      \<and> \<not> (name = ''run_script'' \<and> env_ServiceAccount E \<and> \<not> hasPolicyChatGrant (xs_grants x) (s_ID s) name)
      \<and> (\<not> requiredFor (env_ApprovalMode E) s name \<or> hasPolicyChatGrant (xs_grants x) (s_ID s) name
         \<or> (name = ''shell'' \<and> hasShellGrant (xs_grants x) (s_ID s) runID shellGrantPolicy [])))
    \<or> x' = xnote (AskedPolicy callID name ea d err) x"
  using assms by (auto simp: policy_phase_def WaitDecision_def ask_policy_def Let_def split: if_splits prod.splits)

lemma grantShellRun_policyChat [simp]: "hasPolicyChatGrant (grantShellRun g sid r gr) sid' n = hasPolicyChatGrant g sid' n"
  by (simp add: hasPolicyChatGrant_def grant_ops)

lemma configured_phase_trace:
  "\<exists>effs. xs_trace (snd (configured_phase E s x runID callID name args)) = xs_trace x @ effs
    \<and> (RanConfigured n a \<in> set effs \<longrightarrow>
         policy_settled E s (xs_grants x) runID name args
         \<or> (\<exists>ea d. AskedPolicy callID name ea d False \<in> set effs \<and> approvalGranted d))
    \<and> (RanOperator n b \<in> set effs \<longrightarrow>
         (\<exists>oargs d. AskedBoundary (callID @ '':operator'') (name @ ''.operator_override'') oargs d False \<in> set effs \<and> approvalGranted d))"
proof -
  define rp where "rp = repoRunGrantMatches (po_RunGrantDefaults (Policy s)) args"
  define y where "y = (if name = ''shell'' \<and> rp \<and> \<not> hasShellGrant (xs_grants x) (s_ID s) runID shellGrantPolicy []
               then upd_grants (\<lambda>g. grantShellRun g (s_ID s) runID \<lparr>sg_Rule = shellGrantPolicy,
                      sg_Identity = (if env_ServiceAccount E then ''service'' else ''operator''), sg_Executable = []\<rparr>) x
               else x)"
  obtain d err z where p: "policy_phase E s y runID callID name (sanitizedToolArguments name args) = (d, err, z)"
    by (cases "policy_phase E s y runID callID name (sanitizedToolArguments name args)") auto
  define z2 where "z2 = policy_grants z (s_ID s) runID name d"
  define args' where "args' = (if name = ''shell'' \<and> rp then resolveRepoGrantedExecutable E args else args)"
  define out where "out = env_CallDetailed E name args'"
  define z3 where "z3 = xnote (RanConfigured name args') z2"
  have c: "configured_phase E s x runID callID name args =
    (if err then (plain_outcome ''error: call canceled'', z)
     else if \<not> approvalGranted d then (plain_outcome ''error: call denied by user'', z)
     else if \<not> co_OverrideAvailable out then (out, z3) else override_phase E s z3 runID callID name args' out)"
    unfolding configured_phase_def Let_def rp_def [symmetric] y_def [symmetric] p
    by (simp add: z2_def args'_def out_def z3_def)
  have ty: "xs_trace y = xs_trace x" and gy: "name \<noteq> ''shell'' \<or> \<not> rp \<longrightarrow> xs_grants y = xs_grants x"
    and hy: "hasPolicyChatGrant (xs_grants y) (s_ID s) name = hasPolicyChatGrant (xs_grants x) (s_ID s) name"
    by (simp_all add: y_def)
  obtain asked where tz: "xs_trace z = xs_trace x @ asked"
    and as: "(asked = [] \<and> policy_settled E s (xs_grants x) runID name args) \<or> asked = [AskedPolicy callID name (sanitizedToolArguments name args) d err]"
  proof (cases "z = xnote (AskedPolicy callID name (sanitizedToolArguments name args) d err) y")
    case True
    then show ?thesis using that ty by simp
  next
    case False
    with policy_phase_cases [OF p] gy hy have "z = y" "policy_settled E s (xs_grants x) runID name args"
      unfolding policy_settled_def rp_def [symmetric] by (cases "name = ''shell'' \<and> rp"; auto)+
    then show ?thesis using that [of "[]"] ty by simp
  qed
  obtain effs where eo: "xs_trace (snd (override_phase E s z3 runID callID name args' out)) = xs_trace z3 @ effs"
    and oc: "(\<exists>oargs d err. effs = [AskedBoundary (callID @ '':operator'') (name @ ''.operator_override'') oargs d err] \<and> (err \<or> \<not> approvalGranted d))
       \<or> (\<exists>oargs d. effs = [AskedBoundary (callID @ '':operator'') (name @ ''.operator_override'') oargs d False, RanOperator name args'] \<and> approvalGranted d)"
    using override_phase_trace by blast
  have t3: "xs_trace z3 = xs_trace x @ asked @ [RanConfigured name args']" by (simp add: z3_def z2_def tz)
  show ?thesis
  proof (cases "err \<or> \<not> approvalGranted d")
    case True
    then show ?thesis using as by (auto simp: c tz)
  next
    case ok: False
    show ?thesis
    proof (cases "co_OverrideAvailable out")
      case False
      then show ?thesis using ok as by (auto simp: c t3)
    next
      case True
      have "xs_trace (snd (configured_phase E s x runID callID name args)) = xs_trace x @ (asked @ [RanConfigured name args'] @ effs)"
        using True ok by (simp add: c eo t3)
      moreover have "RanOperator n b \<in> set effs \<longrightarrow>
         (\<exists>oargs d. AskedBoundary (callID @ '':operator'') (name @ ''.operator_override'') oargs d False \<in> set effs \<and> approvalGranted d)"
        using oc by auto
      moreover have "policy_settled E s (xs_grants x) runID name args
         \<or> (\<exists>ea d. AskedPolicy callID name ea d False \<in> set asked \<and> approvalGranted d)" using as ok by auto
      ultimately show ?thesis using as by (intro exI [of _ "asked @ [RanConfigured name args'] @ effs"]) auto
    qed
  qed
qed

section \<open>Consent\<close>

abbreviation fresh_state :: "grants \<Rightarrow> exec_state" where
  "fresh_state g \<equiv> \<lparr>xs_grants = g, xs_trace = []\<rparr>"

definition tool_effects :: "exec_env \<Rightarrow> session \<Rightarrow> grants \<Rightarrow> string \<Rightarrow> string \<Rightarrow> string \<Rightarrow> gmap \<Rightarrow> exec_effect list" where
  "tool_effects E s g runID callID name args = xs_trace (snd (executeTool E s (fresh_state g) runID callID name args))"

definition identity_standing :: "exec_env \<Rightarrow> session \<Rightarrow> grants \<Rightarrow> string \<Rightarrow> string \<Rightarrow> gmap \<Rightarrow> bool" where
  \<comment> \<open>a standing approval that covers running this tool as the operator\<close>
  "identity_standing E s g runID name args \<longleftrightarrow>
     hasIdentityChatGrant g (s_ID s) \<or> (fileGrantTool name \<and> hasFileGrant g (s_ID s) runID)
     \<or> (name = ''shell'' \<and> hasShellGrant g (s_ID s) runID shellGrantBoundary [])
     \<or> (\<exists>command. name = ''shell'' \<and> operator_command_for E s args = Some command
          \<and> hasShellGrant g (s_ID s) runID shellGrantOperatorCommand (oc_Executable command))"

lemma tool_effects_cases:
  obtains (standing) "tool_effects E s g runID callID name args = [RanOperator name args]" "identity_standing E s g runID name args"
  | (command) command where "name = ''shell''" "env_ServiceAccount E" "\<not> env_OperatorContext E" "operator_command_for E s args = Some command"
      "tool_effects E s g runID callID name args
         = xs_trace (snd (executeOperatorCommand E (fresh_state g) (s_ID s) runID callID name args command))"
  | (configured) "tool_effects E s g runID callID name args = xs_trace (snd (configured_phase E s (fresh_state g) runID callID name args))"
      "name \<noteq> ''shell'' \<or> \<not> env_ServiceAccount E \<or> env_OperatorContext E \<or> operator_command_for E s args = None"
proof -
  let ?svc = "env_ServiceAccount E \<and> \<not> env_OperatorContext E"
  let ?st = "?svc \<and> (hasIdentityChatGrant g (s_ID s) \<and> (fileGrantTool name \<or> name = ''shell'' \<or> name = ''run_script'')
      \<or> fileGrantTool name \<and> hasFileGrant g (s_ID s) runID \<or> name = ''shell'' \<and> hasShellGrant g (s_ID s) runID shellGrantBoundary [])"
  consider "?st" | "\<not> ?st" "name = ''shell''" "?svc" | "\<not> ?st" "name \<noteq> ''shell'' \<or> \<not> ?svc" by blast
  then show ?thesis
  proof cases
    case 1
    then have "executeTool E s (fresh_state g) runID callID name args = callFileAsOperator E (fresh_state g) name args
        \<or> executeTool E s (fresh_state g) runID callID name args = callShellAsOperator E (fresh_state g) name args"
      by (auto simp: executeTool_def Let_def)
    then have "tool_effects E s g runID callID name args = [RanOperator name args]"
      unfolding tool_effects_def by (elim disjE) simp_all
    moreover have "identity_standing E s g runID name args" using 1 unfolding identity_standing_def by blast
    ultimately show ?thesis by (rule standing)
  next
    case 2
    then have ex: "executeTool E s (fresh_state g) runID callID name args =
        (case operator_command_for E s args of Some command \<Rightarrow> executeOperatorCommand E (fresh_state g) (s_ID s) runID callID name args command
         | None \<Rightarrow> configured_phase E s (fresh_state g) runID callID name args)"
      by (auto simp: executeTool_def Let_def)
    show ?thesis
    proof (cases "operator_command_for E s args")
      case None
      then show ?thesis by (intro configured) (simp_all add: tool_effects_def ex)
    next
      case (Some c)
      with ex have "executeTool E s (fresh_state g) runID callID name args = executeOperatorCommand E (fresh_state g) (s_ID s) runID callID name args c"
        by simp
      with 2 Some show ?thesis by (intro command [of c]) (simp_all only: tool_effects_def, simp_all)
    qed
  next
    case 3
    then have "executeTool E s (fresh_state g) runID callID name args = configured_phase E s (fresh_state g) runID callID name args"
      by (auto simp: executeTool_def Let_def)
    with 3 show ?thesis by (intro configured) (auto simp: tool_effects_def)
  qed
qed

definition demo_paths :: path_ops where
  "demo_paths = \<lparr>op_FromSlash = id, op_IsAbs = prefix ''/'', op_Join = (\<lambda>a b. a @ ''/'' @ b), op_Abs = Some, op_Clean = id,
     op_Rel = (\<lambda>_ _. None), op_Separator = CHR ''/'', op_LookPath = Some, op_EvalSymlinks = Some, op_IsFile = (\<lambda>_. True)\<rparr>"

definition demo_env :: exec_env where
  \<comment> \<open>the identity split is on, the operator answers every question with \<^verbatim>\<open>session\<close>, and the tool asks for a rerun\<close>
  "demo_env = \<lparr>env_ServiceAccount = True, env_OperatorContext = False, env_ApprovalMode = ''mutating'', env_ShellCommand = [],
     env_OperatorCommands = [''git''], env_paths = demo_paths, env_SandboxTarget = None,
     env_policy_answer = (\<lambda>_ _ _. (''session'', False)), env_boundary_answer = (\<lambda>_ _ _. (''session'', False)),
     env_CallDetailed = (\<lambda>_ _. (plain_outcome ''denied'')\<lparr>co_OverrideAvailable := True\<rparr>),
     env_CallAsOperator = (\<lambda>_ _. (''done'', True))\<rparr>"

lemma demo_effects:
  "tool_effects demo_env (idle_session ''s'' ''a'') no_grants ''r'' ''c'' ''write_file'' [] =
     [AskedPolicy ''c'' ''write_file'' [] ''session'' False, RanConfigured ''write_file'' [],
      AskedBoundary ''c:operator'' ''write_file.operator_override'' (override_args ''write_file'' [] []) ''session'' False,
      RanOperator ''write_file'' []]"
  by code_simp

text \<open>C4. No tool runs under the operator's identity without consent: whenever one call executes something as
  the operator, either a standing approval that covers it was in force before the call (for the chat, for
  the file tools of the run, for the shell boundary, for that configured command), or during this very call
  the operator was asked at the identity boundary and answered with an approval.\<close>

theorem operator_identity_needs_consent:
  assumes "RanOperator n a \<in> set (tool_effects E s g runID callID name args)"
  shows "identity_standing E s g runID name args
    \<or> (\<exists>cid qname qargs d. AskedBoundary cid qname qargs d False \<in> set (tool_effects E s g runID callID name args)
         \<and> approvalGranted d)"
proof (cases rule: tool_effects_cases [of E s g runID callID name args])
  case (command c)
  with assms executeOperatorCommand_trace [of E "fresh_state g" "s_ID s" runID callID name args c]
  show ?thesis by (fastforce simp: identity_standing_def)
next
  case configured
  with assms configured_phase_trace [of E s "fresh_state g" runID callID name args n a a] show ?thesis by auto
qed simp

theorem operator_identity_needs_consent_witness:
  "RanOperator ''write_file'' [] \<in> set (tool_effects demo_env (idle_session ''s'' ''a'') no_grants ''r'' ''c'' ''write_file'' [])
   \<and> (identity_standing demo_env (idle_session ''s'' ''a'') no_grants ''r'' ''write_file'' []
     \<or> (\<exists>cid qname qargs d. AskedBoundary cid qname qargs d False
           \<in> set (tool_effects demo_env (idle_session ''s'' ''a'') no_grants ''r'' ''c'' ''write_file'' []) \<and> approvalGranted d))"
proof -
  have r: "RanOperator ''write_file'' [] \<in> set (tool_effects demo_env (idle_session ''s'' ''a'') no_grants ''r'' ''c'' ''write_file'' [])"
    by (simp add: demo_effects)
  from operator_identity_needs_consent [OF r] r show ?thesis by blast
qed

lemma tool_effects_configured:
  "RanConfigured n a \<in> set (tool_effects E s g runID callID name args) \<Longrightarrow>
     policy_settled E s g runID name args
     \<or> (\<exists>ea d. AskedPolicy callID name ea d False \<in> set (tool_effects E s g runID callID name args) \<and> approvalGranted d)"
proof (cases rule: tool_effects_cases [of E s g runID callID name args])
  case (command c)
  then show "RanConfigured n a \<in> set (tool_effects E s g runID callID name args) \<Longrightarrow> ?thesis"
    using executeOperatorCommand_trace [of E "fresh_state g" "s_ID s" runID callID name args c] by auto
next
  case configured
  then show "RanConfigured n a \<in> set (tool_effects E s g runID callID name args) \<Longrightarrow> ?thesis"
    using configured_phase_trace [of E s "fresh_state g" runID callID name args n a a] by auto
qed simp

text \<open>C5. A tool that needs the operator's approval runs only with it: if a call executes a tool under the
  configured identity, then either nothing had to be asked (the approval mode does not name the tool, the chat
  already allowed it, or for the shell a policy grant or a trusted repository default covers it), or the
  operator was asked in this call and approved.  \<^verbatim>\<open>run_script\<close> under the service account is never settled
  by the approval mode: only an earlier approval for the chat spares the question.\<close>

theorem governed_tool_runs_only_if_approved:
  assumes "RanConfigured n a \<in> set (tool_effects E s g runID callID name args)"
  shows "(\<exists>ea d. AskedPolicy callID name ea d False \<in> set (tool_effects E s g runID callID name args) \<and> approvalGranted d)
    \<or> (\<not> (name = ''run_script'' \<and> env_ServiceAccount E \<and> \<not> hasPolicyChatGrant g (s_ID s) name)
       \<and> (\<not> requiredFor (env_ApprovalMode E) s name \<or> hasPolicyChatGrant g (s_ID s) name
          \<or> (name = ''shell'' \<and> (hasShellGrant g (s_ID s) runID shellGrantPolicy []
                                \<or> repoRunGrantMatches (po_RunGrantDefaults (Policy s)) args))))"
  using tool_effects_configured [OF assms] unfolding policy_settled_def by blast

theorem governed_tool_runs_only_if_approved_witness:
  "\<exists>ea d. AskedPolicy ''c'' ''write_file'' ea d False
      \<in> set (tool_effects demo_env (idle_session ''s'' ''a'') no_grants ''r'' ''c'' ''write_file'' []) \<and> approvalGranted d"
proof -
  have r: "RanConfigured ''write_file'' [] \<in> set (tool_effects demo_env (idle_session ''s'' ''a'') no_grants ''r'' ''c'' ''write_file'' [])"
    by (simp add: demo_effects)
  have "requiredFor (env_ApprovalMode demo_env) (idle_session ''s'' ''a'') ''write_file''"
    "\<not> hasPolicyChatGrant no_grants (s_ID (idle_session ''s'' ''a'')) ''write_file''" by code_simp+
  with governed_tool_runs_only_if_approved [OF r] show ?thesis by simp
qed

text \<open>A configured operator command never runs as the service account: with the identity split enabled, a
  shell call whose first executable is a configured operator command executes nothing under the configured
  identity, whatever is granted and whatever the operator answers.\<close>

theorem operator_commands_never_run_as_service:
  assumes "env_ServiceAccount E" "\<not> env_OperatorContext E" "operator_command_for E s args = Some command"
  shows "RanConfigured n a \<notin> set (tool_effects E s g runID callID ''shell'' args)"
proof (cases rule: tool_effects_cases [of E s g runID callID "''shell''" args])
  case (command c)
  then show ?thesis
    using executeOperatorCommand_trace [of E "fresh_state g" "s_ID s" runID callID "''shell''" args c] by auto
qed (use assms in auto)

theorem operator_commands_never_run_as_service_witness:
  "RanConfigured ''shell'' [(''command'', GStr ''git push'')]
     \<notin> set (tool_effects demo_env (idle_session ''s'' ''a'') no_grants ''r'' ''c'' ''shell'' [(''command'', GStr ''git push'')])"
proof -
  have "operator_command_for demo_env (idle_session ''s'' ''a'') [(''command'', GStr ''git push'')] = Some \<lparr>oc_Name = ''git'', oc_Executable = ''git''\<rparr>"
    by code_simp
  moreover have "env_ServiceAccount demo_env" "\<not> env_OperatorContext demo_env" by (simp_all add: demo_env_def)
  ultimately show ?thesis using operator_commands_never_run_as_service by blast
qed

lemma identity_grant_after_override:
  assumes "runID \<noteq> []"
  shows "hasIdentityChatGrant (xs_grants (override_grants x sid runID name ''session'')) sid"
  using assms by (simp add: override_grants_def Let_def grantIdentityChat_def hasIdentityChatGrant_def)

text \<open>\<^emph>\<open>Yes, for this chat\<close> covers every later identity need of the chat: once a call of a run was answered
  with \<^verbatim>\<open>session\<close> at the identity boundary, every later file, shell or script call of that session, in any run
  and with the split still on, executes exactly once, as the operator, and asks nothing.\<close>

theorem chat_approval_covers_chat:
  assumes run: "runID \<noteq> []" and split: "env_ServiceAccount E" "\<not> env_OperatorContext E"
    and ans: "env_boundary_answer E' (callID @ '':operator'') (name @ ''.operator_override'') (override_args name args (co_OverrideReason out)) = (''session'', False)"
    and later: "fileGrantTool name' \<or> name' = ''shell'' \<or> name' = ''run_script''"
  shows "tool_effects E s (xs_grants (snd (override_phase E' s x runID callID name args out))) runID' callID' name' args' = [RanOperator name' args']"
proof -
  let ?g = "xs_grants (snd (override_phase E' s x runID callID name args out))"
  have "hasIdentityChatGrant ?g (s_ID s)"
    using identity_grant_after_override [OF run]
    by (simp add: override_phase_def Let_def ans approvalGranted_def split: prod.split)
  with split later have "executeTool E s (fresh_state ?g) runID' callID' name' args' = callFileAsOperator E (fresh_state ?g) name' args'
        \<or> executeTool E s (fresh_state ?g) runID' callID' name' args' = callShellAsOperator E (fresh_state ?g) name' args'"
    by (auto simp: executeTool_def Let_def)
  then show ?thesis unfolding tool_effects_def by (elim disjE) simp_all
qed

theorem chat_approval_covers_chat_witness:
  "tool_effects demo_env (idle_session ''s'' ''a'')
     (xs_grants (snd (override_phase demo_env (idle_session ''s'' ''a'') (fresh_state no_grants) ''r'' ''c'' ''read_file'' [] (plain_outcome []))))
     ''r2'' ''c2'' ''shell'' [] = [RanOperator ''shell'' []]"
  by (rule chat_approval_covers_chat) (simp_all add: demo_env_def)

text \<open>Credentials never reach the approval card or the event log: in the sanitized arguments of a service call
  every \<^verbatim>\<open>Authorization\<close> or \<^verbatim>\<open>Proxy-Authorization\<close> header, however it is written, carries the redaction
  marker, and every other header and every other argument is unchanged.\<close>

theorem credentials_are_redacted:
  assumes "(''headers'', GMap hs) \<in> set args"
  shows "\<exists>hs'. (''headers'', GMap hs') \<in> set (sanitizedToolArguments ''call_service'' args) \<and> map fst hs' = map fst hs
    \<and> (\<forall>i < length hs. snd (hs' ! i) = (if sensitiveServiceHeader (fst (hs ! i)) then GStr ''[redacted]'' else snd (hs ! i)))
    \<and> (\<forall>k v. k \<noteq> ''headers'' \<longrightarrow> (k, v) \<in> set (sanitizedToolArguments ''call_service'' args) \<longleftrightarrow> (k, v) \<in> set args)"
proof -
  have "(''headers'', GMap (redact_headers hs)) \<in> set (sanitizedToolArguments ''call_service'' args)"
    using assms by (force simp: sanitizedToolArguments_def)
  moreover have "map fst (redact_headers hs) = map fst hs" by (auto simp: redact_headers_def)
  moreover have "snd (redact_headers hs ! i) = (if sensitiveServiceHeader (fst (hs ! i)) then GStr ''[redacted]'' else snd (hs ! i))"
    if "i < length hs" for i using that by (simp add: redact_headers_def redactedToolValue_def split: prod.split)
  moreover have "(k, v) \<in> set (sanitizedToolArguments ''call_service'' args) \<longleftrightarrow> (k, v) \<in> set args" if "k \<noteq> ''headers''" for k v
  proof -
    have e: "redact_entry p = (k, v) \<longleftrightarrow> p = (k, v)" for p
      using that by (cases p rule: redact_entry.cases) auto
    show ?thesis using e by (simp add: sanitizedToolArguments_def image_iff) metis
  qed
  ultimately show ?thesis by blast
qed

theorem credentials_are_redacted_witness:
  "\<exists>hs'. (''headers'', GMap hs') \<in> set (sanitizedToolArguments ''call_service'' [(''headers'', GMap [('' authorization'', GStr ''secret'')])])
     \<and> snd (hs' ! 0) = GStr ''[redacted]''"
proof -
  have "sensitiveServiceHeader '' authorization''" by code_simp
  with credentials_are_redacted [of "[('' authorization'', GStr ''secret'')]" "[(''headers'', GMap [('' authorization'', GStr ''secret'')])]"]
  show ?thesis by auto
qed

end
