(* ===== verification/Flight.thy ===== *)
theory Flight
  imports Session_Model Go_UTF8
begin

text \<open>
  The flight book of \<^verbatim>\<open>internal/agent/abort.go\<close>: what each session's current run is doing, so that an
  aborted run leaves one durable record of the tool in flight and of the files it may have written.

  The two maps of partial tool calls are association lists keyed by the call index.  JSON encoding of the
  record and \<^verbatim>\<open>strconv.Unquote\<close> are arguments.  The regular expression for a path in incomplete JSON is
  deterministic from its first character on, so \<open>match_path\<close> decides a match at one position without
  backtracking and \<open>find_path\<close> takes the leftmost one, as Go does.
\<close>

record flightState =
  fl_RunID :: string
  fl_Turn :: int
  fl_Stage :: string
  fl_ToolName :: string
  fl_ToolArguments :: string
  fl_PartialReasoning :: string
  fl_PartialContent :: string
  fl_PartialToolArguments :: "(int \<times> string) list"
  fl_PartialToolNames :: "(int \<times> string) list"
  fl_PartialToolOutput :: string
  fl_PossiblePaths :: "string list"
  fl_PathsComplete :: bool

definition zero_flight :: flightState where
  \<comment> \<open>the zero value read from the map when a session has no flight\<close>
  "zero_flight = \<lparr>fl_RunID = [], fl_Turn = 0, fl_Stage = [], fl_ToolName = [], fl_ToolArguments = [], fl_PartialReasoning = [],
     fl_PartialContent = [], fl_PartialToolArguments = [], fl_PartialToolNames = [], fl_PartialToolOutput = [],
     fl_PossiblePaths = [], fl_PathsComplete = False\<rparr>"

record flightBook =
  fb_active :: "string \<rightharpoonup> flightState"
  fb_recorded :: "string \<Rightarrow> bool"
  fb_events :: "event list"
  fb_appended :: "(string \<times> message) list" \<comment> \<open>messages appended to sessions, in order\<close>
  fb_ids :: int

definition newFlightBook :: flightBook where
  "newFlightBook = \<lparr>fb_active = Map.empty, fb_recorded = (\<lambda>_. False), fb_events = [], fb_appended = [], fb_ids = 0\<rparr>"

definition flightKey :: "string \<Rightarrow> string \<Rightarrow> string" where
  "flightKey sessionID runID = sessionID @ [CHR 0x00] @ runID"

definition beginFlight :: "flightBook \<Rightarrow> string \<Rightarrow> string \<Rightarrow> flightBook" where
  "beginFlight b sid runID =
     b\<lparr>fb_active := (fb_active b)(sid \<mapsto> zero_flight\<lparr>fl_RunID := runID, fl_Stage := ''starting'', fl_PathsComplete := True\<rparr>),
       fb_recorded := (fb_recorded b)(flightKey sid runID := False)\<rparr>"

definition endFlight :: "flightBook \<Rightarrow> string \<Rightarrow> string \<Rightarrow> flightBook" where
  "endFlight b sid runID =
     b\<lparr>fb_active := (case fb_active b sid of Some st \<Rightarrow> if fl_RunID st = runID then (fb_active b)(sid := None) else fb_active b
                      | None \<Rightarrow> fb_active b),
       fb_recorded := (fb_recorded b)(flightKey sid runID := False)\<rparr>"

definition update_flight :: "flightBook \<Rightarrow> string \<Rightarrow> string \<Rightarrow> (flightState \<Rightarrow> flightState) \<Rightarrow> flightBook" where
  \<comment> \<open>the guard shared by the setters: only the session's current run is updated\<close>
  "update_flight b sid runID f =
     (case fb_active b sid of Some st \<Rightarrow> if fl_RunID st = runID then b\<lparr>fb_active := (fb_active b)(sid \<mapsto> f st)\<rparr> else b
      | None \<Rightarrow> b)"

definition stage_state :: "int \<Rightarrow> string \<Rightarrow> flightState \<Rightarrow> flightState" where
  "stage_state turn stage st =
     (let st1 = st\<lparr>fl_Turn := turn, fl_Stage := stage\<rparr>;
          st2 = (if stage = ''assemble'' then st1\<lparr>fl_PartialReasoning := [], fl_PartialContent := [],
                   fl_PartialToolArguments := [], fl_PartialToolNames := []\<rparr> else st1)
      in if stage \<noteq> ''execute'' then st2\<lparr>fl_ToolName := [], fl_ToolArguments := [], fl_PartialToolOutput := [],
                   fl_PossiblePaths := [], fl_PathsComplete := True\<rparr> else st2)"

definition setFlightStage :: "flightBook \<Rightarrow> string \<Rightarrow> string \<Rightarrow> int \<Rightarrow> string \<Rightarrow> flightBook" where
  "setFlightStage b sid runID turn stage = update_flight b sid runID (stage_state turn stage)"

definition iget :: "(int \<times> string) list \<Rightarrow> int \<Rightarrow> string" where
  "iget m i = (case map_of m i of None \<Rightarrow> [] | Some v \<Rightarrow> v)"

definition iput :: "(int \<times> string) list \<Rightarrow> int \<Rightarrow> string \<Rightarrow> (int \<times> string) list" where
  "iput m i v = (i, v) # filter (\<lambda>p. fst p \<noteq> i) m"

record delta =
  de_Kind :: string
  de_Text :: string
  de_Name :: string
  de_Index :: int

definition delta_state :: "delta \<Rightarrow> flightState \<Rightarrow> flightState" where
  "delta_state d st =
     (if de_Kind d = ''reasoning'' then st\<lparr>fl_PartialReasoning := fl_PartialReasoning st @ de_Text d\<rparr>
      else if de_Kind d = ''content'' then st\<lparr>fl_PartialContent := fl_PartialContent st @ de_Text d\<rparr>
      else if de_Kind d = ''tool_call'' then
        let st1 = (if de_Name d \<noteq> [] then st\<lparr>fl_PartialToolNames := iput (fl_PartialToolNames st) (de_Index d) (de_Name d)\<rparr> else st);
            args = fl_PartialToolArguments st1; i = de_Index d
        in st1\<lparr>fl_PartialToolArguments :=
             (if iget (fl_PartialToolNames st1) i = ''call_service''
              then iput args i ''[redacted: call_service arguments are not durable until complete]''
              else iput args i (iget args i @ de_Text d))\<rparr>
      else st)"

definition addFlightDelta :: "flightBook \<Rightarrow> string \<Rightarrow> string \<Rightarrow> delta \<Rightarrow> flightBook" where
  "addFlightDelta b sid runID d = update_flight b sid runID (delta_state d)"

definition unknown_paths :: string where
  "unknown_paths = ''unknown: command or script may write arbitrary paths''"

definition possibleWrittenPaths :: "string \<Rightarrow> gmap \<Rightarrow> string list \<times> bool" where
  "possibleWrittenPaths name args =
     (if name = ''write_file'' \<or> name = ''edit_file'' then
        let path = str_or_empty (gget args ''path'') in if path \<noteq> [] then ([path], True) else ([], False)
      else if name = ''shell'' \<or> name = ''run_script'' then ([unknown_paths], False)
      else ([], True))"

definition setFlightTool :: "flightBook \<Rightarrow> string \<Rightarrow> string \<Rightarrow> int \<Rightarrow> toolCall \<Rightarrow> gmap \<Rightarrow> flightBook" where
  "setFlightTool b sid runID turn call args =
     update_flight b sid runID (\<lambda>st. st\<lparr>fl_Turn := turn, fl_Stage := ''execute'', fl_ToolName := tc_Name call,
        fl_ToolArguments := tc_Arguments call, fl_PartialToolOutput := [],
        fl_PossiblePaths := fst (possibleWrittenPaths (tc_Name call) args),
        fl_PathsComplete := snd (possibleWrittenPaths (tc_Name call) args)\<rparr>)"

definition setFlightToolOutput :: "flightBook \<Rightarrow> string \<Rightarrow> string \<Rightarrow> string \<Rightarrow> flightBook" where
  "setFlightToolOutput b sid runID output = update_flight b sid runID (\<lambda>st. st\<lparr>fl_PartialToolOutput := output\<rparr>)"

section \<open>Paths in incomplete tool calls\<close>

definition re_space :: "char \<Rightarrow> bool" where
  \<comment> \<open>the class \<^verbatim>\<open>\s\<close>\<close>
  "re_space c \<longleftrightarrow> c \<in> {CHR 0x09, CHR 0x0A, CHR 0x0C, CHR 0x0D, CHR 0x20}"

fun match_body :: "string \<Rightarrow> string option" where
  \<comment> \<open>\<^verbatim>\<open>(?:\\.|[^"\\])*"\<close>: the matched text including the closing quote\<close>
  "match_body [] = None"
| "match_body (c # cs) =
     (if c = CHR 0x22 then Some [c]
      else if c = CHR 0x5C then
        (case cs of [] \<Rightarrow> None
         | e # ds \<Rightarrow> if e = CHR 0x0A then None else map_option (\<lambda>r. c # e # r) (match_body ds))
      else map_option (\<lambda>r. c # r) (match_body cs))"

definition path_key :: string where "path_key = [CHR 0x22] @ ''path'' @ [CHR 0x22]"

definition match_path :: "string \<Rightarrow> string option" where
  "match_path s =
     (if \<not> prefix path_key s then None
      else case dropWhile re_space (drop (length path_key) s) of
          c # r \<Rightarrow> if c \<noteq> CHR '':'' then None
            else (case dropWhile re_space r of
                q # body \<Rightarrow> if q \<noteq> CHR 0x22 then None else map_option (\<lambda>m. q # m) (match_body body)
              | [] \<Rightarrow> None)
        | [] \<Rightarrow> None)"

fun find_path :: "string \<Rightarrow> string option" where
  "find_path [] = None"
| "find_path (c # cs) = (case match_path (c # cs) of Some m \<Rightarrow> Some m | None \<Rightarrow> find_path cs)"

definition partial_path_step :: "(string \<Rightarrow> string option) \<Rightarrow> string list \<times> bool \<Rightarrow> string \<times> string \<Rightarrow> string list \<times> bool" where
  \<comment> \<open>one iteration over a call (name, arguments); the first argument is \<^verbatim>\<open>strconv.Unquote\<close>\<close>
  "partial_path_step unquote acc call =
     (let (paths, full) = acc; (name, arguments) = call in
      if name = ''write_file'' \<or> name = ''edit_file'' then
        (case Option.bind (find_path arguments) unquote of None \<Rightarrow> (paths, False) | Some p \<Rightarrow> (paths @ [p], full))
      else if name = ''shell'' \<or> name = ''run_script'' then (paths @ [unknown_paths], False)
      else (paths, full))"

definition possiblePartialPaths :: "(string \<Rightarrow> string option) \<Rightarrow> (string \<times> string) list \<Rightarrow> string list \<times> bool" where
  "possiblePartialPaths unquote calls = foldl (partial_path_step unquote) ([], True) calls"

section \<open>The abort record\<close>

definition abortReason :: "flightBook \<Rightarrow> string \<Rightarrow> string \<Rightarrow> string" where
  "abortReason b sid runID =
     (case fb_active b sid of None \<Rightarrow> ''aborted_mid_run''
      | Some st \<Rightarrow>
          if fl_RunID st \<noteq> runID then ''aborted_mid_run''
          else if fl_Stage st = ''execute'' \<and> fl_ToolName st \<noteq> [] then ''aborted_mid_tool''
          else if fl_Stage st = ''call_model'' then ''aborted_mid_model''
          else ''aborted_mid_run'')"

definition harnessAbortRecordPrefix :: string where
  "harnessAbortRecordPrefix = ''[HARNESS ABORT RECORD '' @ [CHR 0xE2, CHR 0x80, CHR 0x94]
     @ '' verify every possibly-written path before trusting it]''"

function rune_count :: "string \<Rightarrow> nat" where
  \<comment> \<open>\<^verbatim>\<open>len([]rune(s))\<close>: an invalid byte counts as one rune\<close>
  "rune_count s = (if s = [] then 0 else Suc (rune_count (drop (decode_width s) s)))"
  by pat_completeness auto
termination
proof (relation "measure length")
  fix s :: string assume "s \<noteq> []"
  then show "(drop (decode_width s) s, s) \<in> measure length"
    using rune_width_bounds [of s] by (cases "rune_width s") (fastforce simp: decode_width_def)+
qed simp

declare rune_count.simps [simp del]

definition estimatedTokenCount :: "string \<Rightarrow> int" where
  \<comment> \<open>\<^verbatim>\<open>math.Ceil(n / 3.6)\<close>\<close>
  "estimatedTokenCount s = \<lceil>rat_of_nat (rune_count s) / (36 / 10)\<rceil>"

definition flight_of :: "flightBook \<Rightarrow> string \<Rightarrow> flightState" where
  "flight_of b sid = (case fb_active b sid of None \<Rightarrow> zero_flight | Some st \<Rightarrow> st)"

definition partial_calls :: "flightState \<Rightarrow> (int \<times> string \<times> string) list" where
  \<comment> \<open>index, name and arguments of the incomplete calls, by index\<close>
  "partial_calls st = map (\<lambda>i. (i, iget (fl_PartialToolNames st) i, iget (fl_PartialToolArguments st) i))
     (sorted_list_of_set (set (map fst (fl_PartialToolArguments st))))"

definition abort_paths :: "(string \<Rightarrow> string option) \<Rightarrow> flightState \<Rightarrow> string list \<times> bool" where
  "abort_paths unquote st =
     (if fl_PossiblePaths st = [] \<and> partial_calls st \<noteq> []
      then possiblePartialPaths unquote (map snd (partial_calls st))
      else (fl_PossiblePaths st, fl_PathsComplete st))"

definition abort_data :: "(string \<Rightarrow> string option) \<Rightarrow> flightState \<Rightarrow> string \<Rightarrow> string \<Rightarrow> gmap" where
  "abort_data unquote st reason detail =
     (let (paths, full) = abort_paths unquote st in
      [(''reason'', GStr reason), (''detail'', GStr detail), (''turn'', GInt (fl_Turn st)), (''stage'', GStr (fl_Stage st)),
       (''tool_in_flight'', GMap [(''name'', GStr (fl_ToolName st)), (''arguments'', GStr (fl_ToolArguments st))]),
       (''partial_output'', GMap [(''reasoning'', GStr (fl_PartialReasoning st)), (''content'', GStr (fl_PartialContent st)),
          (''tool_calls'', GList (map (\<lambda>(i, n, a). GMap [(''index'', GInt i), (''name'', GStr n), (''arguments'', GStr a)]) (partial_calls st))),
          (''tool_result'', GStr (fl_PartialToolOutput st))]),
       (''possibly_written_paths'', GStrs paths), (''paths_complete'', GBool full), (''unverified'', GBool (paths \<noteq> []))])"

definition recordAbort :: "(string \<Rightarrow> string option) \<Rightarrow> (gmap \<Rightarrow> string) \<Rightarrow> flightBook \<Rightarrow> string \<Rightarrow> string \<Rightarrow> string \<Rightarrow> string \<Rightarrow> string \<times> flightBook" where
  "recordAbort unquote encode b sid runID reason detail =
     (let key = flightKey sid runID in
      if fb_recorded b key then (detail, b)
      else
        let st = flight_of b sid; d = abort_data unquote st reason detail;
            content = harnessAbortRecordPrefix @ [CHR 0x0A] @ encode d;
            n = fb_ids b + 1;
            message = emptyMessage\<lparr>msg_ID := ''m-'' @ itoa n, msg_Role := ''system'', msg_Content := content,
               msg_Category := ''history'', msg_Tokens := estimatedTokenCount content, msg_Estimated := True, msg_Turn := fl_Turn st\<rparr>
        in (detail, b\<lparr>fb_recorded := (fb_recorded b)(key := True), fb_ids := n,
             fb_events := fb_events b @ [events_New ''run.aborted'' sid runID (GMap d),
                events_New ''message.appended'' sid runID (GMap [(''message'', GMessage message)])],
             fb_appended := fb_appended b @ [(sid, message)]\<rparr>))"

definition isHarnessAbortRecord :: "message \<Rightarrow> bool" where
  "isHarnessAbortRecord m \<longleftrightarrow>
     msg_Role m = ''system'' \<and> msg_Category m = ''history'' \<and> prefix (harnessAbortRecordPrefix @ [CHR 0x0A]) (msg_Content m)"

definition stopped :: "(string \<Rightarrow> string option) \<Rightarrow> (gmap \<Rightarrow> string) \<Rightarrow> flightBook \<Rightarrow> string \<Rightarrow> string \<Rightarrow> int \<Rightarrow> string \<Rightarrow> (string \<times> string \<times> int) \<times> flightBook" where
  "stopped unquote encode b sid runID turn detail0 =
     (let reason = abortReason b sid runID;
          detail = (if trim_space detail0 = [] then ''cancellation requested'' else detail0);
          (d, b') = recordAbort unquote encode b sid runID reason detail
      in ((reason, d, turn), b'))"

definition abortDetail :: "bool \<Rightarrow> string" where
  "abortDetail boundExceeded =
     (if boundExceeded then ''run terminated after cancellation did not yield within 2s; late completion fenced''
      else ''cancellation requested'')"

section \<open>Fencing and single recording\<close>

datatype flight_op =
    FBegin string string
  | FEnd string string
  | FStage string string int string
  | FDelta string string delta
  | FTool string string int toolCall gmap
  | FOutput string string string
  | FRecord string string string string

fun apply_flight :: "(string \<Rightarrow> string option) \<Rightarrow> (gmap \<Rightarrow> string) \<Rightarrow> flightBook \<Rightarrow> flight_op \<Rightarrow> flightBook" where
  "apply_flight u e b (FBegin sid r) = beginFlight b sid r"
| "apply_flight u e b (FEnd sid r) = endFlight b sid r"
| "apply_flight u e b (FStage sid r t st) = setFlightStage b sid r t st"
| "apply_flight u e b (FDelta sid r d) = addFlightDelta b sid r d"
| "apply_flight u e b (FTool sid r t c a) = setFlightTool b sid r t c a"
| "apply_flight u e b (FOutput sid r x) = setFlightToolOutput b sid r x"
| "apply_flight u e b (FRecord sid r reason d) = snd (recordAbort u e b sid r reason d)"

fun op_target :: "flight_op \<Rightarrow> string \<times> string" where
  "op_target (FBegin sid r) = (sid, r)"
| "op_target (FEnd sid r) = (sid, r)"
| "op_target (FStage sid r _ _) = (sid, r)"
| "op_target (FDelta sid r _) = (sid, r)"
| "op_target (FTool sid r _ _ _) = (sid, r)"
| "op_target (FOutput sid r _) = (sid, r)"
| "op_target (FRecord sid r _ _) = (sid, r)"

fun is_begin :: "flight_op \<Rightarrow> bool" where
  "is_begin (FBegin _ _) = True" | "is_begin _ = False"

fun is_end :: "flight_op \<Rightarrow> bool" where
  "is_end (FEnd _ _) = True" | "is_end _ = False"

fun is_record :: "flight_op \<Rightarrow> bool" where
  "is_record (FRecord _ _ _ _) = True" | "is_record _ = False"

lemmas flight_defs = beginFlight_def endFlight_def update_flight_def setFlightStage_def addFlightDelta_def setFlightTool_def
  setFlightToolOutput_def recordAbort_def

lemma stale_op_keeps_flight:
  assumes "fb_active b sid = Some st" "\<not> (op_target x = (sid, fl_RunID st))" "\<not> (is_begin x \<and> fst (op_target x) = sid)"
  shows "fb_active (apply_flight u e b x) sid = Some st"
  using assms by (cases x) (auto simp: flight_defs Let_def split: option.splits)

text \<open>C19. Late completion is fenced: while a session's flight belongs to one run, nothing that any other run
  does (stage changes, streamed deltas, tool starts and outputs, its own end, its abort record), in this or
  in other sessions and in any order, alters that flight.\<close>

theorem late_runs_are_fenced:
  assumes "fb_active b sid = Some st"
    "\<forall>x \<in> set ops. op_target x \<noteq> (sid, fl_RunID st) \<and> \<not> (is_begin x \<and> fst (op_target x) = sid)"
  shows "fb_active (foldl (apply_flight u e) b ops) sid = Some st"
  using assms by (induction ops arbitrary: b) (auto simp: stale_op_keeps_flight)

theorem late_runs_are_fenced_witness:
  "fb_active (foldl (apply_flight (\<lambda>_. None) (\<lambda>_. [])) (beginFlight newFlightBook ''s'' ''r2'')
      [FOutput ''s'' ''r1'' ''late'', FEnd ''s'' ''r1'', FRecord ''s'' ''r1'' ''x'' ''y'']) ''s''
   = Some (zero_flight\<lparr>fl_RunID := ''r2'', fl_Stage := ''starting'', fl_PathsComplete := True\<rparr>)"
  by (rule late_runs_are_fenced) (simp_all add: beginFlight_def zero_flight_def)

definition is_abort_of :: "string \<Rightarrow> string \<Rightarrow> event \<Rightarrow> bool" where
  "is_abort_of sid runID ev \<longleftrightarrow> ev_Type ev = ''run.aborted'' \<and> ev_SessionID ev = sid \<and> ev_RunID ev = runID"

definition abort_count :: "flightBook \<Rightarrow> string \<Rightarrow> string \<Rightarrow> nat" where
  "abort_count b sid runID = length (filter (is_abort_of sid runID) (fb_events b))"

lemma flightKey_inject:
  "CHR 0x00 \<notin> set s \<Longrightarrow> CHR 0x00 \<notin> set s' \<Longrightarrow> flightKey s c = flightKey s' c' \<longleftrightarrow> s = s' \<and> c = c'"
  unfolding flightKey_def by (rule nul_key_inject)

lemma flight_op_recorded:
  assumes "\<not> (op_target x = (sid, runID) \<and> (is_begin x \<or> is_end x))" "CHR 0x00 \<notin> set sid" "CHR 0x00 \<notin> set (fst (op_target x))"
  shows "fb_recorded (apply_flight u e b x) (flightKey sid runID) \<longleftrightarrow>
      fb_recorded b (flightKey sid runID) \<or> (is_record x \<and> op_target x = (sid, runID))"
    and "abort_count (apply_flight u e b x) sid runID =
      abort_count b sid runID + (if is_record x \<and> op_target x = (sid, runID) \<and> \<not> fb_recorded b (flightKey sid runID) then 1 else 0)"
  using assms by (cases x; auto simp: flight_defs Let_def flightKey_inject abort_count_def is_abort_of_def split: option.splits)+

text \<open>One abort record per run: from the moment a run's flight begins until it ends, however often and from
  however many places its abort is reported, exactly one \<^verbatim>\<open>run.aborted\<close> event is published for it if any
  report is made, and none otherwise.\<close>

theorem one_abort_record_per_run:
  assumes "\<not> fb_recorded b (flightKey sid runID)" "CHR 0x00 \<notin> set sid"
    "\<forall>x \<in> set ops. CHR 0x00 \<notin> set (fst (op_target x)) \<and> \<not> (op_target x = (sid, runID) \<and> (is_begin x \<or> is_end x))"
  shows "abort_count (foldl (apply_flight u e) b ops) sid runID =
    abort_count b sid runID + (if \<exists>x \<in> set ops. is_record x \<and> op_target x = (sid, runID) then 1 else 0)"
proof -
  have "(fb_recorded (foldl (apply_flight u e) b ops) (flightKey sid runID) \<longleftrightarrow> (\<exists>x \<in> set ops. is_record x \<and> op_target x = (sid, runID)))
    \<and> abort_count (foldl (apply_flight u e) b ops) sid runID =
      abort_count b sid runID + (if \<exists>x \<in> set ops. is_record x \<and> op_target x = (sid, runID) then 1 else 0)"
    using assms(3)
  proof (induction ops rule: rev_induct)
    case (snoc x ops)
    have x: "\<not> (op_target x = (sid, runID) \<and> (is_begin x \<or> is_end x))" "CHR 0x00 \<notin> set (fst (op_target x))"
      using snoc.prems by auto
    show ?case
      using flight_op_recorded [OF x(1) assms(2) x(2), of u e "foldl (apply_flight u e) b ops"] snoc by auto
  qed (simp add: assms(1))
  then show ?thesis by blast
qed

theorem one_abort_record_per_run_witness:
  "abort_count (foldl (apply_flight (\<lambda>_. None) (\<lambda>_. [])) (beginFlight newFlightBook ''s'' ''r'') [FRecord ''s'' ''r'' ''a'' ''b'', FRecord ''s'' ''r'' ''c'' ''d'']) ''s'' ''r'' = 1"
proof -
  have "\<not> fb_recorded (beginFlight newFlightBook ''s'' ''r'') (flightKey ''s'' ''r'')"
    "abort_count (beginFlight newFlightBook ''s'' ''r'') ''s'' ''r'' = 0"
    by (simp_all add: beginFlight_def newFlightBook_def abort_count_def)
  with one_abort_record_per_run [of "beginFlight newFlightBook ''s'' ''r''" "''s''" "''r''" "[FRecord ''s'' ''r'' ''a'' ''b'', FRecord ''s'' ''r'' ''c'' ''d'']" "\<lambda>_. None" "\<lambda>_. []"]
  show ?thesis by simp
qed

definition may_write :: "string \<Rightarrow> gmap \<Rightarrow> string set" where
  \<comment> \<open>the files one tool call can write: the named one for the file tools, any for commands and scripts\<close>
  "may_write name args =
     (if name = ''write_file'' \<or> name = ''edit_file'' then {p. p = str_or_empty (gget args ''path'') \<and> p \<noteq> []}
      else if name = ''shell'' \<or> name = ''run_script'' then UNIV else {})"

text \<open>The abort record is honest about files: when a run is aborted while a tool executes, the published
  record either says its list of possibly-written paths is incomplete or lists every path that tool can have
  written; the record message it appends is recognised as an abort record, and the reported reason names
  the tool phase.\<close>

theorem abort_record_lists_written_paths:
  assumes "fb_active b sid = Some st" "fl_RunID st = runID" "\<not> fb_recorded b (flightKey sid runID)" "tc_Name call \<noteq> []"
  shows "let b1 = setFlightTool b sid runID turn call args;
             b2 = snd (recordAbort unquote encode b1 sid runID (abortReason b1 sid runID) detail)
         in \<exists>d paths m. fb_events b2 = fb_events b @ [events_New ''run.aborted'' sid runID (GMap d), m]
              \<and> gget d ''possibly_written_paths'' = GStrs paths
              \<and> (gget d ''paths_complete'' = GBool True \<longrightarrow> may_write (tc_Name call) args \<subseteq> set paths)
              \<and> gget d ''reason'' = GStr ''aborted_mid_tool''
              \<and> isHarnessAbortRecord (snd (last (fb_appended b2)))"
proof -
  define w where "w = possibleWrittenPaths (tc_Name call) args"
  define st1 where "st1 = st\<lparr>fl_Turn := turn, fl_Stage := ''execute'', fl_ToolName := tc_Name call,
        fl_ToolArguments := tc_Arguments call, fl_PartialToolOutput := [], fl_PossiblePaths := fst w, fl_PathsComplete := snd w\<rparr>"
  define b1 where "b1 = setFlightTool b sid runID turn call args"
  have b1: "b1 = b\<lparr>fb_active := (fb_active b)(sid \<mapsto> st1)\<rparr>"
    using assms by (simp add: b1_def setFlightTool_def update_flight_def st1_def w_def)
  have reason: "abortReason b1 sid runID = ''aborted_mid_tool''"
    using assms by (simp add: abortReason_def b1 st1_def)
  obtain paths full where pf: "abort_paths unquote st1 = (paths, full)" by force
  define d where "d = abort_data unquote st1 ''aborted_mid_tool'' detail"
  have d: "gget d ''possibly_written_paths'' = GStrs paths" "gget d ''paths_complete'' = GBool full" "gget d ''reason'' = GStr ''aborted_mid_tool''"
    by (simp_all add: d_def abort_data_def pf gget_def)
  have complete: "may_write (tc_Name call) args \<subseteq> set paths" if "full"
  proof -
    have wd: "may_write (tc_Name call) args = {} \<or> (fst w \<noteq> [] \<and> (snd w \<longrightarrow> may_write (tc_Name call) args \<subseteq> set (fst w)))"
      by (auto simp: w_def possibleWrittenPaths_def may_write_def Let_def)
    have "fst w \<noteq> [] \<Longrightarrow> paths = fst w \<and> full = snd w" using pf by (simp add: abort_paths_def st1_def)
    with wd that show ?thesis by auto
  qed
  have rec: "\<exists>m. fb_events (snd (recordAbort unquote encode b1 sid runID ''aborted_mid_tool'' detail)) =
        fb_events b @ [events_New ''run.aborted'' sid runID (GMap d), m]"
    "isHarnessAbortRecord (snd (last (fb_appended (snd (recordAbort unquote encode b1 sid runID ''aborted_mid_tool'' detail)))))"
    using assms(3) by (simp_all add: recordAbort_def Let_def b1 flight_of_def d_def isHarnessAbortRecord_def)
  obtain m where m: "fb_events (snd (recordAbort unquote encode b1 sid runID ''aborted_mid_tool'' detail)) =
        fb_events b @ [events_New ''run.aborted'' sid runID (GMap d), m]" using rec(1) by blast
  show ?thesis
    unfolding Let_def b1_def [symmetric] reason
    by (rule exI [of _ d], rule exI [of _ paths], rule exI [of _ m]) (use m rec(2) d complete in simp)
qed

theorem abort_record_lists_written_paths_witness:
  "\<exists>d m. fb_events (snd (recordAbort (\<lambda>_. None) (\<lambda>_. []) (setFlightTool (beginFlight newFlightBook ''s'' ''r'') ''s'' ''r'' 1
        \<lparr>tc_ID = ''c'', tc_Name = ''write_file'', tc_Arguments = []\<rparr> [(''path'', GStr ''a.txt'')]) ''s'' ''r''
        (abortReason (setFlightTool (beginFlight newFlightBook ''s'' ''r'') ''s'' ''r'' 1
        \<lparr>tc_ID = ''c'', tc_Name = ''write_file'', tc_Arguments = []\<rparr> [(''path'', GStr ''a.txt'')]) ''s'' ''r'') []))
     = fb_events (beginFlight newFlightBook ''s'' ''r'') @ [events_New ''run.aborted'' ''s'' ''r'' (GMap d), m]"
  using abort_record_lists_written_paths [of "beginFlight newFlightBook ''s'' ''r''" "''s''"
      "zero_flight\<lparr>fl_RunID := ''r'', fl_Stage := ''starting'', fl_PathsComplete := True\<rparr>" "''r''"
      "\<lparr>tc_ID = ''c'', tc_Name = ''write_file'', tc_Arguments = []\<rparr>" 1 "[(''path'', GStr ''a.txt'')]" "\<lambda>_. None" "\<lambda>_. []" "[]"]
  by (auto simp: beginFlight_def newFlightBook_def Let_def)

end
