(* ===== verification/Scheduler.thy ===== *)
theory Scheduler
  imports Session_Model Human_Notice Flight
begin

text \<open>
  The run scheduler of \<^verbatim>\<open>internal/agent/scheduler.go\<close> with the message submission of the runner
  (\<^verbatim>\<open>internal/agent/run.go\<close>).

  One transition is one critical section under the scheduler's mutex.  A run is a goroutine: starting it
  is the effect \<open>Launched\<close> and puts it into \<open>sc_goroutines\<close>; when \<^verbatim>\<open>Runner.Run\<close> returns, the goroutine
  calls \<open>finish\<close>, at any later time and with any result, which is a separate transition.  \<^verbatim>\<open>Stop\<close> is its
  critical section followed, for every cancelled run that does not yield in time, by \<open>stop_timeout\<close>.
  Session objects live in a store indexed by session ID, because queue entries keep pointing to a session
  that the registry may no longer list.  The iteration order of a Go map is arbitrary: where the code ranges
  over a map, the order is an argument.

  A schedule has one configuration and one set of registered sessions: reloading the configuration, and creating or
  closing sessions while runs are scheduled, are not steps.  Nor is what an executing run does to its
  conversation (appending answers, compaction); that is the subject of \<open>Run_Model\<close>.

  The pointer comparison \<^verbatim>\<open>active != expected\<close> is a comparison of run identifiers: every start uses a new
  identifier (\<open>run_ids_are_unique\<close> below).
\<close>

record queuedRun =
  q_session :: string
  q_runID :: string
  q_userMessageID :: string
  q_userMessage :: message

record activeRun =
  ar_stopReason :: string
  ar_runID :: string

record submitResult =
  sr_RunID :: string
  sr_Queued :: bool
  sr_Position :: int

record sched_cfg =
  cf_MaxConcurrent :: nat
  cf_MaxTurns :: int
  cf_QueueDepth :: nat
  cf_MaxWallClockSeconds :: int
  cf_MaxToolCalls :: int
  cf_AgentAux :: "string \<Rightarrow> bool" \<comment> \<open>the configured agent exists and has an auxiliary model\<close>
  cf_abortReason :: "string \<Rightarrow> string \<Rightarrow> string" \<comment> \<open>the flight book's answer\<close>
  cf_prepare :: "session \<Rightarrow> string \<Rightarrow> attachment list \<Rightarrow> (attachment list \<times> int \<times> bool) option"
    \<comment> \<open>profile lookup, attachment budget and token count of a user message; \<open>None\<close>: profile not found\<close>

datatype sched_effect =
    Published event
  | Launched string string
  | Cancelled string string
  | AgentIdle string
  | RecordedAbort string string string string

record scheduler =
  sc_active :: "(string \<times> activeRun) list"
  sc_queue :: "queuedRun list"
  sc_pending :: "string \<Rightarrow> queuedRun list"
  sc_held :: "string \<Rightarrow> bool"
  sc_unreachable :: "string \<Rightarrow> bool"
  sc_ids :: nat
  sc_mids :: nat
  sc_store :: "string \<Rightarrow> session"
  sc_registered :: "string \<Rightarrow> bool"
  sc_goroutines :: "queuedRun list"
  sc_effects :: "sched_effect list"

definition NewScheduler :: "(string \<Rightarrow> session) \<Rightarrow> (string \<Rightarrow> bool) \<Rightarrow> scheduler" where
  "NewScheduler store registered = \<lparr>sc_active = [], sc_queue = [], sc_pending = (\<lambda>_. []), sc_held = (\<lambda>_. False),
     sc_unreachable = (\<lambda>_. False), sc_ids = 0, sc_mids = 0, sc_store = store, sc_registered = registered,
     sc_goroutines = [], sc_effects = []\<rparr>"

section \<open>Small steps\<close>

definition effect :: "sched_effect \<Rightarrow> scheduler \<Rightarrow> scheduler" where
  "effect e S = S\<lparr>sc_effects := sc_effects S @ [e]\<rparr>"

definition publish :: "event \<Rightarrow> scheduler \<Rightarrow> scheduler" where
  "publish e S = effect (Published e) S"

definition published :: "scheduler \<Rightarrow> event list" where
  "published S = concat (map (\<lambda>x. case x of Published e \<Rightarrow> [e] | _ \<Rightarrow> []) (sc_effects S))"

interpretation scheduler_emitter: event_emitter publish published
  by unfold_locales (simp add: publish_def effect_def published_def)

definition on_session :: "string \<Rightarrow> (session \<Rightarrow> session) \<Rightarrow> scheduler \<Rightarrow> scheduler" where
  "on_session sid f S = S\<lparr>sc_store := (sc_store S)(sid := f (sc_store S sid))\<rparr>"

definition nextRunID :: "scheduler \<Rightarrow> string \<times> scheduler" where
  \<comment> \<open>\<^verbatim>\<open>fmt.Sprintf("r%d", s.ids.Add(1))\<close>\<close>
  "nextRunID S = (''r'' @ dec (Suc (sc_ids S)), S\<lparr>sc_ids := Suc (sc_ids S)\<rparr>)"

definition put_active :: "string \<Rightarrow> activeRun \<Rightarrow> (string \<times> activeRun) list \<Rightarrow> (string \<times> activeRun) list" where
  "put_active sid a m = (sid, a) # filter (\<lambda>p. fst p \<noteq> sid) m"

definition del_active :: "string \<Rightarrow> (string \<times> activeRun) list \<Rightarrow> (string \<times> activeRun) list" where
  "del_active sid m = filter (\<lambda>p. fst p \<noteq> sid) m"

definition DetectorNames :: "string list" where
  "DetectorNames = [''novel_action'', ''result_repetition'', ''repeated_timeouts'', ''model_says_stuck'', ''error_success_ratio'',
     ''baseline_deviation'', ''aux_progress'']"

definition ArmedSet :: "bool \<Rightarrow> string list" where
  "ArmedSet hasAux = take 6 DetectorNames @ (if hasAux then [''aux_progress''] else [])"

definition armedDetectors :: "sched_cfg \<Rightarrow> session \<Rightarrow> string list" where
  "armedDetectors C s = ArmedSet (cf_AgentAux C (s_AgentID s))"

definition new_run_state :: "sched_cfg \<Rightarrow> session \<Rightarrow> string \<Rightarrow> string \<Rightarrow> int \<Rightarrow> runState" where
  \<comment> \<open>\<^verbatim>\<open>session.RunState{Status: ..., RunID: ..., MaxTurns: ..., QueuePosition: ..., ArmedDetectors: ...}\<close>\<close>
  "new_run_state C s status runID position = emptyRunState\<lparr>rs_Status := status, rs_RunID := runID,
     rs_MaxTurns := cf_MaxTurns C, rs_QueuePosition := position, rs_ArmedDetectors := armedDetectors C s\<rparr>"

definition agentActiveLocked :: "scheduler \<Rightarrow> string \<Rightarrow> bool" where
  "agentActiveLocked S agentID \<longleftrightarrow>
     (\<exists>p \<in> set (sc_active S). sc_registered S (fst p) \<and> s_AgentID (sc_store S (fst p)) = agentID)"

definition notifyAgentIdleLocked :: "string \<Rightarrow> scheduler \<Rightarrow> scheduler" where
  "notifyAgentIdleLocked agentID S =
     (if agentID \<noteq> [] \<and> \<not> agentActiveLocked S agentID then effect (AgentIdle agentID) S else S)"

definition TryAgentIdle :: "scheduler \<Rightarrow> string \<Rightarrow> bool \<times> scheduler" where
  "TryAgentIdle S agentID = (if agentActiveLocked S agentID then (False, S) else (True, effect (AgentIdle agentID) S))"

section \<open>User messages\<close>

definition QueueUserAttachments :: "sched_cfg \<Rightarrow> scheduler \<Rightarrow> string \<Rightarrow> string \<Rightarrow> attachment list \<Rightarrow> (message \<times> scheduler) gores" where
  "QueueUserAttachments C S sid body atts =
     (case cf_prepare C (sc_store S sid) body atts of
        None \<Rightarrow> Err ''profile not found''
      | Some (atts', tokens, estimated) \<Rightarrow>
          let n = Suc (sc_mids S) in
          Ok (emptyMessage\<lparr>msg_ID := ''m-'' @ dec n, msg_Role := ''user'', msg_Content := body, msg_Category := ''history'',
                msg_Attachments := atts', msg_Tokens := tokens, msg_Estimated := estimated\<rparr>, S\<lparr>sc_mids := n\<rparr>))"

definition AppendUser :: "scheduler \<Rightarrow> string \<Rightarrow> message \<Rightarrow> scheduler" where
  "AppendUser S sid m =
     publish (events_New ''message.appended'' sid [] (GMap [(''message'', GMessage m)])) (on_session sid (\<lambda>s. Append s m) S)"

definition AddUserAttachments :: "sched_cfg \<Rightarrow> scheduler \<Rightarrow> string \<Rightarrow> string \<Rightarrow> attachment list \<Rightarrow> (message \<times> scheduler) gores" where
  "AddUserAttachments C S sid body atts =
     gores_bind (QueueUserAttachments C S sid body atts) (\<lambda>(m, S1). Ok (m, AppendUser S1 sid m))"

section \<open>Starting, draining, repositioning\<close>

definition started_event :: "sched_cfg \<Rightarrow> queuedRun \<Rightarrow> string list \<Rightarrow> event" where
  "started_event C entry armed = events_New ''run.started'' (q_session entry) (q_runID entry)
     (GMap [(''run_id'', GStr (q_runID entry)), (''user_message_id'', GStr (q_userMessageID entry)), (''armed_detectors'', GStrs armed),
        (''thresholds_are_guesses'', GBool True),
        (''backstops'', GMap [(''wall_clock_seconds'', GInt (cf_MaxWallClockSeconds C)), (''tool_calls'', GInt (cf_MaxToolCalls C)),
           (''turn_ceiling'', GInt (cf_MaxTurns C))])])"

definition deliver_message :: "scheduler \<Rightarrow> queuedRun \<Rightarrow> scheduler \<times> queuedRun" where
  "deliver_message S entry =
     (if msg_ID (q_userMessage entry) \<noteq> []
      then (AppendUser S (q_session entry) (q_userMessage entry), entry\<lparr>q_userMessage := emptyMessage\<rparr>)
      else (S, entry))"

definition startLocked :: "sched_cfg \<Rightarrow> scheduler \<Rightarrow> queuedRun \<Rightarrow> scheduler" where
  "startLocked C S0 entry0 =
     (let (S, entry) = deliver_message S0 entry0;
          sid = q_session entry;
          S1 = S\<lparr>sc_active := put_active sid \<lparr>ar_stopReason = [], ar_runID = q_runID entry\<rparr> (sc_active S)\<rparr>;
          armed = armedDetectors C (sc_store S1 sid);
          S2 = on_session sid (\<lambda>s. SetRun s (new_run_state C s ''running'' (q_runID entry) 0)) S1;
          S3 = publish (started_event C entry armed) S2
      in effect (Launched sid (q_runID entry)) (S3\<lparr>sc_goroutines := sc_goroutines S3 @ [entry]\<rparr>))"

primrec drain :: "sched_cfg \<Rightarrow> queuedRun list \<Rightarrow> scheduler \<Rightarrow> scheduler" where
  \<comment> \<open>\<^verbatim>\<open>for len(s.queue) > 0 && len(s.active) < MaxConcurrent\<close>; the list is the queue\<close>
  "drain C [] S = S\<lparr>sc_queue := []\<rparr>"
| "drain C (q # qs) S =
     (if length (sc_active S) < cf_MaxConcurrent C then drain C qs (startLocked C (S\<lparr>sc_queue := qs\<rparr>) q)
      else S\<lparr>sc_queue := q # qs\<rparr>)"

primrec reposition_from :: "nat \<Rightarrow> queuedRun list \<Rightarrow> scheduler \<Rightarrow> scheduler" where
  "reposition_from i [] S = S"
| "reposition_from i (q # qs) S =
     reposition_from (Suc i) qs
       (on_session (q_session q) (\<lambda>s. SetRun s ((s_Run s)\<lparr>rs_QueuePosition := int i + 1\<rparr>)) S)"

definition repositionLocked :: "scheduler \<Rightarrow> scheduler" where
  "repositionLocked S = reposition_from 0 (sc_queue S) S"

definition enqueue_run :: "sched_cfg \<Rightarrow> queuedRun \<Rightarrow> scheduler \<Rightarrow> scheduler" where
  \<comment> \<open>the shared tail of \<^verbatim>\<open>SubmitAttachments\<close> and \<^verbatim>\<open>ReleaseModel\<close>: append to the queue, mark queued, publish\<close>
  "enqueue_run C entry S =
     (let S1 = S\<lparr>sc_queue := sc_queue S @ [entry]\<rparr>; position = int (length (sc_queue S1));
          S2 = on_session (q_session entry) (\<lambda>s. SetRun s (new_run_state C s ''queued'' (q_runID entry) position)) S1
      in publish (events_New ''run.queued'' (q_session entry) (q_runID entry)
           (GMap [(''run_id'', GStr (q_runID entry)), (''position'', GInt position)])) S2)"

definition start_or_queue :: "sched_cfg \<Rightarrow> queuedRun \<Rightarrow> scheduler \<Rightarrow> scheduler" where
  "start_or_queue C entry S =
     (if length (sc_active S) < cf_MaxConcurrent C then startLocked C S entry else enqueue_run C entry S)"

section \<open>Submitting\<close>

fun identicalPendingPosition :: "queuedRun list \<Rightarrow> string \<Rightarrow> nat" where
  "identicalPendingPosition [] body = 0"
| "identicalPendingPosition (q # qs) body =
     (if msg_Content (q_userMessage q) = body then 1
      else case identicalPendingPosition qs body of 0 \<Rightarrow> 0 | Suc n \<Rightarrow> Suc (Suc n))"

definition pending_entry :: "string \<Rightarrow> message \<Rightarrow> queuedRun" where
  "pending_entry sid m = \<lparr>q_session = sid, q_runID = [], q_userMessageID = msg_ID m, q_userMessage = m\<rparr>"

definition queued_result :: "int \<Rightarrow> submitResult" where
  "queued_result position = \<lparr>sr_RunID = [], sr_Queued = True, sr_Position = position\<rparr>"

definition add_pending :: "string \<Rightarrow> message \<Rightarrow> scheduler \<Rightarrow> scheduler" where
  "add_pending sid m S = S\<lparr>sc_pending := (sc_pending S)(sid := sc_pending S sid @ [pending_entry sid m])\<rparr>"

definition submit_unreachable :: "sched_cfg \<Rightarrow> scheduler \<Rightarrow> string \<Rightarrow> string \<Rightarrow> attachment list \<Rightarrow> (submitResult \<times> scheduler) gores" where
  "submit_unreachable C S sid body atts =
     (let same = identicalPendingPosition (sc_pending S sid) body in
      if 0 < same then Ok (queued_result (int same), S)
      else gores_bind (QueueUserAttachments C S sid body atts) (\<lambda>(m, S1).
        let S2 = add_pending sid m S1; position = int (length (sc_pending S2 sid));
            S3 = on_session sid (\<lambda>s. let s1 = SetQueuedMessages s position in
                   SetRun s1 ((s_Run s1)\<lparr>rs_Status := ''held'', rs_QueuePosition := position\<rparr>)) S2
        in Ok (queued_result position, publish (events_New ''message.queued'' sid []
             (GMap [(''message_id'', GStr (msg_ID m)), (''position'', GInt position), (''waiting_for'', GStr ''model'')])) S3)))"

definition pop_pending :: "string \<Rightarrow> scheduler \<Rightarrow> scheduler" where
  \<comment> \<open>drop the head of the session's pending messages and store their number in the session\<close>
  "pop_pending sid S =
     (let rest = tl (sc_pending S sid) in
      on_session sid (\<lambda>s. SetQueuedMessages s (int (length rest))) (S\<lparr>sc_pending := (sc_pending S)(sid := rest)\<rparr>))"

definition submit_held :: "sched_cfg \<Rightarrow> scheduler \<Rightarrow> string \<Rightarrow> string \<Rightarrow> attachment list \<Rightarrow> (submitResult \<times> scheduler) gores" where
  "submit_held C S sid body atts =
     gores_bind (QueueUserAttachments C S sid body atts) (\<lambda>(m, S1).
       let S2 = add_pending sid m S1; position = int (length (sc_pending S2 sid));
           S3 = S2\<lparr>sc_held := (sc_held S2)(sid := False)\<rparr>;
           next = hd (sc_pending S3 sid);
           S4 = pop_pending sid S3;
           (runID, S5) = nextRunID S4
       in Ok (queued_result position, start_or_queue C (next\<lparr>q_runID := runID\<rparr>) S5))"

definition submit_running :: "sched_cfg \<Rightarrow> scheduler \<Rightarrow> string \<Rightarrow> string \<Rightarrow> attachment list \<Rightarrow> (submitResult \<times> scheduler) gores" where
  "submit_running C S sid body atts =
     (let same = identicalPendingPosition (sc_pending S sid) body in
      if 0 < same then Ok (queued_result (int same), S)
      else if 0 < cf_QueueDepth C \<and> cf_QueueDepth C \<le> length (sc_pending S sid) then Err ''queue full''
      else gores_bind (QueueUserAttachments C S sid body atts) (\<lambda>(m, S1).
        let S2 = add_pending sid m S1; position = int (length (sc_pending S2 sid));
            S3 = on_session sid (\<lambda>s. SetQueuedMessages s position) S2
        in Ok (queued_result position, publish (events_New ''message.queued'' sid []
             (GMap [(''message_id'', GStr (msg_ID m)), (''position'', GInt position)])) S3)))"

definition submit_idle :: "sched_cfg \<Rightarrow> scheduler \<Rightarrow> string \<Rightarrow> string \<Rightarrow> attachment list \<Rightarrow> (submitResult \<times> scheduler) gores" where
  "submit_idle C S sid body atts =
     gores_bind (AddUserAttachments C S sid body atts) (\<lambda>(m, S1).
       let (runID, S2) = nextRunID S1;
           entry = \<lparr>q_session = sid, q_runID = runID, q_userMessageID = msg_ID m, q_userMessage = emptyMessage\<rparr>
       in if length (sc_active S2) < cf_MaxConcurrent C
          then Ok (\<lparr>sr_RunID = runID, sr_Queued = False, sr_Position = 0\<rparr>, startLocked C S2 entry)
          else Ok (\<lparr>sr_RunID = runID, sr_Queued = True, sr_Position = int (length (sc_queue S2) + 1)\<rparr>, enqueue_run C entry S2))"

definition submit_locked :: "sched_cfg \<Rightarrow> scheduler \<Rightarrow> string \<Rightarrow> string \<Rightarrow> attachment list \<Rightarrow> (submitResult \<times> scheduler) gores" where
  \<comment> \<open>the body under the mutex, after \<^verbatim>\<open>BeginSubmission\<close>\<close>
  "submit_locked C S sid body atts =
     (if sc_unreachable S sid then submit_unreachable C S sid body atts
      else if sc_held S sid then submit_held C S sid body atts
      else if map_of (sc_active S) sid \<noteq> None \<or> IsRunning (sc_store S sid) then submit_running C S sid body atts
      else submit_idle C S sid body atts)"

definition SubmitAttachments :: "sched_cfg \<Rightarrow> scheduler \<Rightarrow> string \<Rightarrow> string \<Rightarrow> attachment list \<Rightarrow> (submitResult \<times> scheduler) gores" where
  "SubmitAttachments C S sid body atts =
     (if \<not> sc_registered S sid then Err ''session not found''
      else if IsClosed (sc_store S sid) then Err ''session is closed''
      else if \<not> fst (BeginSubmission (sc_store S sid)) then Err ''session is closed''
      else gores_bind (submit_locked C (on_session sid (\<lambda>s. snd (BeginSubmission s)) S) sid body atts)
             (\<lambda>(r, S'). Ok (r, on_session sid EndSubmission S')))"

section \<open>Finishing\<close>

definition stopped_event :: "string \<Rightarrow> string \<Rightarrow> string \<Rightarrow> string \<Rightarrow> int \<Rightarrow> bool \<Rightarrow> string list \<Rightarrow> event" where
  "stopped_event sid runID reason detail turns queueHeld armed = events_New ''run.stopped'' sid runID
     (GMap (WithHuman ''run.stopped'' [(''run_id'', GStr runID), (''reason'', GStr reason), (''detail'', GStr detail), (''turns'', GInt turns),
        (''queue_held'', GBool queueHeld), (''armed_detectors'', GStrs armed)]))"

definition settle_session :: "sched_cfg \<Rightarrow> string \<Rightarrow> string \<Rightarrow> string \<Rightarrow> string \<Rightarrow> int \<Rightarrow> scheduler \<Rightarrow> scheduler" where
  \<comment> \<open>final run state, \<^verbatim>\<open>run.stopped\<close>, idle callback\<close>
  "settle_session C sid runID reason detail turns S =
     (let armed = rs_ArmedDetectors (s_Run (sc_store S sid));
          queueHeld = ((sc_held S sid \<or> sc_unreachable S sid) \<and> sc_pending S sid \<noteq> []);
          state = emptyRunState\<lparr>rs_Status := (if queueHeld then ''held'' else ''idle''), rs_MaxTurns := cf_MaxTurns C,
             rs_QueuePosition := (if queueHeld then int (length (sc_pending S sid)) else 0), rs_LastStopReason := reason,
             rs_LastStopDetail := detail, rs_LastRunID := runID, rs_ArmedDetectors := armed\<rparr>;
          S1 = on_session sid (\<lambda>s. SetRun s state) S;
          S2 = publish (stopped_event sid runID reason detail turns queueHeld armed) S1
      in notifyAgentIdleLocked (s_AgentID (sc_store S2 sid)) S2)"

definition stop_session :: "sched_cfg \<Rightarrow> string \<Rightarrow> string \<Rightarrow> string \<Rightarrow> string \<Rightarrow> int \<Rightarrow> scheduler \<Rightarrow> scheduler" where
  \<comment> \<open>the shared part of \<^verbatim>\<open>finish\<close> and \<^verbatim>\<open>forceFinish\<close>: settle the session, then drain the queue and renumber it\<close>
  "stop_session C sid runID reason detail turns S =
     (let S1 = settle_session C sid runID reason detail turns S in repositionLocked (drain C (sc_queue S1) S1))"

definition follow_up :: "sched_cfg \<Rightarrow> string \<Rightarrow> scheduler \<Rightarrow> scheduler" where
  \<comment> \<open>the next pending message of the session becomes a queued run\<close>
  "follow_up C sid S =
     (if sc_pending S sid \<noteq> [] \<and> \<not> sc_held S sid \<and> \<not> sc_unreachable S sid then
        let next = hd (sc_pending S sid); S1 = pop_pending sid S; (runID, S2) = nextRunID S1;
            S3 = on_session (q_session next) (\<lambda>s. SetRun s (new_run_state C s ''queued'' runID 0)) S2
        in S3\<lparr>sc_queue := sc_queue S3 @ [next\<lparr>q_runID := runID\<rparr>]\<rparr>
      else S)"

definition finish :: "sched_cfg \<Rightarrow> scheduler \<Rightarrow> queuedRun \<Rightarrow> string \<Rightarrow> string \<Rightarrow> int \<Rightarrow> scheduler" where
  "finish C S entry reason0 detail turns =
     (let sid = q_session entry in
      case map_of (sc_active S) sid of
        None \<Rightarrow> S
      | Some active \<Rightarrow>
          if ar_runID active \<noteq> [] \<and> ar_runID active \<noteq> q_runID entry then S
          else
            let S1 = S\<lparr>sc_active := del_active sid (sc_active S)\<rparr>;
                reason = (if ar_stopReason active \<noteq> [] then ar_stopReason active else reason0);
                S2 = (if reason = ''model_unreachable'' then S1\<lparr>sc_unreachable := (sc_unreachable S1)(sid := True)\<rparr> else S1);
                S3 = follow_up C sid S2
            in stop_session C sid (q_runID entry) reason detail turns S3)"

definition forceFinish :: "sched_cfg \<Rightarrow> scheduler \<Rightarrow> string \<Rightarrow> string \<Rightarrow> string \<Rightarrow> scheduler" where
  \<comment> \<open>the fourth argument identifies the expected active run\<close>
  "forceFinish C S sid runID detail =
     (case map_of (sc_active S) sid of
        None \<Rightarrow> S
      | Some active \<Rightarrow>
          if ar_runID active \<noteq> runID then S
          else
            let S1 = S\<lparr>sc_active := del_active sid (sc_active S)\<rparr> in
            if \<not> sc_registered S1 sid then S1
            else stop_session C sid runID (ar_stopReason active) detail (rs_Turn (s_Run (sc_store S1 sid))) S1)"

section \<open>Stopping\<close>

definition stop_active :: "sched_cfg \<Rightarrow> string \<Rightarrow> scheduler \<Rightarrow> scheduler" where
  \<comment> \<open>one active run of the loop in \<^verbatim>\<open>Stop\<close>\<close>
  "stop_active C sid S =
     (case map_of (sc_active S) sid of None \<Rightarrow> S
      | Some active \<Rightarrow>
          let reason = cf_abortReason C sid (ar_runID active);
              S1 = S\<lparr>sc_active := map (\<lambda>p. if fst p = sid then (sid, active\<lparr>ar_stopReason := reason\<rparr>) else p) (sc_active S)\<rparr>;
              S2 = (if sc_pending S1 sid \<noteq> [] then S1\<lparr>sc_held := (sc_held S1)(sid := True)\<rparr> else S1);
              S3 = (if sc_registered S2 sid then on_session sid (\<lambda>s. SetRun s ((s_Run s)\<lparr>rs_Status := ''stopping''\<rparr>)) S2 else S2);
              runID = (if sc_registered S3 sid then rs_RunID (s_Run (sc_store S3 sid)) else [])
          in effect (Cancelled sid (ar_runID active))
               (publish (events_New ''run.stopping'' sid runID (GMap [(''reason'', GStr reason)])) S3))"

definition stop_queued :: "sched_cfg \<Rightarrow> queuedRun \<Rightarrow> scheduler \<Rightarrow> scheduler" where
  \<comment> \<open>one queued run that is stopped before dispatch\<close>
  "stop_queued C entry S =
     (let sid = q_session entry;
          S1 = (if sc_pending S sid \<noteq> [] then S\<lparr>sc_held := (sc_held S)(sid := True)\<rparr> else S);
          S2 = publish (events_New ''run.stopping'' sid (q_runID entry) (GMap [(''reason'', GStr ''done'')])) S1;
          armed = rs_ArmedDetectors (s_Run (sc_store S2 sid));
          state = emptyRunState\<lparr>rs_Status := (if sc_held S2 sid then ''held'' else ''idle''), rs_MaxTurns := cf_MaxTurns C,
             rs_QueuePosition := int (length (sc_pending S2 sid)), rs_LastStopReason := ''done'',
             rs_LastStopDetail := ''stopped before dispatch'', rs_LastRunID := q_runID entry, rs_ArmedDetectors := armed\<rparr>;
          S3 = on_session sid (\<lambda>s. SetRun s state) S2
      in publish (stopped_event sid (q_runID entry) ''done'' ''stopped before dispatch'' 0 (sc_held S3 sid) armed) S3)"

definition Stop_locked :: "sched_cfg \<Rightarrow> string list \<Rightarrow> string list \<Rightarrow> scheduler \<Rightarrow> string \<Rightarrow> bool \<Rightarrow> string list \<times> scheduler" where
  \<comment> \<open>\<^verbatim>\<open>Stop\<close> up to releasing the mutex; the first two lists are the iteration orders of the active map and of the idle agents\<close>
  "Stop_locked C order agents S sessionID stopAll =
     (let ids = filter (\<lambda>i. map_of (sc_active S) i \<noteq> None \<and> (stopAll \<or> i = sessionID)) order;
          S1 = fold (stop_active C) ids S;
          hit = filter (\<lambda>q. stopAll \<or> q_session q = sessionID) (sc_queue S1);
          kept = filter (\<lambda>q. \<not> (stopAll \<or> q_session q = sessionID)) (sc_queue S1);
          idle = (\<lambda>a. \<exists>q \<in> set hit. s_AgentID (sc_store S1 (q_session q)) = a);
          S2 = (fold (stop_queued C) hit S1)\<lparr>sc_queue := kept\<rparr>;
          S3 = repositionLocked S2
      in (ids @ map q_session hit, fold notifyAgentIdleLocked (filter idle agents) S3))"

definition stop_timeout :: "sched_cfg \<Rightarrow> scheduler \<Rightarrow> string \<Rightarrow> string \<Rightarrow> string \<Rightarrow> scheduler" where
  \<comment> \<open>a cancelled run did not yield within the bound\<close>
  "stop_timeout C S sid runID reason =
     forceFinish C (effect (RecordedAbort sid runID reason (abortDetail True)) S) sid runID (abortDetail True)"

section \<open>Model reachability\<close>

definition release_one :: "sched_cfg \<Rightarrow> string \<Rightarrow> string \<Rightarrow> scheduler \<Rightarrow> scheduler" where
  "release_one C profileID sid S =
     (if \<not> sc_unreachable S sid \<or> \<not> sc_registered S sid \<or> s_ServerID (sc_store S sid) \<noteq> profileID then S
      else
        let S1 = publish (events_New ''model.reachable'' sid [] (GMap [(''server_id'', GStr profileID)]))
                   (S\<lparr>sc_unreachable := (sc_unreachable S)(sid := False)\<rparr>)
        in if sc_pending S1 sid = [] \<or> sc_held S1 sid \<or> map_of (sc_active S1) sid \<noteq> None then S1
           else let next = hd (sc_pending S1 sid); S2 = pop_pending sid S1; (runID, S3) = nextRunID S2
                in start_or_queue C (next\<lparr>q_runID := runID\<rparr>) S3)"

definition ReleaseModel :: "sched_cfg \<Rightarrow> string list \<Rightarrow> scheduler \<Rightarrow> string \<Rightarrow> scheduler" where
  \<comment> \<open>the list is the iteration order of the map of unreachable sessions\<close>
  "ReleaseModel C order S profileID = fold (release_one C profileID) order S"

definition HoldModel :: "scheduler \<Rightarrow> string \<Rightarrow> scheduler" where
  "HoldModel S sid = S\<lparr>sc_unreachable := (sc_unreachable S)(sid := True)\<rparr>"

definition Active :: "scheduler \<Rightarrow> string \<Rightarrow> bool" where
  "Active S sid \<longleftrightarrow> map_of (sc_active S) sid \<noteq> None \<or> (\<exists>q \<in> set (sc_queue S). q_session q = sid)"

section \<open>Transitions\<close>

inductive sched_step :: "sched_cfg \<Rightarrow> scheduler \<Rightarrow> scheduler \<Rightarrow> bool" for C where
  st_submit: "SubmitAttachments (C\<lparr>cf_prepare := p\<rparr>) S sid body atts = Ok (r, S') \<Longrightarrow> sched_step C S S'"
| st_finish: "entry \<in> set (sc_goroutines S) \<Longrightarrow> S' = finish C S entry reason detail turns \<Longrightarrow>
    sched_step C S (S'\<lparr>sc_goroutines := remove1 entry (sc_goroutines S')\<rparr>)"
| st_stop: "set order = fst ` set (sc_active S) \<Longrightarrow>
    sched_step C S (snd (Stop_locked (C\<lparr>cf_abortReason := f\<rparr>) order agents S sid stopAll))"
| st_timeout: "sc_registered S sid \<Longrightarrow> sched_step C S (stop_timeout C S sid runID reason)"
| st_release: "sched_step C S (ReleaseModel C order S profileID)"
| st_hold: "sched_step C S (HoldModel S sid)"
| st_idle: "sched_step C S (snd (TryAgentIdle S agentID))"

definition launched :: "scheduler \<Rightarrow> string list" where
  \<comment> \<open>identifiers of the runs started so far\<close>
  "launched S = concat (map (\<lambda>x. case x of Launched sid r \<Rightarrow> [r] | _ \<Rightarrow> []) (sc_effects S))"

lemma frame_simps [simp]:
  "sc_active (effect e S) = sc_active S" "sc_queue (effect e S) = sc_queue S" "sc_ids (effect e S) = sc_ids S"
  "sc_mids (effect e S) = sc_mids S" "sc_pending (effect e S) = sc_pending S" "sc_store (effect e S) = sc_store S"
  "sc_goroutines (effect e S) = sc_goroutines S" "sc_registered (effect e S) = sc_registered S"
  "sc_held (effect e S) = sc_held S" "sc_unreachable (effect e S) = sc_unreachable S"
  "sc_active (publish v S) = sc_active S" "sc_queue (publish v S) = sc_queue S" "sc_ids (publish v S) = sc_ids S"
  "sc_mids (publish v S) = sc_mids S" "sc_pending (publish v S) = sc_pending S" "sc_store (publish v S) = sc_store S"
  "sc_goroutines (publish v S) = sc_goroutines S" "sc_registered (publish v S) = sc_registered S"
  "sc_held (publish v S) = sc_held S" "sc_unreachable (publish v S) = sc_unreachable S"
  "launched (publish v S) = launched S"
  by (simp_all add: effect_def publish_def launched_def)

lemma launched_effect [simp]:
  "launched (effect (Launched sid r) S) = launched S @ [r]" "launched (effect (Cancelled sid r) S) = launched S"
  "launched (effect (AgentIdle a) S) = launched S" "launched (effect (RecordedAbort sid r x y) S) = launched S"
  by (simp_all add: effect_def launched_def)

lemma launched_updates [simp]:
  "launched (S\<lparr>sc_active := x1\<rparr>) = launched S" "launched (S\<lparr>sc_queue := x2\<rparr>) = launched S" "launched (S\<lparr>sc_pending := x3\<rparr>) = launched S"
  "launched (S\<lparr>sc_held := x4\<rparr>) = launched S" "launched (S\<lparr>sc_unreachable := x5\<rparr>) = launched S" "launched (S\<lparr>sc_ids := x6\<rparr>) = launched S"
  "launched (S\<lparr>sc_mids := x7\<rparr>) = launched S" "launched (S\<lparr>sc_store := x8\<rparr>) = launched S" "launched (S\<lparr>sc_goroutines := x9\<rparr>) = launched S"
  by (simp_all add: launched_def)

lemma on_session_simps [simp]:
  "sc_active (on_session sid f S) = sc_active S" "sc_queue (on_session sid f S) = sc_queue S" "sc_ids (on_session sid f S) = sc_ids S"
  "sc_mids (on_session sid f S) = sc_mids S" "sc_pending (on_session sid f S) = sc_pending S"
  "sc_goroutines (on_session sid f S) = sc_goroutines S" "sc_registered (on_session sid f S) = sc_registered S"
  "sc_held (on_session sid f S) = sc_held S" "sc_unreachable (on_session sid f S) = sc_unreachable S"
  "launched (on_session sid f S) = launched S"
  by (simp_all add: on_session_def)

lemma pending_simps [simp]:
  "sc_active (add_pending sid m S) = sc_active S" "sc_queue (add_pending sid m S) = sc_queue S" "sc_ids (add_pending sid m S) = sc_ids S"
  "launched (add_pending sid m S) = launched S" "sc_mids (add_pending sid m S) = sc_mids S" "sc_store (add_pending sid m S) = sc_store S"
  "sc_active (pop_pending sid S) = sc_active S" "sc_queue (pop_pending sid S) = sc_queue S" "sc_ids (pop_pending sid S) = sc_ids S"
  "launched (pop_pending sid S) = launched S" "sc_mids (pop_pending sid S) = sc_mids S"
  by (simp_all add: add_pending_def pop_pending_def Let_def)

lemma notify_simps [simp]:
  "sc_active (notifyAgentIdleLocked a S) = sc_active S" "sc_queue (notifyAgentIdleLocked a S) = sc_queue S"
  "sc_ids (notifyAgentIdleLocked a S) = sc_ids S" "launched (notifyAgentIdleLocked a S) = launched S"
  "sc_mids (notifyAgentIdleLocked a S) = sc_mids S" "sc_store (notifyAgentIdleLocked a S) = sc_store S"
  "sc_pending (notifyAgentIdleLocked a S) = sc_pending S" "sc_goroutines (notifyAgentIdleLocked a S) = sc_goroutines S"
  by (simp_all add: notifyAgentIdleLocked_def)

lemma reposition_simps [simp]:
  "sc_active (reposition_from i qs S) = sc_active S" "sc_queue (reposition_from i qs S) = sc_queue S"
  "sc_ids (reposition_from i qs S) = sc_ids S" "launched (reposition_from i qs S) = launched S"
  "sc_mids (reposition_from i qs S) = sc_mids S" "sc_pending (reposition_from i qs S) = sc_pending S"
  "sc_goroutines (reposition_from i qs S) = sc_goroutines S"
  by (induction qs arbitrary: i S) simp_all

lemma repositionLocked_simps [simp]:
  "sc_active (repositionLocked S) = sc_active S" "sc_queue (repositionLocked S) = sc_queue S"
  "sc_ids (repositionLocked S) = sc_ids S" "launched (repositionLocked S) = launched S"
  "sc_mids (repositionLocked S) = sc_mids S" "sc_pending (repositionLocked S) = sc_pending S"
  by (simp_all add: repositionLocked_def)

lemma startLocked_simps [simp]:
  "sc_active (startLocked C S q) = put_active (q_session q) \<lparr>ar_stopReason = [], ar_runID = q_runID q\<rparr> (sc_active S)"
  "sc_queue (startLocked C S q) = sc_queue S" "sc_ids (startLocked C S q) = sc_ids S"
  "launched (startLocked C S q) = launched S @ [q_runID q]" "sc_mids (startLocked C S q) = sc_mids S"
  "sc_pending (startLocked C S q) = sc_pending S"
  by (simp_all add: startLocked_def deliver_message_def AppendUser_def Let_def)

subsection \<open>The invariant\<close>

definition issued :: "scheduler \<Rightarrow> string \<Rightarrow> bool" where
  "issued S r \<longleftrightarrow> (\<exists>k. 1 \<le> k \<and> k \<le> sc_ids S \<and> r = ''r'' @ dec k)"

definition slots_ok :: "sched_cfg \<Rightarrow> scheduler \<Rightarrow> bool" where
  "slots_ok C S \<longleftrightarrow> distinct (map fst (sc_active S)) \<and> length (sc_active S) \<le> cf_MaxConcurrent C"

definition ids_ok :: "string list \<Rightarrow> scheduler \<Rightarrow> bool" where
  \<comment> \<open>the list holds identifiers waiting to be started\<close>
  "ids_ok xs S \<longleftrightarrow> distinct (xs @ launched S) \<and> (\<forall>r \<in> set (xs @ launched S). issued S r)"

definition sched_inv :: "sched_cfg \<Rightarrow> scheduler \<Rightarrow> bool" where
  "sched_inv C S \<longleftrightarrow> slots_ok C S \<and> (sc_queue S \<noteq> [] \<longrightarrow> cf_MaxConcurrent C \<le> length (sc_active S))
     \<and> ids_ok (map q_runID (sc_queue S)) S"

lemma sched_inv_cong:
  assumes "sc_active S' = sc_active S" "sc_queue S' = sc_queue S" "sc_ids S' = sc_ids S" "launched S' = launched S"
  shows "sched_inv C S' = sched_inv C S"
  by (simp add: sched_inv_def slots_ok_def ids_ok_def issued_def assms)

lemma length_put_active: "length (put_active sid a m) \<le> Suc (length m)"
  by (simp add: put_active_def)

lemma distinct_put_active: "distinct (map fst m) \<Longrightarrow> distinct (map fst (put_active sid a m))"
  by (auto simp: put_active_def distinct_map_filter)

lemma slots_start: "slots_ok C S \<Longrightarrow> length (sc_active S) < cf_MaxConcurrent C \<Longrightarrow> slots_ok C (startLocked D S q)"
  using length_put_active [of "q_session q" _ "sc_active S"]
  by (fastforce simp: slots_ok_def distinct_put_active intro: le_trans)

lemma ids_start: "ids_ok (q_runID q # xs) S \<Longrightarrow> ids_ok xs (startLocked C S q)"
  by (auto simp: ids_ok_def issued_def)

lemma drain_inv:
  assumes "slots_ok C S" "ids_ok (map q_runID qs) S"
  shows "sched_inv C (drain C qs S)"
  using assms
proof (induction qs arbitrary: S)
  case Nil
  then show ?case by (simp add: sched_inv_def slots_ok_def ids_ok_def issued_def)
next
  case (Cons q qs)
  show ?case
  proof (cases "length (sc_active S) < cf_MaxConcurrent C")
    case True
    have "slots_ok C (S\<lparr>sc_queue := qs\<rparr>)" "ids_ok (q_runID q # map q_runID qs) (S\<lparr>sc_queue := qs\<rparr>)"
      using Cons.prems by (simp_all add: slots_ok_def ids_ok_def issued_def)
    with True Cons.IH [OF slots_start ids_start] show ?thesis by simp
  next
    case False
    then show ?thesis using Cons.prems by (simp add: sched_inv_def slots_ok_def ids_ok_def issued_def)
  qed
qed

lemma drain_ids [simp]: "sc_ids (drain C qs S) = sc_ids S" "sc_mids (drain C qs S) = sc_mids S" "sc_pending (drain C qs S) = sc_pending S"
  by (induction qs arbitrary: S) simp_all

lemma enqueue_simps [simp]:
  "sc_active (enqueue_run C q S) = sc_active S" "sc_queue (enqueue_run C q S) = sc_queue S @ [q]" "sc_ids (enqueue_run C q S) = sc_ids S"
  "launched (enqueue_run C q S) = launched S" "sc_mids (enqueue_run C q S) = sc_mids S" "sc_pending (enqueue_run C q S) = sc_pending S"
  by (simp_all add: enqueue_run_def Let_def)

lemma queue_full: "sched_inv C S \<Longrightarrow> length (sc_active S) < cf_MaxConcurrent C \<Longrightarrow> sc_queue S = []"
  by (auto simp: sched_inv_def)

lemma start_inv:
  assumes "sched_inv C S" "length (sc_active S) < cf_MaxConcurrent C" "ids_ok (q_runID q # map q_runID (sc_queue S)) S"
  shows "sched_inv C (startLocked D S q)"
  using slots_start [of C S D q] ids_start [OF assms(3), of D] queue_full [OF assms(1,2)] assms(1,2)
  by (simp add: sched_inv_def)

lemma enqueue_inv:
  assumes "sched_inv C S" "\<not> length (sc_active S) < cf_MaxConcurrent C" "ids_ok (q_runID q # map q_runID (sc_queue S)) S"
  shows "sched_inv C (enqueue_run D q S)"
  using assms by (auto simp: sched_inv_def slots_ok_def ids_ok_def issued_def)

lemma nextRunID_simps [simp]:
  "sc_active (snd (nextRunID S)) = sc_active S" "sc_queue (snd (nextRunID S)) = sc_queue S" "launched (snd (nextRunID S)) = launched S"
  "sc_mids (snd (nextRunID S)) = sc_mids S" "sc_pending (snd (nextRunID S)) = sc_pending S" "sc_store (snd (nextRunID S)) = sc_store S"
  by (simp_all add: nextRunID_def)

lemma issued_Suc: "issued S r \<Longrightarrow> issued (snd (nextRunID S)) r"
  by (auto simp: issued_def nextRunID_def)

lemma not_issued: "\<not> issued S (fst (nextRunID S))"
  by (auto simp: issued_def nextRunID_def)

lemma nextRunID_ids:
  assumes "ids_ok xs S"
  shows "ids_ok (fst (nextRunID S) # xs) (snd (nextRunID S))"
proof -
  have "issued (snd (nextRunID S)) (fst (nextRunID S))" by (auto simp: issued_def nextRunID_def)
  with assms not_issued [of S] issued_Suc [of S] show ?thesis by (auto simp: ids_ok_def)
qed

lemma nextRunID_inv: "sched_inv C S \<Longrightarrow> sched_inv C (snd (nextRunID S))"
  using issued_Suc [of S] by (auto simp: sched_inv_def slots_ok_def ids_ok_def)

lemma start_or_queue_inv:
  assumes "sched_inv C S" "cf_MaxConcurrent D = cf_MaxConcurrent C"
  shows "sched_inv C (start_or_queue D (q\<lparr>q_runID := fst (nextRunID S)\<rparr>) (snd (nextRunID S)))"
proof -
  have i: "ids_ok (fst (nextRunID S) # map q_runID (sc_queue S)) (snd (nextRunID S))"
    using assms(1) by (intro nextRunID_ids) (simp add: sched_inv_def)
  show ?thesis
    using start_inv [OF nextRunID_inv [OF assms(1)], of "q\<lparr>q_runID := fst (nextRunID S)\<rparr>" D] i
      enqueue_inv [OF nextRunID_inv [OF assms(1)], of "q\<lparr>q_runID := fst (nextRunID S)\<rparr>" D]
    by (simp add: start_or_queue_def assms(2))
qed

lemma QueueUser_Ok:
  assumes "QueueUserAttachments C S sid body atts = Ok (m, S1)"
  shows "S1 = S\<lparr>sc_mids := Suc (sc_mids S)\<rparr>" "msg_ID m = ''m-'' @ dec (Suc (sc_mids S))"
  using assms by (auto simp: QueueUserAttachments_def Let_def split: option.splits)

lemma sched_inv_mids [simp]: "sched_inv C (S\<lparr>sc_mids := n\<rparr>) = sched_inv C S"
  by (rule sched_inv_cong) simp_all

lemma sched_inv_frame [simp]:
  "sched_inv C (publish e S) = sched_inv C S" "sched_inv C (on_session sid f S) = sched_inv C S"
  "sched_inv C (add_pending sid m S) = sched_inv C S" "sched_inv C (pop_pending sid S) = sched_inv C S"
  "sched_inv C (S\<lparr>sc_held := h\<rparr>) = sched_inv C S" "sched_inv C (S\<lparr>sc_unreachable := u\<rparr>) = sched_inv C S"
  "sched_inv C (notifyAgentIdleLocked a S) = sched_inv C S" "sched_inv C (repositionLocked S) = sched_inv C S"
  "sched_inv C (effect (AgentIdle a) S) = sched_inv C S" "sched_inv C (effect (Cancelled sid r) S) = sched_inv C S"
  "sched_inv C (effect (RecordedAbort sid r x y) S) = sched_inv C S" "sched_inv C (S\<lparr>sc_goroutines := gs\<rparr>) = sched_inv C S"
  by (rule sched_inv_cong; simp)+

lemma submit_unreachable_inv:
  assumes "sched_inv C S" "submit_unreachable D S sid body atts = Ok (r, S')"
  shows "sched_inv C S'"
  using assms by (auto simp: submit_unreachable_def Let_def split: if_splits dest!: QueueUser_Ok(1))

lemma submit_running_inv:
  assumes "sched_inv C S" "submit_running D S sid body atts = Ok (r, S')"
  shows "sched_inv C S'"
  using assms by (auto simp: submit_running_def Let_def split: if_splits dest!: QueueUser_Ok(1))

lemma submit_held_inv:
  assumes "sched_inv C S" "cf_MaxConcurrent D = cf_MaxConcurrent C" "submit_held D S sid body atts = Ok (r, S')"
  shows "sched_inv C S'"
proof -
  from assms(3) obtain m S1 where q: "QueueUserAttachments D S sid body atts = Ok (m, S1)"
    and s: "S' = (let S2 = add_pending sid m S1; S3 = S2\<lparr>sc_held := (sc_held S2)(sid := False)\<rparr>; S4 = pop_pending sid S3
        in start_or_queue D ((hd (sc_pending S3 sid))\<lparr>q_runID := fst (nextRunID S4)\<rparr>) (snd (nextRunID S4)))"
    by (auto simp: submit_held_def Let_def split_beta)
  show ?thesis unfolding s Let_def
    by (rule start_or_queue_inv) (use assms QueueUser_Ok(1) [OF q] in simp_all)
qed

lemma submit_idle_inv:
  assumes "sched_inv C S" "cf_MaxConcurrent D = cf_MaxConcurrent C" "submit_idle D S sid body atts = Ok (r, S')"
  shows "sched_inv C S'"
proof -
  from assms(3) obtain m S1 where q: "QueueUserAttachments D S sid body atts = Ok (m, S1)"
    and s: "S' = (let S2 = AppendUser S1 sid m
        in start_or_queue D (\<lparr>q_session = sid, q_runID = [], q_userMessageID = msg_ID m, q_userMessage = emptyMessage\<rparr>\<lparr>q_runID := fst (nextRunID S2)\<rparr>) (snd (nextRunID S2)))"
    by (auto simp: submit_idle_def AddUserAttachments_def start_or_queue_def Let_def split_beta split: if_splits)
  show ?thesis unfolding s Let_def
    by (rule start_or_queue_inv) (use assms QueueUser_Ok(1) [OF q] in \<open>simp_all add: AppendUser_def\<close>)
qed

lemma Submit_inv [inv_intros]:
  assumes "sched_inv C S" "SubmitAttachments (C\<lparr>cf_prepare := p\<rparr>) S sid body atts = Ok (r, S')"
  shows "sched_inv C S'"
proof -
  define D where "D = C\<lparr>cf_prepare := p\<rparr>"
  define T where "T = on_session sid (\<lambda>s. snd (BeginSubmission s)) S"
  from assms(2) obtain S1 where s: "submit_locked D T sid body atts = Ok (r, S1)" and S': "S' = on_session sid EndSubmission S1"
    by (auto simp: SubmitAttachments_def T_def D_def split: if_splits)
  have "sched_inv C T" "cf_MaxConcurrent D = cf_MaxConcurrent C" using assms(1) by (simp_all add: T_def D_def)
  with s have "sched_inv C S1"
    unfolding submit_locked_def
    by (auto split: if_splits intro: submit_unreachable_inv submit_running_inv submit_held_inv submit_idle_inv)
  then show ?thesis by (simp add: S')
qed

lemma settle_simps [simp]:
  "sc_active (settle_session C sid r reason detail turns S) = sc_active S" "sc_queue (settle_session C sid r reason detail turns S) = sc_queue S"
  "sc_ids (settle_session C sid r reason detail turns S) = sc_ids S" "launched (settle_session C sid r reason detail turns S) = launched S"
  "sc_mids (settle_session C sid r reason detail turns S) = sc_mids S" "sc_pending (settle_session C sid r reason detail turns S) = sc_pending S"
  "sc_goroutines (settle_session C sid r reason detail turns S) = sc_goroutines S"
  by (simp_all add: settle_session_def Let_def)

lemma stop_session_inv:
  assumes "slots_ok C S" "ids_ok (map q_runID (sc_queue S)) S"
  shows "sched_inv C (stop_session C sid runID reason detail turns S)"
  unfolding stop_session_def Let_def sched_inv_frame
  by (rule drain_inv) (use assms in \<open>simp_all add: slots_ok_def ids_ok_def issued_def\<close>)

lemma follow_up_ok:
  assumes "slots_ok C S" "ids_ok (map q_runID (sc_queue S)) S"
  shows "slots_ok C (follow_up C sid S) \<and> ids_ok (map q_runID (sc_queue (follow_up C sid S))) (follow_up C sid S)"
proof (cases "sc_pending S sid \<noteq> [] \<and> \<not> sc_held S sid \<and> \<not> sc_unreachable S sid")
  case True
  let ?P = "pop_pending sid S"
  have "ids_ok (map q_runID (sc_queue S)) ?P" using assms(2) by (simp add: ids_ok_def issued_def)
  from nextRunID_ids [OF this] have i: "ids_ok (fst (nextRunID ?P) # map q_runID (sc_queue S)) (snd (nextRunID ?P))" .
  have "ids_ok (map q_runID (sc_queue S) @ [fst (nextRunID ?P)]) (snd (nextRunID ?P))" using i by (auto simp: ids_ok_def)
  with True assms(1) show ?thesis by (simp add: follow_up_def Let_def split_beta slots_ok_def ids_ok_def issued_def)
qed (use assms in \<open>auto simp: follow_up_def\<close>)

lemma slots_del: "slots_ok C S \<Longrightarrow> slots_ok C (S\<lparr>sc_active := del_active sid (sc_active S)\<rparr>)"
  using le_trans [OF length_filter_le [of "\<lambda>p. fst p \<noteq> sid" "sc_active S"]]
  by (simp add: slots_ok_def del_active_def distinct_map_filter)

lemma finish_inv [inv_intros]:
  assumes "sched_inv C S"
  shows "sched_inv C (finish C S entry reason detail turns)"
proof (cases "map_of (sc_active S) (q_session entry)")
  case None
  then show ?thesis using assms by (simp add: finish_def)
next
  case (Some a)
  let ?D = "S\<lparr>sc_active := del_active (q_session entry) (sc_active S)\<rparr>"
  have d: "slots_ok C ?D" "ids_ok (map q_runID (sc_queue S)) ?D"
    using assms slots_del [of C S] by (simp_all add: sched_inv_def ids_ok_def issued_def)
  then have u: "slots_ok C (?D\<lparr>sc_unreachable := v\<rparr>)" "ids_ok (map q_runID (sc_queue S)) (?D\<lparr>sc_unreachable := v\<rparr>)" for v
    by (simp_all add: slots_ok_def ids_ok_def issued_def)
  show ?thesis
    unfolding finish_def Let_def
    using assms Some follow_up_ok [OF d(1)] follow_up_ok [OF u(1)] d u by (auto intro!: stop_session_inv)
qed

lemma forceFinish_inv [inv_intros]:
  assumes "sched_inv C S" "sc_registered S sid"
  shows "sched_inv C (forceFinish C S sid runID detail)"
proof (cases "map_of (sc_active S) sid")
  case None
  then show ?thesis using assms by (simp add: forceFinish_def)
next
  case (Some a)
  let ?D = "S\<lparr>sc_active := del_active sid (sc_active S)\<rparr>"
  have "slots_ok C ?D" "ids_ok (map q_runID (sc_queue S)) ?D"
    using assms(1) slots_del [of C S] by (simp_all add: sched_inv_def ids_ok_def issued_def)
  then show ?thesis using assms Some by (auto simp: forceFinish_def Let_def intro!: stop_session_inv)
qed

lemma stop_active_simps [simp]:
  "sc_queue (stop_active C sid S) = sc_queue S" "sc_ids (stop_active C sid S) = sc_ids S" "launched (stop_active C sid S) = launched S"
  "map fst (sc_active (stop_active C sid S)) = map fst (sc_active S)"
  by (auto simp: stop_active_def Let_def split: option.splits)

lemma fold_stop_active [simp]:
  "sc_queue (fold (stop_active C) ids S) = sc_queue S" "sc_ids (fold (stop_active C) ids S) = sc_ids S"
  "launched (fold (stop_active C) ids S) = launched S" "map fst (sc_active (fold (stop_active C) ids S)) = map fst (sc_active S)"
  by (induction ids arbitrary: S) simp_all

lemma stop_queued_simps [simp]:
  "sc_queue (stop_queued C q S) = sc_queue S" "sc_ids (stop_queued C q S) = sc_ids S" "launched (stop_queued C q S) = launched S"
  "sc_active (stop_queued C q S) = sc_active S"
  by (simp_all add: stop_queued_def Let_def)

lemma fold_stop_queued [simp]:
  "sc_queue (fold (stop_queued C) qs S) = sc_queue S" "sc_ids (fold (stop_queued C) qs S) = sc_ids S"
  "launched (fold (stop_queued C) qs S) = launched S" "sc_active (fold (stop_queued C) qs S) = sc_active S"
  by (induction qs arbitrary: S) simp_all

lemma fold_notify [simp]: "sched_inv C (fold notifyAgentIdleLocked as S) = sched_inv C S"
  by (induction as arbitrary: S) simp_all

lemma length_fold_stop_active [simp]: "length (sc_active (fold (stop_active C) ids S)) = length (sc_active S)"
  by (metis fold_stop_active(4) length_map)

lemma Stop_inv [inv_intros]:
  assumes "sched_inv C S"
  shows "sched_inv C (snd (Stop_locked D order agents S sid stopAll))"
proof -
  let ?k = "filter (\<lambda>q. \<not> (stopAll \<or> q_session q = sid)) (sc_queue S)"
  have "ids_ok (map q_runID ?k) S"
    using assms by (auto simp: sched_inv_def ids_ok_def distinct_map_filter)
  moreover have "?k \<noteq> [] \<Longrightarrow> sc_queue S \<noteq> []" by auto
  ultimately show ?thesis using assms
    by (simp add: Stop_locked_def Let_def) (simp add: sched_inv_def slots_ok_def ids_ok_def issued_def)
qed

lemma release_one_inv: "sched_inv C S \<Longrightarrow> sched_inv C (release_one C profileID sid S)"
  by (auto simp: release_one_def Let_def split_beta intro!: start_or_queue_inv)

lemma sched_step_inv:
  assumes "sched_inv C S" "sched_step C S S'"
  shows "sched_inv C S'"
  using assms(2)
proof cases
  case (st_release order profileID)
  have "sched_inv C (fold (release_one C profileID) order S)"
    using assms(1) by (induction order arbitrary: S) (simp_all add: release_one_inv)
  then show ?thesis by (simp add: st_release ReleaseModel_def)
qed (use assms(1) Submit_inv finish_inv Stop_inv forceFinish_inv in
    \<open>auto simp: stop_timeout_def HoldModel_def TryAgentIdle_def\<close>)

definition sched_started :: "scheduler \<Rightarrow> bool" where
  "sched_started S \<longleftrightarrow> (\<exists>store registered. S = NewScheduler store registered)"

interpretation schedules: invariant_system sched_started "sched_step C" "sched_inv C" for C
proof
  fix S assume "sched_started S"
  then show "sched_inv C S"
    by (auto simp: sched_started_def NewScheduler_def sched_inv_def slots_ok_def ids_ok_def launched_def)
qed (rule sched_step_inv)

lemma sched_run_inv: "(sched_step C)\<^sup>*\<^sup>* (NewScheduler store registered) S \<Longrightarrow> sched_inv C S"
  by (rule schedules.run_inv) (auto simp: sched_started_def)

subsection \<open>Every slot belongs to an executing run\<close>

definition backed :: "string set \<Rightarrow> scheduler \<Rightarrow> bool" where
  \<comment> \<open>every slot is held for a goroutine that will call \<^verbatim>\<open>finish\<close> with that run, and for none of the retired runs\<close>
  "backed R S \<longleftrightarrow>
     (\<forall>p \<in> set (sc_active S). ar_runID (snd p) \<notin> R \<and>
        (\<exists>q \<in> set (sc_goroutines S). q_session q = fst p \<and> q_runID q = ar_runID (snd p)))
     \<and> distinct (map q_runID (sc_goroutines S)) \<and> R \<union> q_runID ` set (sc_goroutines S) \<subseteq> set (launched S)"

lemma backed_cong:
  assumes "sc_active S' = sc_active S" "sc_goroutines S' = sc_goroutines S" "launched S' = launched S"
  shows "backed R S' = backed R S"
  by (simp add: backed_def assms)

lemma goroutines_simps [simp]:
  "sc_goroutines (add_pending sid m S) = sc_goroutines S" "sc_goroutines (pop_pending sid S) = sc_goroutines S"
  "sc_goroutines (snd (nextRunID S)) = sc_goroutines S" "sc_goroutines (enqueue_run C q S) = sc_goroutines S"
  "sc_goroutines (repositionLocked S) = sc_goroutines S" "sc_goroutines (stop_active C sid S) = sc_goroutines S"
  "sc_goroutines (stop_queued C q S) = sc_goroutines S" "sc_goroutines (AppendUser S sid m) = sc_goroutines S"
  by (auto simp: add_pending_def pop_pending_def nextRunID_def enqueue_run_def repositionLocked_def stop_active_def stop_queued_def AppendUser_def
      Let_def split: option.splits)

lemma backed_frame [simp]:
  "backed R (publish e S) = backed R S" "backed R (on_session sid f S) = backed R S" "backed R (add_pending sid m S) = backed R S"
  "backed R (pop_pending sid S) = backed R S" "backed R (S\<lparr>sc_held := h\<rparr>) = backed R S" "backed R (S\<lparr>sc_unreachable := u\<rparr>) = backed R S"
  "backed R (notifyAgentIdleLocked a S) = backed R S" "backed R (repositionLocked S) = backed R S" "backed R (S\<lparr>sc_mids := n\<rparr>) = backed R S"
  "backed R (effect (AgentIdle a) S) = backed R S" "backed R (effect (Cancelled sid r) S) = backed R S"
  "backed R (effect (RecordedAbort sid r x y) S) = backed R S" "backed R (S\<lparr>sc_queue := qs\<rparr>) = backed R S"
  "backed R (snd (nextRunID S)) = backed R S" "backed R (enqueue_run C q S) = backed R S" "backed R (stop_queued C q S) = backed R S"
  "backed R (settle_session C sid r reason detail turns S) = backed R S"
  by (rule backed_cong; simp)+

lemma started_goroutines: "\<exists>q'. sc_goroutines (startLocked C S q) = sc_goroutines S @ [q'] \<and> q_session q' = q_session q \<and> q_runID q' = q_runID q"
  by (simp add: startLocked_def deliver_message_def Let_def)

lemma backed_start:
  assumes "backed R S" "ids_ok (q_runID q # xs) S"
  shows "backed R (startLocked C S q)"
proof -
  obtain q' where q': "sc_goroutines (startLocked C S q) = sc_goroutines S @ [q']" "q_session q' = q_session q" "q_runID q' = q_runID q"
    using started_goroutines by blast
  have "q_runID q \<notin> set (launched S)" using assms(2) by (simp add: ids_ok_def)
  with assms(1) show ?thesis by (fastforce simp: backed_def q' put_active_def)
qed

lemma backed_drain: "backed R S \<Longrightarrow> ids_ok (map q_runID qs) S \<Longrightarrow> backed R (drain C qs S)"
proof (induction qs arbitrary: S)
  case (Cons q qs)
  have i: "ids_ok (q_runID q # map q_runID qs) (S\<lparr>sc_queue := qs\<rparr>)" using Cons.prems(2) by (simp add: ids_ok_def issued_def)
  with backed_start [OF _ i] have "backed R (startLocked C (S\<lparr>sc_queue := qs\<rparr>) q)" using Cons.prems(1) by simp
  with Cons.IH ids_start [OF i] Cons.prems(1) show ?case by simp
qed simp

lemma backed_start_or_queue:
  assumes "backed R S" "sched_inv C S"
  shows "backed R (start_or_queue D (q\<lparr>q_runID := fst (nextRunID S)\<rparr>) (snd (nextRunID S)))"
proof -
  have "ids_ok (fst (nextRunID S) # map q_runID (sc_queue S)) (snd (nextRunID S))"
    using assms(2) by (intro nextRunID_ids) (simp add: sched_inv_def)
  with backed_start [of R "snd (nextRunID S)" "q\<lparr>q_runID := fst (nextRunID S)\<rparr>"] assms(1) show ?thesis
    by (simp add: start_or_queue_def)
qed

lemma backed_submit:
  assumes "backed R S" "sched_inv C S" "SubmitAttachments D S sid body atts = Ok (r, S')"
  shows "backed R S'"
proof -
  define T where "T = on_session sid (\<lambda>s. snd (BeginSubmission s)) S"
  have T: "backed R T" "sched_inv C T" using assms(1,2) by (simp_all add: T_def)
  from assms(3) obtain S1 where s: "submit_locked D T sid body atts = Ok (r, S1)" and S': "S' = on_session sid EndSubmission S1"
    by (auto simp: SubmitAttachments_def T_def split: if_splits)
  have quiet: "backed R S1" if "submit_unreachable D T sid body atts = Ok (r, S1) \<or> submit_running D T sid body atts = Ok (r, S1)"
    using that T(1) by (auto simp: submit_unreachable_def submit_running_def Let_def split: if_splits dest!: QueueUser_Ok(1))
  have held: "backed R S1" if "submit_held D T sid body atts = Ok (r, S1)"
  proof -
    from that obtain m U where q: "QueueUserAttachments D T sid body atts = Ok (m, U)"
      and s: "S1 = (let S2 = add_pending sid m U; S3 = S2\<lparr>sc_held := (sc_held S2)(sid := False)\<rparr>; S4 = pop_pending sid S3
          in start_or_queue D ((hd (sc_pending S3 sid))\<lparr>q_runID := fst (nextRunID S4)\<rparr>) (snd (nextRunID S4)))"
      by (auto simp: submit_held_def Let_def split_beta)
    show ?thesis unfolding s Let_def
      by (rule backed_start_or_queue [where C = C]) (use T QueueUser_Ok(1) [OF q] in simp_all)
  qed
  have idle: "backed R S1" if "submit_idle D T sid body atts = Ok (r, S1)"
  proof -
    from that obtain m U where q: "QueueUserAttachments D T sid body atts = Ok (m, U)"
      and s: "S1 = (let S2 = AppendUser U sid m
          in start_or_queue D (\<lparr>q_session = sid, q_runID = [], q_userMessageID = msg_ID m, q_userMessage = emptyMessage\<rparr>\<lparr>q_runID := fst (nextRunID S2)\<rparr>) (snd (nextRunID S2)))"
      by (auto simp: submit_idle_def AddUserAttachments_def start_or_queue_def Let_def split_beta split: if_splits)
    show ?thesis unfolding s Let_def
      by (rule backed_start_or_queue [where C = C]) (use T QueueUser_Ok(1) [OF q] in \<open>simp_all add: AppendUser_def\<close>)
  qed
  from s quiet held idle show ?thesis by (auto simp: submit_locked_def S' split: if_splits)
qed

lemma backed_stop_session:
  "backed R S \<Longrightarrow> ids_ok (map q_runID (sc_queue S)) S \<Longrightarrow> backed R (stop_session C sid runID reason detail turns S)"
  by (simp add: stop_session_def Let_def) (rule backed_drain, simp_all add: ids_ok_def issued_def)

lemma backed_follow_up [simp]: "backed R (follow_up C sid S) = backed R S"
  by (rule backed_cong) (simp_all add: follow_up_def Let_def split_beta)

lemma backed_del: "backed R S \<Longrightarrow> backed R (S\<lparr>sc_active := del_active sid (sc_active S)\<rparr>)"
  by (auto simp: backed_def del_active_def)

lemma same_run:
  "distinct (map q_runID gs) \<Longrightarrow> q \<in> set gs \<Longrightarrow> q' \<in> set gs \<Longrightarrow> q_runID q = q_runID q' \<Longrightarrow> q = q'"
  by (auto simp: distinct_map inj_on_def)

lemma backed_retire:
  assumes "backed {} S" "entry \<in> set (sc_goroutines S)" "\<And>p. p \<in> set (sc_active S) \<Longrightarrow> fst p = q_session entry \<Longrightarrow> ar_runID (snd p) \<noteq> q_runID entry"
  shows "backed {q_runID entry} S"
  using assms same_run [of "sc_goroutines S" _ entry] unfolding backed_def by (fastforce simp: image_subset_iff)

lemma backed_finish:
  assumes "backed {} S" "sched_inv C S" "entry \<in> set (sc_goroutines S)"
  shows "backed {q_runID entry} (finish C S entry reason detail turns)"
proof -
  let ?sid = "q_session entry" and ?D = "S\<lparr>sc_active := del_active (q_session entry) (sc_active S)\<rparr>"
  have d: "distinct (map fst (sc_active S))" "\<forall>r \<in> set (launched S). r \<noteq> []" "ids_ok (map q_runID (sc_queue S)) ?D" "slots_ok C ?D"
    using assms(2) slots_del [of C S] by (auto simp: sched_inv_def slots_ok_def ids_ok_def issued_def)
  have gone: "backed {q_runID entry} ?D"
    by (rule backed_retire) (use assms(1,3) in \<open>simp_all add: backed_del\<close>, auto simp: del_active_def)
  then have gone': "backed {q_runID entry} (?D\<lparr>sc_unreachable := v\<rparr>)" "ids_ok (map q_runID (sc_queue S)) (?D\<lparr>sc_unreachable := v\<rparr>)"
    "slots_ok C (?D\<lparr>sc_unreachable := v\<rparr>)" for v
    using d(3,4) by (simp_all add: ids_ok_def issued_def slots_ok_def)
  show ?thesis
  proof (cases "map_of (sc_active S) ?sid")
    case None
    then have "backed {q_runID entry} S" by (intro backed_retire [OF assms(1,3)]) (auto simp: map_of_eq_None_iff image_iff)
    with None show ?thesis by (simp add: finish_def)
  next
    case (Some a)
    have a: "ar_runID (snd p) = ar_runID a" if "p \<in> set (sc_active S)" "fst p = ?sid" for p
      using that Some d(1) by (metis map_of_is_SomeI option.inject prod.collapse)
    show ?thesis
    proof (cases "ar_runID a \<noteq> [] \<and> ar_runID a \<noteq> q_runID entry")
      case True
      then have "backed {q_runID entry} S" using a by (intro backed_retire [OF assms(1,3)]) auto
      with True Some show ?thesis by (simp add: finish_def)
    next
      case False
      then show ?thesis unfolding finish_def Let_def
        using Some follow_up_ok [OF d(4)] follow_up_ok [OF gone'(3)] d(3) gone gone'(1,2) by (auto intro!: backed_stop_session)
    qed
  qed
qed

lemma backed_removed: "backed {q_runID entry} S \<Longrightarrow> backed {} (S\<lparr>sc_goroutines := remove1 entry (sc_goroutines S)\<rparr>)"
proof -
  assume b: "backed {q_runID entry} S"
  let ?gs = "sc_goroutines S"
  have s: "set (remove1 entry ?gs) \<subseteq> set ?gs" by (rule set_remove1_subset)
  have "inj_on q_runID (set ?gs)" "distinct ?gs" using b by (auto simp: backed_def distinct_map)
  then have "distinct (map q_runID (remove1 entry ?gs))" by (simp add: distinct_map inj_on_diff)
  moreover have "q \<in> set (remove1 entry ?gs)" if "q \<in> set ?gs" "q_runID q \<noteq> q_runID entry" for q
    using that by (metis in_set_remove1)
  moreover have "\<exists>q \<in> set (remove1 entry ?gs). q_session q = fst p \<and> q_runID q = ar_runID (snd p)" if p: "p \<in> set (sc_active S)" for p
  proof -
    from b p have r: "ar_runID (snd p) \<noteq> q_runID entry" by (auto simp: backed_def)
    from b p obtain q where "q \<in> set ?gs" "q_session q = fst p" "q_runID q = ar_runID (snd p)" unfolding backed_def by blast
    with r calculation(2) show ?thesis by metis
  qed
  moreover have "q_runID ` set (remove1 entry ?gs) \<subseteq> set (launched S)" using b image_mono [OF s, of q_runID] unfolding backed_def by blast
  ultimately show ?thesis by (auto simp: backed_def)
qed

lemma fold_backed:
  "(\<And>x S. backed R S \<Longrightarrow> backed R (f x S)) \<Longrightarrow> backed R S \<Longrightarrow> backed R (fold f xs S)"
  by (induction xs arbitrary: S) simp_all

lemma backed_forceFinish:
  assumes "backed {} S" "sched_inv C S"
  shows "backed {} (forceFinish C S sid runID detail)"
proof -
  let ?D = "S\<lparr>sc_active := del_active sid (sc_active S)\<rparr>"
  have "backed {} ?D" "ids_ok (map q_runID (sc_queue S)) ?D"
    using assms backed_del by (auto simp: sched_inv_def ids_ok_def issued_def)
  then show ?thesis using assms(1) by (auto simp: forceFinish_def Let_def intro!: backed_stop_session split: option.split)
qed

lemma backed_stop_active: "backed R S \<Longrightarrow> backed R (stop_active C sid S)"
proof (cases "map_of (sc_active S) sid")
  case (Some a)
  assume b: "backed R S"
  define m where "m = map (\<lambda>p. if fst p = sid then (sid, a\<lparr>ar_stopReason := cf_abortReason C sid (ar_runID a)\<rparr>) else p) (sc_active S)"
  have "sc_active (stop_active C sid S) = m" using Some by (simp add: stop_active_def Let_def m_def)
  moreover have "\<exists>p' \<in> set (sc_active S). fst p' = fst p \<and> ar_runID (snd p') = ar_runID (snd p)" if p: "p \<in> set m" for p
  proof -
    from p obtain p0 where p0: "p0 \<in> set (sc_active S)"
      "p = (if fst p0 = sid then (sid, a\<lparr>ar_stopReason := cf_abortReason C sid (ar_runID a)\<rparr>) else p0)" unfolding m_def set_map by (rule imageE)
    show ?thesis
    proof (cases "fst p0 = sid")
      case True
      then show ?thesis using p0(2) map_of_SomeD [OF Some] by (intro bexI [of _ "(sid, a)"]) simp_all
    qed (use p0 in auto)
  qed
  ultimately show ?thesis using b unfolding backed_def stop_active_simps goroutines_simps by metis
qed (simp add: stop_active_def)

lemma backed_folds:
  "backed R S \<Longrightarrow> backed R (fold (stop_active C) ids S)" "backed R S \<Longrightarrow> backed R (fold (stop_queued C) qs S)"
  "backed R S \<Longrightarrow> backed R (fold notifyAgentIdleLocked as S)"
  by (rule fold_backed; simp add: backed_stop_active)+

lemma backed_release:
  assumes "sched_inv C S" "backed R S"
  shows "backed R (fold (release_one C profileID) order S)"
  using assms
proof (induction order arbitrary: S)
  case (Cons sid order)
  have "backed R (release_one C profileID sid S)"
    using Cons.prems by (auto simp: release_one_def Let_def split_beta intro!: backed_start_or_queue [where C = C])
  with Cons show ?case by (simp add: release_one_inv)
qed simp

definition slots_held_inv :: "sched_cfg \<Rightarrow> scheduler \<Rightarrow> bool" where
  "slots_held_inv C S \<longleftrightarrow> sched_inv C S \<and> backed {} S"

lemma slots_held_step:
  assumes "slots_held_inv C S" "sched_step C S S'"
  shows "slots_held_inv C S'"
proof -
  have inv: "sched_inv C S" "backed {} S" using assms(1) by (simp_all add: slots_held_inv_def)
  have "backed {} S'"
    using assms(2)
  proof cases
    case (st_submit p sid body atts r)
    then show ?thesis using backed_submit inv by blast
  next
    case (st_finish entry S1 reason detail turns)
    then show ?thesis using backed_removed backed_finish inv by simp
  next
    case (st_stop order f agents sid stopAll)
    then show ?thesis using inv by (simp add: Stop_locked_def Let_def backed_folds)
  next
    case (st_timeout sid runID reason)
    then show ?thesis using inv by (simp add: stop_timeout_def backed_forceFinish)
  next
    case (st_release order profileID)
    then show ?thesis using backed_release inv by (simp add: ReleaseModel_def)
  qed (use inv in \<open>simp_all add: HoldModel_def TryAgentIdle_def\<close>)
  with sched_step_inv [OF inv(1) assms(2)] show ?thesis by (simp add: slots_held_inv_def)
qed

interpretation slots: invariant_system sched_started "sched_step C" "slots_held_inv C" for C
proof
  fix S assume "sched_started S"
  then show "slots_held_inv C S"
    by (auto simp: sched_started_def slots_held_inv_def backed_def NewScheduler_def sched_inv_def slots_ok_def ids_ok_def launched_def)
qed (rule slots_held_step)

section \<open>What the scheduler promises\<close>

definition demo_cfg :: "nat \<Rightarrow> sched_cfg" where
  "demo_cfg n = \<lparr>cf_MaxConcurrent = n, cf_MaxTurns = 10, cf_QueueDepth = 0, cf_MaxWallClockSeconds = 0, cf_MaxToolCalls = 0,
     cf_AgentAux = (\<lambda>_. False), cf_abortReason = (\<lambda>_ _. ''aborted_mid_run''), cf_prepare = (\<lambda>_ _ atts. Some (atts, 1, True))\<rparr>"

definition demo_session :: "string \<Rightarrow> session" where
  "demo_session sid = \<lparr>s_ID = sid, s_Label = [], s_AgentID = ''a'', s_ServerID = [], s_AgentName = [], s_BProfile = [],
     s_PromptAddendum = [], s_Workspace = [], s_Role = ''b'', s_Closed = False, s_Messages = [], s_Run = emptyRunState\<lparr>rs_Status := ''idle''\<rparr>,
     s_ToolsEnabled = Map.empty, s_ToolCalls = Map.empty, s_RepoPolicy = None, s_PendingRepoPolicy = None, s_ProjectBlock = [],
     s_ProjectFiles = [], s_ProjectNotes = [], s_Runnable = True, s_NotRunnableReason = [], s_queuedMessages = 0, s_modelTurns = 0,
     s_compactionCount = 0, s_compactionTokenDelta = 0, s_compactionModelCalls = 0, s_compactionPrompt = 0,
     s_compactionCompletion = 0, s_submitting = 0, s_planPage = False, s_planAccept = False\<rparr>"

definition demo_sched :: scheduler where
  "demo_sched = NewScheduler demo_session (\<lambda>_. True)"

definition submit_or_same :: "sched_cfg \<Rightarrow> string \<Rightarrow> string \<Rightarrow> scheduler \<Rightarrow> scheduler" where
  "submit_or_same C sid body S = (case SubmitAttachments C S sid body [] of Ok (r, S') \<Rightarrow> S' | _ \<Rightarrow> S)"

definition finish_first :: "sched_cfg \<Rightarrow> scheduler \<Rightarrow> scheduler" where
  \<comment> \<open>the oldest goroutine returns\<close>
  "finish_first C S = (case sc_goroutines S of [] \<Rightarrow> S
     | g # gs \<Rightarrow> let S' = finish C S g ''done'' [] 1 in S'\<lparr>sc_goroutines := remove1 g (sc_goroutines S')\<rparr>)"

lemma submit_or_same_steps: "(sched_step C)\<^sup>*\<^sup>* S (submit_or_same C sid body S)"
proof -
  have "C\<lparr>cf_prepare := cf_prepare C\<rparr> = C" by simp
  then show ?thesis using st_submit [where C = C and p = "cf_prepare C" and S = S and sid = sid and body = body and atts = "[]"]
    by (auto simp: submit_or_same_def split: gores.splits)
qed

lemma finish_first_steps: "(sched_step C)\<^sup>*\<^sup>* S (finish_first C S)"
proof (cases "sc_goroutines S")
  case (Cons g gs)
  then have "sched_step C S (finish_first C S)"
    using st_finish [of g S "finish C S g ''done'' [] 1" C] by (simp add: finish_first_def Let_def)
  then show ?thesis by (rule r_into_rtranclp)
qed (simp add: finish_first_def)

text \<open>C8. The scheduler hands out at most \<^verbatim>\<open>max_concurrent\<close> slots, one session holds at most one of them, and no slot
  is idle while work waits: a run stays in the queue only while all slots are taken.  No slot leaks: each is held
  for a run whose goroutine is still executing, so that its completion will give the slot back.  This is a
  statement about slots, not about executing goroutines, of which there can be more: a run that was forced to
  finish after \<open>stop_timeout\<close>, or whose slot a later run of its session took over, goes on without a slot
  (\<open>stop_then_submit_overlaps_runs\<close> in \<^verbatim>\<open>Scheduler_Traces\<close>).\<close>

theorem slots_bounded_and_work_conserving:
  assumes "(sched_step C)\<^sup>*\<^sup>* (NewScheduler store registered) S"
  shows "distinct (map fst (sc_active S)) \<and> length (sc_active S) \<le> cf_MaxConcurrent C
    \<and> (sc_queue S \<noteq> [] \<longrightarrow> length (sc_active S) = cf_MaxConcurrent C)
    \<and> (\<forall>(sid, a) \<in> set (sc_active S). \<exists>q \<in> set (sc_goroutines S). q_session q = sid \<and> q_runID q = ar_runID a)"
proof -
  have "slots_held_inv C S" using assms by (rule slots.run_inv [rotated]) (auto simp: sched_started_def)
  then show ?thesis by (fastforce simp: slots_held_inv_def sched_inv_def slots_ok_def backed_def)
qed

theorem slots_bounded_and_work_conserving_witness:
  "length (sc_active (submit_or_same (demo_cfg 1) ''t'' ''y'' (submit_or_same (demo_cfg 1) ''s'' ''x'' demo_sched))) = 1"
proof -
  let ?S = "submit_or_same (demo_cfg 1) ''t'' ''y'' (submit_or_same (demo_cfg 1) ''s'' ''x'' demo_sched)"
  have "(sched_step (demo_cfg 1))\<^sup>*\<^sup>* (NewScheduler demo_session (\<lambda>_. True)) ?S"
    using submit_or_same_steps rtranclp_trans unfolding demo_sched_def by metis
  moreover have "sc_queue ?S \<noteq> []" by code_simp
  ultimately show ?thesis using slots_bounded_and_work_conserving by (fastforce simp: demo_cfg_def)
qed

text \<open>Run identifiers are never reused: all runs ever started and all runs still queued carry pairwise
  distinct identifiers, each issued by the scheduler's counter.  (This is what makes a late completion of one
  run distinguishable from the current run of its session.)\<close>

theorem run_ids_are_unique:
  assumes "(sched_step C)\<^sup>*\<^sup>* (NewScheduler store registered) S"
  shows "distinct (map q_runID (sc_queue S) @ launched S)
    \<and> (\<forall>r \<in> set (map q_runID (sc_queue S) @ launched S). \<exists>k \<in> {1..sc_ids S}. r = ''r'' @ dec k)"
  using sched_run_inv [OF assms] by (auto simp: sched_inv_def ids_ok_def issued_def Bex_def)

theorem run_ids_are_unique_witness:
  "distinct (launched (finish_first (demo_cfg 1) (submit_or_same (demo_cfg 1) ''t'' ''y'' (submit_or_same (demo_cfg 1) ''s'' ''x'' demo_sched))))
   \<and> launched (finish_first (demo_cfg 1) (submit_or_same (demo_cfg 1) ''t'' ''y'' (submit_or_same (demo_cfg 1) ''s'' ''x'' demo_sched))) = [''r1'', ''r2'']"
proof -
  let ?S = "finish_first (demo_cfg 1) (submit_or_same (demo_cfg 1) ''t'' ''y'' (submit_or_same (demo_cfg 1) ''s'' ''x'' demo_sched))"
  have "(sched_step (demo_cfg 1))\<^sup>*\<^sup>* (NewScheduler demo_session (\<lambda>_. True)) ?S"
    using submit_or_same_steps finish_first_steps rtranclp_trans unfolding demo_sched_def by metis
  moreover have "launched ?S = [''r1'', ''r2'']" by code_simp
  ultimately show ?thesis using run_ids_are_unique by fastforce
qed

subsection \<open>No accepted message is lost, unless a stop discards it\<close>

definition hist :: "scheduler \<Rightarrow> string set" where
  "hist S = (\<Union>sid. msg_ID ` set (s_Messages (sc_store S sid)))"

definition qmsgs :: "queuedRun list \<Rightarrow> string set" where
  "qmsgs qs = (\<lambda>q. msg_ID (q_userMessage q)) ` set qs"

definition accounted :: "scheduler \<Rightarrow> string set" where
  \<comment> \<open>message identifiers in a session's history, waiting for the session, or in the run queue\<close>
  "accounted S = hist S \<union> (\<Union>sid. qmsgs (sc_pending S sid)) \<union> qmsgs (sc_queue S)"

lemma hist_on_session:
  assumes "\<And>s. s_Messages (f s) = s_Messages s"
  shows "hist (on_session sid f S) = hist S"
proof -
  have "s_Messages (sc_store (on_session sid f S) i) = s_Messages (sc_store S i)" for i
    by (simp add: on_session_def assms)
  then show ?thesis by (simp add: hist_def)
qed

lemma hist_cong: "sc_store S' = sc_store S \<Longrightarrow> hist S' = hist S"
  by (simp add: hist_def)

lemma hist_simps [simp]:
  "hist (publish e S) = hist S" "hist (effect x S) = hist S" "hist (add_pending sid m S) = hist S"
  "hist (snd (nextRunID S)) = hist S" "hist (notifyAgentIdleLocked a S) = hist S"
  "hist (S\<lparr>sc_active := x1\<rparr>) = hist S" "hist (S\<lparr>sc_queue := x2\<rparr>) = hist S" "hist (S\<lparr>sc_pending := x3\<rparr>) = hist S"
  "hist (S\<lparr>sc_held := x4\<rparr>) = hist S" "hist (S\<lparr>sc_unreachable := x5\<rparr>) = hist S" "hist (S\<lparr>sc_mids := x7\<rparr>) = hist S"
  "hist (S\<lparr>sc_goroutines := x9\<rparr>) = hist S"
  by (auto intro!: hist_cong)

lemma hist_SetRun [simp]: "hist (on_session sid (\<lambda>s. SetRun s (f s)) S) = hist S"
  by (rule hist_on_session) (simp add: SetRun_def)

lemma hist_SetQueued [simp]: "hist (on_session sid (\<lambda>s. SetQueuedMessages s n) S) = hist S"
  by (rule hist_on_session) (simp add: SetQueuedMessages_def)

lemma hist_pop [simp]: "hist (pop_pending sid S) = hist S"
  by (simp add: pop_pending_def Let_def)

lemma hist_AppendUser [simp]: "hist (AppendUser S sid m) = insert (msg_ID m) (hist S)"
proof -
  have "msg_ID ` set (s_Messages (sc_store (AppendUser S sid m) i)) =
      (if i = sid then insert (msg_ID m) (msg_ID ` set (s_Messages (sc_store S i))) else msg_ID ` set (s_Messages (sc_store S i)))" for i
    by (simp add: AppendUser_def on_session_def Append_def)
  then have h: "hist (AppendUser S sid m) = (\<Union>i. if i = sid then insert (msg_ID m) (msg_ID ` set (s_Messages (sc_store S i))) else msg_ID ` set (s_Messages (sc_store S i)))"
    unfolding hist_def by simp
  show ?thesis unfolding h by (auto simp: hist_def split: if_splits)
qed

lemma hist_start: "hist S \<union> (qmsgs [q] - {[]}) \<subseteq> hist (startLocked C S q)"
  by (auto simp: startLocked_def deliver_message_def Let_def qmsgs_def)

lemma hist_reposition [simp]: "hist (reposition_from i qs S) = hist S"
  by (induction qs arbitrary: i S) simp_all

lemma hist_enqueue [simp]: "hist (enqueue_run C q S) = hist S"
  by (simp add: enqueue_run_def Let_def)

lemma hist_drain: "hist S \<union> (qmsgs qs - {[]}) \<subseteq> hist (drain C qs S) \<union> qmsgs (sc_queue (drain C qs S))"
proof (induction qs arbitrary: S)
  case (Cons q qs)
  show ?case
  proof (cases "length (sc_active S) < cf_MaxConcurrent C")
    case True
    have "qmsgs (q # qs) = qmsgs [q] \<union> qmsgs qs" by (simp add: qmsgs_def)
    with True Cons.IH [of "startLocked C (S\<lparr>sc_queue := qs\<rparr>) q"] hist_start [of "S\<lparr>sc_queue := qs\<rparr>" q C] show ?thesis by auto
  qed (auto simp: qmsgs_def)
qed (simp add: qmsgs_def)

lemma start_or_queue_accounts:
  "accounted S \<union> qmsgs [q] - {[]} \<subseteq> accounted (start_or_queue C q S)"
  using hist_start [of S q C] by (auto simp: start_or_queue_def accounted_def qmsgs_def)

lemma pop_accounts: "sc_pending S sid \<noteq> [] \<Longrightarrow> accounted S \<subseteq> accounted (pop_pending sid S) \<union> qmsgs [hd (sc_pending S sid)]"
proof
  fix x assume ne: "sc_pending S sid \<noteq> []" and x: "x \<in> accounted S"
  have p: "sc_pending (pop_pending sid S) i = (if i = sid then tl (sc_pending S sid) else sc_pending S i)" for i
    by (simp add: pop_pending_def Let_def)
  have s: "qmsgs (sc_pending S sid) = qmsgs [hd (sc_pending S sid)] \<union> qmsgs (tl (sc_pending S sid))"
    using ne by (cases "sc_pending S sid") (auto simp: qmsgs_def)
  from x consider "x \<in> hist S \<union> qmsgs (sc_queue S)" | i where "x \<in> qmsgs (sc_pending S i)" by (auto simp: accounted_def)
  then show "x \<in> accounted (pop_pending sid S) \<union> qmsgs [hd (sc_pending S sid)]"
  proof cases
    case (2 i)
    then show ?thesis using s by (cases "i = sid") (auto simp: accounted_def p)
  qed (auto simp: accounted_def)
qed

lemma accounted_cong:
  "hist S' = hist S \<Longrightarrow> sc_pending S' = sc_pending S \<Longrightarrow> sc_queue S' = sc_queue S \<Longrightarrow> accounted S' = accounted S"
  by (simp add: accounted_def)

lemma nextRunID_accounted [simp]: "accounted (snd (nextRunID S)) = accounted S"
  by (rule accounted_cong) simp_all

lemma qmsgs_runID [simp]: "qmsgs [q\<lparr>q_runID := r\<rparr>] = qmsgs [q]"
  by (simp add: qmsgs_def)

lemma hist_settle [simp]: "hist (settle_session C sid r reason detail turns S) = hist S"
  by (simp add: settle_session_def Let_def)

lemma stop_session_accounts: "accounted S - {[]} \<subseteq> accounted (stop_session C sid runID reason detail turns S)"
  using hist_drain [of "settle_session C sid runID reason detail turns S" "sc_queue S" C]
  by (auto simp: stop_session_def Let_def accounted_def repositionLocked_def)

lemma follow_up_accounts: "accounted S \<subseteq> accounted (follow_up C sid S)"
proof (cases "sc_pending S sid \<noteq> [] \<and> \<not> sc_held S sid \<and> \<not> sc_unreachable S sid")
  case True
  with pop_accounts [of S sid] show ?thesis
    by (auto simp: follow_up_def Let_def split_beta accounted_def qmsgs_def)
qed (auto simp: follow_up_def)

lemma accounted_frame [simp]:
  "accounted (publish e S) = accounted S" "accounted (effect x S) = accounted S" "accounted (S\<lparr>sc_active := a\<rparr>) = accounted S"
  "accounted (S\<lparr>sc_held := h\<rparr>) = accounted S" "accounted (S\<lparr>sc_unreachable := u\<rparr>) = accounted S" "accounted (S\<lparr>sc_mids := n\<rparr>) = accounted S"
  "accounted (S\<lparr>sc_goroutines := g\<rparr>) = accounted S"
  by (rule accounted_cong; simp)+

lemma accounted_on_session: "(\<And>s. s_Messages (f s) = s_Messages s) \<Longrightarrow> accounted (on_session sid f S) = accounted S"
  by (rule accounted_cong) (simp_all add: hist_on_session)

lemma accounted_add_pending [simp]: "accounted (add_pending sid m S) = insert (msg_ID m) (accounted S)"
proof -
  have "qmsgs (sc_pending (add_pending sid m S) i) = (if i = sid then insert (msg_ID m) (qmsgs (sc_pending S i)) else qmsgs (sc_pending S i))" for i
    by (simp add: add_pending_def qmsgs_def pending_entry_def)
  then have p: "(\<Union>i. qmsgs (sc_pending (add_pending sid m S) i)) = insert (msg_ID m) (\<Union>i. qmsgs (sc_pending S i))"
    by (simp only:) (auto split: if_splits, metis)
  show ?thesis unfolding accounted_def p by simp
qed

lemma accounted_AppendUser [simp]: "accounted (AppendUser S sid m) = insert (msg_ID m) (accounted S)"
proof -
  have "sc_pending (AppendUser S sid m) = sc_pending S" "sc_queue (AppendUser S sid m) = sc_queue S" by (simp_all add: AppendUser_def)
  then show ?thesis by (simp add: accounted_def)
qed

definition keeps_messages :: "scheduler \<Rightarrow> scheduler \<Rightarrow> bool" where
  \<comment> \<open>nothing accounted for gets lost, and every newly issued message is accounted for\<close>
  "keeps_messages S S' \<longleftrightarrow> accounted S - {[]} \<subseteq> accounted S' \<and> sc_mids S \<le> sc_mids S'
     \<and> (\<forall>k. sc_mids S < k \<and> k \<le> sc_mids S' \<longrightarrow> ''m-'' @ dec k \<in> accounted S')"

lemma keeps_same_mids: "accounted S - {[]} \<subseteq> accounted S' \<Longrightarrow> sc_mids S' = sc_mids S \<Longrightarrow> keeps_messages S S'"
  by (auto simp: keeps_messages_def)

lemma keeps_refl [simp]: "keeps_messages S S"
  by (rule keeps_same_mids) auto

lemma start_or_queue_mids [simp]: "sc_mids (start_or_queue C q S) = sc_mids S"
  by (simp add: start_or_queue_def)

lemma keeps_one_new:
  assumes "accounted S \<union> {''m-'' @ dec (Suc (sc_mids S))} - {[]} \<subseteq> accounted S'" "sc_mids S' = Suc (sc_mids S)"
  shows "keeps_messages S S'"
  using assms by (auto simp: keeps_messages_def le_Suc_eq less_Suc_eq_le)

lemma take_next_keeps:
  \<comment> \<open>popping a pending message and starting or queueing it loses nothing\<close>
  assumes "sc_pending S sid \<noteq> []"
  shows "accounted S - {[]} \<subseteq> accounted (start_or_queue C ((hd (sc_pending S sid))\<lparr>q_runID := r\<rparr>) (snd (nextRunID (pop_pending sid S))))"
  using pop_accounts [OF assms]
    start_or_queue_accounts [of "snd (nextRunID (pop_pending sid S))" "(hd (sc_pending S sid))\<lparr>q_runID := r\<rparr>" C] by auto

lemma submit_locked_keeps:
  assumes "submit_locked C S sid body atts = Ok (r, S')"
  shows "keeps_messages S S'"
proof -
  consider "submit_unreachable C S sid body atts = Ok (r, S')" | "submit_held C S sid body atts = Ok (r, S')"
    | "submit_running C S sid body atts = Ok (r, S')" | "submit_idle C S sid body atts = Ok (r, S')"
    using assms by (auto simp: submit_locked_def split: if_splits)
  then show ?thesis
  proof cases
    case 1
    show ?thesis
    proof (cases "0 < identicalPendingPosition (sc_pending S sid) body")
      case True
      with 1 show ?thesis by (auto simp: submit_unreachable_def Let_def)
    next
      case False
      with 1 obtain m S1 e f where q: "QueueUserAttachments C S sid body atts = Ok (m, S1)"
        and s: "S' = publish e (on_session sid f (add_pending sid m S1))" and f: "\<And>s. s_Messages (f s) = s_Messages s"
        by (auto simp: submit_unreachable_def Let_def SetRun_def SetQueuedMessages_def)
      show ?thesis unfolding s by (rule keeps_one_new) (use QueueUser_Ok [OF q] in \<open>auto simp: accounted_on_session f\<close>)
    qed
  next
    case 2
    then obtain m S1 where q: "QueueUserAttachments C S sid body atts = Ok (m, S1)"
      and s: "S' = (let S3 = (add_pending sid m S1)\<lparr>sc_held := (sc_held (add_pending sid m S1))(sid := False)\<rparr>
        in start_or_queue C ((hd (sc_pending S3 sid))\<lparr>q_runID := fst (nextRunID (pop_pending sid S3))\<rparr>) (snd (nextRunID (pop_pending sid S3))))"
      by (auto simp: submit_held_def Let_def split_beta)
    let ?S3 = "(add_pending sid m S1)\<lparr>sc_held := (sc_held (add_pending sid m S1))(sid := False)\<rparr>"
    have ne: "sc_pending ?S3 sid \<noteq> []" by (simp add: add_pending_def)
    show ?thesis unfolding s Let_def
      by (rule keeps_one_new) (use take_next_keeps [OF ne, of C] QueueUser_Ok [OF q] in auto)
  next
    case 3
    show ?thesis
    proof (cases "0 < identicalPendingPosition (sc_pending S sid) body")
      case True
      with 3 show ?thesis by (auto simp: submit_running_def Let_def)
    next
      case False
      with 3 obtain m S1 e f where q: "QueueUserAttachments C S sid body atts = Ok (m, S1)"
        and s: "S' = publish e (on_session sid f (add_pending sid m S1))" and f: "\<And>s. s_Messages (f s) = s_Messages s"
        by (auto simp: submit_running_def Let_def SetQueuedMessages_def split: if_splits)
      show ?thesis unfolding s by (rule keeps_one_new) (use QueueUser_Ok [OF q] in \<open>auto simp: accounted_on_session f\<close>)
    qed
  next
    case 4
    then obtain m S1 where q: "QueueUserAttachments C S sid body atts = Ok (m, S1)"
      and s: "S' = (let S2 = AppendUser S1 sid m
        in start_or_queue C \<lparr>q_session = sid, q_runID = fst (nextRunID S2), q_userMessageID = msg_ID m, q_userMessage = emptyMessage\<rparr> (snd (nextRunID S2)))"
      by (auto simp: submit_idle_def AddUserAttachments_def start_or_queue_def Let_def split_beta split: if_splits)
    have am: "sc_mids (AppendUser S1 sid m) = sc_mids S1" by (simp add: AppendUser_def)
    show ?thesis unfolding s Let_def
      by (rule keeps_one_new)
        (use start_or_queue_accounts [of "snd (nextRunID (AppendUser S1 sid m))"
            "\<lparr>q_session = sid, q_runID = fst (nextRunID (AppendUser S1 sid m)), q_userMessageID = msg_ID m, q_userMessage = emptyMessage\<rparr>" C]
          QueueUser_Ok [OF q] am in auto)
  qed
qed

lemma Submit_keeps:
  assumes "SubmitAttachments C S sid body atts = Ok (r, S')"
  shows "keeps_messages S S'"
proof -
  define T where "T = on_session sid (\<lambda>s. snd (BeginSubmission s)) S"
  from assms obtain S1 where s: "submit_locked C T sid body atts = Ok (r, S1)" and S': "S' = on_session sid EndSubmission S1"
    by (auto simp: SubmitAttachments_def T_def split: if_splits)
  have "accounted T = accounted S" "sc_mids T = sc_mids S"
    by (simp_all add: T_def accounted_on_session BeginSubmission_def)
  moreover have "accounted S' = accounted S1" "sc_mids S' = sc_mids S1"
    by (simp_all add: S' accounted_on_session EndSubmission_def)
  ultimately show ?thesis using submit_locked_keeps [OF s] by (simp add: keeps_messages_def)
qed

lemma follow_up_mids [simp]: "sc_mids (follow_up C sid S) = sc_mids S"
  by (simp add: follow_up_def Let_def split_beta)

lemma stop_session_mids [simp]: "sc_mids (stop_session C sid r reason detail turns S) = sc_mids S"
  by (simp add: stop_session_def Let_def)

lemma finish_keeps: "keeps_messages S (finish C S entry reason detail turns)"
proof -
  have step: "keeps_messages S (stop_session C sid r why detail turns (follow_up C sid T))"
    if "accounted T = accounted S" "sc_mids T = sc_mids S" for T sid r why
    using follow_up_accounts [of T C sid] stop_session_accounts [of "follow_up C sid T" C sid r why detail turns] that
    by (intro keeps_same_mids) auto
  have same: "keeps_messages S S" by (rule keeps_same_mids) auto
  show ?thesis by (auto simp: finish_def Let_def same intro!: step split: option.splits)
qed

lemma forceFinish_keeps: "keeps_messages S (forceFinish C S sid runID detail)"
proof -
  have step: "keeps_messages S (stop_session C sid r why detail turns T)"
    if "accounted T = accounted S" "sc_mids T = sc_mids S" for T r why turns
    using stop_session_accounts [of T C sid r why detail turns] that by (intro keeps_same_mids) auto
  have del: "keeps_messages S (S\<lparr>sc_active := a\<rparr>)" for a by (rule keeps_same_mids) auto
  show ?thesis by (auto simp: forceFinish_def Let_def del intro!: step split: option.splits)
qed

lemma keeps_trans: "keeps_messages S T \<Longrightarrow> keeps_messages T U \<Longrightarrow> keeps_messages S U"
proof -
  assume a: "keeps_messages S T" and b: "keeps_messages T U"
  have "''m-'' @ dec k \<in> accounted U" if k: "sc_mids S < k" "k \<le> sc_mids U" for k
  proof (cases "k \<le> sc_mids T")
    case True
    with a k have "''m-'' @ dec k \<in> accounted T - {[]}" by (simp add: keeps_messages_def)
    with b show ?thesis by (auto simp: keeps_messages_def)
  next
    case False
    with b k show ?thesis by (simp add: keeps_messages_def)
  qed
  with a b show "keeps_messages S U" by (auto simp: keeps_messages_def)
qed

lemma release_one_keeps: "keeps_messages S (release_one C profileID sid S)"
proof -
  have r: "keeps_messages S T" if "accounted T = accounted S" "sc_mids T = sc_mids S" for T
    using that by (intro keeps_same_mids) auto
  show ?thesis
    using take_next_keeps [of "publish e (S\<lparr>sc_unreachable := u\<rparr>)" sid C for e u]
    by (auto simp: release_one_def Let_def split_beta intro!: r keeps_same_mids)
qed

inductive quiet_step :: "sched_cfg \<Rightarrow> scheduler \<Rightarrow> scheduler \<Rightarrow> bool" for C where
  \<comment> \<open>every transition but \<^verbatim>\<open>Stop\<close>\<close>
  qs_submit: "SubmitAttachments (C\<lparr>cf_prepare := p\<rparr>) S sid body atts = Ok (r, S') \<Longrightarrow> quiet_step C S S'"
| qs_finish: "entry \<in> set (sc_goroutines S) \<Longrightarrow> S' = finish C S entry reason detail turns \<Longrightarrow>
    quiet_step C S (S'\<lparr>sc_goroutines := remove1 entry (sc_goroutines S')\<rparr>)"
| qs_timeout: "quiet_step C S (stop_timeout C S sid runID reason)"
| qs_release: "quiet_step C S (ReleaseModel C order S profileID)"
| qs_hold: "quiet_step C S (HoldModel S sid)"
| qs_idle: "quiet_step C S (snd (TryAgentIdle S agentID))"

lemma quiet_step_keeps:
  assumes "quiet_step C S S'"
  shows "keeps_messages S S'"
  using assms
proof cases
  case (qs_release order profileID)
  have "keeps_messages S (fold (release_one C profileID) order S)"
  proof (induction order arbitrary: S)
    case (Cons sid order)
    show ?case using keeps_trans [OF release_one_keeps Cons.IH] by simp
  qed (auto intro: keeps_same_mids)
  then show ?thesis by (simp add: qs_release ReleaseModel_def)
next
  case (qs_finish entry T reason detail turns)
  with finish_keeps [of S C entry reason detail turns] show ?thesis by (simp add: keeps_messages_def)
next
  case (qs_timeout sid runID reason)
  with forceFinish_keeps [of "effect (RecordedAbort sid runID reason (abortDetail True)) S" C sid runID "abortDetail True"]
  show ?thesis by (simp add: stop_timeout_def keeps_messages_def)
qed (auto simp: HoldModel_def TryAgentIdle_def intro: Submit_keeps keeps_same_mids)

definition all_accounted :: "scheduler \<Rightarrow> bool" where
  "all_accounted S \<longleftrightarrow> (\<forall>k \<in> {1..sc_mids S}. ''m-'' @ dec k \<in> accounted S)"

interpretation quiet: invariant_system sched_started "quiet_step C" all_accounted for C
proof
  fix S assume "sched_started S"
  then show "all_accounted S" by (auto simp: sched_started_def NewScheduler_def all_accounted_def)
next
  fix S S' assume a: "all_accounted S" and s: "quiet_step C S S'"
  have "''m-'' @ dec k \<in> accounted S'" if "1 \<le> k" "k \<le> sc_mids S'" for k
    using quiet_step_keeps [OF s] a that by (cases "k \<le> sc_mids S") (auto simp: keeps_messages_def all_accounted_def)
  then show "all_accounted S'" by (simp add: all_accounted_def)
qed

text \<open>C9. Without a stop, no accepted message is ever lost: after any sequence of submissions, run completions
  in any order and with any result, forced completions, and losses and recoveries of the model server, every
  message the scheduler ever issued is in the history of a session, in a session's waiting list, or in the
  run queue.\<close>

theorem accepted_messages_are_never_lost:
  assumes "(quiet_step C)\<^sup>*\<^sup>* (NewScheduler store registered) S" "1 \<le> k" "k \<le> sc_mids S"
  shows "(\<exists>sid. \<exists>m \<in> set (s_Messages (sc_store S sid)). msg_ID m = ''m-'' @ dec k)
    \<or> (\<exists>sid. \<exists>q \<in> set (sc_pending S sid). msg_ID (q_userMessage q) = ''m-'' @ dec k)
    \<or> (\<exists>q \<in> set (sc_queue S). msg_ID (q_userMessage q) = ''m-'' @ dec k)"
proof -
  have "all_accounted S" using assms(1) by (rule quiet.run_inv [rotated]) (auto simp: sched_started_def)
  with assms(2,3) have "''m-'' @ dec k \<in> accounted S" by (simp add: all_accounted_def)
  then consider "''m-'' @ dec k \<in> hist S" | sid where "''m-'' @ dec k \<in> qmsgs (sc_pending S sid)" | "''m-'' @ dec k \<in> qmsgs (sc_queue S)"
    by (auto simp: accounted_def)
  then show ?thesis
  proof cases
    case 1
    then obtain sid m where "m \<in> set (s_Messages (sc_store S sid))" "msg_ID m = ''m-'' @ dec k" by (auto simp: hist_def)
    then show ?thesis by blast
  next
    case (2 sid)
    then obtain q where "q \<in> set (sc_pending S sid)" "msg_ID (q_userMessage q) = ''m-'' @ dec k" by (auto simp: qmsgs_def)
    then show ?thesis by blast
  next
    case 3
    then obtain q where "q \<in> set (sc_queue S)" "msg_ID (q_userMessage q) = ''m-'' @ dec k" by (auto simp: qmsgs_def)
    then show ?thesis by blast
  qed
qed

lemma submit_or_same_quiet: "(quiet_step C)\<^sup>*\<^sup>* S (submit_or_same C sid body S)"
proof -
  have "C\<lparr>cf_prepare := cf_prepare C\<rparr> = C" by simp
  then show ?thesis using qs_submit [where C = C and p = "cf_prepare C" and S = S and sid = sid and body = body and atts = "[]"]
    by (auto simp: submit_or_same_def split: gores.splits)
qed

theorem accepted_messages_are_never_lost_witness:
  "let S = submit_or_same (demo_cfg 1) ''s'' ''x'' demo_sched in sc_mids S = 1
   \<and> ((\<exists>sid. \<exists>m \<in> set (s_Messages (sc_store S sid)). msg_ID m = ''m-'' @ dec 1)
      \<or> (\<exists>sid. \<exists>q \<in> set (sc_pending S sid). msg_ID (q_userMessage q) = ''m-'' @ dec 1)
      \<or> (\<exists>q \<in> set (sc_queue S). msg_ID (q_userMessage q) = ''m-'' @ dec 1))"
proof -
  have m: "sc_mids (submit_or_same (demo_cfg 1) ''s'' ''x'' demo_sched) = 1" by code_simp
  have "(quiet_step (demo_cfg 1))\<^sup>*\<^sup>* (NewScheduler demo_session (\<lambda>_. True)) (submit_or_same (demo_cfg 1) ''s'' ''x'' demo_sched)"
    unfolding demo_sched_def by (rule submit_or_same_quiet)
  from accepted_messages_are_never_lost [OF this, of 1] m show ?thesis unfolding Let_def by simp
qed

end
