(* ===== verification/Scheduler_Traces.thy ===== *)
theory Scheduler_Traces
  imports Scheduler
begin

text \<open>
  Concrete schedules of \<^verbatim>\<open>internal/agent/scheduler.go\<close> that reach states its documentation excludes.  Each
  schedule is executed one critical section at a time; the lemmas of a stage list what the next one reads.
\<close>

lemmas exec_defs = submit_or_same_def SubmitAttachments_def submit_locked_def submit_unreachable_def submit_held_def submit_running_def
  submit_idle_def QueueUserAttachments_def AddUserAttachments_def AppendUser_def add_pending_def pop_pending_def pending_entry_def
  start_or_queue_def startLocked_def deliver_message_def enqueue_run_def on_session_def publish_def effect_def nextRunID_def put_active_def
  del_active_def new_run_state_def BeginSubmission_def EndSubmission_def SetRun_def SetQueuedMessages_def Append_def IsRunning_def IsClosed_def
  busy_status_def emptyRunState_def emptyMessage_def Let_def

lemma decs: "dec (Suc 0) = ''1''" "dec (Suc (Suc 0)) = ''2''" "dec (Suc (Suc (Suc 0))) = ''3''" "dec (Suc (Suc (Suc (Suc 0)))) = ''4''"
  "dec 1 = ''1''" "dec 2 = ''2''" "dec 3 = ''3''" "dec 4 = ''4''"
  by code_simp+

lemma demo_cfg_simps: "cf_MaxConcurrent (demo_cfg n) = n" "cf_prepare (demo_cfg n) = (\<lambda>_ _ atts. Some (atts, 1, True))" "cf_QueueDepth (demo_cfg n) = 0"
  by (simp_all add: demo_cfg_def)

section \<open>Stop, then submit\<close>

definition ov1 :: scheduler where "ov1 = submit_or_same (demo_cfg 2) ''s'' ''first'' demo_sched"
definition ov2 :: scheduler where "ov2 = submit_or_same (demo_cfg 2) ''s'' ''second'' ov1"
definition ov3 :: scheduler where "ov3 = snd (Stop_locked (demo_cfg 2) [''s''] [] ov2 ''s'' False)"
definition ov4 :: scheduler where "ov4 = submit_or_same (demo_cfg 2) ''s'' ''third'' ov3"

lemma ov1:
  "sc_active ov1 = [(''s'', \<lparr>ar_stopReason = [], ar_runID = ''r1''\<rparr>)]" "sc_queue ov1 = []" "sc_pending ov1 = (\<lambda>_. [])"
  "sc_held ov1 = (\<lambda>_. False)" "sc_unreachable ov1 = (\<lambda>_. False)" "sc_ids ov1 = 1" "sc_mids ov1 = 1" "sc_registered ov1 = (\<lambda>_. True)"
  "map q_session (sc_goroutines ov1) = [''s'']" "map q_runID (sc_goroutines ov1) = [''r1'']"
  "s_Closed (sc_store ov1 ''s'') = False" "map ev_Type (published ov1) = [''message.appended'', ''run.started'']"
  by (simp_all add: ov1_def demo_sched_def NewScheduler_def demo_session_def exec_defs demo_cfg_simps decs published_def started_event_def)

lemma ov2:
  "sc_active ov2 = [(''s'', \<lparr>ar_stopReason = [], ar_runID = ''r1''\<rparr>)]" "sc_queue ov2 = []"
  "map (\<lambda>q. msg_ID (q_userMessage q)) (sc_pending ov2 ''s'') = [''m-2'']" "map q_session (sc_pending ov2 ''s'') = [''s'']"
  "sc_held ov2 = (\<lambda>_. False)" "sc_unreachable ov2 = (\<lambda>_. False)" "sc_ids ov2 = 1" "sc_mids ov2 = 2" "sc_registered ov2 = (\<lambda>_. True)"
  "sc_goroutines ov2 = sc_goroutines ov1" "s_Closed (sc_store ov2 ''s'') = False"
  "map ev_Type (published ov2) = [''message.appended'', ''run.started'', ''message.queued'']"
  using ov1(12) by (simp_all add: ov2_def ov1 exec_defs demo_cfg_simps decs published_def)

lemma ov2_pending: "sc_pending ov2 ''s'' \<noteq> []"
  using ov2(3) by auto

lemma ov3:
  "sc_active ov3 = [(''s'', \<lparr>ar_stopReason = ''aborted_mid_run'', ar_runID = ''r1''\<rparr>)]" "sc_queue ov3 = []"
  "sc_pending ov3 = sc_pending ov2" "sc_held ov3 ''s''" "sc_unreachable ov3 = (\<lambda>_. False)" "sc_ids ov3 = 1" "sc_mids ov3 = 2"
  "sc_registered ov3 = (\<lambda>_. True)" "sc_goroutines ov3 = sc_goroutines ov1" "s_Closed (sc_store ov3 ''s'') = False"
  "map ev_Type (published ov3) = [''message.appended'', ''run.started'', ''message.queued'', ''run.stopping'']"
  using ov2_pending ov2(12)
  by (auto simp: ov3_def ov2 Stop_locked_def stop_active_def repositionLocked_def exec_defs demo_cfg_simps published_def demo_cfg_def)

lemma ov4:
  "map_of (sc_active ov4) ''s'' = Some \<lparr>ar_stopReason = [], ar_runID = ''r2''\<rparr>"
  "map q_session (sc_goroutines ov4) = [''s'', ''s'']" "map q_runID (sc_goroutines ov4) = [''r1'', ''r2'']"
  "''run.stopped'' \<notin> set (map ev_Type (published ov4))"
proof -
  obtain q where q: "sc_pending ov2 ''s'' = [q]" "msg_ID (q_userMessage q) = ''m-2''" "q_session q = ''s''"
    using ov2(3,4) by (cases "sc_pending ov2 ''s''") auto
  note d = ov4_def ov3 q exec_defs demo_cfg_simps decs
  show "map_of (sc_active ov4) ''s'' = Some \<lparr>ar_stopReason = [], ar_runID = ''r2''\<rparr>" by (simp add: d)
  show "map q_session (sc_goroutines ov4) = [''s'', ''s'']" and "map q_runID (sc_goroutines ov4) = [''r1'', ''r2'']"
    using ov1(9,10) by (simp_all add: d)
  have "map ev_Type (published ov4) = map ev_Type (published ov3) @ [''message.appended'', ''run.started'']"
    by (simp add: d published_def started_event_def)
  then show "''run.stopped'' \<notin> set (map ev_Type (published ov4))" by (simp add: ov3)
qed

lemma ov4_reachable: "(sched_step (demo_cfg 2))\<^sup>*\<^sup>* (NewScheduler demo_session (\<lambda>_. True)) ov4"
proof -
  have "set [''s''] = fst ` set (sc_active ov2)" by (simp add: ov2)
  from st_stop [OF this, of "demo_cfg 2" "cf_abortReason (demo_cfg 2)" "[]" "''s''" False]
  have "sched_step (demo_cfg 2) ov2 ov3" by (simp add: ov3_def)
  moreover have "(sched_step (demo_cfg 2))\<^sup>*\<^sup>* demo_sched ov2"
    unfolding ov2_def ov1_def using submit_or_same_steps rtranclp_trans by metis
  moreover have "(sched_step (demo_cfg 2))\<^sup>*\<^sup>* ov3 ov4" unfolding ov4_def by (rule submit_or_same_steps)
  ultimately show ?thesis unfolding demo_sched_def by (meson rtranclp.rtrancl_into_rtrancl rtranclp_trans)
qed

text \<open>C32. Submitting after a stop can overlap two runs of one session: stopping a run while a message is
  waiting puts the session on hold, and the next submission starts the waiting message although the stopped
  run has not yielded yet.  Two goroutines then work on the same session, and when the first one finally
  returns, no \<^verbatim>\<open>run.stopped\<close> event is published for it.\<close>

theorem stop_then_submit_overlaps_runs:
  "\<exists>C S. (sched_step C)\<^sup>*\<^sup>* (NewScheduler demo_session (\<lambda>_. True)) S
     \<and> map q_session (sc_goroutines S) = [''s'', ''s''] \<and> map q_runID (sc_goroutines S) = [''r1'', ''r2'']
     \<and> (\<forall>reason detail turns. ''run.stopped'' \<notin> set (map ev_Type (published (finish C S (hd (sc_goroutines S)) reason detail turns))))"
proof -
  have "q_session (hd (sc_goroutines ov4)) = ''s''" "q_runID (hd (sc_goroutines ov4)) = ''r1''"
    using ov4(2,3) by (cases "sc_goroutines ov4"; auto)+
  then have "finish (demo_cfg 2) ov4 (hd (sc_goroutines ov4)) reason detail turns = ov4" for reason detail turns
    by (simp add: finish_def ov4)
  with ov4 ov4_reachable show ?thesis by (intro exI [of _ "demo_cfg 2"] exI [of _ ov4]) simp
qed

section \<open>A follow-up behind another session\<close>

definition one_slot :: sched_cfg where "one_slot = demo_cfg 1"

lemma one_slot_simps: "cf_MaxConcurrent one_slot = 1" "cf_prepare one_slot = (\<lambda>_ _ atts. Some (atts, 1, True))" "cf_QueueDepth one_slot = 0"
  by (simp_all add: one_slot_def demo_cfg_def)

definition fu1 :: scheduler where "fu1 = submit_or_same one_slot ''s'' ''first'' demo_sched"
definition fu2 :: scheduler where "fu2 = submit_or_same one_slot ''t'' ''other'' fu1"
definition fu3 :: scheduler where "fu3 = submit_or_same one_slot ''s'' ''second'' fu2"
definition fu4 :: scheduler where "fu4 = finish_first one_slot fu3"
definition fu5 :: scheduler where "fu5 = submit_or_same one_slot ''s'' ''third'' fu4"
definition fu6 :: scheduler where "fu6 = finish_first one_slot fu5"

definition fu_goroutine :: "string \<Rightarrow> string \<Rightarrow> string \<Rightarrow> queuedRun" where
  "fu_goroutine sid r m = \<lparr>q_session = sid, q_runID = r, q_userMessageID = m, q_userMessage = emptyMessage\<rparr>"

definition fu_message :: "string \<Rightarrow> string \<Rightarrow> message" where
  "fu_message mid body = emptyMessage\<lparr>msg_ID := mid, msg_Role := ''user'', msg_Content := body, msg_Category := ''history'',
     msg_Tokens := 1, msg_Estimated := True\<rparr>"

lemmas fu_defs = exec_defs one_slot_simps decs fu_goroutine_def fu_message_def

lemma fu1:
  "sc_active fu1 = [(''s'', \<lparr>ar_stopReason = [], ar_runID = ''r1''\<rparr>)]" "sc_queue fu1 = []" "sc_pending fu1 = (\<lambda>_. [])"
  "sc_held fu1 = (\<lambda>_. False)" "sc_unreachable fu1 = (\<lambda>_. False)" "sc_ids fu1 = 1" "sc_mids fu1 = 1" "sc_registered fu1 = (\<lambda>_. True)"
  "sc_goroutines fu1 = [fu_goroutine ''s'' ''r1'' ''m-1'']"
  "s_Closed (sc_store fu1 ''s'') = False" "s_Messages (sc_store fu1 ''s'') = [fu_message ''m-1'' ''first'']" "sc_store fu1 ''t'' = demo_session ''t''"
  by (simp_all add: fu1_def demo_sched_def NewScheduler_def demo_session_def fu_defs)

lemma fu2:
  "sc_active fu2 = [(''s'', \<lparr>ar_stopReason = [], ar_runID = ''r1''\<rparr>)]" "sc_queue fu2 = [fu_goroutine ''t'' ''r2'' ''m-2'']" "sc_pending fu2 = (\<lambda>_. [])"
  "sc_held fu2 = (\<lambda>_. False)" "sc_unreachable fu2 = (\<lambda>_. False)" "sc_ids fu2 = 2" "sc_mids fu2 = 2" "sc_registered fu2 = (\<lambda>_. True)"
  "sc_goroutines fu2 = [fu_goroutine ''s'' ''r1'' ''m-1'']"
  "s_Closed (sc_store fu2 ''s'') = False" "s_Messages (sc_store fu2 ''s'') = [fu_message ''m-1'' ''first'']"
  by (simp_all add: fu2_def fu1 demo_session_def fu_defs)

lemma fu3:
  "sc_active fu3 = [(''s'', \<lparr>ar_stopReason = [], ar_runID = ''r1''\<rparr>)]" "sc_queue fu3 = [fu_goroutine ''t'' ''r2'' ''m-2'']"
  "sc_pending fu3 = (\<lambda>_. [])(''s'' := [pending_entry ''s'' (fu_message ''m-3'' ''second'')])"
  "sc_held fu3 = (\<lambda>_. False)" "sc_unreachable fu3 = (\<lambda>_. False)" "sc_ids fu3 = 2" "sc_mids fu3 = 3" "sc_registered fu3 = (\<lambda>_. True)"
  "sc_goroutines fu3 = [fu_goroutine ''s'' ''r1'' ''m-1'']"
  "s_Closed (sc_store fu3 ''s'') = False" "s_Messages (sc_store fu3 ''s'') = [fu_message ''m-1'' ''first'']"
  by (simp_all add: fu3_def fu2 fu_defs)

definition fu3a :: scheduler where "fu3a = follow_up one_slot ''s'' (fu3\<lparr>sc_active := []\<rparr>)"
definition fu3b :: scheduler where "fu3b = settle_session one_slot ''s'' ''r1'' ''done'' [] 1 fu3a"

abbreviation fu_queued :: queuedRun where
  "fu_queued \<equiv> \<lparr>q_session = ''s'', q_runID = ''r3'', q_userMessageID = ''m-3'', q_userMessage = fu_message ''m-3'' ''second''\<rparr>"

lemma fu3a:
  "sc_active fu3a = []" "sc_queue fu3a = [fu_goroutine ''t'' ''r2'' ''m-2'', fu_queued]" "sc_pending fu3a = (\<lambda>_. [])"
  "sc_held fu3a = (\<lambda>_. False)" "sc_unreachable fu3a = (\<lambda>_. False)" "sc_ids fu3a = 3" "sc_mids fu3a = 3" "sc_registered fu3a = (\<lambda>_. True)"
  "sc_goroutines fu3a = [fu_goroutine ''s'' ''r1'' ''m-1'']"
  "s_Closed (sc_store fu3a ''s'') = False" "s_Messages (sc_store fu3a ''s'') = [fu_message ''m-1'' ''first'']"
  by (simp_all add: fu3a_def fu3 follow_up_def fu_defs fun_upd_idem)

lemma fu3b:
  "sc_active fu3b = []" "sc_queue fu3b = [fu_goroutine ''t'' ''r2'' ''m-2'', fu_queued]" "sc_pending fu3b = (\<lambda>_. [])"
  "sc_held fu3b = (\<lambda>_. False)" "sc_unreachable fu3b = (\<lambda>_. False)" "sc_ids fu3b = 3" "sc_mids fu3b = 3" "sc_registered fu3b = (\<lambda>_. True)"
  "sc_goroutines fu3b = [fu_goroutine ''s'' ''r1'' ''m-1'']"
  "s_Closed (sc_store fu3b ''s'') = False" "s_Messages (sc_store fu3b ''s'') = [fu_message ''m-1'' ''first'']"
  "rs_Status (s_Run (sc_store fu3b ''s'')) = ''idle''"
  unfolding fu3b_def by (simp_all add: fu3a settle_session_def Let_def notifyAgentIdleLocked_def) (simp_all add: fu3a on_session_def SetRun_def emptyRunState_def)

lemma fu4_eq: "fu4 = (repositionLocked (drain one_slot (sc_queue fu3b) fu3b))\<lparr>sc_goroutines := remove1 (fu_goroutine ''s'' ''r1'' ''m-1'')
    (sc_goroutines (repositionLocked (drain one_slot (sc_queue fu3b) fu3b)))\<rparr>"
proof -
  have "finish one_slot fu3 (fu_goroutine ''s'' ''r1'' ''m-1'') ''done'' [] 1 = repositionLocked (drain one_slot (sc_queue fu3b) fu3b)"
    by (simp add: finish_def fu3 fu_goroutine_def del_active_def stop_session_def Let_def fu3b_def fu3a_def)
  then show ?thesis by (simp add: fu4_def finish_first_def fu3 Let_def)
qed

definition fu3c :: scheduler where "fu3c = startLocked one_slot (fu3b\<lparr>sc_queue := [fu_queued]\<rparr>) (fu_goroutine ''t'' ''r2'' ''m-2'')"

lemma fu3c:
  "sc_active fu3c = [(''t'', \<lparr>ar_stopReason = [], ar_runID = ''r2''\<rparr>)]" "sc_queue fu3c = [fu_queued]" "sc_pending fu3c = (\<lambda>_. [])"
  "sc_held fu3c = (\<lambda>_. False)" "sc_unreachable fu3c = (\<lambda>_. False)" "sc_ids fu3c = 3" "sc_mids fu3c = 3" "sc_registered fu3c = (\<lambda>_. True)"
  "sc_goroutines fu3c = [fu_goroutine ''s'' ''r1'' ''m-1'', fu_goroutine ''t'' ''r2'' ''m-2'']"
  "sc_store fu3c ''s'' = sc_store fu3b ''s''"
  by (simp_all add: fu3c_def fu3b fu_defs)

lemma fu4:
  "sc_active fu4 = [(''t'', \<lparr>ar_stopReason = [], ar_runID = ''r2''\<rparr>)]" "sc_queue fu4 = [fu_queued]" "sc_pending fu4 = (\<lambda>_. [])"
  "sc_held fu4 = (\<lambda>_. False)" "sc_unreachable fu4 = (\<lambda>_. False)" "sc_ids fu4 = 3" "sc_mids fu4 = 3" "sc_registered fu4 = (\<lambda>_. True)"
  "sc_goroutines fu4 = [fu_goroutine ''t'' ''r2'' ''m-2'']"
  "s_Closed (sc_store fu4 ''s'') = False" "s_Messages (sc_store fu4 ''s'') = [fu_message ''m-1'' ''first'']"
  "rs_Status (s_Run (sc_store fu4 ''s'')) = ''idle''"
proof -
  have d: "drain one_slot (sc_queue fu3b) fu3b = fu3c\<lparr>sc_queue := [fu_queued]\<rparr>"
    by (simp add: fu3b one_slot_simps fu3c_def put_active_def)
  have r: "reposition_from 0 [fu_queued] X = on_session ''s'' (\<lambda>s. SetRun s ((s_Run s)\<lparr>rs_QueuePosition := 1\<rparr>)) X" for X by simp
  note e = fu4_eq [unfolded d repositionLocked_def]
  show "sc_active fu4 = [(''t'', \<lparr>ar_stopReason = [], ar_runID = ''r2''\<rparr>)]" "sc_queue fu4 = [fu_queued]" "sc_pending fu4 = (\<lambda>_. [])"
    "sc_ids fu4 = 3" "sc_mids fu4 = 3" by (simp_all add: e fu3c)
  show "sc_goroutines fu4 = [fu_goroutine ''t'' ''r2'' ''m-2'']" by (simp add: e fu3c fu_goroutine_def)
  show "sc_held fu4 = (\<lambda>_. False)" "sc_unreachable fu4 = (\<lambda>_. False)" "sc_registered fu4 = (\<lambda>_. True)" by (simp_all add: e fu3c)
  show "s_Closed (sc_store fu4 ''s'') = False" "s_Messages (sc_store fu4 ''s'') = [fu_message ''m-1'' ''first'']"
    "rs_Status (s_Run (sc_store fu4 ''s'')) = ''idle''" by (simp_all add: e on_session_def SetRun_def fu3c fu3b)
qed

lemma fu5:
  "sc_active fu5 = [(''t'', \<lparr>ar_stopReason = [], ar_runID = ''r2''\<rparr>)]" "map q_runID (sc_queue fu5) = [''r3'', ''r4'']" "hd (sc_queue fu5) = fu_queued"
  "sc_goroutines fu5 = [fu_goroutine ''t'' ''r2'' ''m-2'']" "sc_held fu5 = (\<lambda>_. False)" "sc_unreachable fu5 = (\<lambda>_. False)"
  "s_Messages (sc_store fu5 ''s'') = [fu_message ''m-1'' ''first'', fu_message ''m-4'' ''third'']"
  by (simp_all add: fu5_def fu4 fu_defs)

lemma fu5_pending: "sc_pending fu5 = (\<lambda>_. [])"
  by (simp add: fu5_def fu4 fu_defs)

definition fu5a :: scheduler where "fu5a = settle_session one_slot ''t'' ''r2'' ''done'' [] 1 (fu5\<lparr>sc_active := []\<rparr>)"

lemma settle_other: "sid' \<noteq> sid \<Longrightarrow> sc_store (settle_session C sid r reason detail turns S) sid' = sc_store S sid'"
  by (simp add: settle_session_def Let_def on_session_def)

lemma reposition_messages: "s_Messages (sc_store (reposition_from i qs S) sid) = s_Messages (sc_store S sid)"
  by (induction qs arbitrary: i S) (simp_all add: on_session_def SetRun_def)

lemma start_messages:
  "msg_ID (q_userMessage q) \<noteq> [] \<Longrightarrow> s_Messages (sc_store (startLocked C S q) (q_session q)) = s_Messages (sc_store S (q_session q)) @ [q_userMessage q]"
  by (simp add: startLocked_def deliver_message_def AppendUser_def on_session_def SetRun_def Append_def Let_def)

lemma fu6_messages: "s_Messages (sc_store fu6 ''s'') = [fu_message ''m-1'' ''first'', fu_message ''m-4'' ''third'', fu_message ''m-3'' ''second'']"
proof -
  have f: "finish one_slot fu5 (fu_goroutine ''t'' ''r2'' ''m-2'') ''done'' [] 1 = repositionLocked (drain one_slot (sc_queue fu5) fu5a)"
    by (simp add: finish_def fu5 fu5_pending fu_goroutine_def del_active_def follow_up_def stop_session_def Let_def fu5a_def)
  obtain q where q: "sc_queue fu5 = [fu_queued, q]" using fu5(2,3) by (cases "sc_queue fu5") auto
  have a: "sc_active fu5a = []" by (simp add: fu5a_def)
  have "sc_store fu6 ''s'' = sc_store (repositionLocked (drain one_slot (sc_queue fu5) fu5a)) ''s''"
    by (simp add: fu6_def finish_first_def fu5 f Let_def)
  then have "s_Messages (sc_store fu6 ''s'') = s_Messages (sc_store (drain one_slot [fu_queued, q] fu5a) ''s'')"
    by (simp add: repositionLocked_def reposition_messages q)
  also have "\<dots> = s_Messages (sc_store (startLocked one_slot (fu5a\<lparr>sc_queue := [q]\<rparr>) fu_queued) ''s'')"
    by (simp add: a one_slot_simps put_active_def)
  also have "\<dots> = s_Messages (sc_store fu5a ''s'') @ [fu_message ''m-3'' ''second'']"
    using start_messages [of fu_queued one_slot "fu5a\<lparr>sc_queue := [q]\<rparr>"] by (simp add: fu_message_def)
  also have "\<dots> = [fu_message ''m-1'' ''first'', fu_message ''m-4'' ''third'', fu_message ''m-3'' ''second'']"
    by (simp add: fu5a_def settle_other fu5)
  finally show ?thesis .
qed

lemma fu_reachable:
  "(sched_step one_slot)\<^sup>*\<^sup>* (NewScheduler demo_session (\<lambda>_. True)) fu4"
  "(sched_step one_slot)\<^sup>*\<^sup>* (NewScheduler demo_session (\<lambda>_. True)) fu6"
proof -
  show f4: "(sched_step one_slot)\<^sup>*\<^sup>* (NewScheduler demo_session (\<lambda>_. True)) fu4"
    unfolding fu4_def fu3_def fu2_def fu1_def demo_sched_def
    by (intro rtranclp_trans [OF _ finish_first_steps] rtranclp_trans [OF _ submit_or_same_steps] submit_or_same_steps)
  show "(sched_step one_slot)\<^sup>*\<^sup>* (NewScheduler demo_session (\<lambda>_. True)) fu6"
    unfolding fu6_def fu5_def by (intro rtranclp_trans [OF _ finish_first_steps] rtranclp_trans [OF _ submit_or_same_steps] f4)
qed

text \<open>C33. A message posted during a run can be overtaken: finishing a run turns the waiting message into a queued
  run but then marks the session idle, so a later message of the same session is not recognised as a follow-up,
  enters the history at once, and precedes the message that was posted before it.\<close>

theorem follow_up_message_is_overtaken:
  "\<exists>C S. (sched_step C)\<^sup>*\<^sup>* (NewScheduler demo_session (\<lambda>_. True)) S
     \<and> map msg_ID (s_Messages (sc_store S ''s'')) = [''m-1'', ''m-4'', ''m-3'']
     \<and> map msg_Content (s_Messages (sc_store S ''s'')) = [''first'', ''third'', ''second'']"
  by (intro exI [of _ one_slot] exI [of _ fu6]) (simp add: fu_reachable fu6_messages fu_message_def)

section \<open>Stopping a follow-up before dispatch\<close>

definition fu7 :: scheduler where "fu7 = snd (Stop_locked one_slot [''t''] [] fu4 ''s'' False)"

lemma fu7_step: "sched_step one_slot fu4 fu7"
proof -
  have "set [''t''] = fst ` set (sc_active fu4)" by (simp add: fu4)
  from st_stop [OF this, of one_slot "cf_abortReason one_slot" "[]" "''s''" False]
  show ?thesis by (simp add: fu7_def)
qed

lemma fu7:
  "sc_queue fu7 = []" "sc_pending fu7 ''s'' = []" "s_Messages (sc_store fu7 ''s'') = [fu_message ''m-1'' ''first'']"
  by (simp_all add: fu7_def Stop_locked_def Let_def fu4 stop_queued_def repositionLocked_def on_session_def SetRun_def)

text \<open>Stopping a session discards a message it had accepted: a message posted during a run and already
  promoted to a queued run is dropped with that run; it is then in no history, no queue and no waiting list,
  although its submission was acknowledged.\<close>

theorem stop_discards_accepted_message:
  "\<exists>C S S'. (sched_step C)\<^sup>*\<^sup>* (NewScheduler demo_session (\<lambda>_. True)) S \<and> sched_step C S S'
     \<and> (\<exists>q \<in> set (sc_queue S). q_session q = ''s'' \<and> msg_Content (q_userMessage q) = ''second'')
     \<and> sc_queue S' = [] \<and> sc_pending S' ''s'' = [] \<and> map msg_Content (s_Messages (sc_store S' ''s'')) = [''first'']"
  by (intro exI [of _ one_slot] exI [of _ fu4] exI [of _ fu7])
    (auto simp: fu_reachable fu7_step fu7 fu4 fu_message_def)

end
