(* ===== verification/Compaction.thy ===== *)
theory Compaction
  imports Session_Model "HOL-Library.Char_ord" "HOL-Library.List_Lexorder"
begin

text \<open>
  The compactor (\<^verbatim>\<open>internal/context/compact.go\<close>): eliding superseded and old tool results, replacing
  the middle of a conversation by a summary, and settling a span of a design chat.

  Each operation works on a copy of the session's messages, publishes what it did and installs the
  copy.  The model returns the new session and the published events, in order.  Decoding and
  printing of JSON arguments and the token counter are parameters: \<open>cj_value\<close> is \<^verbatim>\<open>json.Unmarshal\<close>
  into an \<^verbatim>\<open>any\<close>, \<open>cj_object\<close> into a \<^verbatim>\<open>map[string]any\<close> (empty when it fails), \<open>cj_window\<close> into the
  window arguments of \<^verbatim>\<open>read_file\<close>, \<open>cj_marshal\<close> is \<^verbatim>\<open>json.Marshal\<close> and \<open>cj_show\<close> the \<^verbatim>\<open>%v\<close> verb.
\<close>

section \<open>Parameters\<close>

record windowArgs =
  wa_Path :: string
  wa_Offset :: int
  wa_Limit :: int
  wa_Line :: int
  wa_Lines :: int
  wa_Windows :: string

record compact_json =
  cj_value :: "string \<Rightarrow> gval option"
  cj_object :: "string \<Rightarrow> gmap"
  cj_window :: "string \<Rightarrow> windowArgs option"
  cj_marshal :: "gval \<Rightarrow> string"
  cj_show :: "gval \<Rightarrow> string"

type_synonym counter = "string \<Rightarrow> int \<times> bool"

section \<open>Helpers\<close>

definition successful :: "message \<Rightarrow> bool" where
  "successful m \<longleftrightarrow> msg_OK m = Some True"

definition eligibleOldElision :: "message \<Rightarrow> bool" where
  "eligibleOldElision m =
     (case msg_OK m of Some ok \<Rightarrow> ok
      | None \<Rightarrow> let p = to_lower (trim_space (msg_Content m)) in \<not> prefix ''error:'' p \<and> \<not> prefix ''note:'' p)"

definition tokenSum :: "message list \<Rightarrow> int" where
  "tokenSum ms = sum_list (map msg_Tokens ms)"

definition callFor :: "message list \<Rightarrow> string \<Rightarrow> toolCall \<times> bool" where
  "callFor ms i =
     (case find (\<lambda>c. tc_ID c = i) (concat (map msg_ToolCalls ms)) of
        Some c \<Rightarrow> (c, True)
      | None \<Rightarrow> (\<lparr>tc_ID = [], tc_Name = [], tc_Arguments = []\<rparr>, False))"

definition canonical :: "compact_json \<Rightarrow> string \<Rightarrow> string" where
  "canonical J raw = (case cj_value J raw of None \<Rightarrow> raw | Some v \<Rightarrow> cj_marshal J v)"

definition or_default :: "int \<Rightarrow> int \<Rightarrow> int" where
  \<comment> \<open>\<^verbatim>\<open>if x == 0 { x = d }\<close>\<close>
  "or_default d x = (if x = 0 then d else x)"

definition ranges_overlap :: "int \<Rightarrow> int \<Rightarrow> int \<Rightarrow> int \<Rightarrow> bool" where
  \<comment> \<open>\<^verbatim>\<open>a <= b+m-1 && b <= a+n-1\<close> for starts \<open>a\<close>, \<open>b\<close> and lengths \<open>n\<close>, \<open>m\<close>, in 64 bits\<close>
  "ranges_overlap a n b m \<longleftrightarrow> a \<le> wrap64 (b + m - 1) \<and> b \<le> wrap64 (a + n - 1)"

definition supersedes :: "compact_json \<Rightarrow> string \<Rightarrow> string \<Rightarrow> string \<Rightarrow> int \<Rightarrow> bool" where
  "supersedes J name older current readDefaultLimit =
     (if name = ''search_text'' then canonical J older = canonical J current
      else case (cj_window J older, cj_window J current) of
        (Some a, Some b) \<Rightarrow>
          if wa_Path a \<noteq> wa_Path b \<or> wa_Windows a \<noteq> [] \<or> wa_Windows b \<noteq> [] then False
          else if 0 < wa_Line a \<or> 0 < wa_Line b then
            if wa_Line a = 0 \<or> wa_Line b = 0 then False
            else ranges_overlap (wa_Line a) (or_default 200 (wa_Lines a)) (wa_Line b) (or_default 200 (wa_Lines b))
          else ranges_overlap (or_default 1 (wa_Offset a)) (or_default readDefaultLimit (wa_Limit a))
                 (or_default 1 (wa_Offset b)) (or_default readDefaultLimit (wa_Limit b))
      | _ \<Rightarrow> False)"

fun ctx_number :: "gval \<Rightarrow> int \<Rightarrow> int" where
  "ctx_number (GFloat q) fallback = trunc_rat q"
| "ctx_number _ fallback = fallback"

definition en_dash :: string where
  "en_dash = [CHR 0xE2, CHR 0x80, CHR 0x93]"

definition keyArgs :: "compact_json \<Rightarrow> string \<Rightarrow> string \<Rightarrow> int \<Rightarrow> string" where
  "keyArgs J name raw readDefaultLimit =
     (let args = cj_object J raw;
          parts = map (\<lambda>k. k @ '' '' @ cj_show J (gget args k)) (sort (remdups (map fst args)))
      in if name = ''read_file'' then
           let path = str_or_empty (gget args ''path''); line = ctx_number (gget args ''line'') 0 in
           if 0 < line then
             let lines = ctx_number (gget args ''lines'') 200
             in path @ '' lines '' @ itoa line @ en_dash @ itoa (wrap64 (line + lines - 1))
           else
             let offset = ctx_number (gget args ''offset'') 1; limit = ctx_number (gget args ''limit'') readDefaultLimit
             in path @ '' bytes '' @ itoa offset @ en_dash @ itoa (wrap64 (offset + limit - 1))
         else str_join '' '' parts)"

definition elide :: "compact_json \<Rightarrow> message \<Rightarrow> string \<Rightarrow> int \<Rightarrow> counter \<Rightarrow> message" where
  "elide J m rawArgs readDefaultLimit count =
     (let stub = ''[elided: '' @ msg_Name m @ '' '' @ keyArgs J (msg_Name m) rawArgs readDefaultLimit @ '', ''
                   @ itoa (msg_Tokens m) @ '' tokens]''
      in m\<lparr>msg_Content := stub, msg_Elided := True, msg_Tokens := fst (count stub), msg_Estimated := snd (count stub)\<rparr>)"

definition updated :: "session \<Rightarrow> string \<Rightarrow> message \<Rightarrow> event" where
  "updated s runID m = events_New ''message.updated'' (s_ID s) runID
     (GMap [(''id'', GStr (msg_ID m)),
            (''patch'', GMap [(''content'', GStr (msg_Content m)), (''tokens'', GInt (msg_Tokens m)), (''elided'', GBool True)])])"

definition compaction_event :: "session \<Rightarrow> string \<Rightarrow> string \<Rightarrow> int \<Rightarrow> int \<Rightarrow> string list \<Rightarrow> gmap \<Rightarrow> event" where
  "compaction_event s runID kind before after affected extra = events_New ''compaction'' (s_ID s) runID
     (GMap ([(''kind'', GStr kind), (''before'', GInt before), (''after'', GInt after), (''affected_ids'', GStrs affected)] @ extra))"

section \<open>Eliding superseded results\<close>

type_synonym elision = "message list \<times> string list \<times> event list"
  \<comment> \<open>the edited copy, the affected identifiers, the published updates\<close>

definition try_supersede ::
  "compact_json \<Rightarrow> session \<Rightarrow> string \<Rightarrow> int \<Rightarrow> counter \<Rightarrow> message \<Rightarrow> toolCall \<Rightarrow> nat \<Rightarrow> elision \<Rightarrow> elision" where
  \<comment> \<open>the body of the inner loop\<close>
  "try_supersede J s runID rdl count item currentCall prior st =
     (case st of (ms, affected, evs) \<Rightarrow>
        let older = ms ! prior; (olderCall, ok) = callFor ms (msg_ToolCallID older) in
        if msg_Role older \<noteq> ''tool'' \<or> msg_Name older \<noteq> msg_Name item \<or> msg_Elided older \<or> \<not> successful older then st
        else if \<not> ok \<or> \<not> supersedes J (msg_Name item) (tc_Arguments olderCall) (tc_Arguments currentCall) rdl then st
        else let m = elide J older (tc_Arguments olderCall) rdl count
             in (ms[prior := m], affected @ [msg_ID older], evs @ [updated s runID m]))"

definition supersedes_now :: "int \<Rightarrow> message \<Rightarrow> bool" where
  \<comment> \<open>the results of this turn that may replace older ones\<close>
  "supersedes_now turn item \<longleftrightarrow> msg_Role item = ''tool'' \<and> msg_Turn item = turn \<and> \<not> msg_Elided item \<and> successful item
     \<and> (msg_Name item = ''read_file'' \<or> msg_Name item = ''search_text'')"

definition supersede_current ::
  "compact_json \<Rightarrow> session \<Rightarrow> string \<Rightarrow> int \<Rightarrow> int \<Rightarrow> counter \<Rightarrow> nat \<Rightarrow> elision \<Rightarrow> elision" where
  \<comment> \<open>the body of the outer loop\<close>
  "supersede_current J s runID turn rdl count current st =
     (let item = fst st ! current; (currentCall, ok) = callFor (fst st) (msg_ToolCallID item) in
      if \<not> supersedes_now turn item \<or> \<not> ok then st
      else fold (try_supersede J s runID rdl count item currentCall) [0..<current] st)"

definition Supersede ::
  "compact_json \<Rightarrow> session \<Rightarrow> string \<Rightarrow> int \<Rightarrow> int \<Rightarrow> counter \<Rightarrow> bool \<times> session \<times> event list" where
  "Supersede J s runID turn rdl count =
     (let ms = s_Messages s; before = tokenSum ms;
          (ms', affected, evs) = fold (supersede_current J s runID turn rdl count) [0..<length ms] (ms, [], [])
      in if affected = [] then (False, s, evs)
         else let after = tokenSum ms' in
           (True, RecordCompaction (ReplaceMessages s ms') (after - before),
            evs @ [compaction_event s runID ''elide'' before after affected []]))"

section \<open>Eliding old results\<close>

definition tool_indexes :: "message list \<Rightarrow> nat list" where
  "tool_indexes ms = filter (\<lambda>i. msg_Role (ms ! i) = ''tool'' \<and> \<not> msg_Elided (ms ! i)) [0..<length ms]"

definition kept_results :: "message list \<Rightarrow> nat list" where
  \<comment> \<open>the last four results, which stay\<close>
  "kept_results ms = drop (length (tool_indexes ms) - 4) (tool_indexes ms)"

definition result_category :: "message \<Rightarrow> bool" where
  "result_category m \<longleftrightarrow> msg_Category m = ''files'' \<or> msg_Category m = ''results'' \<or> msg_Category m = ''fetched''"

fun elide_from ::
  "compact_json \<Rightarrow> session \<Rightarrow> string \<Rightarrow> int \<Rightarrow> int \<Rightarrow> counter \<Rightarrow> nat list \<Rightarrow> nat list \<Rightarrow> int \<Rightarrow> elision \<Rightarrow> int \<times> elision" where
  "elide_from J s runID target rdl count skip [] used st = (used, st)"
| "elide_from J s runID target rdl count skip (i # js) used st =
     (case st of (ms, affected, evs) \<Rightarrow>
        let item = ms ! i in
        if used \<le> target then (used, st)
        else if i \<in> set skip \<or> msg_Elided item \<or> \<not> eligibleOldElision item \<or> \<not> result_category item
        then elide_from J s runID target rdl count skip js used st
        else let m = elide J item (tc_Arguments (fst (callFor ms (msg_ToolCallID item)))) rdl count
             in elide_from J s runID target rdl count skip js (used - max 0 (msg_Tokens item - msg_Tokens m))
                  (ms[i := m], affected @ [msg_ID item], evs @ [updated s runID m]))"

definition ElideOld ::
  "compact_json \<Rightarrow> session \<Rightarrow> string \<Rightarrow> int \<Rightarrow> int \<Rightarrow> int \<Rightarrow> counter \<Rightarrow> (bool \<times> int) \<times> session \<times> event list" where
  "ElideOld J s runID used target rdl count =
     (let ms = s_Messages s;
          (used', ms', affected, evs) =
             elide_from J s runID target rdl count (kept_results ms) [0..<length ms] used (ms, [], [])
      in if affected = [] then ((False, used'), s, evs)
         else ((True, used'), RecordCompaction (ReplaceMessages s ms') (used' - used),
               evs @ [compaction_event s runID ''elide'' used used' affected []]))"

section \<open>Summaries\<close>

definition summary_keep :: "nat \<Rightarrow> nat \<Rightarrow> bool" where
  "summary_keep n i \<longleftrightarrow> i = 0 \<or> max 1 (n - 6) \<le> i"

definition Summarize ::
  "session \<Rightarrow> string \<Rightarrow> message \<Rightarrow> compactionSummaryData \<Rightarrow> bool \<times> session \<times> event list" where
  "Summarize s runID summary source =
     (let ms = s_Messages s; n = length ms; keep = summary_keep n in
      if n \<le> 7 then (False, s, [])
      else
        let out = [ms ! 0, summary] @ map ((!) ms) (filter keep [1..<n]);
            affected = map (\<lambda>i. msg_ID (ms ! i)) (filter (\<lambda>i. \<not> keep i) [1..<n]);
            before = tokenSum ms; after = tokenSum out
        in if before \<le> after then
             (False, s, [events_New ''compaction.summary'' (s_ID s) runID
                (GSummary (source\<lparr>cs_Outcome := ''rejected'', cs_Reason := ''summary did not reduce session context''\<rparr>))])
           else
             (True, RecordCompaction (ReplaceMessages s out) (after - before),
              [events_New ''compaction.summary'' (s_ID s) runID (GSummary (source\<lparr>cs_Outcome := ''accepted''\<rparr>)),
               compaction_event s runID ''summarize'' before after affected
                 [(''summary_message_id'', GStr (msg_ID summary)), (''role'', GStr (cs_Role source)),
                  (''profile_id'', GStr (cs_ProfileID source)), (''model'', GStr (cs_Model source)),
                  (''fallback_reason'', GStr (cs_FallbackReason source)), (''usage'', GUsage (cs_Usage source))]]))"

section \<open>Settling a design chat\<close>

definition settle_message :: "string \<Rightarrow> counter \<Rightarrow> message \<Rightarrow> message" where
  "settle_message pointer count m = m\<lparr>msg_Content := pointer, msg_ToolCalls := [], msg_Reasoning := [], msg_Elided := True,
     msg_Tokens := fst (count pointer), msg_Estimated := snd (count pointer)\<rparr>"

definition Settle ::
  "session \<Rightarrow> string \<Rightarrow> string \<Rightarrow> string list \<Rightarrow> counter \<Rightarrow> bool \<times> session \<times> event list" where
  "Settle s runID pointer ids count =
     (let wanted = filter (\<lambda>i. trim_space i \<noteq> []) ids;
          hit = (\<lambda>m. msg_ID m \<in> set wanted \<and> \<not> msg_Elided m \<and> (msg_Role m = ''user'' \<or> msg_Role m = ''assistant''));
          ms = s_Messages s; before = tokenSum ms;
          ms' = map (\<lambda>m. if hit m then settle_message pointer count m else m) ms;
          affected = map msg_ID (filter hit ms);
          evs = map (\<lambda>m. updated s runID (settle_message pointer count m)) (filter hit ms)
      in if affected = [] then (False, s, [])
         else let after = tokenSum ms' in
           (True, RecordCompaction (ReplaceMessages s ms') (after - before),
            evs @ [compaction_event s runID ''settled'' before after affected []]))"

section \<open>What elision may do to a message\<close>

definition elidable :: "message \<Rightarrow> bool" where
  \<comment> \<open>whole, and a successful tool result, or a message in a category of results that is no error\<close>
  "elidable m \<longleftrightarrow> \<not> msg_Elided m
     \<and> (msg_Role m = ''tool'' \<and> successful m \<or> eligibleOldElision m \<and> result_category m)"

definition stubbed :: "compact_json \<Rightarrow> (string \<Rightarrow> toolCall \<times> bool) \<Rightarrow> message \<Rightarrow> message \<Rightarrow> bool" where
  \<comment> \<open>unchanged, or a result replaced by the stub that names its tool, the arguments of its call and its size\<close>
  "stubbed J calls m m' \<longleftrightarrow> m' = m \<or> (elidable m \<and>
     (\<exists>rdl count. let stub = ''[elided: '' @ msg_Name m @ '' ''
           @ keyArgs J (msg_Name m) (tc_Arguments (fst (calls (msg_ToolCallID m)))) rdl @ '', '' @ itoa (msg_Tokens m) @ '' tokens]''
        in m' = m\<lparr>msg_Content := stub, msg_Elided := True, msg_Tokens := fst (count stub), msg_Estimated := snd (count stub)\<rparr>))"

lemma stubbed_refl [simp]: "stubbed J calls m m"
  by (simp add: stubbed_def)

lemma stubbed_trans: "stubbed J calls a b \<Longrightarrow> stubbed J calls b c \<Longrightarrow> stubbed J calls a c"
  by (auto simp: stubbed_def elidable_def Let_def)

lemma stubbed_elide:
  "elidable m \<Longrightarrow> stubbed J calls m (elide J m (tc_Arguments (fst (calls (msg_ToolCallID m)))) rdl count)"
  unfolding stubbed_def elide_def Let_def by blast

lemma stubbed_fields:
  assumes "stubbed J calls m m'"
  shows "msg_ID m' = msg_ID m" "msg_Role m' = msg_Role m" "msg_ToolCalls m' = msg_ToolCalls m"
    "msg_ToolCallID m' = msg_ToolCallID m" "msg_Name m' = msg_Name m" "msg_Category m' = msg_Category m"
    "msg_Turn m' = msg_Turn m" "msg_OK m' = msg_OK m" "\<not> msg_Elided m' \<Longrightarrow> m' = m"
  using assms by (auto simp: stubbed_def Let_def)

lemma elide_simps [simp]:
  "msg_Elided (elide J m a rdl count)" "msg_ToolCalls (elide J m a rdl count) = msg_ToolCalls m"
  by (simp_all add: elide_def Let_def)

abbreviation stubbed_list :: "compact_json \<Rightarrow> (string \<Rightarrow> toolCall \<times> bool) \<Rightarrow> message list \<Rightarrow> message list \<Rightarrow> bool" where
  "stubbed_list J calls \<equiv> list_all2 (stubbed J calls)"

lemma stubbed_list_refl [simp]: "stubbed_list J calls ms ms"
  by (simp add: list_all2_refl)

lemma stubbed_list_trans: "stubbed_list J calls a b \<Longrightarrow> stubbed_list J calls b c \<Longrightarrow> stubbed_list J calls a c"
  by (rule list_all2_trans [OF stubbed_trans])

lemma stubbed_list_update: "stubbed J calls (ms ! i) m \<Longrightarrow> stubbed_list J calls ms (ms[i := m])"
  by (cases "i < length ms") (auto simp: list_all2_conv_all_nth nth_list_update)

lemma stubbed_list_calls: "stubbed_list J calls ms ms' \<Longrightarrow> map msg_ToolCalls ms' = map msg_ToolCalls ms"
  by (auto simp: list_all2_conv_all_nth stubbed_fields intro!: nth_equalityI)

lemma callFor_cong: "map msg_ToolCalls ms' = map msg_ToolCalls ms \<Longrightarrow> callFor ms' = callFor ms"
  by (rule ext) (simp add: callFor_def)

lemmas callFor_stubbed = callFor_cong [OF stubbed_list_calls]

text \<open>The contract of an operation that only elides: it relates every message to itself or to its stub.
  Sequences of such operations then keep the shape of the conversation.\<close>

locale conversation_eliding =
  fixes J :: compact_json and run :: "session \<Rightarrow> 'op \<Rightarrow> session"
  assumes run_stubs: "stubbed_list J (callFor (s_Messages s)) (s_Messages s) (s_Messages (run s x))"
begin

lemma runs_stub: "stubbed_list J (callFor (s_Messages s)) (s_Messages s) (s_Messages (foldl run s xs))"
proof (induction xs arbitrary: s)
  case (Cons x xs)
  from Cons.IH [of "run s x"] stubbed_list_trans [OF run_stubs [of s x]] show ?case
    by (simp add: callFor_stubbed [OF run_stubs])
qed simp

lemma runs_shape:
  "map (\<lambda>m. (msg_ID m, msg_Role m, msg_ToolCalls m, msg_ToolCallID m)) (s_Messages (foldl run s xs))
     = map (\<lambda>m. (msg_ID m, msg_Role m, msg_ToolCalls m, msg_ToolCallID m)) (s_Messages s)"
  using runs_stub [of s xs] by (auto simp: list_all2_conv_all_nth stubbed_fields intro!: nth_equalityI)

end

section \<open>The loops\<close>

definition superseded_at :: "compact_json \<Rightarrow> int \<Rightarrow> message list \<Rightarrow> message \<Rightarrow> toolCall \<Rightarrow> nat \<Rightarrow> bool" where
  "superseded_at J rdl ms item currentCall p \<longleftrightarrow>
     msg_Role (ms ! p) = ''tool'' \<and> msg_Name (ms ! p) = msg_Name item \<and> \<not> msg_Elided (ms ! p) \<and> successful (ms ! p)
     \<and> snd (callFor ms (msg_ToolCallID (ms ! p)))
     \<and> supersedes J (msg_Name item) (tc_Arguments (fst (callFor ms (msg_ToolCallID (ms ! p))))) (tc_Arguments currentCall) rdl"

definition stub_at :: "compact_json \<Rightarrow> int \<Rightarrow> counter \<Rightarrow> message list \<Rightarrow> nat \<Rightarrow> message" where
  "stub_at J rdl count ms p = elide J (ms ! p) (tc_Arguments (fst (callFor ms (msg_ToolCallID (ms ! p))))) rdl count"

lemma try_supersede_eq:
  "try_supersede J s runID rdl count item cc p (ms, aff, evs) =
     (if superseded_at J rdl ms item cc p
      then (ms[p := stub_at J rdl count ms p], aff @ [msg_ID (ms ! p)], evs @ [updated s runID (stub_at J rdl count ms p)])
      else (ms, aff, evs))"
  by (auto simp: try_supersede_def superseded_at_def stub_at_def Let_def split_beta)

lemma superseded_at_stubbed: "superseded_at J rdl ms item cc p \<Longrightarrow> stubbed J (callFor ms) (ms ! p) (stub_at J rdl count ms p)"
  unfolding stub_at_def by (rule stubbed_elide) (simp add: superseded_at_def elidable_def)

lemma superseded_at_cong:
  assumes "ms' ! p = ms ! p" "callFor ms' = callFor ms"
  shows "superseded_at J rdl ms' item cc p = superseded_at J rdl ms item cc p" "stub_at J rdl count ms' p = stub_at J rdl count ms p"
  using assms by (simp_all add: superseded_at_def stub_at_def)

lemma inner_loop:
  assumes "k \<le> length ms"
  shows "\<exists>evs'. fold (try_supersede J s runID rdl count item cc) [0..<k] (ms, aff, evs)
      = (map (\<lambda>p. if p < k \<and> superseded_at J rdl ms item cc p then stub_at J rdl count ms p else ms ! p) [0..<length ms],
         aff @ map (\<lambda>p. msg_ID (ms ! p)) (filter (superseded_at J rdl ms item cc) [0..<k]), evs')"
  using assms
proof (induction k)
  case 0
  then show ?case by (simp add: map_nth)
next
  case (Suc k)
  let ?f = "\<lambda>k p. if p < k \<and> superseded_at J rdl ms item cc p then stub_at J rdl count ms p else ms ! p"
  let ?ms = "map (?f k) [0..<length ms]"
  from Suc obtain evs1 where f: "fold (try_supersede J s runID rdl count item cc) [0..<k] (ms, aff, evs)
      = (?ms, aff @ map (\<lambda>p. msg_ID (ms ! p)) (filter (superseded_at J rdl ms item cc) [0..<k]), evs1)" by auto
  have "stubbed_list J (callFor ms) ms ?ms" using superseded_at_stubbed by (auto simp: list_all2_conv_all_nth)
  then have c: "callFor ?ms = callFor ms" by (rule callFor_stubbed)
  have k: "?ms ! k = ms ! k" using Suc(2) by simp
  have h: "superseded_at J rdl ?ms item cc k = superseded_at J rdl ms item cc k" "stub_at J rdl count ?ms k = stub_at J rdl count ms k"
    by (rule superseded_at_cong [OF k c])+
  have u: "?ms[k := stub_at J rdl count ms k] = map (?f (Suc k)) [0..<length ms]" if "superseded_at J rdl ms item cc k"
    using that Suc(2) by (intro nth_equalityI) (auto simp: nth_list_update less_Suc_eq)
  have v: "?ms = map (?f (Suc k)) [0..<length ms]" if "\<not> superseded_at J rdl ms item cc k"
    using that by (auto simp: less_Suc_eq)
  show ?case
    using u v by (auto simp: f try_supersede_eq h k)
qed

text \<open>After the outer loop has passed the indexes below \<open>c\<close>: what changed was superseded by a result of this
  turn, and no result of this turn below \<open>c\<close> supersedes a whole one before it.\<close>

definition outer_inv :: "compact_json \<Rightarrow> int \<Rightarrow> int \<Rightarrow> message list \<Rightarrow> nat \<Rightarrow> message list \<Rightarrow> bool" where
  "outer_inv J turn rdl ms0 c ms \<longleftrightarrow> stubbed_list J (callFor ms0) ms0 ms
     \<and> (\<forall>i < length ms0. ms ! i \<noteq> ms0 ! i \<longrightarrow>
          (\<exists>j < c. i < j \<and> supersedes_now turn (ms0 ! j) \<and> superseded_at J rdl ms0 (ms0 ! j) (fst (callFor ms0 (msg_ToolCallID (ms0 ! j)))) i))
     \<and> (\<forall>i j. i < j \<and> j < c \<and> supersedes_now turn (ms ! j) \<and> snd (callFor ms (msg_ToolCallID (ms ! j))) \<longrightarrow>
          \<not> superseded_at J rdl ms (ms ! j) (fst (callFor ms (msg_ToolCallID (ms ! j)))) i)"

lemma superseded_at_original:
  assumes "stubbed_list J calls ms0 ms" "p < length ms0" "superseded_at J rdl ms item cc p"
  shows "superseded_at J rdl ms0 item cc p"
proof -
  have "stubbed J calls (ms0 ! p) (ms ! p)" using assms(1,2) by (simp add: list_all2_conv_all_nth)
  with assms(3) have "ms ! p = ms0 ! p" by (auto simp: superseded_at_def dest: stubbed_fields(9))
  from superseded_at_cong(1) [OF this callFor_stubbed [OF assms(1)]] assms(3) show ?thesis by simp
qed

lemma outer_step:
  assumes inv: "outer_inv J turn rdl ms0 c ms" and c: "c < length ms0"
  shows "outer_inv J turn rdl ms0 (Suc c) (fst (supersede_current J s runID turn rdl count c (ms, aff, evs)))"
proof -
  let ?call = "\<lambda>ms j. callFor ms (msg_ToolCallID (ms ! j))"
  from inv have st: "stubbed_list J (callFor ms0) ms0 ms" by (simp add: outer_inv_def)
  then have len: "length ms = length ms0" by (simp add: list_all2_lengthD)
  show ?thesis
  proof (cases "supersedes_now turn (ms ! c) \<and> snd (?call ms c)")
    case False
    then have "supersede_current J s runID turn rdl count c (ms, aff, evs) = (ms, aff, evs)"
      by (auto simp: supersede_current_def Let_def split_beta)
    moreover have "outer_inv J turn rdl ms0 (Suc c) ms"
      using inv False unfolding outer_inv_def less_Suc_eq by blast
    ultimately show ?thesis by simp
  next
    case True
    let ?h = "superseded_at J rdl ms (ms ! c) (fst (?call ms c))"
    define ms' where "ms' = map (\<lambda>p. if p < c \<and> ?h p then stub_at J rdl count ms p else ms ! p) [0..<length ms]"
    from True inner_loop [of c ms J s runID rdl count "ms ! c" "fst (?call ms c)" aff evs] c len
    have res: "fst (supersede_current J s runID turn rdl count c (ms, aff, evs)) = ms'"
      by (auto simp: supersede_current_def Let_def split_beta ms'_def)
    have step: "stubbed_list J (callFor ms) ms ms'" using superseded_at_stubbed by (auto simp: ms'_def list_all2_conv_all_nth)
    note calls = callFor_stubbed [OF step] callFor_stubbed [OF st]
    have mc: "ms ! c = ms0 ! c"
    proof -
      have "stubbed J (callFor ms0) (ms0 ! c) (ms ! c)" using st c by (simp add: list_all2_conv_all_nth)
      with True show ?thesis by (auto simp: supersedes_now_def dest: stubbed_fields(9))
    qed
    have c1: "\<exists>j < Suc c. i < j \<and> supersedes_now turn (ms0 ! j) \<and> superseded_at J rdl ms0 (ms0 ! j) (fst (?call ms0 j)) i"
      if i: "i < length ms0" "ms' ! i \<noteq> ms0 ! i" for i
    proof (cases "ms ! i = ms0 ! i")
      case False
      with inv i show ?thesis unfolding outer_inv_def by (meson less_SucI)
    next
      case same: True
      then have h: "i < c" "?h i" using i len by (auto simp: ms'_def split: if_splits)
      with superseded_at_original [OF st i(1)] have "superseded_at J rdl ms0 (ms0 ! c) (fst (?call ms0 c)) i"
        by (simp add: mc calls(2))
      with h(1) True show ?thesis by (auto simp: mc)
    qed
    have c2: "\<not> superseded_at J rdl ms' (ms' ! j) (fst (?call ms' j)) i"
      if ij: "i < j" "j < Suc c" "supersedes_now turn (ms' ! j)" "snd (?call ms' j)" for i j
    proof
      assume h: "superseded_at J rdl ms' (ms' ! j) (fst (?call ms' j)) i"
      have len': "length ms' = length ms" by (simp add: ms'_def)
      have il: "i < length ms" "j < length ms" using ij c len by auto
      have same: "ms' ! p = ms ! p" if "p < length ms" "\<not> msg_Elided (ms' ! p)" for p
        using step that by (auto simp: list_all2_conv_all_nth dest: stubbed_fields(9))
      have i: "ms' ! i = ms ! i" using h il by (intro same) (auto simp: superseded_at_def)
      have j: "ms' ! j = ms ! j" using ij il by (intro same) (auto simp: supersedes_now_def)
      have hm: "superseded_at J rdl ms (ms ! j) (fst (?call ms j)) i"
        using h superseded_at_cong(1) [OF i calls(1)] by (simp add: j calls(1))
      show False
      proof (cases "j = c")
        case True
        with hm ij il have "ms' ! i = stub_at J rdl count ms i" by (simp add: ms'_def)
        with h show False by (simp add: superseded_at_def stub_at_def)
      next
        case False
        with ij have "j < c" by simp
        with inv ij hm show False by (auto simp: outer_inv_def j calls(1))
      qed
    qed
    from c1 c2 stubbed_list_trans [OF st step [unfolded calls(2)]] show ?thesis unfolding res outer_inv_def by blast
  qed
qed

lemma outer_loop:
  assumes "c \<le> length ms0"
  shows "outer_inv J turn rdl ms0 c (fst (fold (supersede_current J s runID turn rdl count) [0..<c] (ms0, [], [])))"
  using assms
proof (induction c)
  case 0
  then show ?case by (simp add: outer_inv_def)
next
  case (Suc c)
  obtain ms aff evs where st: "fold (supersede_current J s runID turn rdl count) [0..<c] (ms0, [], []) = (ms, aff, evs)"
    by (metis prod_cases3)
  with Suc have "outer_inv J turn rdl ms0 c ms" by simp
  with outer_step [OF this, of s runID count aff evs] Suc(2) st show ?case by simp
qed

lemma supersede_affected:
  \<comment> \<open>nothing is affected exactly when nothing changed hands\<close>
  assumes "c \<le> length ms0"
    "fold (supersede_current J s runID turn rdl count) [0..<c] (ms0, [], []) = (ms, [], evs)"
  shows "ms = ms0"
  using assms
proof (induction c arbitrary: ms evs)
  case (Suc c)
  obtain ms1 aff1 evs1 where st: "fold (supersede_current J s runID turn rdl count) [0..<c] (ms0, [], []) = (ms1, aff1, evs1)"
    by (metis prod_cases3)
  have "stubbed_list J (callFor ms0) ms0 ms1" using outer_loop [of c ms0 J turn rdl s runID count] Suc(2) st by (simp add: outer_inv_def)
  then have len: "length ms1 = length ms0" by (simp add: list_all2_lengthD)
  let ?cc = "fst (callFor ms1 (msg_ToolCallID (ms1 ! c)))"
  from inner_loop [of c ms1 J s runID rdl count "ms1 ! c" ?cc aff1 evs1] Suc(2) len obtain evs2 where
    f: "fold (try_supersede J s runID rdl count (ms1 ! c) ?cc) [0..<c] (ms1, aff1, evs1)
      = (map (\<lambda>p. if p < c \<and> superseded_at J rdl ms1 (ms1 ! c) ?cc p then stub_at J rdl count ms1 p else ms1 ! p) [0..<length ms1],
         aff1 @ map (\<lambda>p. msg_ID (ms1 ! p)) (filter (superseded_at J rdl ms1 (ms1 ! c) ?cc) [0..<c]), evs2)" by auto
  have step: "supersede_current J s runID turn rdl count c (ms1, aff1, evs1) = (ms, [], evs)" using Suc(3) st by simp
  have "aff1 = [] \<and> ms = ms1"
  proof (cases "supersedes_now turn (ms1 ! c) \<and> snd (callFor ms1 (msg_ToolCallID (ms1 ! c)))")
    case True
    then have "(map (\<lambda>p. if p < c \<and> superseded_at J rdl ms1 (ms1 ! c) ?cc p then stub_at J rdl count ms1 p else ms1 ! p) [0..<length ms1],
         aff1 @ map (\<lambda>p. msg_ID (ms1 ! p)) (filter (superseded_at J rdl ms1 (ms1 ! c) ?cc) [0..<c]), evs2) = (ms, [], evs)"
      using step f by (simp add: supersede_current_def Let_def split_beta)
    then have "aff1 = []" "\<forall>p < c. \<not> superseded_at J rdl ms1 (ms1 ! c) ?cc p"
      "ms = map (\<lambda>p. if p < c \<and> superseded_at J rdl ms1 (ms1 ! c) ?cc p then stub_at J rdl count ms1 p else ms1 ! p) [0..<length ms1]"
      by (auto simp: filter_empty_conv)
    moreover then have "ms = map ((!) ms1) [0..<length ms1]" by auto
    ultimately show ?thesis by (simp add: map_nth)
  next
    case False
    with step show ?thesis by (auto simp: supersede_current_def Let_def split_beta split: if_splits)
  qed
  with Suc.IH [of ms1 evs1] st Suc(2) show ?case by simp
qed simp

lemma Supersede_messages:
  "s_Messages (fst (snd (Supersede J s runID turn rdl count)))
     = fst (fold (supersede_current J s runID turn rdl count) [0..<length (s_Messages s)] (s_Messages s, [], []))"
proof -
  obtain ms aff evs where st:
    "fold (supersede_current J s runID turn rdl count) [0..<length (s_Messages s)] (s_Messages s, [], []) = (ms, aff, evs)"
    by (metis prod_cases3)
  show ?thesis
  proof (cases "aff = []")
    case True
    with supersede_affected [OF order_refl] st have "ms = s_Messages s" by blast
    with st True show ?thesis by (simp add: Supersede_def)
  next
    case False
    with st show ?thesis by (simp add: Supersede_def Let_def RecordCompaction_def ReplaceMessages_def)
  qed
qed

definition old_result :: "message \<Rightarrow> bool" where
  \<comment> \<open>a result \<^verbatim>\<open>ElideOld\<close> may still shorten\<close>
  "old_result m \<longleftrightarrow> \<not> msg_Elided m \<and> eligibleOldElision m \<and> result_category m"

lemma elide_from_spec:
  assumes "elide_from J s runID target rdl count skip js used (ms, aff, evs) = (used', ms', aff', evs')"
    "distinct js" "\<forall>i \<in> set js. i < length ms"
  shows "stubbed_list J (callFor ms) ms ms' \<and> (\<forall>i. i \<notin> set js \<or> i \<in> set skip \<longrightarrow> ms' ! i = ms ! i) \<and> used' \<le> used
    \<and> (used' \<le> target \<or> (\<forall>i \<in> set js. i \<in> set skip \<or> \<not> old_result (ms' ! i)))
    \<and> (\<exists>more. aff' = aff @ more \<and> (more = [] \<longrightarrow> ms' = ms \<and> used' = used))"
  using assms
proof (induction js arbitrary: used ms aff evs)
  case Nil
  then show ?case by simp
next
  case (Cons i js)
  let ?m = "elide J (ms ! i) (tc_Arguments (fst (callFor ms (msg_ToolCallID (ms ! i))))) rdl count"
  consider "used \<le> target" | "\<not> used \<le> target" "i \<in> set skip \<or> \<not> old_result (ms ! i)"
    | "\<not> used \<le> target" "i \<notin> set skip" "old_result (ms ! i)" by blast
  then show ?case
  proof cases
    case 1
    with Cons(2) show ?thesis by simp
  next
    case 2
    then have "elide_from J s runID target rdl count skip js used (ms, aff, evs) = (used', ms', aff', evs')"
      using Cons(2) by (auto simp: old_result_def Let_def split: if_splits)
    from Cons.IH [OF this] Cons(3,4) have ih: "stubbed_list J (callFor ms) ms ms'" "\<forall>k. k \<notin> set js \<or> k \<in> set skip \<longrightarrow> ms' ! k = ms ! k"
      "used' \<le> used" "used' \<le> target \<or> (\<forall>k \<in> set js. k \<in> set skip \<or> \<not> old_result (ms' ! k))"
      "\<exists>more. aff' = aff @ more \<and> (more = [] \<longrightarrow> ms' = ms \<and> used' = used)" by auto
    moreover have "ms' ! i = ms ! i" using ih(2) Cons(3) by auto
    ultimately show ?thesis using 2(2) by auto
  next
    case 3
    let ?u = "used - max 0 (msg_Tokens (ms ! i) - msg_Tokens ?m)"
    have "elide_from J s runID target rdl count skip js ?u (ms[i := ?m], aff @ [msg_ID (ms ! i)], evs @ [updated s runID ?m])
        = (used', ms', aff', evs')"
      using Cons(2) 3 by (simp add: old_result_def Let_def)
    from Cons.IH [OF this] Cons(3,4) have ih: "stubbed_list J (callFor (ms[i := ?m])) (ms[i := ?m]) ms'"
      "\<forall>k. k \<notin> set js \<or> k \<in> set skip \<longrightarrow> ms' ! k = ms[i := ?m] ! k"
      "used' \<le> ?u" "used' \<le> target \<or> (\<forall>k \<in> set js. k \<in> set skip \<or> \<not> old_result (ms' ! k))"
      "\<exists>more. aff' = (aff @ [msg_ID (ms ! i)]) @ more" by auto
    have st: "stubbed_list J (callFor ms) ms (ms[i := ?m])"
      using 3(3) by (intro stubbed_list_update stubbed_elide) (auto simp: old_result_def elidable_def)
    from stubbed_list_trans [OF st ih(1) [unfolded callFor_stubbed [OF st]]] have "stubbed_list J (callFor ms) ms ms'" .
    moreover have "ms' ! i = ?m" using ih(2) Cons(3,4) by auto
    moreover have "ms' ! k = ms ! k" if "k \<notin> set (i # js) \<or> k \<in> set skip" for k
      using that ih(2) 3(2) by (cases "k = i") auto
    ultimately show ?thesis using ih(3,4,5) by (auto simp: old_result_def)
  qed
qed

lemma ElideOld_spec:
  defines "ms s \<equiv> s_Messages s"
  assumes "ElideOld J s runID used target rdl count = ((ok, used'), s', evs)"
  shows "stubbed_list J (callFor (ms s)) (ms s) (ms s') \<and> (\<forall>i \<in> set (kept_results (ms s)). ms s' ! i = ms s ! i) \<and> used' \<le> used
    \<and> (used' \<le> target \<or> (\<forall>i < length (ms s). i \<in> set (kept_results (ms s)) \<or> \<not> old_result (ms s' ! i)))
    \<and> (\<not> ok \<longrightarrow> s' = s \<and> used' = used)"
proof -
  obtain u m1 aff ev where e: "elide_from J s runID target rdl count (kept_results (ms s)) [0..<length (ms s)] used (ms s, [], [])
      = (u, m1, aff, ev)" by (metis prod_cases4)
  from elide_from_spec [OF e] have sp: "stubbed_list J (callFor (ms s)) (ms s) m1" "\<forall>i \<in> set (kept_results (ms s)). m1 ! i = ms s ! i" "u \<le> used"
    "u \<le> target \<or> (\<forall>i < length (ms s). i \<in> set (kept_results (ms s)) \<or> \<not> old_result (m1 ! i))"
    "aff = [] \<longrightarrow> m1 = ms s \<and> u = used" by auto
  show ?thesis
  proof (cases "aff = []")
    case True
    with assms(2) e have "s' = s" "used' = u" "\<not> ok" by (auto simp: ElideOld_def ms_def)
    with sp True show ?thesis by auto
  next
    case False
    with assms(2) e have "ms s' = m1" "used' = u" "ok"
      by (auto simp: ElideOld_def ms_def Let_def RecordCompaction_def ReplaceMessages_def)
    with sp show ?thesis by auto
  qed
qed

lemma Supersede_stubs: "stubbed_list J (callFor (s_Messages s)) (s_Messages s) (s_Messages (fst (snd (Supersede J s runID turn rdl count))))"
  using outer_loop [OF order_refl, where J = J and turn = turn and rdl = rdl and s = s and runID = runID and count = count]
  by (simp add: Supersede_messages outer_inv_def)

section \<open>Sequences of elisions\<close>

datatype elision_op = SupersedeOp string int int counter | ElideOldOp string int int int counter

primrec apply_elision :: "compact_json \<Rightarrow> session \<Rightarrow> elision_op \<Rightarrow> session" where
  "apply_elision J s (SupersedeOp runID turn rdl count) = fst (snd (Supersede J s runID turn rdl count))"
| "apply_elision J s (ElideOldOp runID used target rdl count) = fst (snd (ElideOld J s runID used target rdl count))"

interpretation eliding: conversation_eliding J "apply_elision J" for J
proof
  fix s x
  show "stubbed_list J (callFor (s_Messages s)) (s_Messages s) (s_Messages (apply_elision J s x))"
  proof (cases x)
    case (ElideOldOp runID used target rdl count)
    then show ?thesis using ElideOld_spec [of J s runID used target rdl count]
      by (cases "ElideOld J s runID used target rdl count") auto
  qed (simp add: Supersede_stubs)
qed

text \<open>C20. Elision never damages the conversation: after any sequence of supersede and elide-old passes the
  messages are the same ones in the same order, with the same roles, tool calls and call references.  Each
  is either untouched or was a whole, successful tool result, or a whole message of the categories
  \<^verbatim>\<open>files\<close>, \<^verbatim>\<open>results\<close>, \<^verbatim>\<open>fetched\<close> that is no error, and only its content and its size have changed: the
  content is the stub \<^verbatim>\<open>[elided: <tool> <arguments of its call>, <size before> tokens]\<close>.  So the
  operator's and the model's own words, whose messages the code gives other categories, are never
  elided, nor is an error result, nor a stub again.\<close>

theorem elision_keeps_conversation:
  "list_all2 (stubbed J (callFor (s_Messages s))) (s_Messages s) (s_Messages (foldl (apply_elision J) s ops))
   \<and> map (\<lambda>m. (msg_ID m, msg_Role m, msg_ToolCalls m, msg_ToolCallID m)) (s_Messages (foldl (apply_elision J) s ops))
       = map (\<lambda>m. (msg_ID m, msg_Role m, msg_ToolCalls m, msg_ToolCallID m)) (s_Messages s)"
  by (rule conjI [OF eliding.runs_stub eliding.runs_shape])

text \<open>C21. The supersede pass elides exactly the superseded results: a message it changes is followed by a
  whole, successful result of this turn from the same tool whose window overlaps (for searches: whose
  arguments are the same), and afterwards no whole result is superseded in that way.\<close>

theorem superseded_results_are_elided:
  assumes "Supersede J s runID turn rdl count = (changed, s', evs)" "ms = s_Messages s" "ms' = s_Messages s'"
  shows "(\<forall>i < length ms. ms' ! i \<noteq> ms ! i \<longrightarrow> (\<exists>j < length ms. i < j \<and> supersedes_now turn (ms ! j)
        \<and> superseded_at J rdl ms (ms ! j) (fst (callFor ms (msg_ToolCallID (ms ! j)))) i))
    \<and> (\<forall>i j. i < j \<and> j < length ms \<and> supersedes_now turn (ms' ! j) \<and> snd (callFor ms' (msg_ToolCallID (ms' ! j)))
        \<longrightarrow> \<not> superseded_at J rdl ms' (ms' ! j) (fst (callFor ms' (msg_ToolCallID (ms' ! j)))) i)"
proof -
  have "ms' = fst (fold (supersede_current J s runID turn rdl count) [0..<length ms] (ms, [], []))"
    using assms Supersede_messages [of J s runID turn rdl count] by simp
  moreover have "outer_inv J turn rdl ms (length ms) (fst (fold (supersede_current J s runID turn rdl count) [0..<length ms] (ms, [], [])))"
    by (rule outer_loop) simp
  ultimately have "outer_inv J turn rdl ms (length ms) ms'" by simp
  then show ?thesis unfolding outer_inv_def by blast
qed

text \<open>C22. The elide-old pass does what it can: it never raises the estimate, never touches the last four
  results, and when it ends above the target no result outside those four is left that it may elide; when it
  reports no change, the session is the same.\<close>

theorem elide_old_reaches_target_or_exhausts:
  assumes "ElideOld J s runID used target rdl count = ((ok, used'), s', evs)"
  shows "used' \<le> used \<and> (\<forall>i \<in> set (kept_results (s_Messages s)). s_Messages s' ! i = s_Messages s ! i)
    \<and> (used' \<le> target \<or> (\<forall>i < length (s_Messages s). i \<in> set (kept_results (s_Messages s)) \<or> \<not> old_result (s_Messages s' ! i)))
    \<and> (\<not> ok \<longrightarrow> s' = s \<and> used' = used)"
  using ElideOld_spec [OF assms] by blast

section \<open>Summaries and tool results\<close>

lemma summary_kept: "7 < n \<Longrightarrow> filter (summary_keep n) [1..<n] = [n - 6..<n]"
proof -
  assume n: "7 < n"
  then have "[1..<n] = [1..<n - 6] @ [n - 6..<n]" using upt_add_eq_append [of 1 "n - 6" 6] by simp
  moreover have "filter (summary_keep n) [1..<n - 6] = []" by (rule filter_False) (auto simp: summary_keep_def)
  moreover have "filter (summary_keep n) [n - 6..<n] = [n - 6..<n]" using n by (intro filter_True) (auto simp: summary_keep_def)
  ultimately show ?thesis by (metis append_Nil filter_append)
qed

lemma map_nth_upt: "map ((!) xs) [k..<length xs] = drop k xs"
  by (auto intro: nth_equalityI)

lemma Summarize_messages:
  assumes "Summarize s runID summary source = (True, s', evs)"
  shows "7 < length (s_Messages s)" "s_Messages s' = hd (s_Messages s) # summary # drop (length (s_Messages s) - 6) (s_Messages s)"
    "tokenSum (s_Messages s') < tokenSum (s_Messages s)"
proof -
  let ?ms = "s_Messages s" and ?n = "length (s_Messages s)"
  let ?out = "[?ms ! 0, summary] @ map ((!) ?ms) (filter (summary_keep ?n) [1..<?n])"
  from assms have n: "7 < ?n" by (auto simp: Summarize_def Let_def split: if_splits)
  then have out: "?out = hd ?ms # summary # drop (?n - 6) ?ms"
    unfolding summary_kept [OF n] map_nth_upt by (cases ?ms) auto
  have "s_Messages s' = ?out \<and> tokenSum ?out < tokenSum ?ms"
    using assms n by (auto simp: Summarize_def Let_def RecordCompaction_def ReplaceMessages_def split: if_splits)
  with out n show "7 < ?n" "s_Messages s' = hd ?ms # summary # drop (?n - 6) ?ms" "tokenSum (s_Messages s') < tokenSum ?ms"
    by simp_all
qed

lemma callFor_found: "snd (callFor ms i) \<longleftrightarrow> (\<exists>m \<in> set ms. \<exists>c \<in> set (msg_ToolCalls m). tc_ID c = i)"
proof -
  have "find (\<lambda>c. tc_ID c = i) (concat (map msg_ToolCalls ms)) = None
      \<longleftrightarrow> (\<forall>m \<in> set ms. \<forall>c \<in> set (msg_ToolCalls m). tc_ID c \<noteq> i)"
    by (auto simp: find_None_iff)
  then show ?thesis by (auto simp: callFor_def split: option.splits)
qed

text \<open>C36. An accepted summary can separate a tool result from its call: the first message, the summary and the
  last six messages are kept whatever they are, so a result among the last six whose call was made in an
  earlier message (other than the first) stays in the conversation without any message that calls for it.\<close>

theorem summary_orphans_tool_result:
  assumes "Summarize s runID summary source = (True, s', evs)" "s_Messages s = m0 # middle @ tail" "length tail = 6"
    "r \<in> set tail" "msg_Role r = ''tool''" "snd (callFor (s_Messages s) (msg_ToolCallID r))"
    "\<not> snd (callFor (m0 # summary # tail) (msg_ToolCallID r))"
  shows "r \<in> set (s_Messages s') \<and> \<not> snd (callFor (s_Messages s') (msg_ToolCallID r))
    \<and> length (s_Messages s') = 8 \<and> tokenSum (s_Messages s') < tokenSum (s_Messages s)"
proof -
  from Summarize_messages [OF assms(1)] assms(2,3) have "s_Messages s' = m0 # summary # tail"
    "tokenSum (s_Messages s') < tokenSum (s_Messages s)" by auto
  with assms show ?thesis by simp
qed

section \<open>Examples\<close>

definition demo_json :: compact_json where
  \<comment> \<open>a decoder that reads every argument text as the first hundred bytes of one file\<close>
  "demo_json = \<lparr>cj_value = (\<lambda>_. None), cj_object = (\<lambda>_. [(''path'', GStr ''a'')]),
     cj_window = (\<lambda>_. Some \<lparr>wa_Path = ''a'', wa_Offset = 1, wa_Limit = 100, wa_Line = 0, wa_Lines = 0, wa_Windows = []\<rparr>),
     cj_marshal = (\<lambda>_. []), cj_show = (\<lambda>_. [])\<rparr>"

definition demo_call :: "string \<Rightarrow> message" where
  "demo_call i = emptyMessage\<lparr>msg_ID := ''a'' @ i, msg_Role := ''assistant'', msg_Tokens := 5,
     msg_ToolCalls := [\<lparr>tc_ID = i, tc_Name = ''read_file'', tc_Arguments = ''{}''\<rparr>]\<rparr>"

definition demo_result :: "string \<Rightarrow> int \<Rightarrow> message" where
  "demo_result i turn = emptyMessage\<lparr>msg_ID := ''t'' @ i, msg_Role := ''tool'', msg_Content := ''body'', msg_Name := ''read_file'',
     msg_Category := ''files'', msg_ToolCallID := i, msg_Tokens := 50, msg_Turn := turn, msg_OK := Some True\<rparr>"

definition demo_messages :: "message list" where
  "demo_messages = [emptyMessage\<lparr>msg_Role := ''user'', msg_Tokens := 9\<rparr>, demo_call ''1'', demo_result ''1'' 1, demo_call ''2'', demo_result ''2'' 2,
     demo_call ''3'', demo_result ''3'' 3, demo_call ''4'', demo_result ''4'' 4, demo_call ''5'', demo_result ''5'' 5]"

definition demo_chat :: session where
  "demo_chat = (idle_session ''s'' ''b'')\<lparr>s_Messages := demo_messages\<rparr>"

definition demo_count :: counter where
  "demo_count = (\<lambda>_. (7, True))"

definition reread_messages :: "message list" where
  "reread_messages = [demo_call ''1'', demo_result ''1'' 1, demo_call ''2'', demo_result ''2'' 2]"

abbreviation demo_supersede :: "bool \<times> session \<times> event list" where
  "demo_supersede \<equiv> Supersede demo_json (demo_chat\<lparr>s_Messages := reread_messages\<rparr>) ''r'' 2 4096 demo_count"

abbreviation demo_elide_old :: "(bool \<times> int) \<times> session \<times> event list" where
  "demo_elide_old \<equiv> ElideOld demo_json demo_chat ''r'' 300 200 4096 demo_count"

definition demo_summary :: message where
  "demo_summary = emptyMessage\<lparr>msg_ID := ''m'', msg_Role := ''assistant'', msg_Tokens := 20\<rparr>"

definition demo_source :: compactionSummaryData where
  "demo_source = \<lparr>cs_Role = ''b'', cs_ProfileID = ''local'', cs_Model = ''m'', cs_Outcome = [], cs_Reason = [], cs_FallbackReason = [],
     cs_Dispatched = True, cs_EstimatedPromptTokens = 0, cs_Estimated = False, cs_NCtx = 0,
     cs_Usage = \<lparr>mu_PromptTokens = 0, mu_CompletionTokens = 0, mu_CachedTokens = None\<rparr>, cs_DurationMS = 0\<rparr>"

abbreviation demo_summarize :: "bool \<times> session \<times> event list" where
  "demo_summarize \<equiv> Summarize (demo_chat\<lparr>s_Messages := demo_messages @ [demo_summary]\<rparr>) ''r'' demo_summary demo_source"

lemma demo_superseded: "msg_Elided (s_Messages (fst (snd demo_supersede)) ! 1)" "\<not> msg_Elided (reread_messages ! 1)"
  by code_simp+

lemma demo_length: "length reread_messages = 4" "length demo_messages = 11"
  by (simp_all add: demo_messages_def reread_messages_def)

lemma demo_elided: "snd (fst demo_elide_old) = 257"
  by code_simp

lemma demo_summarized: "fst demo_summarize" by code_simp

lemma demo_chat_messages: "s_Messages demo_chat = demo_messages"
  by (simp add: demo_chat_def)

theorem superseded_results_are_elided_witness:
  "msg_Elided (s_Messages (fst (snd demo_supersede)) ! 1) \<and> (\<exists>j < 4. 1 < j \<and> supersedes_now 2 (reread_messages ! j))"
proof -
  have "demo_supersede = (fst demo_supersede, fst (snd demo_supersede), snd (snd demo_supersede))" by simp
  from superseded_results_are_elided [OF this, of reread_messages]
  have "\<forall>i < 4. s_Messages (fst (snd demo_supersede)) ! i \<noteq> reread_messages ! i \<longrightarrow>
      (\<exists>j < 4. i < j \<and> supersedes_now 2 (reread_messages ! j))"
    by (auto simp: demo_length)
  from this [rule_format, of 1] demo_superseded show ?thesis by fastforce
qed

lemma demo_kept: "2 \<notin> set (kept_results demo_messages)"
  by code_simp

theorem elide_old_reaches_target_or_exhausts_witness:
  "snd (fst demo_elide_old) = 257 \<and> \<not> old_result (s_Messages (fst (snd demo_elide_old)) ! 2)"
proof -
  have "demo_elide_old = ((fst (fst demo_elide_old), snd (fst demo_elide_old)), fst (snd demo_elide_old), snd (snd demo_elide_old))"
    by simp
  from elide_old_reaches_target_or_exhausts [OF this]
  have "\<forall>i < 11. i \<in> set (kept_results demo_messages) \<or> \<not> old_result (s_Messages (fst (snd demo_elide_old)) ! i)"
    by (simp add: demo_elided demo_chat_messages demo_length)
  from this [rule_format, of 2] demo_kept demo_elided show ?thesis by simp
qed

lemma demo_orphaned:
  "snd (callFor (s_Messages (demo_chat\<lparr>s_Messages := demo_messages @ [demo_summary]\<rparr>)) ''3'')"
  "\<not> snd (callFor (hd demo_messages # demo_summary # drop 6 (demo_messages @ [demo_summary])) ''3'')"
  by code_simp+

theorem summary_orphans_tool_result_witness:
  "demo_result ''3'' 3 \<in> set (s_Messages (fst (snd demo_summarize)))
   \<and> \<not> snd (callFor (s_Messages (fst (snd demo_summarize))) ''3'')"
proof -
  have "demo_summarize = (True, fst (snd demo_summarize), snd (snd demo_summarize))"
    using demo_summarized by (metis prod.collapse)
  note * = summary_orphans_tool_result [OF this, of "hd demo_messages" "take 5 (tl demo_messages)"
      "drop 6 (demo_messages @ [demo_summary])" "demo_result ''3'' 3"]
  show ?thesis
    using * demo_orphaned by (simp add: demo_messages_def demo_result_def)
qed

end
