(* ===== verification/Edit_Text.thy ===== *)
theory Edit_Text
  imports Session_Model Go_UTF8
begin

text \<open>
  The text side of the \<^verbatim>\<open>edit_file\<close> tool (\<^verbatim>\<open>internal/tools/edit_file.go\<close>): decoding a file into lines,
  the ordered matching tiers (exact, white-space normalised, indentation adjusted, block anchors), the
  replacement, the re-encoding with the file's byte-order mark and line endings, the unified diff and the
  similarity measure of a near miss.

  A tier returns \<open>Err\<close> when the match is ambiguous, \<open>Ok None\<close> when it does not apply and
  \<open>Ok (Some \<dots>)\<close> with the new text, the first and last replaced line and a remark.  Similarity ratios are
  rational numbers where the source has \<^verbatim>\<open>float64\<close>.
\<close>

type_synonym edit = "string \<times> nat \<times> nat \<times> string"

abbreviation LF :: char where "LF \<equiv> CHR 0x0A"
abbreviation CR :: char where "CR \<equiv> CHR 0x0D"
abbreviation TAB :: char where "TAB \<equiv> CHR 0x09"
abbreviation blanks :: string where "blanks \<equiv> [CHR 0x20, CHR 0x09]"
abbreviation lines_of :: "string \<Rightarrow> string list" where "lines_of \<equiv> split_char LF"
abbreviation join_lines :: "string list \<Rightarrow> string" where "join_lines \<equiv> str_join [LF]"

section \<open>Lines, indentation and punctuation\<close>

definition normalizeLF :: "string \<Rightarrow> string" where
  "normalizeLF v = replace_all (replace_all v [CR, LF] [LF]) [CR] [LF]"

definition lineAt :: "string \<Rightarrow> nat \<Rightarrow> nat" where
  "lineAt t i = count_list (take i t) LF + 1"

function occurrence_from :: "string \<Rightarrow> string \<Rightarrow> nat \<Rightarrow> nat \<Rightarrow> nat list" where
  \<comment> \<open>the loop of \<^verbatim>\<open>occurrenceLines\<close> from a byte offset, with the number of lines still wanted\<close>
  "occurrence_from t needle offset 0 = []"
| "occurrence_from t needle offset (Suc n) =
     (case str_index (drop offset t) needle of None \<Rightarrow> []
      | Some i \<Rightarrow> lineAt t (offset + i) # occurrence_from t needle (offset + i + length needle) n)"
  by pat_completeness auto
termination by (relation "measure (\<lambda>(t, p, i, n). n)") auto

definition occurrenceLines :: "string \<Rightarrow> string \<Rightarrow> nat \<Rightarrow> nat list" where
  "occurrenceLines t needle limit = occurrence_from t needle 0 limit"

definition multipleError :: "nat \<Rightarrow> nat list \<Rightarrow> string" where
  "multipleError n lines = ''old_string matches '' @ dec n @ '' places (lines '' @ str_join '', '' (map dec lines)
     @ ''); include more surrounding lines so it matches once.''"

definition leading_blanks :: "string \<Rightarrow> string" where
  \<comment> \<open>\<^verbatim>\<open>line[:len(line)-len(strings.TrimLeft(line, " \t"))]\<close>\<close>
  "leading_blanks line = takeWhile (\<lambda>c. c \<in> set blanks) line"

function shrink_indent :: "string \<Rightarrow> string \<Rightarrow> string" where
  "shrink_indent common pre = (if prefix common pre \<or> common = [] then common else shrink_indent (butlast common) pre)"
  by pat_completeness auto
termination by (relation "measure (\<lambda>(c, p). length c)") auto
declare shrink_indent.simps [simp del]

fun indent_from :: "string option \<Rightarrow> string list \<Rightarrow> string" where
  \<comment> \<open>the loop of \<^verbatim>\<open>commonIndent\<close>; \<open>None\<close> while \<^verbatim>\<open>first\<close> is set\<close>
  "indent_from acc [] = (case acc of None \<Rightarrow> [] | Some c \<Rightarrow> c)"
| "indent_from acc (line # rest) =
     (if trim_space line = [] then indent_from acc rest
      else indent_from (Some (case acc of None \<Rightarrow> leading_blanks line
                              | Some c \<Rightarrow> shrink_indent c (leading_blanks line))) rest)"

definition commonIndent :: "string list \<Rightarrow> string" where
  "commonIndent lines = indent_from None lines"

definition stripIndent :: "string \<Rightarrow> string \<Rightarrow> string" where
  "stripIndent line indent = (if prefix indent line then drop (length indent) line else trim_left_set blanks line)"

definition punctuation_pairs :: "(string \<times> string) list" where
  "punctuation_pairs =
     [([CHR 0xE2, CHR 0x80, CHR 0x98], [CHR 0x27]), ([CHR 0xE2, CHR 0x80, CHR 0x99], [CHR 0x27]),
      ([CHR 0xE2, CHR 0x80, CHR 0x9C], [CHR 0x22]), ([CHR 0xE2, CHR 0x80, CHR 0x9D], [CHR 0x22]),
      ([CHR 0xE2, CHR 0x80, CHR 0x93], [CHR 0x2D]), ([CHR 0xE2, CHR 0x80, CHR 0x94], [CHR 0x2D])]"

fun punctuationNormalizer :: "string \<Rightarrow> string" where
  \<comment> \<open>every key of the replacer is three bytes long\<close>
  "punctuationNormalizer (a # b # c # rest) =
     (case map_of punctuation_pairs [a, b, c] of
        Some r \<Rightarrow> r @ punctuationNormalizer rest
      | None \<Rightarrow> a # punctuationNormalizer (b # c # rest))"
| "punctuationNormalizer s = s"

definition indentCompare :: "string \<Rightarrow> string" where
  "indentCompare value0 =
     (let value = trim_right_set blanks value0; leading = leading_blanks value;
          columns = sum_list (map (\<lambda>ch. if ch = TAB then 4 else 1) leading)
      in replicate columns (CHR 0x20) @ drop (length leading) value)"

definition normalizedCompare :: "string \<Rightarrow> bool \<Rightarrow> string" where
  "normalizedCompare value indent =
     (let v = punctuationNormalizer (trim_right_set blanks value) in if indent then indentCompare v else v)"

definition spacesToTabs :: "string \<Rightarrow> string" where
  "spacesToTabs value =
     (let leading = takeWhile (\<lambda>c. c = CHR 0x20) value
      in replicate (length leading div 4) TAB @ replicate (length leading mod 4) (CHR 0x20) @ drop (length leading) value)"

definition signed_dec :: "int \<Rightarrow> string" where
  \<comment> \<open>\<^verbatim>\<open>%+d\<close>\<close>
  "signed_dec i = (if i < 0 then itoa i else CHR ''+'' # itoa i)"

definition indentDelta :: "string \<Rightarrow> string \<Rightarrow> string" where
  "indentDelta old f =
     (if TAB \<in> set f \<or> TAB \<in> set old then ''tabs''
      else signed_dec (int (length f) - int (length old)) @ '' spaces'')"

definition collapse :: "string \<Rightarrow> string" where
  "collapse value = str_join '' '' (str_fields (punctuationNormalizer (trim_right_set blanks value)))"

definition visible :: "string \<Rightarrow> string" where
  "visible value = replace_all value [TAB] [CHR 0x5C, CHR ''t'']"

section \<open>Matching tiers\<close>

definition exactTier :: "string \<Rightarrow> string \<Rightarrow> string \<Rightarrow> edit option gores" where
  "exactTier t old replacement =
     (let n = str_count t old in
      if 1 < n then Err (multipleError n (occurrenceLines t old 5))
      else if n = 1 then
        (case str_index t old of
           Some i \<Rightarrow> let start = lineAt t i in
             Ok (Some (replace_first t old replacement, start, start + count_list old LF, ''strategy: exact''))
         | None \<Rightarrow> Panic)
      else Ok None)"

definition window :: "string list \<Rightarrow> nat \<Rightarrow> nat \<Rightarrow> string list" where
  \<comment> \<open>\<^verbatim>\<open>fileLines[i : i+n]\<close>\<close>
  "window fileLines i n = take n (drop i fileLines)"

definition match_positions :: "(string list \<Rightarrow> bool) \<Rightarrow> string list \<Rightarrow> nat \<Rightarrow> nat list" where
  \<comment> \<open>the window starts \<open>i\<close> with \<^verbatim>\<open>i+n <= len(fileLines)\<close> whose window is accepted\<close>
  "match_positions accept fileLines n =
     filter (\<lambda>i. i + n \<le> length fileLines \<and> accept (window fileLines i n)) [0..<length fileLines]"

definition whitespace_equal :: "string list \<Rightarrow> bool \<Rightarrow> string list \<Rightarrow> bool" where
  "whitespace_equal oldLines indent win =
     (if indent then
        list_all2 (\<lambda>w l. normalizedCompare (stripIndent w (commonIndent win)) True
                       = normalizedCompare (stripIndent l (commonIndent oldLines)) True) win oldLines
      else list_all2 (\<lambda>w l. normalizedCompare w False = normalizedCompare l False) win oldLines)"

definition reindent :: "string \<Rightarrow> string \<Rightarrow> string list \<Rightarrow> string list" where
  \<comment> \<open>the replacement lines at the indentation of the file\<close>
  "reindent oldIndent fileIndent newLines =
     map (\<lambda>line. if trim_space line = [] then line
                 else fileIndent @ (let relative = stripIndent line oldIndent
                                    in if TAB \<in> set fileIndent then spacesToTabs relative else relative)) newLines"

definition replacement_lines :: "string \<Rightarrow> string list" where
  "replacement_lines replacement = (if replacement = [] then [] else lines_of replacement)"

definition splice :: "string list \<Rightarrow> nat \<Rightarrow> nat \<Rightarrow> string list \<Rightarrow> string" where
  "splice fileLines index n block = join_lines (take index fileLines @ block @ drop (index + n) fileLines)"

definition whitespaceTier :: "string \<Rightarrow> string \<Rightarrow> string \<Rightarrow> bool \<Rightarrow> edit option gores" where
  "whitespaceTier t old replacement indent =
     (let fileLines = lines_of t; oldLines = lines_of old; n = length oldLines; oldIndent = commonIndent oldLines;
          matches = match_positions (whitespace_equal oldLines indent) fileLines n
      in if 1 < length matches then Err (multipleError (length matches) (map Suc (take 5 matches)))
         else case matches of
             [index] \<Rightarrow>
               let fileIndent = commonIndent (window fileLines index n);
                   newText = (if indent then join_lines (reindent oldIndent fileIndent (replacement_lines replacement)) else replacement);
                   remark = (if indent then ''strategy: whitespace-normalized; indentation adjusted ('' @ indentDelta oldIndent fileIndent @ '')''
                             else ''strategy: whitespace-normalized (trailing whitespace or Unicode punctuation)'');
                   block = (if replacement = [] then [] else lines_of newText)
               in Ok (Some (splice fileLines index n block, index + 1, index + n, remark))
           | _ \<Rightarrow> Ok None)"

definition anchors_equal :: "string list \<Rightarrow> string list \<Rightarrow> bool" where
  "anchors_equal oldLines win \<longleftrightarrow> collapse (hd win) = collapse (hd oldLines) \<and> collapse (last win) = collapse (last oldLines)"

definition blockAnchorTier :: "string \<Rightarrow> string \<Rightarrow> string \<Rightarrow> edit option gores" where
  "blockAnchorTier t old replacement =
     (let fileLines = lines_of t; oldLines = lines_of old; n = length oldLines;
          matches = match_positions (anchors_equal oldLines) fileLines n
      in if n < 3 \<or> length fileLines < n then Ok None
         else if 1 < length matches
         then Err (''block anchors match '' @ dec (length matches) @ '' places (lines ''
                @ str_join '', '' (map (\<lambda>i. dec (Suc i)) (take 5 matches)) @ ''); include unique first and last lines'')
         else case matches of
             [index] \<Rightarrow>
               let newLines = reindent (commonIndent oldLines) (commonIndent (window fileLines index n)) (replacement_lines replacement)
               in Ok (Some (splice fileLines index n newLines, index + 1, index + n, ''strategy: block-anchor; loose middle accepted''))
           | _ \<Rightarrow> Ok None)"

section \<open>The edit of a file\<close>

definition or_else :: "edit option gores \<Rightarrow> edit option gores \<Rightarrow> edit option gores" where
  \<comment> \<open>\<^verbatim>\<open>if err != nil { return fail(err) }; if !matched { ... }\<close>\<close>
  "or_else a b = (case a of Ok None \<Rightarrow> b | _ \<Rightarrow> a)"

definition edit_text :: "string \<Rightarrow> string \<Rightarrow> string \<Rightarrow> edit option gores" where
  \<comment> \<open>the tiers in order, on normalised texts\<close>
  "edit_text t old replacement =
     or_else (exactTier t old replacement)
       (or_else (whitespaceTier t old replacement False)
         (or_else (whitespaceTier t old replacement True) (blockAnchorTier t old replacement)))"

definition utf8_bom :: string where
  "utf8_bom = [CHR 0xEF, CHR 0xBB, CHR 0xBF]"

definition to_crlf :: "string \<Rightarrow> string" where
  "to_crlf s = replace_all s [LF] [CR, LF]"

definition already_applied :: "string \<Rightarrow> string \<Rightarrow> edit option gores" where
  \<comment> \<open>no tier matched: a replacement that is already there is reported as such\<close>
  "already_applied t replacement =
     (if replacement \<noteq> [] \<and> str_count t replacement = 1 then
        (case str_index t replacement of
           Some i \<Rightarrow> let line = lineAt t i in
             Err (''old_string not found, but new_string already exists at lines '' @ dec line @ [CHR 0xE2, CHR 0x80, CHR 0x93]
                  @ dec (line + count_list replacement LF) @ ''; this edit may already be applied.'')
         | None \<Rightarrow> Panic)
      else Ok None)"

definition edit_decoded :: "bool \<Rightarrow> bool \<Rightarrow> string \<Rightarrow> string \<Rightarrow> string \<Rightarrow> edit option gores" where
  \<comment> \<open>the tiers on the decoded text, and the bytes to write; \<open>Ok None\<close> leads to the near-miss report\<close>
  "edit_decoded bom crlf t old replacement =
     (case edit_text t old replacement of
        Ok (Some (updated, start, stop, remark)) \<Rightarrow>
          let output = (if crlf then to_crlf updated else updated)
          in Ok (Some ((if bom then utf8_bom else []) @ output, start, stop, remark))
      | Ok None \<Rightarrow> already_applied t replacement
      | Err e \<Rightarrow> Err e | Panic \<Rightarrow> Panic)"

definition edit_bytes :: "string \<Rightarrow> string \<Rightarrow> string \<Rightarrow> string \<Rightarrow> edit option gores" where
  \<comment> \<open>from the bytes read; the first argument is \<^verbatim>\<open>cleanRel(path)\<close>: empty needle, binary file, byte-order mark, line endings\<close>
  "edit_bytes path raw0 old replacement =
     (if old = [] then Err ''old_string is empty; use write_file to create a file, or give the exact text to replace.''
      else if CHR 0x00 \<in> set (take 8192 raw0) then Err (''binary file refused: '' @ path)
      else
        let bom = prefix utf8_bom raw0; raw = (if bom then drop 3 raw0 else raw0)
        in edit_decoded bom (str_contains raw [CR, LF]) (normalizeLF raw) (normalizeLF old) (normalizeLF replacement))"

section \<open>Diff and similarity\<close>

fun common_prefix :: "string list \<Rightarrow> string list \<Rightarrow> nat" where
  "common_prefix (x # xs) (y # ys) = (if x = y then Suc (common_prefix xs ys) else 0)"
| "common_prefix _ _ = 0"

definition diff_blocks :: "string \<Rightarrow> string \<Rightarrow> nat \<times> string list \<times> string list" where
  \<comment> \<open>the first differing line and the two differing blocks\<close>
  "diff_blocks before after =
     (let b = lines_of before; a = lines_of after; p = common_prefix b a;
          s = common_prefix (rev (drop p b)) (rev (drop p a))
      in (p, take (length b - p - s) (drop p b), take (length a - p - s) (drop p a)))"

definition unifiedDiff :: "string \<Rightarrow> string \<Rightarrow> string \<Rightarrow> string" where
  \<comment> \<open>the first argument is \<^verbatim>\<open>cleanRel(path)\<close>\<close>
  "unifiedDiff path before after =
     (let (p, oldBlock, newBlock) = diff_blocks before after; start = dec (p + 1)
      in trim_suffix (''--- a/'' @ path @ [LF] @ ''+++ b/'' @ path @ [LF] @ ''@@ -'' @ start @ '','' @ dec (length oldBlock) @ '' +''
           @ start @ '','' @ dec (length newBlock) @ '' @@'' @ [LF]
           @ concat (map (\<lambda>l. ''-'' @ l @ [LF]) oldBlock) @ concat (map (\<lambda>l. ''+'' @ l @ [LF]) newBlock)) [LF])"

fun lcs_cells :: "'a \<Rightarrow> 'a list \<Rightarrow> nat \<Rightarrow> nat \<Rightarrow> nat list \<Rightarrow> nat list" where
  \<comment> \<open>the inner loop over \<^verbatim>\<open>row[1:]\<close>: \<open>prior\<close> is the old cell to the upper left, \<open>left\<close> the new cell \<^verbatim>\<open>row[j]\<close>\<close>
  "lcs_cells x (y # ys) prior left (cell # cells) =
     (let new = (if x = y then prior + 1 else if cell < left then left else cell)
      in new # lcs_cells x ys cell new cells)"
| "lcs_cells x _ prior left cells = []"

definition lcs_rows :: "'a list \<Rightarrow> 'a list \<Rightarrow> nat list" where
  \<comment> \<open>\<^verbatim>\<open>row[1:]\<close> after the outer loop\<close>
  "lcs_rows a b = fold (\<lambda>x cells. lcs_cells x b 0 0 cells) a (replicate (length b) 0)"

function runes :: "string \<Rightarrow> string list" where
  \<comment> \<open>\<^verbatim>\<open>[]rune(s)\<close>, each rune by its encoding; an invalid byte is U+FFFD\<close>
  "runes s =
     (if s = [] then []
      else case rune_width s of
        Some w \<Rightarrow> take w s # runes (drop w s)
      | None \<Rightarrow> [CHR 0xEF, CHR 0xBF, CHR 0xBD] # runes (tl s))"
  by pat_completeness auto
termination
proof (relation "measure length", simp)
  show "(drop w s, s) \<in> measure length" if "s \<noteq> []" "rune_width s = Some w" for s :: string and w
    using rune_width_bounds [of s w] that by auto
qed auto
declare runes.simps [simp del]

definition similarity :: "string \<Rightarrow> string \<Rightarrow> rat" where
  "similarity a b =
     (let ar = runes (collapse a); br = runes (collapse b) in
      if length ar + length br = 0 then 1
      else if 4 * 1024 * 4 * 1024 < length ar * length br then 0
      else 2 * of_nat (last (0 # lcs_rows ar br)) / of_nat (length ar + length br))"

section \<open>Lines of a concatenation\<close>

lemma lines_prefix: "lines_of (a @ y) = butlast (lines_of a) @ lines_of (last (lines_of a) @ y)"
proof (induction a)
  case (Cons x a)
  obtain w ws where w: "lines_of a = w # ws" by (cases "lines_of a") auto
  show ?case
  proof (cases "x = LF")
    case True
    with Cons show ?thesis by simp
  next
    case False
    with Cons w show ?thesis by (cases ws) (auto split: list.splits)
  qed
qed simp

lemma lines_no_LF: "LF \<notin> set (hd (lines_of b))" "LF \<notin> set (last (lines_of a))"
  using split_char_no_sep [of "hd (lines_of b)" LF b] split_char_no_sep [of "last (lines_of a)" LF a] by simp_all

lemma lines_suffix: "lines_of (y @ b) = lines_of (y @ hd (lines_of b)) @ tl (lines_of b)"
proof (induction y)
  case Nil
  have "lines_of (hd (lines_of b)) = [hd (lines_of b)]" by (rule split_char_absent [OF lines_no_LF(1)])
  then show ?case by simp
next
  case (Cons x y)
  obtain w ws where "lines_of (y @ hd (lines_of b)) = w # ws" by (cases "lines_of (y @ hd (lines_of b))") auto
  with Cons show ?case by simp
qed

lemma lines_middle:
  obtains X where "lines_of (a @ m @ b) = butlast (lines_of a) @ X @ tl (lines_of b)" "length X = Suc (count_list m LF)"
proof
  let ?X = "lines_of (last (lines_of a) @ m @ hd (lines_of b))"
  show "lines_of (a @ m @ b) = butlast (lines_of a) @ ?X @ tl (lines_of b)"
    using lines_prefix [of a "m @ b"] lines_suffix [of "last (lines_of a) @ m" b] by simp
  have "count_list (last (lines_of a)) LF = 0" "count_list (hd (lines_of b)) LF = 0"
    using lines_no_LF by (simp_all add: count_list_0_iff)
  then show "length ?X = Suc (count_list m LF)" by (simp add: length_split_char)
qed

lemma replace_between:
  \<comment> \<open>replacing a part of a text replaces the lines it spans\<close>
  obtains block where
    "a @ r @ b = join_lines (take (count_list a LF) (lines_of (a @ m @ b)) @ block
        @ drop (Suc (count_list (a @ m) LF)) (lines_of (a @ m @ b)))"
proof -
  obtain X where X: "lines_of (a @ m @ b) = butlast (lines_of a) @ X @ tl (lines_of b)" "length X = Suc (count_list m LF)"
    by (rule lines_middle)
  obtain Y where Y: "lines_of (a @ r @ b) = butlast (lines_of a) @ Y @ tl (lines_of b)"
    by (rule lines_middle)
  have "length (butlast (lines_of a)) = count_list a LF" by (simp add: length_split_char)
  with X have "take (count_list a LF) (lines_of (a @ m @ b)) = butlast (lines_of a)"
    "drop (Suc (count_list (a @ m) LF)) (lines_of (a @ m @ b)) = tl (lines_of b)" by simp_all
  moreover have "a @ r @ b = join_lines (lines_of (a @ r @ b))" by simp
  ultimately show ?thesis using that [of Y] Y by simp
qed

section \<open>What an edit changes\<close>

definition line_edit :: "string \<Rightarrow> edit \<Rightarrow> bool" where
  \<comment> \<open>the reported lines exist, and outside them the text is the same\<close>
  "line_edit t e = (case e of (updated, start, stop, remark) \<Rightarrow>
     1 \<le> start \<and> start \<le> stop \<and> stop \<le> length (lines_of t)
     \<and> (\<exists>block. updated = join_lines (take (start - 1) (lines_of t) @ block @ drop stop (lines_of t))))"

lemma exactTier_line_edit: "exactTier t old r = Ok (Some e) \<Longrightarrow> line_edit t e"
proof -
  assume ok: "exactTier t old r = Ok (Some e)"
  then obtain i where i: "str_index t old = Some i"
    and e: "e = (replace_first t old r, lineAt t i, lineAt t i + count_list old LF, ''strategy: exact'')"
    by (auto simp: exactTier_def Let_def split: if_splits option.splits)
  from str_index_Some [OF i] obtain a b where t: "t = a @ old @ b" "length a = i" by blast
  then have up: "replace_first t old r = a @ r @ b" using i by (simp add: replace_first_def)
  obtain block where "a @ r @ b = join_lines (take (count_list a LF) (lines_of (a @ old @ b)) @ block
        @ drop (Suc (count_list (a @ old) LF)) (lines_of (a @ old @ b)))" by (rule replace_between)
  then have "\<exists>block. replace_first t old r = join_lines (take (count_list a LF) (lines_of t) @ block
        @ drop (Suc (count_list (a @ old) LF)) (lines_of t))" using up t(1) by metis
  moreover have "lineAt t i = Suc (count_list a LF)" "length (lines_of t) = Suc (count_list t LF)"
    using t by (simp_all add: lineAt_def length_split_char)
  ultimately show ?thesis using t by (simp add: line_edit_def e)
qed

lemma splice_line_edit:
  assumes "index \<in> set (match_positions accept (lines_of t) n)" "0 < n"
  shows "line_edit t (splice (lines_of t) index n block, index + 1, index + n, remark)"
  using assms by (auto simp: line_edit_def splice_def match_positions_def)

lemma lines_pos: "0 < length (lines_of s)"
  by simp

lemma whitespaceTier_line_edit: "whitespaceTier t old r indent = Ok (Some e) \<Longrightarrow> line_edit t e"
proof -
  assume ok: "whitespaceTier t old r indent = Ok (Some e)"
  let ?m = "match_positions (whitespace_equal (lines_of old) indent) (lines_of t) (length (lines_of old))"
  from ok obtain index block remark where "?m = [index]"
    "e = (splice (lines_of t) index (length (lines_of old)) block, index + 1, index + length (lines_of old), remark)"
    by (auto simp: whitespaceTier_def Let_def simp del: split_char_not_Nil split: if_splits list.splits)
  then show ?thesis using splice_line_edit [of index "whitespace_equal (lines_of old) indent" t] by simp
qed

lemma blockAnchorTier_line_edit: "blockAnchorTier t old r = Ok (Some e) \<Longrightarrow> line_edit t e"
proof -
  assume ok: "blockAnchorTier t old r = Ok (Some e)"
  let ?m = "match_positions (anchors_equal (lines_of old)) (lines_of t) (length (lines_of old))"
  from ok obtain index block remark where "?m = [index]"
    "e = (splice (lines_of t) index (length (lines_of old)) block, index + 1, index + length (lines_of old), remark)"
    by (auto simp: blockAnchorTier_def Let_def split: if_splits list.splits)
  then show ?thesis using splice_line_edit [of index "anchors_equal (lines_of old)" t] by simp
qed

lemma or_else_Some: "or_else a b = Ok (Some e) \<longleftrightarrow> a = Ok (Some e) \<or> a = Ok None \<and> b = Ok (Some e)"
  by (auto simp: or_else_def split: gores.splits option.splits)

text \<open>C10. An edit changes only the lines it reports: whichever tier matches, the reported lines exist in the
  file, and every line before the first and after the last reported line is the same in the new text.\<close>

theorem edit_changes_only_reported_lines:
  assumes "edit_text t old replacement = Ok (Some (updated, start, stop, remark))"
  shows "1 \<le> start \<and> start \<le> stop \<and> stop \<le> length (lines_of t)
    \<and> (\<exists>block. updated = join_lines (take (start - 1) (lines_of t) @ block @ drop stop (lines_of t)))"
proof -
  from assms have "line_edit t (updated, start, stop, remark)"
    unfolding edit_text_def or_else_Some
    by (auto intro: exactTier_line_edit whitespaceTier_line_edit blockAnchorTier_line_edit)
  then show ?thesis by (simp add: line_edit_def)
qed

theorem edit_changes_only_reported_lines_witness:
  "\<exists>updated. edit_text [CHR ''a'', LF, CHR ''b'', CHR 0x20, LF, CHR ''c''] [CHR ''b'', LF, CHR ''c''] ''x''
     = Ok (Some (updated, 2, 3, ''strategy: whitespace-normalized (trailing whitespace or Unicode punctuation)''))
   \<and> (\<exists>block. updated = join_lines (''a'' # block))"
proof -
  have e: "edit_text [CHR ''a'', LF, CHR ''b'', CHR 0x20, LF, CHR ''c''] [CHR ''b'', LF, CHR ''c''] ''x''
     = Ok (Some ([CHR ''a'', LF, CHR ''x''], 2, 3, ''strategy: whitespace-normalized (trailing whitespace or Unicode punctuation)''))"
    by code_simp
  from edit_changes_only_reported_lines [OF e] e show ?thesis by simp
qed

section \<open>Line endings\<close>

lemma replace_all_skip: "p \<noteq> [] \<Longrightarrow> \<not> prefix p (x # s) \<Longrightarrow> replace_all (x # s) p r = x # replace_all s p r"
  by (subst (1 2) replace_all.simps) (auto split: option.splits)

lemma replace_all_hit: "p \<noteq> [] \<Longrightarrow> replace_all (p @ s) p r = r @ replace_all s p r"
  by (subst replace_all.simps, cases p) simp_all

lemma replace_all_Nil [simp]: "p \<noteq> [] \<Longrightarrow> replace_all [] p r = []"
  by (simp add: replace_all_absent)

lemma to_crlf_simps [simp]:
  "to_crlf [] = []" "to_crlf (x # s) = (if x = LF then CR # LF # to_crlf s else x # to_crlf s)"
  using replace_all_hit [of "[LF]" s "[CR, LF]"] replace_all_skip [of "[LF]" x s "[CR, LF]"] by (auto simp: to_crlf_def)

lemma from_crlf: "CR \<notin> set t \<Longrightarrow> replace_all (to_crlf t) [CR, LF] [LF] = t"
proof (induction t)
  case (Cons x t)
  then show ?case
    using replace_all_hit [of "[CR, LF]" "to_crlf t" "[LF]"] by (auto simp: replace_all_skip)
qed simp

lemma str_index_absent: "c \<notin> set t \<Longrightarrow> c \<in> set p \<Longrightarrow> str_index t p = None"
  by (auto simp: str_index_None)

lemma normalizeLF_plain: "CR \<notin> set t \<Longrightarrow> normalizeLF t = t"
  by (simp add: normalizeLF_def replace_all_absent str_index_absent)

lemma normalizeLF_crlf: "CR \<notin> set t \<Longrightarrow> normalizeLF (to_crlf t) = t"
  by (simp add: normalizeLF_def from_crlf replace_all_absent str_index_absent)

lemma crlf_present: "LF \<in> set t \<Longrightarrow> str_contains (to_crlf t) [CR, LF]"
proof -
  assume "LF \<in> set t"
  then obtain a b where "t = a @ LF # b" by (meson split_list)
  moreover have "to_crlf (a @ LF # b) = to_crlf a @ [CR, LF] @ to_crlf b" by (induction a) auto
  ultimately show ?thesis by (auto simp: str_contains_iff)
qed

lemma bom_crlf: "prefix utf8_bom (to_crlf t) \<longleftrightarrow> prefix utf8_bom t"
  by (cases t; cases "tl t"; cases "tl (tl t)") (auto simp: utf8_bom_def)

lemma nul_crlf: "CHR 0x00 \<in> set (to_crlf t) \<longleftrightarrow> CHR 0x00 \<in> set t"
  by (induction t) auto

lemma already_applied_cases: "already_applied t r = Ok None \<or> (\<exists>m. already_applied t r = Err m) \<or> already_applied t r = Panic"
  by (auto simp: already_applied_def Let_def split: option.splits)

lemma gores_option_cases:
  obtains (some) u a b n where "x = Ok (Some (u, a, b, n))" | (none) "x = Ok None" | (err) m where "x = Err m" | (panic) "x = Panic"
  by (cases x; (cases "case x of Ok y \<Rightarrow> y | _ \<Rightarrow> None")?) auto

text \<open>C23. Editing respects the file's line endings and byte-order mark: for a text with at least one line break
  and no carriage return of its own, editing the file that holds it with CRLF line ends, with or without a
  byte-order mark, has the same outcome as editing it with LF line ends, and writes the same new text with CRLF
  line ends and the same mark.\<close>

theorem edit_preserves_line_endings:
  assumes "CR \<notin> set t" "LF \<in> set t" "CHR 0x00 \<notin> set t" "\<not> prefix utf8_bom t" "mark = [] \<or> mark = utf8_bom"
  shows "edit_bytes path (mark @ to_crlf t) old replacement =
    (case edit_bytes path t old replacement of
       Ok (Some (data, start, stop, remark)) \<Rightarrow> Ok (Some (mark @ to_crlf data, start, stop, remark))
     | other \<Rightarrow> other)"
proof -
  have "CHR 0x00 \<notin> set (take 8192 t)" using assms(3) by (meson in_set_takeD)
  moreover have "CHR 0x00 \<notin> set (take 8192 (mark @ to_crlf t))"
  proof
    assume "CHR 0x00 \<in> set (take 8192 (mark @ to_crlf t))"
    then have "CHR 0x00 \<in> set (mark @ to_crlf t)" by (rule in_set_takeD)
    with assms(3,5) nul_crlf [of t] show False by (auto simp: utf8_bom_def)
  qed
  moreover have "\<not> str_contains t [CR, LF]" using assms(1) by (auto simp: str_contains_iff)
  moreover have "prefix utf8_bom (mark @ to_crlf t) \<longleftrightarrow> mark = utf8_bom"
    "(if mark = utf8_bom then drop 3 (mark @ to_crlf t) else mark @ to_crlf t) = to_crlf t"
    "(if mark = utf8_bom then utf8_bom else []) = mark"
    using assms(4,5) bom_crlf [of t] by (cases "mark = []"; simp add: utf8_bom_def)+
  ultimately have "edit_bytes path t old replacement = edit_decoded False False t (normalizeLF old) (normalizeLF replacement)"
    "edit_bytes path (mark @ to_crlf t) old replacement = edit_decoded (mark = utf8_bom) True t (normalizeLF old) (normalizeLF replacement)"
    if "old \<noteq> []"
    using that crlf_present [OF assms(2)] normalizeLF_crlf [OF assms(1)] normalizeLF_plain [OF assms(1)] assms(4)
    by (simp_all add: edit_bytes_def Let_def)
  moreover have "edit_decoded (mark = utf8_bom) True t o1 r1 = (case edit_decoded False False t o1 r1 of
       Ok (Some (data, start, stop, remark)) \<Rightarrow> Ok (Some (mark @ to_crlf data, start, stop, remark)) | other \<Rightarrow> other)" for o1 r1
    using assms(5) already_applied_cases [of t r1]
    by (cases "edit_text t o1 r1" rule: gores_option_cases) (auto simp: edit_decoded_def)
  ultimately show ?thesis by (cases "old = []") (simp_all add: edit_bytes_def)
qed

theorem edit_preserves_line_endings_witness:
  "edit_bytes ''f.txt'' (utf8_bom @ [CHR ''a'', CR, LF, CHR ''b'']) ''b'' ''c''
     = Ok (Some (utf8_bom @ [CHR ''a'', CR, LF, CHR ''c''], 2, 2, ''strategy: exact''))"
proof -
  have "edit_bytes ''f.txt'' [CHR ''a'', LF, CHR ''b''] ''b'' ''c'' = Ok (Some ([CHR ''a'', LF, CHR ''c''], 2, 2, ''strategy: exact''))"
    by code_simp
  with edit_preserves_line_endings [of "[CHR ''a'', LF, CHR ''b'']" utf8_bom "''f.txt''" "''b''" "''c''"]
  show ?thesis by (simp add: utf8_bom_def)
qed

section \<open>The diff\<close>

lemma common_prefix_le: "common_prefix xs ys \<le> length xs" "common_prefix xs ys \<le> length ys"
  by (induction xs ys rule: common_prefix.induct) auto

lemma common_prefix_take: "take (common_prefix xs ys) xs = take (common_prefix xs ys) ys"
  by (induction xs ys rule: common_prefix.induct) auto

lemma common_prefix_stop:
  "drop (common_prefix xs ys) xs = u # us \<Longrightarrow> drop (common_prefix xs ys) ys = v # vs \<Longrightarrow> u \<noteq> v"
  by (induction xs ys rule: common_prefix.induct) (auto split: if_splits)

lemma common_suffix:
  fixes xs ys :: "string list"
  defines "s \<equiv> common_prefix (rev xs) (rev ys)"
  obtains S where "xs = take (length xs - s) xs @ S" "ys = take (length ys - s) ys @ S"
    "take (length xs - s) xs \<noteq> [] \<Longrightarrow> take (length ys - s) ys \<noteq> [] \<Longrightarrow>
       last (take (length xs - s) xs) \<noteq> last (take (length ys - s) ys)"
proof
  let ?S = "drop (length xs - s) xs"
  have "take s (rev xs) = take s (rev ys)" unfolding s_def by (rule common_prefix_take)
  then have eq: "drop (length xs - s) xs = drop (length ys - s) ys" by (simp add: take_rev)
  show "xs = take (length xs - s) xs @ ?S" by simp
  show "ys = take (length ys - s) ys @ ?S" by (simp add: eq)
  assume ne: "take (length xs - s) xs \<noteq> []" "take (length ys - s) ys \<noteq> []"
  have "rev (take (length zs - s) zs) = drop s (rev zs)" for zs :: "string list" by (simp add: drop_rev)
  then have d: "drop s (rev zs) = last (take (length zs - s) zs) # rev (butlast (take (length zs - s) zs))"
    if "take (length zs - s) zs \<noteq> []" for zs :: "string list"
    using that by (metis append_butlast_last_id rev_eq_Cons_iff rev_rev_ident)
  show "last (take (length xs - s) xs) \<noteq> last (take (length ys - s) ys)"
    using common_prefix_stop [of "rev xs" "rev ys"] d [OF ne(1)] d [OF ne(2)] unfolding s_def by blast
qed

text \<open>The diff an edit reports is exact and as small as one hunk can be: the two texts consist of the same
  lines before and after the hunk, with the removed block in one and the added block in the other, the hunk
  starts at the reported line, and the two blocks neither begin nor end with the same line.\<close>

theorem unified_diff_is_exact:
  assumes "diff_blocks before after = (p, oldBlock, newBlock)"
  shows "\<exists>P S. lines_of before = P @ oldBlock @ S \<and> lines_of after = P @ newBlock @ S \<and> length P = p
    \<and> (oldBlock \<noteq> [] \<and> newBlock \<noteq> [] \<longrightarrow> hd oldBlock \<noteq> hd newBlock \<and> last oldBlock \<noteq> last newBlock)"
proof -
  let ?b = "lines_of before" and ?a = "lines_of after"
  have p: "p = common_prefix ?b ?a" using assms by (simp add: diff_blocks_def Let_def)
  let ?s = "common_prefix (rev (drop p ?b)) (rev (drop p ?a))"
  have blocks: "oldBlock = take (length (drop p ?b) - ?s) (drop p ?b)" "newBlock = take (length (drop p ?a) - ?s) (drop p ?a)"
    using assms p by (simp_all add: diff_blocks_def Let_def)
  obtain S where S: "drop p ?b = oldBlock @ S" "drop p ?a = newBlock @ S"
    "oldBlock \<noteq> [] \<Longrightarrow> newBlock \<noteq> [] \<Longrightarrow> last oldBlock \<noteq> last newBlock"
    using common_suffix [of "drop p ?b" "drop p ?a"] unfolding blocks by blast
  have "take p ?b = take p ?a" "length (take p ?b) = p" 
    unfolding p using common_prefix_le [of ?b ?a] by (simp_all add: common_prefix_take)
  moreover have "?b = take p ?b @ oldBlock @ S" "?a = take p ?a @ newBlock @ S"
    using S(1,2) by (metis append_take_drop_id)+
  moreover have "hd oldBlock \<noteq> hd newBlock" if "oldBlock \<noteq> []" "newBlock \<noteq> []"
    using common_prefix_stop [of ?b ?a "hd oldBlock" "tl oldBlock @ S" "hd newBlock" "tl newBlock @ S"] S(1,2) that
    unfolding p [symmetric] by simp
  ultimately show ?thesis using S(3) by metis
qed

theorem unified_diff_is_exact_witness:
  "\<exists>P S. lines_of [CHR ''a'', LF, CHR ''b''] = P @ [''b''] @ S \<and> lines_of [CHR ''a'', LF, CHR ''c''] = P @ [''c''] @ S \<and> length P = 1"
proof -
  have "diff_blocks [CHR ''a'', LF, CHR ''b''] [CHR ''a'', LF, CHR ''c''] = (1, [''b''], [''c''])" by code_simp
  from unified_diff_is_exact [OF this] show ?thesis by blast
qed

section \<open>Similarity is a longest common subsequence\<close>

fun lcs :: "'a list \<Rightarrow> 'a list \<Rightarrow> nat" where
  \<comment> \<open>the textbook recursion\<close>
  "lcs (x # xs) (y # ys) = (if x = y then Suc (lcs xs ys) else max (lcs (x # xs) ys) (lcs xs (y # ys)))"
| "lcs _ _ = 0"

lemma lcs_Nil2 [simp]: "lcs xs [] = 0"
  by (cases xs) auto

lemma subseq_rev_mono: "subseq xs ys \<Longrightarrow> subseq (rev xs) (rev ys)"
  by (induction rule: list_emb.induct) (auto intro: list_emb_append_mono subseq_rev_drop_many)

lemma subseq_rev: "subseq (rev xs) (rev ys) \<longleftrightarrow> subseq xs ys"
  using subseq_rev_mono [of xs ys] subseq_rev_mono [of "rev xs" "rev ys"] by auto

lemma lcs_attained: "\<exists>z. subseq z xs \<and> subseq z ys \<and> length z = lcs xs ys"
proof (induction xs ys rule: lcs.induct)
  case (1 x xs y ys)
  show ?case
  proof (cases "x = y")
    case True
    with 1(1) obtain z where "subseq z xs" "subseq z ys" "length z = lcs xs ys" by blast
    with True have "subseq (x # z) (x # xs) \<and> subseq (x # z) (y # ys) \<and> length (x # z) = lcs (x # xs) (y # ys)" by simp
    then show ?thesis by blast
  next
    case False
    with 1(2,3) obtain z1 z2 where "subseq z1 (x # xs)" "subseq z1 ys" "length z1 = lcs (x # xs) ys"
      "subseq z2 xs" "subseq z2 (y # ys)" "length z2 = lcs xs (y # ys)" by blast
    with False show ?thesis by (cases "lcs (x # xs) ys \<le> lcs xs (y # ys)") (auto simp: max_def intro: exI [of _ z1] exI [of _ z2])
  qed
qed auto

lemma lcs_maximal: "subseq z xs \<Longrightarrow> subseq z ys \<Longrightarrow> length z \<le> lcs xs ys"
proof (induction xs ys arbitrary: z rule: lcs.induct)
  case (1 x xs y ys)
  show ?case
  proof (cases z)
    case (Cons w ws)
    show ?thesis
    proof (cases "x = y")
      case True
      with 1(4,5) Cons have "subseq ws xs \<and> subseq ws ys \<or> subseq z xs \<and> subseq z ys" by (cases "w = x") auto
      with 1(1) [OF True, of ws] 1(1) [OF True, of z] True Cons show ?thesis by auto
    next
      case False
      with 1(4,5) Cons have "subseq z (x # xs) \<and> subseq z ys \<or> subseq z xs \<and> subseq z (y # ys)" by (cases "w = x") auto
      with 1(2,3) [OF False, of z] False show ?thesis by auto
    qed
  qed simp
qed auto

lemma lcs_cells_row:
  assumes "k \<le> length b"
  shows "lcs_cells x (drop k b) (lcs (rev a) (rev (take k b))) (lcs (x # rev a) (rev (take k b)))
      (map (\<lambda>j. lcs (rev a) (rev (take (Suc j) b))) [k..<length b])
    = map (\<lambda>j. lcs (x # rev a) (rev (take (Suc j) b))) [k..<length b]"
  using assms
proof (induction "length b - k" arbitrary: k)
  case 0
  then show ?case by simp
next
  case (Suc n)
  then have k: "k < length b" by simp
  have d: "drop k b = b ! k # drop (Suc k) b" using k by (simp add: Cons_nth_drop_Suc)
  have u: "[k..<length b] = k # [Suc k..<length b]" using k by (simp add: upt_conv_Cons)
  have t: "rev (take (Suc k) b) = b ! k # rev (take k b)" using k by (simp add: take_Suc_conv_app_nth)
  have new: "(if x = b ! k then lcs (rev a) (rev (take k b)) + 1
      else if lcs (rev a) (rev (take (Suc k) b)) < lcs (x # rev a) (rev (take k b)) then lcs (x # rev a) (rev (take k b))
      else lcs (rev a) (rev (take (Suc k) b))) = lcs (x # rev a) (rev (take (Suc k) b))"
    by (simp add: t)
  from Suc.hyps(1) [of "Suc k"] Suc(2) k have ih: "lcs_cells x (drop (Suc k) b) (lcs (rev a) (rev (take (Suc k) b)))
      (lcs (x # rev a) (rev (take (Suc k) b))) (map (\<lambda>j. lcs (rev a) (rev (take (Suc j) b))) [Suc k..<length b])
    = map (\<lambda>j. lcs (x # rev a) (rev (take (Suc j) b))) [Suc k..<length b]" by simp
  show ?case unfolding d u list.map lcs_cells.simps Let_def new ih ..
qed

lemma lcs_rows_eq: "lcs_rows a b = map (\<lambda>j. lcs (rev a) (rev (take (Suc j) b))) [0..<length b]"
proof (induction a rule: rev_induct)
  case Nil
  then show ?case by (simp add: lcs_rows_def map_replicate_const)
next
  case (snoc x a)
  have "lcs_rows (a @ [x]) b = lcs_cells x b 0 0 (lcs_rows a b)" by (simp add: lcs_rows_def)
  with snoc lcs_cells_row [of 0 b x a] show ?case by simp
qed

lemma lcs_rows_last: "last (0 # lcs_rows a b) = lcs (rev a) (rev b)"
  by (cases b rule: rev_cases) (simp_all add: lcs_rows_eq)

text \<open>The similarity of a near miss is computed by a correct single-row dynamic program: for collapsed texts
  within the size limit it is twice the length of a longest common subsequence of their runes over the total
  number of runes; such a subsequence exists and none is longer.\<close>

theorem similarity_is_longest_common_subsequence:
  assumes "ar = runes (collapse a)" "br = runes (collapse b)" "ar \<noteq> [] \<or> br \<noteq> []" "length ar * length br \<le> 4 * 1024 * 4 * 1024"
  shows "\<exists>n. similarity a b = 2 * of_nat n / of_nat (length ar + length br)
    \<and> (\<exists>z. subseq z ar \<and> subseq z br \<and> length z = n) \<and> (\<forall>z. subseq z ar \<and> subseq z br \<longrightarrow> length z \<le> n)"
proof -
  let ?n = "lcs (rev ar) (rev br)"
  have "similarity a b = 2 * of_nat ?n / of_nat (length ar + length br)"
    using assms lcs_rows_last [of ar br] by (auto simp: similarity_def Let_def)
  moreover obtain z where "subseq z (rev ar)" "subseq z (rev br)" "length z = ?n" using lcs_attained by blast
  then have "subseq (rev z) ar \<and> subseq (rev z) br \<and> length (rev z) = ?n"
    using subseq_rev [of "rev z" ar] subseq_rev [of "rev z" br] by simp
  moreover have "length z \<le> ?n" if "subseq z ar" "subseq z br" for z
    using lcs_maximal [of "rev z" "rev ar" "rev br"] that by (simp add: subseq_rev)
  ultimately show ?thesis by blast
qed

theorem similarity_is_longest_common_subsequence_witness:
  "\<exists>n. similarity ''abc'' ''xbc'' = 2 * of_nat n / 6 \<and> (\<exists>z. subseq z [''a'', ''b'', ''c''] \<and> subseq z [''x'', ''b'', ''c''] \<and> length z = n)"
proof -
  have "runes (collapse ''abc'') = [''a'', ''b'', ''c'']" "runes (collapse ''xbc'') = [''x'', ''b'', ''c'']" by code_simp+
  from similarity_is_longest_common_subsequence [OF this [symmetric]] show ?thesis by fastforce
qed

section \<open>Surprises\<close>

text \<open>Uniqueness is judged on occurrences that do not overlap: a text in which \<^verbatim>\<open>old_string\<close> occurs twice, the
  second occurrence starting inside the first, is edited at the first one instead of being refused as
  ambiguous.\<close>

theorem overlapping_occurrence_is_edited:
  "let brace = [CHR 0x7D]; old = brace @ [LF] @ brace; t = brace @ [LF] @ brace @ [LF] @ brace in
     t = [] @ old @ ([LF] @ brace) \<and> t = (brace @ [LF]) @ old @ []
     \<and> edit_text t old ''x'' = Ok (Some (''x'' @ [LF] @ brace, 1, 2, ''strategy: exact''))"
  by code_simp

lemma mixed_line_endings_are_rewritten:
  \<comment> \<open>one CRLF in a file turns every line end of the edited file into CRLF\<close>
  "edit_bytes path [CHR ''a'', CR, LF, CHR ''b'', LF, CHR ''c''] ''c'' ''d''
     = Ok (Some ([CHR ''a'', CR, LF, CHR ''b'', CR, LF, CHR ''d''], 3, 3, ''strategy: exact''))"
  by code_simp

end
