(* ===== verification/File_Search.thy ===== *)
theory File_Search
  imports Edit_Text "HOL-Library.Char_ord" "HOL-Library.List_Lexorder"
begin

text \<open>
  The tools \<^verbatim>\<open>find_files\<close> and \<^verbatim>\<open>search_text\<close> (\<^verbatim>\<open>internal/tools/glob.go\<close>, \<^verbatim>\<open>grep.go\<close>, \<^verbatim>\<open>inaccessible.go\<close>):
  the memoised match of a pattern with \<^verbatim>\<open>**\<close> against a path, the callbacks given to \<^verbatim>\<open>filepath.WalkDir\<close> and
  the reports made from what they collect.

  The directory tree below the search root is an explicit value; \<open>walkDir\<close> visits it the way
  \<^verbatim>\<open>filepath.WalkDir\<close> does, including its second call for a directory that cannot be read, whose entries read so
  far are still visited.  Paths are lists of names below the root.  The matcher of one path segment
  (\<^verbatim>\<open>path.Match\<close>), the regular-expression matcher, the cancellation of the context and the spelling of
  absolute and workspace-relative paths are parameters.
\<close>

section \<open>Trees and walking\<close>

datatype fserr = ErrPermission | ErrOther string

primrec err_text :: "fserr \<Rightarrow> string" where
  "err_text ErrPermission = ''permission denied''"
| "err_text (ErrOther m) = m"

datatype fsnode =
    FFile "string + fserr" \<comment> \<open>the content, or why it cannot be read\<close>
  | FDir "fserr option" "(string \<times> fsnode) list" \<comment> \<open>the error of \<^verbatim>\<open>os.ReadDir\<close>, the entries by name\<close>

datatype action = Continue | SkipDir | Fail string

type_synonym fspath = "string list"
type_synonym 's visitor = "fspath \<Rightarrow> fsnode \<Rightarrow> fserr option \<Rightarrow> 's \<Rightarrow> action \<times> 's"

fun walkDir :: "'s visitor \<Rightarrow> fspath \<Rightarrow> fsnode \<Rightarrow> 's \<Rightarrow> action \<times> 's"
  and walkEntries :: "'s visitor \<Rightarrow> fspath \<Rightarrow> (string \<times> fsnode) list \<Rightarrow> 's \<Rightarrow> action \<times> 's" where
  "walkDir fn path (FFile c) st = fn path (FFile c) None st"
| "walkDir fn path (FDir e es) st =
     (case fn path (FDir e es) None st of
        (Continue, st1) \<Rightarrow>
          (case e of None \<Rightarrow> walkEntries fn path es st1
           | Some x \<Rightarrow> (case fn path (FDir e es) (Some x) st1 of
                (Continue, st2) \<Rightarrow> walkEntries fn path es st2
              | (SkipDir, st2) \<Rightarrow> (Continue, st2)
              | (Fail m, st2) \<Rightarrow> (Fail m, st2)))
      | (SkipDir, st1) \<Rightarrow> (Continue, st1)
      | (Fail m, st1) \<Rightarrow> (Fail m, st1))"
| "walkEntries fn path [] st = (Continue, st)"
| "walkEntries fn path ((name, n) # es) st =
     (case walkDir fn (path @ [name]) n st of
        (Continue, st1) \<Rightarrow> walkEntries fn path es st1
      | (SkipDir, st1) \<Rightarrow> (Continue, st1)
      | (Fail m, st1) \<Rightarrow> (Fail m, st1))"

definition WalkDir :: "'s visitor \<Rightarrow> fsnode \<Rightarrow> 's \<Rightarrow> 's gores" where
  "WalkDir fn tree st = (case walkDir fn [] tree st of (Fail m, _) \<Rightarrow> Err m | (_, st') \<Rightarrow> Ok st')"

record tally =
  ta_matches :: "string list"
  ta_total :: nat
  ta_skipped :: nat

definition no_tally :: tally where
  "no_tally = \<lparr>ta_matches = [], ta_total = 0, ta_skipped = 0\<rparr>"

definition add_match :: "nat \<Rightarrow> string \<Rightarrow> tally \<Rightarrow> tally" where
  \<comment> \<open>\<^verbatim>\<open>total++; if len(matches) < cap { matches = append(matches, m) }\<close>\<close>
  "add_match cap m st = st\<lparr>ta_total := ta_total st + 1,
     ta_matches := (if length (ta_matches st) < cap then ta_matches st @ [m] else ta_matches st)\<rparr>"

definition skip_one :: "tally \<Rightarrow> tally" where
  "skip_one st = st\<lparr>ta_skipped := ta_skipped st + 1\<rparr>"

definition walk_error :: "fspath \<Rightarrow> fserr \<Rightarrow> tally \<Rightarrow> action \<times> tally" where
  \<comment> \<open>\<^verbatim>\<open>if filePath != root && isInaccessible(err) { skipped++; return nil }; return err\<close>\<close>
  "walk_error path x st = (if path \<noteq> [] \<and> x = ErrPermission then (Continue, skip_one st) else (Fail (err_text x), st))"

section \<open>Patterns\<close>

record match_env =
  me_Match :: "string \<Rightarrow> string \<Rightarrow> bool \<times> bool" \<comment> \<open>\<^verbatim>\<open>path.Match\<close>: matched, bad pattern\<close>
  me_Abs :: "fspath \<Rightarrow> string" \<comment> \<open>the path \<^verbatim>\<open>WalkDir\<close> hands to the callback\<close>
  me_Rel :: "fspath \<Rightarrow> string" \<comment> \<open>\<^verbatim>\<open>filepath.ToSlash(workspaceRel(root, filePath))\<close>\<close>
  me_Base :: string \<comment> \<open>the name of the search root\<close>
  me_Parts :: "string \<Rightarrow> string list" \<comment> \<open>the cleaned path without volume, split at separators\<close>
  me_Cancelled :: "fspath \<Rightarrow> string option" \<comment> \<open>\<^verbatim>\<open>ctx.Err()\<close> when an entry is visited\<close>

definition globMaxResults :: nat where
  "globMaxResults = 200"

definition globIgnoredDirs :: "string list" where
  "globIgnoredDirs = [''.git'', ''node_modules'', ''logs'', ''memory'']"

definition validateGlobPattern :: "(string \<Rightarrow> string \<Rightarrow> bool \<times> bool) \<Rightarrow> string \<Rightarrow> bool" where
  "validateGlobPattern pm pattern \<longleftrightarrow> (\<forall>part \<in> set (split_char (CHR ''/'') pattern). part = ''**'' \<or> \<not> snd (pm part ''probe''))"

function glob_match :: "(string \<Rightarrow> string \<Rightarrow> bool) \<Rightarrow> string list \<Rightarrow> string list \<Rightarrow> nat \<Rightarrow> nat \<Rightarrow> (nat \<times> nat) list \<Rightarrow> bool \<times> (nat \<times> nat) list" where
  \<comment> \<open>the closure \<^verbatim>\<open>match\<close>; the last argument and result are the map \<^verbatim>\<open>seen\<close>\<close>
  "glob_match pm ps ns i j seen =
     (if (i, j) \<in> set seen then (False, seen)
      else if length ps \<le> i then (j = length ns, (i, j) # seen)
      else if ps ! i = ''**'' then
        (case glob_match pm ps ns (i + 1) j ((i, j) # seen) of
           (True, seen1) \<Rightarrow> (True, seen1)
         | (False, seen1) \<Rightarrow> if j < length ns then glob_match pm ps ns i (j + 1) seen1 else (False, seen1))
      else if length ns \<le> j then (False, (i, j) # seen)
      else if pm (ps ! i) (ns ! j) then glob_match pm ps ns (i + 1) (j + 1) ((i, j) # seen)
      else (False, (i, j) # seen))"
  by pat_completeness auto
termination
  by (relation "measure (\<lambda>(pm, ps, ns, i, j, seen). (length ps - i) + (length ns - j))") auto
declare glob_match.simps [simp del]

definition globMatches :: "(string \<Rightarrow> string \<Rightarrow> bool \<times> bool) \<Rightarrow> string \<Rightarrow> string \<Rightarrow> string \<Rightarrow> bool" where
  "globMatches pm pattern relativePath name =
     (if \<not> str_contains pattern ''/'' then fst (pm pattern name)
      else fst (glob_match (\<lambda>p n. fst (pm p n)) (split_char (CHR ''/'') pattern) (split_char (CHR ''/'') relativePath) 0 0 []))"

definition configuredSkipRoot :: "(string \<Rightarrow> string \<Rightarrow> bool \<times> bool) \<Rightarrow> string list \<Rightarrow> string list \<Rightarrow> bool" where
  \<comment> \<open>the first list is the split path without its volume\<close>
  "configuredSkipRoot pm parts patterns \<longleftrightarrow>
     (\<exists>raw \<in> set patterns.
        let normalized = replace_all (trim_space raw) [CHR 0x5C] ''/'';
            patternParts = split_char (CHR ''/'') (trim_set ''/'' normalized)
        in length patternParts \<le> length parts
           \<and> (\<forall>i < length patternParts. pm (to_lower (patternParts ! i)) (to_lower (parts ! i)) = (True, False)))"

definition containsIgnoredDir :: "string list \<Rightarrow> bool" where
  \<comment> \<open>the list is the cleaned workspace-relative root, split; empty for \<^verbatim>\<open>.\<close>\<close>
  "containsIgnoredDir parts \<longleftrightarrow> (\<exists>p \<in> set parts. p \<in> set globIgnoredDirs)"

section \<open>Reports\<close>

definition withSkippedInaccessible :: "string \<Rightarrow> nat \<Rightarrow> string" where
  "withSkippedInaccessible result skipped =
     (if skipped = 0 then result
      else (if trim_space result \<noteq> [] then result @ [LF] else result) @ ''[skipped '' @ dec skipped @ '' inaccessible]'')"

definition find_report :: "tally \<Rightarrow> string" where
  "find_report st =
     (if ta_total st = 0 then withSkippedInaccessible ''no matches'' (ta_skipped st)
      else let n = length (ta_matches st) in
        withSkippedInaccessible
          (join_lines (sort (ta_matches st))
           @ (if n < ta_total st then [LF] @ ''[truncated: '' @ dec n @ '' of '' @ dec (ta_total st) @ '' paths shown]'' else []))
          (ta_skipped st))"

definition search_report :: "tally \<Rightarrow> string" where
  "search_report st =
     (if ta_total st = 0 then withSkippedInaccessible ''no matches'' (ta_skipped st)
      else let n = length (ta_matches st) in
        withSkippedInaccessible
          (join_lines (ta_matches st)
           @ (if n < ta_total st then [LF] @ ''['' @ dec n @ '' of '' @ dec (ta_total st) @ '' matches shown]'' else []))
          (ta_skipped st))"

section \<open>find_files\<close>

definition entry_name :: "match_env \<Rightarrow> fspath \<Rightarrow> string" where
  "entry_name E path = (if path = [] then me_Base E else last path)"

definition rel_path :: "fspath \<Rightarrow> string" where
  \<comment> \<open>\<^verbatim>\<open>filepath.ToSlash(filepath.Rel(root, filePath))\<close>\<close>
  "rel_path path = (if path = [] then ''.'' else str_join ''/'' path)"

definition find_prune :: "match_env \<Rightarrow> string list \<Rightarrow> fspath \<Rightarrow> bool" where
  "find_prune E skipRoots path \<longleftrightarrow> path \<noteq> [] \<and>
     (last path \<in> set globIgnoredDirs \<or> configuredSkipRoot (me_Match E) (me_Parts E (me_Abs E path)) skipRoots)"

definition find_visit :: "match_env \<Rightarrow> string list \<Rightarrow> string \<Rightarrow> tally visitor" where
  "find_visit E skipRoots pattern path node err st =
     (case err of Some x \<Rightarrow> walk_error path x st
      | None \<Rightarrow>
        case me_Cancelled E path of Some m \<Rightarrow> (Fail m, st)
        | None \<Rightarrow>
          case node of
            FDir _ _ \<Rightarrow> (if find_prune E skipRoots path then SkipDir else Continue, st)
          | FFile _ \<Rightarrow>
              if globMatches (me_Match E) pattern (rel_path path) (entry_name E path)
              then (Continue, add_match globMaxResults (me_Rel E path) st) else (Continue, st))"

definition find_files :: "match_env \<Rightarrow> string list \<Rightarrow> string list \<Rightarrow> string \<Rightarrow> fsnode \<Rightarrow> string gores" where
  \<comment> \<open>the call after its arguments are resolved; \<open>rootParts\<close> is the split workspace-relative search root\<close>
  "find_files E skipRoots rootParts pattern0 tree =
     (if pattern0 = [] then Err ''pattern is required''
      else let pattern = replace_all pattern0 [CHR 0x5C] ''/'' in
        if \<not> validateGlobPattern (me_Match E) pattern then Err ''invalid pattern''
        else if containsIgnoredDir rootParts then Ok ''no matches''
        else gores_bind (WalkDir (find_visit E skipRoots pattern) tree no_tally) (\<lambda>st. Ok (find_report st)))"

section \<open>search_text\<close>

record grepTool =
  gt_MaxMatches :: nat
  gt_MaxLineChars :: nat

definition shown_line :: "grepTool \<Rightarrow> string \<Rightarrow> string" where
  \<comment> \<open>at most \<^verbatim>\<open>MaxLineChars\<close> runes, then an ellipsis\<close>
  "shown_line cfg line =
     (if gt_MaxLineChars cfg < length (runes line)
      then concat (take (gt_MaxLineChars cfg) (runes line)) @ [CHR 0xE2, CHR 0x80, CHR 0xA6] else line)"

definition file_matches :: "match_env \<Rightarrow> grepTool \<Rightarrow> (string \<Rightarrow> bool) \<Rightarrow> fspath \<Rightarrow> string \<Rightarrow> string list" where
  \<comment> \<open>the matching lines of one file as they are shown; none for a binary file\<close>
  "file_matches E cfg re path content =
     (if CHR 0x00 \<in> set (take 8192 content) then []
      else map (\<lambda>(i, line). me_Rel E path @ '':'' @ dec (i + 1) @ '': '' @ shown_line cfg line)
             (filter (\<lambda>(i, line). re line) (enumerate 0 (lines_of (normalizeLF content)))))"

definition search_visit :: "match_env \<Rightarrow> grepTool \<Rightarrow> string list \<Rightarrow> (string \<Rightarrow> bool) \<Rightarrow> string \<Rightarrow> tally visitor" where
  "search_visit E cfg ignored re glob path node err st =
     (case err of Some x \<Rightarrow> walk_error path x st
      | None \<Rightarrow>
        case me_Cancelled E path of Some m \<Rightarrow> (Fail m, st)
        | None \<Rightarrow>
          case node of
            FDir _ _ \<Rightarrow> (if path \<noteq> [] \<and> last path \<in> set ignored then SkipDir else Continue, st)
          | FFile content \<Rightarrow>
              if glob \<noteq> [] \<and> \<not> fst (me_Match E glob (entry_name E path)) then (Continue, st)
              else case content of
                  Inr x \<Rightarrow> walk_error path x st
                | Inl text \<Rightarrow> (Continue, fold (add_match (gt_MaxMatches cfg)) (file_matches E cfg re path text) st))"

definition search_text ::
  "match_env \<Rightarrow> grepTool \<Rightarrow> string list \<Rightarrow> (string \<Rightarrow> (string \<Rightarrow> bool) option) \<Rightarrow> string \<Rightarrow> string \<Rightarrow> fsnode \<Rightarrow> string gores" where
  \<comment> \<open>the fourth argument is \<^verbatim>\<open>regexp.Compile\<close>\<close>
  "search_text E cfg ignored compile pattern glob tree =
     (if pattern = [] then Err ''pattern is required''
      else case compile pattern of None \<Rightarrow> Err ''invalid pattern''
        | Some re \<Rightarrow>
            if glob \<noteq> [] \<and> snd (me_Match E glob ''probe'') then Err ''invalid glob''
            else gores_bind (WalkDir (search_visit E cfg ignored re glob) tree no_tally) (\<lambda>st. Ok (search_report st)))"

section \<open>Memoised matching\<close>

fun glob_spec :: "(string \<Rightarrow> string \<Rightarrow> bool) \<Rightarrow> string list \<Rightarrow> string list \<Rightarrow> bool" where
  \<comment> \<open>the meaning of a pattern: \<^verbatim>\<open>**\<close> stands for any number of path segments, every other part for one\<close>
  "glob_spec pm [] ns \<longleftrightarrow> ns = []"
| "glob_spec pm (p # ps) ns \<longleftrightarrow>
     (if p = ''**'' then \<exists>k \<le> length ns. glob_spec pm ps (drop k ns)
      else ns \<noteq> [] \<and> pm p (hd ns) \<and> glob_spec pm ps (tl ns))"

lemma glob_spec_star: "glob_spec pm (''**'' # ps) ns \<longleftrightarrow>
    glob_spec pm ps ns \<or> (ns \<noteq> [] \<and> glob_spec pm (''**'' # ps) (tl ns))"
proof (cases ns)
  case (Cons n ms)
  have "(\<exists>k \<le> Suc (length ms). glob_spec pm ps (drop k (n # ms)))
      \<longleftrightarrow> glob_spec pm ps (n # ms) \<or> (\<exists>k \<le> length ms. glob_spec pm ps (drop k ms))"
    using Suc_le_mono by (metis (no_types, lifting) Suc_le_D drop0 drop_Suc_Cons le0 not0_implies_Suc)
  with Cons show ?thesis by simp
qed simp

definition glob_at :: "(string \<Rightarrow> string \<Rightarrow> bool) \<Rightarrow> string list \<Rightarrow> string list \<Rightarrow> nat \<times> nat \<Rightarrow> bool" where
  "glob_at pm ps ns ij = glob_spec pm (drop (fst ij) ps) (drop (snd ij) ns)"

text \<open>Positions already seen that a call can still reach did not match: a call returns as soon as one does.\<close>

definition dead_ends :: "(string \<Rightarrow> string \<Rightarrow> bool) \<Rightarrow> string list \<Rightarrow> string list \<Rightarrow> nat \<Rightarrow> (nat \<times> nat) list \<Rightarrow> bool" where
  "dead_ends pm ps ns k seen \<longleftrightarrow> (\<forall>ij \<in> set seen. k \<le> fst ij + snd ij \<longrightarrow> \<not> glob_at pm ps ns ij)"

definition grid :: "string list \<Rightarrow> string list \<Rightarrow> (nat \<times> nat) list \<Rightarrow> bool" where
  "grid ps ns seen \<longleftrightarrow> distinct seen \<and> set seen \<subseteq> {0..length ps} \<times> {0..length ns}"

lemma dead_ends_Cons: "dead_ends pm ps ns (i + j) seen \<Longrightarrow> dead_ends pm ps ns (Suc (i + j)) ((i, j) # seen)"
  by (auto simp: dead_ends_def)

lemma glob_at_step:
  assumes "i < length ps" "j \<le> length ns"
  shows "glob_at pm ps ns (i, j) \<longleftrightarrow>
    (if ps ! i = ''**'' then glob_at pm ps ns (i + 1, j) \<or> (j < length ns \<and> glob_at pm ps ns (i, j + 1))
     else j < length ns \<and> pm (ps ! i) (ns ! j) \<and> glob_at pm ps ns (i + 1, j + 1))"
proof -
  have d: "drop i ps = ps ! i # drop (i + 1) ps" using assms(1) by (simp add: Cons_nth_drop_Suc)
  have n: "drop j ns \<noteq> [] \<longleftrightarrow> j < length ns" "tl (drop j ns) = drop (j + 1) ns" by (auto simp: drop_Suc tl_drop)
  have h: "hd (drop j ns) = ns ! j" if "j < length ns" using that by (simp add: hd_drop_conv_nth)
  show ?thesis
  proof (cases "ps ! i = ''**''")
    case True
    have "glob_spec pm (drop i ps) (drop j ns) \<longleftrightarrow> glob_spec pm (drop (i + 1) ps) (drop j ns)
        \<or> (j < length ns \<and> glob_spec pm (drop i ps) (drop (j + 1) ns))"
      using glob_spec_star [of pm "drop (i + 1) ps" "drop j ns"] unfolding n d True by simp
    with True show ?thesis by (simp add: glob_at_def)
  next
    case False
    then have "glob_spec pm (drop i ps) (drop j ns) \<longleftrightarrow>
        j < length ns \<and> pm (ps ! i) (ns ! j) \<and> glob_spec pm (drop (i + 1) ps) (drop (j + 1) ns)"
      unfolding d glob_spec.simps n using h by auto
    with False show ?thesis by (simp add: glob_at_def)
  qed
qed

definition fruitless :: "(string \<Rightarrow> string \<Rightarrow> bool) \<Rightarrow> string list \<Rightarrow> string list \<Rightarrow> (nat \<times> nat) list \<Rightarrow> (nat \<times> nat) list \<Rightarrow> bool" where
  \<comment> \<open>the positions added to \<^verbatim>\<open>seen\<close> do not match\<close>
  "fruitless pm ps ns seen seen' \<longleftrightarrow> (\<forall>ij \<in> set seen' - set seen. \<not> glob_at pm ps ns ij)"

lemma dead_ends_fruitless: "dead_ends pm ps ns k seen \<Longrightarrow> fruitless pm ps ns seen seen' \<Longrightarrow> dead_ends pm ps ns k seen'"
  by (auto simp: dead_ends_def fruitless_def)

lemma glob_match_correct:
  assumes "i \<le> length ps" "j \<le> length ns" "dead_ends pm ps ns (i + j) seen" "grid ps ns seen"
  shows "fst (glob_match pm ps ns i j seen) = glob_at pm ps ns (i, j)
    \<and> (\<not> glob_at pm ps ns (i, j) \<longrightarrow> fruitless pm ps ns seen (snd (glob_match pm ps ns i j seen)))
    \<and> grid ps ns (snd (glob_match pm ps ns i j seen))"
  using assms
proof (induction pm ps ns i j seen rule: glob_match.induct)
  case (1 pm ps ns i j seen)
  note simps = glob_match.simps [of pm ps ns i j seen]
  let ?at = "glob_at pm ps ns" and ?s0 = "(i, j) # seen"
  consider (seen) "(i, j) \<in> set seen" | (over) "(i, j) \<notin> set seen" "length ps \<le> i"
    | (star) "(i, j) \<notin> set seen" "\<not> length ps \<le> i" "ps ! i = ''**''"
    | (part) "(i, j) \<notin> set seen" "\<not> length ps \<le> i" "ps ! i \<noteq> ''**''" by blast
  then show ?case
  proof cases
    case seen
    with 1(4-) show ?thesis by (auto simp: simps dead_ends_def fruitless_def)
  next
    case over
    then have "?at (i, j) \<longleftrightarrow> j = length ns" using 1(5) by (auto simp: glob_at_def)
    with over 1(4-) show ?thesis by (auto simp: simps fruitless_def grid_def)
  next
    case star
    have step: "?at (i, j) \<longleftrightarrow> ?at (i + 1, j) \<or> (j < length ns \<and> ?at (i, j + 1))"
      using glob_at_step [of i ps j ns pm] star 1(5) by simp
    have g: "grid ps ns ?s0" using 1(4,5,7) star by (auto simp: grid_def)
    have d: "dead_ends pm ps ns (i + 1 + j) ?s0" using dead_ends_Cons [OF 1(6)] by simp
    obtain b1 s1 where c1: "glob_match pm ps ns (i + 1) j ?s0 = (b1, s1)" by (cases "glob_match pm ps ns (i + 1) j ?s0")
    from 1(1) [OF star] star d g 1(5) c1 have r1: "b1 = ?at (i + 1, j)" "\<not> b1 \<longrightarrow> fruitless pm ps ns ?s0 s1" "grid ps ns s1" by auto
    show ?thesis
    proof (cases "\<not> b1 \<and> j < length ns")
      case True
      have d1: "dead_ends pm ps ns (i + (j + 1)) s1" using dead_ends_fruitless [OF d] r1(2) True by simp
      from 1(2) [OF star c1 [symmetric]] True d1 r1(3) 1(4) have r2:
        "fst (glob_match pm ps ns i (j + 1) s1) = ?at (i, j + 1)"
        "\<not> ?at (i, j + 1) \<longrightarrow> fruitless pm ps ns s1 (snd (glob_match pm ps ns i (j + 1) s1))"
        "grid ps ns (snd (glob_match pm ps ns i (j + 1) s1))" by auto
      have "glob_match pm ps ns i j seen = glob_match pm ps ns i (j + 1) s1" using star c1 True by (simp add: simps)
      with r1 r2 step True show ?thesis by (auto simp: fruitless_def)
    next
      case False
      then have "glob_match pm ps ns i j seen = (b1, s1)" using star c1 by (auto simp: simps split: bool.splits)
      with r1 step False show ?thesis by (auto simp: fruitless_def)
    qed
  next
    case part
    have step: "?at (i, j) \<longleftrightarrow> j < length ns \<and> pm (ps ! i) (ns ! j) \<and> ?at (i + 1, j + 1)"
      using glob_at_step [of i ps j ns pm] part 1(5) by simp
    have g: "grid ps ns ?s0" using 1(4,5,7) part by (auto simp: grid_def)
    show ?thesis
    proof (cases "j < length ns \<and> pm (ps ! i) (ns ! j)")
      case True
      have d: "dead_ends pm ps ns (i + 1 + (j + 1)) ?s0" using 1(6) by (auto simp: dead_ends_def)
      have "glob_match pm ps ns i j seen = glob_match pm ps ns (i + 1) (j + 1) ?s0" using part True by (simp add: simps)
      with 1(3) [OF part] True d g part step show ?thesis by (auto simp: fruitless_def)
    next
      case False
      then have "glob_match pm ps ns i j seen = (False, ?s0)" using part by (auto simp: simps)
      with False step g show ?thesis by (auto simp: fruitless_def)
    qed
  qed
qed

text \<open>C16. The memoised matcher decides the meaning of a pattern and visits every pair of positions at most once:
  for every matcher of single segments, a path matches a pattern with slashes exactly when its segments can be
  split so that each \<^verbatim>\<open>**\<close> takes any number of them and every other part one that it matches; and the table of
  visited pairs has at most one entry per pair.\<close>

theorem memoised_glob_is_exact:
  "(str_contains pattern ''/'' \<longrightarrow> globMatches pm pattern path name =
      glob_spec (\<lambda>p n. fst (pm p n)) (split_char (CHR ''/'') pattern) (split_char (CHR ''/'') path))
   \<and> length (snd (glob_match m ps ns 0 0 [])) \<le> Suc (length ps) * Suc (length ns)"
proof -
  have start: "dead_ends m ps ns (0 + 0) []" "grid ps ns []" for m ps ns
    by (simp_all add: dead_ends_def grid_def)
  note c = glob_match_correct [OF _ _ start, simplified]
  have "grid ps ns (snd (glob_match m ps ns 0 0 []))" using c by blast
  then have "distinct (snd (glob_match m ps ns 0 0 []))" "set (snd (glob_match m ps ns 0 0 [])) \<subseteq> {0..length ps} \<times> {0..length ns}"
    by (simp_all add: grid_def)
  then have "length (snd (glob_match m ps ns 0 0 [])) \<le> card ({0..length ps} \<times> {0..length ns})"
    by (metis card_mono distinct_card finite_SigmaI finite_atLeastAtMost)
  then have "length (snd (glob_match m ps ns 0 0 [])) \<le> Suc (length ps) * Suc (length ns)" by simp
  with c show ?thesis by (simp add: globMatches_def glob_at_def)
qed

definition demo_segment :: "string \<Rightarrow> string \<Rightarrow> bool \<times> bool" where
  \<comment> \<open>\<^verbatim>\<open>path.Match\<close> on patterns without special characters\<close>
  "demo_segment p n = (p = n, False)"

theorem memoised_glob_is_exact_witness:
  "globMatches demo_segment ''**/b'' ''a/x/b'' ''b'' = glob_spec (\<lambda>p n. p = n) [''**'', ''b''] [''a'', ''x'', ''b'']"
proof -
  have "str_contains ''**/b'' ''/''" "split_char (CHR ''/'') ''**/b'' = [''**'', ''b'']"
    "split_char (CHR ''/'') ''a/x/b'' = [''a'', ''x'', ''b'']" by code_simp+
  with memoised_glob_is_exact [of "''**/b''" demo_segment "''a/x/b''" "''b''" "\<lambda>_ _. True" "[]" "[]"]
  show ?thesis by (simp add: demo_segment_def)
qed

section \<open>What a search visits\<close>

datatype verdict = Found "string list" | Skipped | Broken string

fun items :: "(fspath \<Rightarrow> bool) \<Rightarrow> fspath \<Rightarrow> fsnode \<Rightarrow> (fspath \<times> fsnode) list"
  and entry_items :: "(fspath \<Rightarrow> bool) \<Rightarrow> fspath \<Rightarrow> (string \<times> fsnode) list \<Rightarrow> (fspath \<times> fsnode) list" where
  \<comment> \<open>the files and the unreadable directories below a node that are not inside a pruned directory, in order\<close>
  "items prune path (FFile c) = [(path, FFile c)]"
| "items prune path (FDir e es) =
     (if prune path then [] else (if e = None then [] else [(path, FDir e es)]) @ entry_items prune path es)"
| "entry_items prune path [] = []"
| "entry_items prune path ((name, n) # es) = items prune (path @ [name]) n @ entry_items prune path es"

definition apply_verdict :: "nat \<Rightarrow> verdict \<Rightarrow> tally \<Rightarrow> action \<times> tally" where
  "apply_verdict cap v st =
     (case v of Found xs \<Rightarrow> (Continue, fold (add_match cap) xs st) | Skipped \<Rightarrow> (Continue, skip_one st) | Broken m \<Rightarrow> (Fail m, st))"

fun run_items :: "nat \<Rightarrow> (fspath \<Rightarrow> fsnode \<Rightarrow> verdict) \<Rightarrow> (fspath \<times> fsnode) list \<Rightarrow> tally \<Rightarrow> action \<times> tally" where
  "run_items cap judge [] st = (Continue, st)"
| "run_items cap judge ((p, n) # xs) st =
     (case apply_verdict cap (judge p n) st of
        (Continue, st1) \<Rightarrow> run_items cap judge xs st1
      | (a, st1) \<Rightarrow> (a, st1))"

lemma run_items_append:
  "run_items cap judge (xs @ ys) st = (case run_items cap judge xs st of (Continue, st1) \<Rightarrow> run_items cap judge ys st1 | r \<Rightarrow> r)"
  by (induction cap judge xs st rule: run_items.induct) (auto split: prod.splits action.splits)

lemma apply_verdict_no_skip: "apply_verdict cap v st \<noteq> (SkipDir, st')"
  by (cases v) (auto simp: apply_verdict_def)

lemma run_items_no_skip: "run_items cap judge xs st \<noteq> (SkipDir, st')"
proof (induction cap judge xs st rule: run_items.induct)
  case (2 cap judge p n xs st)
  then show ?case using apply_verdict_no_skip [of cap "judge p n" st] by (auto split: prod.splits action.splits)
qed simp

lemma add_matches:
  "length (ta_matches st) \<le> cap \<Longrightarrow> fold (add_match cap) xs st =
     st\<lparr>ta_matches := take cap (ta_matches st @ xs), ta_total := ta_total st + length xs\<rparr>"
proof (induction xs arbitrary: st)
  case (Cons x xs)
  then show ?case by (cases "length (ta_matches st) < cap") (auto simp: add_match_def take_Cons')
qed simp

fun found :: "verdict \<Rightarrow> string list" where
  "found (Found xs) = xs"
| "found _ = []"

lemma run_items_result:
  assumes "\<forall>(p, n) \<in> set xs. \<forall>m. judge p n \<noteq> Broken m" "length (ta_matches st) \<le> cap"
  shows "run_items cap judge xs st = (Continue,
     st\<lparr>ta_matches := take cap (ta_matches st @ concat (map (\<lambda>(p, n). found (judge p n)) xs)),
        ta_total := ta_total st + length (concat (map (\<lambda>(p, n). found (judge p n)) xs)),
        ta_skipped := ta_skipped st + length (filter (\<lambda>(p, n). judge p n = Skipped) xs)\<rparr>)"
  using assms
proof (induction xs arbitrary: st)
  case (Cons x xs)
  obtain p n where x: "x = (p, n)" by force
  show ?case
  proof (cases "judge p n")
    case (Found ys)
    let ?st = "st\<lparr>ta_matches := take cap (ta_matches st @ ys), ta_total := ta_total st + length ys\<rparr>"
    have "apply_verdict cap (judge p n) st = (Continue, ?st)"
      using Cons(3) by (simp add: Found apply_verdict_def add_matches)
    moreover have "take cap (take cap (ta_matches st @ ys) @ zs) = take cap (ta_matches st @ ys @ zs)" for zs
      by (cases "cap \<le> length (ta_matches st @ ys)") (auto simp: min_def)
    ultimately show ?thesis using Cons.IH [of ?st] Cons(2) by (simp add: x Found)
  next
    case Skipped
    then show ?thesis using Cons.IH [of "skip_one st"] Cons(2,3) by (simp add: x apply_verdict_def skip_one_def)
  next
    case (Broken m)
    with Cons(2) x show ?thesis by auto
  qed
qed simp

text \<open>The contract of a search callback: directories are pruned by a predicate on their path, and a file or an
  unreadable directory is judged from its path and node alone.  Walking then is a pass over the visited
  items, whatever the shape of the tree.\<close>

locale tree_search =
  fixes visit :: "tally visitor" and prune :: "fspath \<Rightarrow> bool" and judge :: "fspath \<Rightarrow> fsnode \<Rightarrow> verdict" and cap :: nat
  assumes visit_dir: "visit path (FDir e es) None st = (if prune path then SkipDir else Continue, st)"
    and visit_unreadable: "visit path (FDir (Some x) es) (Some x) st = apply_verdict cap (judge path (FDir (Some x) es)) st"
    and visit_file: "visit path (FFile c) None st = apply_verdict cap (judge path (FFile c)) st"
begin

lemma walk_items_of:
  "fn = visit \<Longrightarrow> walkDir fn path n st = run_items cap judge (items prune path n) st"
  "fn = visit \<Longrightarrow> walkEntries fn path es st = run_items cap judge (entry_items prune path es) st"
proof (induction fn path n st and fn path es st rule: walkDir_walkEntries.induct)
  case (1 fn path c st)
  then show ?case using apply_verdict_no_skip by (auto simp: visit_file split: prod.splits action.splits)
next
  case (2 fn path e es st)
  show ?case
  proof (cases "prune path")
    case True
    with 2(3) show ?thesis by (simp add: visit_dir)
  next
    case False
    show ?thesis
    proof (cases e)
      case None
      with 2 False show ?thesis by (simp add: visit_dir)
    next
      case (Some x)
      obtain a st1 where v: "apply_verdict cap (judge path (FDir e es)) st = (a, st1)" by (cases "apply_verdict cap (judge path (FDir e es)) st")
      with apply_verdict_no_skip have "a \<noteq> SkipDir" by metis
      with 2 False Some v show ?thesis by (cases a) (simp_all add: visit_dir visit_unreadable)
    qed
  qed
next
  case (4 fn path name n es st)
  obtain a st1 where r: "run_items cap judge (items prune (path @ [name]) n) st = (a, st1)"
    by (cases "run_items cap judge (items prune (path @ [name]) n) st")
  with run_items_no_skip have "a \<noteq> SkipDir" by metis
  with 4 r show ?case by (cases a) (simp_all add: run_items_append)
qed simp

lemmas walk_items = walk_items_of [OF refl]

lemma search_complete:
  assumes "\<forall>(p, n) \<in> set (items prune [] tree). \<forall>m. judge p n \<noteq> Broken m"
  shows "WalkDir visit tree no_tally = Ok
    \<lparr>ta_matches = take cap (concat (map (\<lambda>(p, n). found (judge p n)) (items prune [] tree))),
     ta_total = length (concat (map (\<lambda>(p, n). found (judge p n)) (items prune [] tree))),
     ta_skipped = length (filter (\<lambda>(p, n). judge p n = Skipped) (items prune [] tree))\<rparr>"
  using run_items_result [OF assms, of no_tally cap] by (simp add: WalkDir_def walk_items no_tally_def)

end

section \<open>The two searches\<close>

definition error_verdict :: "fspath \<Rightarrow> fserr \<Rightarrow> verdict" where
  "error_verdict path x = (if path \<noteq> [] \<and> x = ErrPermission then Skipped else Broken (err_text x))"

lemma walk_error_verdict: "walk_error path x st = apply_verdict cap (error_verdict path x) st"
  by (simp add: walk_error_def error_verdict_def apply_verdict_def)

definition uncancelled :: "match_env \<Rightarrow> match_env" where
  "uncancelled E = E\<lparr>me_Cancelled := (\<lambda>_. None)\<rparr>"

definition find_judge :: "match_env \<Rightarrow> string \<Rightarrow> fspath \<Rightarrow> fsnode \<Rightarrow> verdict" where
  "find_judge E pattern path n =
     (case n of FDir e _ \<Rightarrow> (case e of None \<Rightarrow> Found [] | Some x \<Rightarrow> error_verdict path x)
      | FFile _ \<Rightarrow> Found (if globMatches (me_Match E) pattern (rel_path path) (entry_name E path) then [me_Rel E path] else []))"

definition search_judge :: "match_env \<Rightarrow> grepTool \<Rightarrow> (string \<Rightarrow> bool) \<Rightarrow> string \<Rightarrow> fspath \<Rightarrow> fsnode \<Rightarrow> verdict" where
  "search_judge E cfg re glob path n =
     (case n of FDir e _ \<Rightarrow> (case e of None \<Rightarrow> Found [] | Some x \<Rightarrow> error_verdict path x)
      | FFile content \<Rightarrow>
          if glob \<noteq> [] \<and> \<not> fst (me_Match E glob (entry_name E path)) then Found []
          else case content of Inr x \<Rightarrow> error_verdict path x | Inl text \<Rightarrow> Found (file_matches E cfg re path text))"

lemma uncancelled_simps [simp]:
  "me_Cancelled (uncancelled E) p = None" "me_Match (uncancelled E) = me_Match E" "me_Rel (uncancelled E) = me_Rel E"
  "me_Abs (uncancelled E) = me_Abs E" "me_Base (uncancelled E) = me_Base E" "me_Parts (uncancelled E) = me_Parts E"
  by (simp_all add: uncancelled_def)

interpretation finding: tree_search "find_visit (uncancelled E) skipRoots pattern" "find_prune (uncancelled E) skipRoots"
  "find_judge (uncancelled E) pattern" globMaxResults for E skipRoots pattern
proof
  show "find_visit (uncancelled E) skipRoots pattern path (FFile c) None st
      = apply_verdict globMaxResults (find_judge (uncancelled E) pattern path (FFile c)) st" for path c st
    by (simp add: find_visit_def find_judge_def apply_verdict_def)
qed (simp_all add: find_visit_def find_judge_def walk_error_verdict)

definition search_prune :: "string list \<Rightarrow> fspath \<Rightarrow> bool" where
  "search_prune ignored path \<longleftrightarrow> path \<noteq> [] \<and> last path \<in> set ignored"

interpretation searching: tree_search "search_visit (uncancelled E) cfg ignored re glob" "search_prune ignored"
  "search_judge (uncancelled E) cfg re glob" "gt_MaxMatches cfg" for E cfg ignored re glob
proof
  show "search_visit (uncancelled E) cfg ignored re glob path (FFile c) None st
      = apply_verdict (gt_MaxMatches cfg) (search_judge (uncancelled E) cfg re glob path (FFile c)) st" for path c st
    by (cases c) (simp_all add: search_visit_def search_judge_def apply_verdict_def
        walk_error_verdict [where cap = "gt_MaxMatches cfg", unfolded apply_verdict_def])
qed (simp_all add: search_visit_def search_judge_def search_prune_def walk_error_verdict)

definition text_of :: "string + fserr \<Rightarrow> string" where
  "text_of c = (case c of Inl text \<Rightarrow> text | Inr _ \<Rightarrow> [])"

definition visible_files :: "(fspath \<Rightarrow> bool) \<Rightarrow> fsnode \<Rightarrow> (fspath \<times> (string + fserr)) list" where
  "visible_files prune tree = concat (map (\<lambda>(p, n). case n of FFile c \<Rightarrow> [(p, c)] | FDir _ _ \<Rightarrow> []) (items prune [] tree))"

definition readable :: "(fspath \<Rightarrow> bool) \<Rightarrow> fsnode \<Rightarrow> bool" where
  \<comment> \<open>every visited directory and file can be read\<close>
  "readable prune tree \<longleftrightarrow> (\<forall>(p, n) \<in> set (items prune [] tree). case n of FFile c \<Rightarrow> \<exists>text. c = Inl text | FDir _ _ \<Rightarrow> False)"

lemma readable_pass:
  assumes "readable prune tree" "\<And>p text. judge p (FFile (Inl text)) = Found (f p text)"
  shows "\<forall>(p, n) \<in> set (items prune [] tree). \<forall>m. judge p n \<noteq> Broken m"
    "concat (map (\<lambda>(p, n). found (judge p n)) (items prune [] tree))
       = concat (map (\<lambda>(p, c). f p (text_of c)) (visible_files prune tree))"
    "filter (\<lambda>(p, n). judge p n = Skipped) (items prune [] tree) = []"
proof -
  let ?xs = "items prune [] tree"
  have n: "\<exists>text. n = FFile (Inl text)" if "(p, n) \<in> set ?xs" for p n
    using assms(1) that unfolding readable_def by (fastforce split: fsnode.splits)
  show "\<forall>(p, n) \<in> set ?xs. \<forall>m. judge p n \<noteq> Broken m" using n assms(2) by fastforce
  show "filter (\<lambda>(p, n). judge p n = Skipped) ?xs = []" using n assms(2) by (fastforce simp: filter_empty_conv)
  have "concat (map (\<lambda>(p, n). found (judge p n)) xs) = concat (map (\<lambda>(p, c). f p (text_of c))
      (concat (map (\<lambda>(p, n). case n of FFile c \<Rightarrow> [(p, c)] | FDir _ _ \<Rightarrow> []) xs)))"
    if "\<forall>(p, n) \<in> set xs. \<exists>text. n = FFile (Inl text)" for xs
    using that by (induction xs) (auto simp: assms(2) text_of_def)
  from this [of ?xs] n show "concat (map (\<lambda>(p, n). found (judge p n)) ?xs)
       = concat (map (\<lambda>(p, c). f p (text_of c)) (visible_files prune tree))"
    unfolding visible_files_def by blast
qed

text \<open>C24. The searches are complete: on a tree whose visited entries can be read, and without cancellation,
  \<^verbatim>\<open>find_files\<close> reports the matching files outside the pruned directories, and \<^verbatim>\<open>search_text\<close> the matching lines of
  the selected files there, in walk order up to the limit, together with the true total.\<close>

theorem searches_are_complete:
  assumes "readable (find_prune E skipRoots) tree" "readable (search_prune ignored) tree" "\<And>p. me_Cancelled E p = None"
  shows "(let hits = [me_Rel E p. (p, c) \<leftarrow> visible_files (find_prune E skipRoots) tree,
                        globMatches (me_Match E) pattern (rel_path p) (entry_name E p)]
      in WalkDir (find_visit E skipRoots pattern) tree no_tally
         = Ok \<lparr>ta_matches = take 200 hits, ta_total = length hits, ta_skipped = 0\<rparr>)
   \<and> (let hits = concat [file_matches E cfg re p (text_of c). (p, c) \<leftarrow> visible_files (search_prune ignored) tree,
                        glob = [] \<or> fst (me_Match E glob (entry_name E p))]
      in WalkDir (search_visit E cfg ignored re glob) tree no_tally
         = Ok \<lparr>ta_matches = take (gt_MaxMatches cfg) hits, ta_total = length hits, ta_skipped = 0\<rparr>)"
proof -
  have E: "uncancelled E = E" using assms(3) by (simp add: uncancelled_def fun_eq_iff)
  let ?f = "\<lambda>p text. if globMatches (me_Match E) pattern (rel_path p) (entry_name E p) then [me_Rel E p] else []"
  let ?g = "\<lambda>p text. if glob = [] \<or> fst (me_Match E glob (entry_name E p)) then file_matches E cfg re p text else []"
  have f: "find_judge E pattern p (FFile (Inl text)) = Found (?f p text)" for p "text"
    by (simp add: find_judge_def)
  have g: "search_judge E cfg re glob p (FFile (Inl text)) = Found (?g p text)" for p "text"
    by (auto simp: search_judge_def)
  have flat: "concat (map (\<lambda>(p, c). ?g p (text_of c)) xs) = concat [file_matches E cfg re p (text_of c). (p, c) \<leftarrow> xs,
      glob = [] \<or> fst (me_Match E glob (entry_name E p))]" for xs :: "(fspath \<times> (string + fserr)) list"
    by (induction xs) auto
  note rf = readable_pass [where judge = "find_judge E pattern", OF assms(1) f]
    and rg = readable_pass [where judge = "search_judge E cfg re glob", OF assms(2) g]
  show ?thesis
    using finding.search_complete [of E skipRoots tree pattern, unfolded E, OF rf(1)]
      searching.search_complete [of ignored tree E cfg re glob, unfolded E, OF rg(1)]
    unfolding rf(2,3) rg(2,3) flat globMaxResults_def by (simp add: Let_def)
qed

definition demo_tree :: fsnode where
  "demo_tree = FDir None [(''.git'', FDir (Some ErrPermission) []), (''a'', FFile (Inl ''x'')), (''d'', FDir None [(''b'', FFile (Inl ''y''))])]"

definition demo_env :: match_env where
  "demo_env = \<lparr>me_Match = demo_segment, me_Abs = str_join ''/'', me_Rel = str_join ''/'', me_Base = ''root'',
     me_Parts = split_char (CHR ''/''), me_Cancelled = (\<lambda>_. None)\<rparr>"

lemma demo_search:
  "items (find_prune demo_env []) [] demo_tree = [([''a''], FFile (Inl ''x'')), ([''d'', ''b''], FFile (Inl ''y''))]"
  "items (search_prune [''.git'']) [] demo_tree = [([''a''], FFile (Inl ''x'')), ([''d'', ''b''], FFile (Inl ''y''))]"
  "globMatches demo_segment ''d/b'' ''a'' ''a'' = False" "globMatches demo_segment ''d/b'' ''d/b'' ''b''"
  by code_simp+

theorem searches_are_complete_witness:
  "WalkDir (find_visit demo_env [] ''d/b'') demo_tree no_tally = Ok \<lparr>ta_matches = [''d/b''], ta_total = 1, ta_skipped = 0\<rparr>"
proof -
  have "readable (find_prune demo_env []) demo_tree" "readable (search_prune [''.git'']) demo_tree"
    by (simp_all add: readable_def demo_search)
  from searches_are_complete [OF this, of "''d/b''"] show ?thesis
    using demo_search by (simp add: visible_files_def Let_def rel_path_def entry_name_def demo_env_def)
qed

end
