(* ===== verification/Tool_Window.thy ===== *)
theory Tool_Window
  imports Tool_Exec Byte_Window Flight
begin

text \<open>
  Fitting a tool result into the model's context (\<^verbatim>\<open>internal/agent/tool_window.go\<close>): a window of a file or a
  fetched page that has more tokens than are left is read again with a smaller limit, found by bisection, or
  replaced by an error that tells the model how to retry.

  Reading the file again and counting tokens are arguments: \<open>repeat\<close> is \<^verbatim>\<open>repeatReadFile\<close> for the session and
  the identity of the call, \<open>count\<close> is \<^verbatim>\<open>textTokens\<close>.  Both are functions of their argument alone, so the file
  and the tokenizer do not change while one result is being fitted.
\<close>

section \<open>Numbers in a window header\<close>

definition scan_int :: "string \<Rightarrow> int option" where
  \<comment> \<open>\<^verbatim>\<open>fmt.Sscanf(value, "%d", &parsed)\<close> for a value without leading white space: an optional sign and the
     longest run of digits; more text may follow; an error on no digits or on overflow\<close>
  "scan_int s =
     (let signed = (s \<noteq> [] \<and> (hd s = CHR ''-'' \<or> hd s = CHR ''+''));
          digits = takeWhile is_digit (if signed then tl s else s);
          v = (if signed \<and> hd s = CHR ''-'' then - int (dec_val digits) else int (dec_val digits))
      in if digits = [] \<or> \<not> in_int64 v then None else Some v)"

definition field_int :: "string \<Rightarrow> string \<Rightarrow> int option" where
  \<comment> \<open>one field of the header: \<^verbatim>\<open>strings.Cut(strings.TrimSuffix(field, "]"), "=")\<close> and the scan\<close>
  "field_int key field =
     (let f = trim_suffix field '']''; name = takeWhile (\<lambda>c. c \<noteq> CHR ''='') f in
      if CHR ''='' \<in> set f \<and> name = key then scan_int (drop (Suc (length name)) f) else None)"

definition first_int :: "string \<Rightarrow> string list \<Rightarrow> int" where
  \<comment> \<open>the loop over the fields\<close>
  "first_int key fs = (case List.map_filter (field_int key) fs of [] \<Rightarrow> 0 | v # _ \<Rightarrow> v)"

definition headerInteger :: "string \<Rightarrow> string \<Rightarrow> int" where
  "headerInteger content key = first_int key (str_fields (trim_set ''[]'' (takeWhile (\<lambda>c. c \<noteq> LF) content)))"

fun integerArgument :: "gval \<Rightarrow> int \<Rightarrow> int" where
  "integerArgument (GInt n) fallback = n"
| "integerArgument (GFloat q) fallback = trunc_rat q"
| "integerArgument _ fallback = fallback"

section \<open>The bisection\<close>

record clampMode =
  cm_field :: string
  cm_unit :: string
  cm_cursor :: string
  cm_requested :: int

definition clamp_mode :: "readFileTool \<Rightarrow> gmap \<Rightarrow> clampMode" where
  "clamp_mode cfg args =
     (if ghas args ''line''
      then \<lparr>cm_field = ''lines'', cm_unit = ''lines'', cm_cursor = ''next_line'',
            cm_requested = min (integerArgument (gget args ''lines'') 200) 2000\<rparr>
      else \<lparr>cm_field = ''limit'', cm_unit = ''bytes'', cm_cursor = ''next_offset'',
            cm_requested = min (integerArgument (gget args ''limit'') (rf_DefaultLimit cfg)) (rf_MaxLimit cfg)\<rparr>)"

record clampBest =
  cb_content :: string
  cb_tokens :: int
  cb_limit :: int
  cb_remaining :: int
  cb_next :: int

definition clamp_note :: "clampMode \<Rightarrow> int \<Rightarrow> int \<Rightarrow> int \<Rightarrow> string" where
  "clamp_note M returned remaining nxt =
     ''[context clamp: requested_'' @ cm_unit M @ ''='' @ itoa (cm_requested M)
       @ '' returned_'' @ cm_unit M @ ''='' @ itoa returned @ '' remaining_'' @ cm_unit M @ ''='' @ itoa remaining
       @ (if 0 < nxt then '' '' @ cm_cursor M @ ''='' @ itoa nxt else []) @ '']'' @ [LF]"

definition clamp_candidate :: "(string \<Rightarrow> int) \<Rightarrow> clampMode \<Rightarrow> string \<Rightarrow> int \<Rightarrow> clampBest" where
  \<comment> \<open>the annotated result of one read with the given limit, and its size\<close>
  "clamp_candidate count M content limit =
     (let lines = (cm_unit M = ''lines'');
          returned = headerInteger content (cm_unit M);
          total = headerInteger content (if lines then ''total_lines'' else ''total'');
          start = headerInteger content (if lines then ''line'' else ''offset'');
          nxt = headerInteger content (cm_cursor M);
          remaining = max 0 (wrap64 (total - wrap64 (start - 1 + returned)));
          body = clamp_note M returned remaining nxt @ content
      in \<lparr>cb_content = body, cb_tokens = count body, cb_limit = limit, cb_remaining = remaining, cb_next = nxt\<rparr>)"

function clamp_loop ::
  "(gmap \<Rightarrow> string \<times> bool) \<Rightarrow> (string \<Rightarrow> int) \<Rightarrow> clampMode \<Rightarrow> gmap \<Rightarrow> int \<Rightarrow> int \<Rightarrow> int \<Rightarrow> clampBest option
     \<Rightarrow> clampBest option option" where
  \<comment> \<open>\<open>None\<close>: a read failed; \<open>Some b\<close>: the best candidate, if any fits\<close>
  "clamp_loop repeat count M args available low high best =
     (if high < low then Some best
      else let limit = low + (high - low) div 2;
               (content, ok) = repeat (gput args (cm_field M) (GInt limit));
               c = clamp_candidate count M content limit
           in if \<not> ok then None
              else if cb_tokens c \<le> available
              then clamp_loop repeat count M args available (limit + 1) high (Some c)
              else clamp_loop repeat count M args available low (limit - 1) best)"
  by pat_completeness auto
termination
  by (relation "measure (\<lambda>(r, c, M, a, av, low, high, b). nat (high + 1 - low))") auto

declare clamp_loop.simps [simp del]

definition clamp_metadata :: "clampMode \<Rightarrow> gmap \<Rightarrow> clampBest \<Rightarrow> gmap" where
  "clamp_metadata M metadata b =
     (let m1 = gput metadata ''result_clamped'' (GBool True);
          m2 = gput m1 (''requested_'' @ cm_field M) (GInt (cm_requested M));
          m3 = gput m2 (''returned_'' @ cm_field M) (GInt (cb_limit b));
          m4 = gput m3 (''remaining_'' @ cm_unit M) (GInt (cb_remaining b))
      in if 0 < cb_next b then gput m4 (cm_cursor M) (GInt (cb_next b)) else m4)"

definition clampReadFileResult ::
  "(gmap \<Rightarrow> string \<times> bool) \<Rightarrow> (string \<Rightarrow> int) \<Rightarrow> readFileTool \<Rightarrow> gmap \<Rightarrow> gmap \<Rightarrow> int \<Rightarrow> (string \<times> gmap \<times> int) option" where
  "clampReadFileResult repeat count cfg args metadata available =
     (let M = clamp_mode cfg args in
      if cm_requested M < 1 then None
      else case clamp_loop repeat count M args available 1 (cm_requested M) None of
          Some (Some b) \<Rightarrow> Some (cb_content b, clamp_metadata M metadata b, cb_tokens b)
        | _ \<Rightarrow> None)"

section \<open>Fitting a result\<close>

record windowCfg =
  wc_ReadFile :: readFileTool
  wc_FetchDefaultLimit :: int
  wc_ServiceBodyKB :: "string \<rightharpoonup> int"

definition repeatReadFile :: "exec_env \<Rightarrow> bool \<Rightarrow> gmap \<Rightarrow> string \<times> bool" where
  "repeatReadFile E operatorContext args =
     (if operatorContext then env_CallAsOperator E ''read_file'' args
      else (co_Content (env_CallDetailed E ''read_file'' args), co_OK (env_CallDetailed E ''read_file'' args)))"

definition windowed_tool :: "string \<Rightarrow> bool" where
  "windowed_tool name \<longleftrightarrow> name = ''read_file'' \<or> name = ''fetch_url'' \<or> name = ''call_service''"

definition retry_limit :: "windowCfg \<Rightarrow> string \<Rightarrow> gmap \<Rightarrow> int" where
  \<comment> \<open>the limit the model is told to stay below; \<^verbatim>\<open>/\<close> rounds towards zero\<close>
  "retry_limit W name args =
     (let defaultLimit =
            (if name = ''fetch_url'' then wc_FetchDefaultLimit W
             else if name = ''call_service'' then
               (case wc_ServiceBodyKB W (str_or_empty (gget args ''service'')) of
                  Some kb \<Rightarrow> wrap64 (kb * 2 ^ 10) | None \<Rightarrow> rf_DefaultLimit (wc_ReadFile W))
             else rf_DefaultLimit (wc_ReadFile W));
          requested = integerArgument (gget args ''limit'') defaultLimit;
          half = (if requested < 0 then - (- requested div 2) else requested div 2);
          capped = (if 0 < defaultLimit \<and> defaultLimit < half then defaultLimit else half)
      in if capped < 1 then 1 else capped)"

definition batch_message :: "int \<Rightarrow> int \<Rightarrow> string" where
  "batch_message resultTokens available =
     ''error: read_file returned a windows batch too large for the current model context ('' @ itoa resultTokens
       @ '' tokens; '' @ itoa available @ '' available before the output reserve). Retry read_file with fewer or smaller windows.''"

definition retry_message :: "string \<Rightarrow> int \<Rightarrow> int \<Rightarrow> int \<Rightarrow> int \<Rightarrow> string" where
  "retry_message name resultTokens available offset limit =
     ''error: '' @ name @ '' returned a window too large for the current model context ('' @ itoa resultTokens
       @ '' tokens; '' @ itoa available @ '' available before the output reserve). Retry '' @ name @ '' with the same offset=''
       @ itoa offset @ '' and limit no greater than '' @ itoa limit
       @ ''. Do not advance to next_offset until this window is read.''"

definition too_large :: "gmap \<Rightarrow> int \<Rightarrow> int \<Rightarrow> gmap" where
  "too_large metadata resultTokens available =
     gput (gput (gput metadata ''result_too_large'' (GBool True)) ''original_result_tokens'' (GInt resultTokens))
       ''result_token_limit'' (GInt available)"

definition fitWindowResult ::
  "windowCfg \<Rightarrow> (gmap \<Rightarrow> string \<times> bool) \<Rightarrow> (string \<Rightarrow> int) \<Rightarrow> bool \<Rightarrow> string \<Rightarrow> gmap \<Rightarrow> string \<Rightarrow> bool \<Rightarrow> gmap \<Rightarrow> int \<Rightarrow> int
     \<Rightarrow> string \<times> bool \<times> gmap \<times> int" where
  \<comment> \<open>the fourth argument says whether there is a session to read in\<close>
  "fitWindowResult W repeat count hasSession name args content ok metadata resultTokens available =
     (let batch = ghas args ''windows''; offset = integerArgument (gget args ''offset'') 1;
          limit = retry_limit W name args; message = retry_message name resultTokens available offset limit;
          retry = (message, False,
             gput (gput (too_large metadata resultTokens available) ''retry_offset'' (GInt offset)) ''retry_limit'' (GInt limit),
             count message)
      in if \<not> ok \<or> \<not> windowed_tool name \<or> available < 1 \<or> resultTokens \<le> available then (content, ok, metadata, resultTokens)
         else if name = ''read_file'' \<and> hasSession then
           if batch then (batch_message resultTokens available, False,
               gput (too_large metadata resultTokens available) ''retry_windows'' (GStr ''fewer_or_smaller''),
               count (batch_message resultTokens available))
           else (case clampReadFileResult repeat count (wc_ReadFile W) args metadata available of
               Some (clamped, meta, tokens) \<Rightarrow> (clamped, True, meta, tokens)
             | None \<Rightarrow> retry)
         else retry)"


section \<open>The bisection finds the largest window that fits\<close>

definition candidate_for :: "(gmap \<Rightarrow> string \<times> bool) \<Rightarrow> (string \<Rightarrow> int) \<Rightarrow> clampMode \<Rightarrow> gmap \<Rightarrow> int \<Rightarrow> clampBest" where
  "candidate_for repeat count M args n = clamp_candidate count M (fst (repeat (gput args (cm_field M) (GInt n)))) n"

lemma clamp_loop_step:
  "low \<le> high \<Longrightarrow> limit = low + (high - low) div 2 \<Longrightarrow>
   clamp_loop repeat count M args available low high best =
     (if \<not> snd (repeat (gput args (cm_field M) (GInt limit))) then None
      else if cb_tokens (candidate_for repeat count M args limit) \<le> available
      then clamp_loop repeat count M args available (limit + 1) high (Some (candidate_for repeat count M args limit))
      else clamp_loop repeat count M args available low (limit - 1) best)"
  by (subst clamp_loop.simps) (simp add: candidate_for_def split_beta Let_def)

lemma clamp_loop_fits:
  assumes "clamp_loop repeat count M args available low high best = Some (Some b)" "1 \<le> low" "high \<le> req"
    "best = None \<or> (\<exists>n. 1 \<le> n \<and> n \<le> req \<and> best = Some (candidate_for repeat count M args n)
       \<and> cb_tokens (candidate_for repeat count M args n) \<le> available)"
  shows "\<exists>n. 1 \<le> n \<and> n \<le> req \<and> b = candidate_for repeat count M args n \<and> cb_tokens b \<le> available"
  using assms
proof (induction "nat (high + 1 - low)" arbitrary: low high best rule: less_induct)
  case less
  let ?c = "candidate_for repeat count M args"
  show ?case
  proof (cases "high < low")
    case True
    with less.prems(1) have "best = Some b" by (simp add: clamp_loop.simps)
    with less.prems(4) show ?thesis by auto
  next
    case False
    define n where "n = low + (high - low) div 2"
    have n: "low \<le> n" "n \<le> high" using False by (auto simp: n_def)
    note step = clamp_loop_step [of low high n repeat count M args available best]
    show ?thesis
    proof (cases "cb_tokens (?c n) \<le> available")
      case True
      with step less.prems(1) False have "clamp_loop repeat count M args available (n + 1) high (Some (?c n)) = Some (Some b)"
        by (auto simp: n_def split: if_splits)
      from less.hyps [OF _ this _ less.prems(3)] n less.prems(2,3) True show ?thesis by fastforce
    next
      case fits: False
      with step less.prems(1) False have "clamp_loop repeat count M args available low (n - 1) best = Some (Some b)"
        by (auto simp: n_def split: if_splits)
      from less.hyps [OF _ this less.prems(2) _ less.prems(4)] n less.prems(3) show ?thesis by simp
    qed
  qed
qed

definition bisected :: "(int \<Rightarrow> clampBest) \<Rightarrow> int \<Rightarrow> int \<Rightarrow> clampBest option \<Rightarrow> bool" where
  \<comment> \<open>the best candidate is the one just below \<open>k\<close>, none when nothing was accepted\<close>
  "bisected cand available k best \<longleftrightarrow>
     (if k = 1 then best = None else best = Some (cand (k - 1)) \<and> cb_tokens (cand (k - 1)) \<le> available)"

lemma clamp_loop_largest:
  assumes "\<And>n. 1 \<le> n \<Longrightarrow> n \<le> req \<Longrightarrow> snd (repeat (gput args (cm_field M) (GInt n)))"
    "\<And>m n. 1 \<le> m \<Longrightarrow> m \<le> n \<Longrightarrow> n \<le> req \<Longrightarrow>
      cb_tokens (candidate_for repeat count M args m) \<le> cb_tokens (candidate_for repeat count M args n)"
    "1 \<le> low" "low \<le> high + 1" "high \<le> req" "bisected (candidate_for repeat count M args) available low best"
  shows "\<exists>k b. clamp_loop repeat count M args available low high best = Some b \<and> low \<le> k \<and> k \<le> high + 1
    \<and> bisected (candidate_for repeat count M args) available k b
    \<and> (\<forall>m. k \<le> m \<and> m \<le> high \<longrightarrow> available < cb_tokens (candidate_for repeat count M args m))"
  using assms(3-6)
proof (induction "nat (high + 1 - low)" arbitrary: low high best rule: less_induct)
  case less
  let ?c = "candidate_for repeat count M args"
  show ?case
  proof (cases "high < low")
    case True
    with less.prems show ?thesis by (intro exI [of _ low] exI [of _ best]) (auto simp: clamp_loop.simps)
  next
    case False
    define n where "n = low + (high - low) div 2"
    have n: "low \<le> n" "n \<le> high" using False by (auto simp: n_def)
    with assms(1) less.prems have ok: "snd (repeat (gput args (cm_field M) (GInt n)))" by simp
    note step = clamp_loop_step [of low high n repeat count M args available best]
    show ?thesis
    proof (cases "cb_tokens (?c n) \<le> available")
      case True
      then have "bisected ?c available (n + 1) (Some (?c n))" using n less.prems by (simp add: bisected_def)
      with less.hyps [of high "n + 1" "Some (?c n)"] n less.prems obtain k b where
        "clamp_loop repeat count M args available (n + 1) high (Some (?c n)) = Some b" "n + 1 \<le> k" "k \<le> high + 1"
        "bisected ?c available k b" "\<forall>m. k \<le> m \<and> m \<le> high \<longrightarrow> available < cb_tokens (?c m)" by auto
      with step False ok True n show ?thesis by (intro exI [of _ k] exI [of _ b]) (simp add: n_def)
    next
      case fits: False
      with less.hyps [of "n - 1" low best] n less.prems obtain k b where
        k: "clamp_loop repeat count M args available low (n - 1) best = Some b" "low \<le> k" "k \<le> n"
        "bisected ?c available k b" "\<forall>m. k \<le> m \<and> m \<le> n - 1 \<longrightarrow> available < cb_tokens (?c m)" by auto
      have "available < cb_tokens (?c m)" if "k \<le> m" "m \<le> high" for m
        using that k(2,5) fits assms(2) [of n m] n less.prems by (cases "m < n") force+
      with k step False ok fits n show ?thesis by (intro exI [of _ k] exI [of _ b]) (simp add: n_def)
    qed
  qed
qed

section \<open>Reading a header back\<close>

definition graphic :: "char \<Rightarrow> bool" where
  \<comment> \<open>printable ASCII other than the blank\<close>
  "graphic c \<longleftrightarrow> 33 \<le> (of_char c :: nat) \<and> (of_char c :: nat) \<le> 126"

lemma space_runes_hd: "p \<in> set space_runes \<Longrightarrow> p \<noteq> [] \<and> \<not> graphic (hd p)"
  unfolding space_runes_def by (auto simp: graphic_def)

lemma lead_width_graphic:
  assumes "graphic c"
  shows "lead_width space_runes (c # s) = 0"
proof -
  have "\<not> prefix p (c # s)" if "p \<in> set space_runes" for p
    using space_runes_hd [OF that] assms by (cases p) auto
  then have "find (\<lambda>p. prefix p (c # s)) space_runes = None" by (simp add: find_None_iff)
  then show ?thesis by (simp add: lead_width_def)
qed

lemma fields_from_graphic: "\<forall>c \<in> set w. graphic c \<Longrightarrow> fields_from acc (w @ s) = fields_from (acc @ w) s"
proof (induction w arbitrary: acc)
  case (Cons c w)
  then show ?case by (simp add: fields_from.simps [of acc "c # w @ s"] lead_width_graphic)
qed simp

lemma lead_width_blank: "lead_width space_runes (CHR '' '' # s) = 1"
  by (simp add: lead_width_def space_runes_def)

lemma fields_from_join:
  "\<forall>w \<in> set ws. w \<noteq> [] \<and> (\<forall>c \<in> set w. graphic c) \<Longrightarrow> fields_from [] (str_join '' '' ws) = ws"
proof (induction ws rule: induct_list012)
  case (2 w)
  then show ?case using fields_from_graphic [of w "[]" "[]"] by (simp add: fields_from.simps [of w "[]"])
next
  case (3 w v ws)
  then have "fields_from [] (w @ '' '' @ str_join '' '' (v # ws)) = fields_from w ('' '' @ str_join '' '' (v # ws))"
    by (simp add: fields_from_graphic)
  also have "\<dots> = w # fields_from [] (str_join '' '' (v # ws))"
    using 3 by (simp add: fields_from.simps [of w "CHR '' '' # _"] lead_width_blank)
  finally show ?case using 3 by simp
qed (simp add: fields_from.simps)

definition header_word :: "string \<Rightarrow> bool" where
  "header_word w \<longleftrightarrow> w \<noteq> [] \<and> (\<forall>c \<in> set w. graphic c \<and> c \<noteq> CHR ''['' \<and> c \<noteq> CHR '']'')"

lemma str_join_set: "set (str_join sep ws) \<subseteq> set sep \<union> (\<Union>w \<in> set ws. set w)"
  by (induction sep ws rule: str_join.induct) auto

lemma str_join_nonempty: "ws \<noteq> [] \<Longrightarrow> \<forall>w \<in> set ws. w \<noteq> [] \<Longrightarrow> str_join sep ws \<noteq> []"
  by (induction sep ws rule: str_join.induct) auto

lemma trim_brackets:
  assumes "j \<noteq> []" "\<And>c. c \<in> set j \<Longrightarrow> c \<noteq> CHR ''['' \<and> c \<noteq> CHR '']''"
  shows "trim_set ''[]'' (''['' @ j @ '']'') = j"
proof -
  have "dropWhile (\<lambda>c. c \<in> set ''[]'') (j @ '']'') = j @ '']''"
    using assms by (cases j) auto
  moreover have "dropWhile (\<lambda>c. c \<in> set ''[]'') (rev j) = rev j"
    using assms(2) [of "last j"] assms(1) by (cases "rev j") (auto simp: last_rev [symmetric])
  ultimately show ?thesis by (simp add: trim_set_def trim_left_set_def trim_right_set_def)
qed

lemma header_fields:
  assumes "\<forall>w \<in> set ws. header_word w" "ws \<noteq> []" "rest = [] \<or> hd rest = LF"
  shows "headerInteger (''['' @ str_join '' '' ws @ '']'' @ rest) key = first_int key ws"
proof -
  let ?j = "str_join '' '' ws"
  have j: "c \<noteq> LF" "c \<noteq> CHR ''['' \<and> c \<noteq> CHR '']''" if "c \<in> set ?j" for c
    using str_join_set [of "'' ''" ws] that assms(1) by (fastforce simp: header_word_def graphic_def)+
  have "takeWhile (\<lambda>c. c \<noteq> LF) ((''['' @ ?j @ '']'') @ rest) = ''['' @ ?j @ '']'' @ takeWhile (\<lambda>c. c \<noteq> LF) rest"
    using j by (subst takeWhile_append2) auto
  moreover have "takeWhile (\<lambda>c. c \<noteq> LF) rest = []" using assms(3) by (cases rest) auto
  moreover have "trim_set ''[]'' (''['' @ ?j @ '']'') = ?j"
    using j(2) str_join_nonempty [of ws "'' ''"] assms(1,2) by (intro trim_brackets) (auto simp: header_word_def)
  moreover have "fields_from [] ?j = ws" using assms(1) by (intro fields_from_join) (auto simp: header_word_def)
  ultimately show ?thesis by (simp add: headerInteger_def str_fields_def)
qed

lemma scan_itoa: "in_int64 i \<Longrightarrow> scan_int (itoa i) = Some i"
proof -
  have d: "takeWhile is_digit (dec n) = dec n" for n using dec_digits [of n] by (simp add: takeWhile_eq_all_conv)
  have h: "hd (dec n) \<noteq> CHR ''-'' \<and> hd (dec n) \<noteq> CHR ''+''" for n
  proof -
    have "is_digit (hd (dec n))" using dec_digits [of n] hd_in_set [OF dec_not_Nil [of n]] by blast
    then show ?thesis by (auto simp: is_digit_def)
  qed
  assume "in_int64 i"
  then show ?thesis by (cases "i < 0") (auto simp: scan_int_def itoa_def d h Let_def)
qed

lemma itoa_chars: "c \<in> set (itoa i) \<Longrightarrow> is_digit c \<or> c = CHR ''-''"
  using dec_digits by (auto simp: itoa_def split: if_splits)

lemma itoa_graphic: "c \<in> set (itoa i) \<Longrightarrow> graphic c \<and> c \<noteq> CHR ''['' \<and> c \<noteq> CHR '']'' \<and> c \<noteq> CHR ''=''"
  by (drule itoa_chars) (auto simp: graphic_def is_digit_def)

lemma field_int_word:
  assumes "CHR ''='' \<notin> set k" "\<forall>c \<in> set v. c \<noteq> CHR '']''" "v \<noteq> []"
  shows "field_int key (k @ ''='' @ v) = (if k = key then scan_int v else None)"
proof -
  have "trim_suffix (k @ ''='' @ v) '']'' = k @ ''='' @ v"
  proof -
    have "last (k @ ''='' @ v) = last v" using assms(3) by simp
    moreover have "last v \<noteq> CHR '']''" using assms(2,3) by simp
    ultimately have "\<not> suffix '']'' (k @ ''='' @ v)" by (metis last_snoc suffix_def)
    then show ?thesis unfolding trim_suffix_def by simp
  qed
  moreover have "takeWhile (\<lambda>c. c \<noteq> CHR ''='') (k @ ''='' @ v) = k"
    using assms(1) by (subst takeWhile_append2) auto
  ultimately show ?thesis by (simp add: field_int_def)
qed

lemma field_int_itoa:
  "CHR ''='' \<notin> set k \<Longrightarrow> in_int64 i \<Longrightarrow> field_int key (k @ ''='' @ itoa i) = (if k = key then Some i else None)"
  using itoa_graphic by (subst field_int_word) (auto simp: scan_itoa)

definition kv :: "string \<Rightarrow> string \<Rightarrow> string" where
  "kv k v = k @ ''='' @ v"

lemma first_int_none: "field_int key w = None \<Longrightarrow> first_int key (w # ws) = first_int key ws"
  by (simp add: first_int_def map_filter_simps)

lemma first_int_int:
  "CHR ''='' \<notin> set k \<Longrightarrow> in_int64 i \<Longrightarrow> first_int k (kv k (itoa i) # ws) = i"
  using field_int_itoa [of k i k] by (simp add: first_int_def map_filter_simps kv_def)

lemma first_int_other:
  assumes "k \<noteq> key" "CHR ''='' \<notin> set k" "v \<noteq> []" "CHR '']'' \<notin> set v"
  shows "first_int key (kv k v # ws) = first_int key ws"
  using field_int_word [of k v key] assms by (intro first_int_none) (auto simp: kv_def)

lemma first_int_plain: "CHR ''='' \<notin> set w \<Longrightarrow> first_int key (w # ws) = first_int key ws"
  by (rule first_int_none) (auto simp: field_int_def trim_suffix_def Let_def dest: in_set_takeD)

lemma first_int_nil: "first_int key [] = 0"
  by (simp add: first_int_def map_filter_simps)

lemma header_word_kv: "\<forall>c \<in> set k. graphic c \<and> c \<noteq> CHR ''['' \<and> c \<noteq> CHR '']'' \<Longrightarrow>
    \<forall>c \<in> set v. graphic c \<and> c \<noteq> CHR ''['' \<and> c \<noteq> CHR '']'' \<Longrightarrow> header_word (kv k v)"
  by (auto simp: header_word_def kv_def graphic_def)

lemma value_chars:
  "\<forall>c \<in> set (itoa i). graphic c \<and> c \<noteq> CHR ''['' \<and> c \<noteq> CHR '']''" "CHR '']'' \<notin> set (itoa i)"
  "\<forall>c \<in> set (fmt_bool b). graphic c \<and> c \<noteq> CHR ''['' \<and> c \<noteq> CHR '']''" "CHR '']'' \<notin> set (fmt_bool b)" "fmt_bool b \<noteq> []"
  using itoa_graphic by (auto simp: fmt_bool_def graphic_def)

lemmas first_int_simps = first_int_int first_int_other first_int_plain first_int_nil value_chars

definition byte_words :: "string \<Rightarrow> byteWindow \<Rightarrow> int \<Rightarrow> bool \<Rightarrow> bool \<Rightarrow> string list" where
  "byte_words text w startLine startMid endMid =
     [''byte'', ''window:'', kv ''offset'' (itoa (bw_Offset w)), kv ''bytes'' (itoa (bw_Bytes w)),
      kv ''total'' (itoa (bw_TotalBytes w)), kv ''more'' (fmt_bool (bw_More w))]
     @ (if bw_More w then [kv ''next_offset'' (itoa (bw_NextOffset w))] else [])
     @ [kv ''start_line'' (itoa startLine), kv ''start_mid_line'' (fmt_bool startMid), kv ''end_mid_line'' (fmt_bool endMid)]"

definition line_words :: "lineWindow \<Rightarrow> string list" where
  "line_words w =
     [''line'', ''window:'', kv ''line'' (itoa (lw_Line w)), kv ''lines'' (itoa (int (length (lw_Values w)))),
      kv ''total_lines'' (itoa (lw_Total w)), kv ''more'' (fmt_bool (lw_More w))]
     @ (if lw_More w then [kv ''next_line'' (itoa (lw_Next w))] else [])"

lemma numbered_window_form:
  "\<exists>l a b rest. (rest = [] \<or> hd rest = LF)
    \<and> numberedReadFileWindow text w = ''['' @ str_join '' '' (byte_words text w l a b) @ '']'' @ rest"
proof -
  let ?s = "nat (bw_Offset w - 1)"
  let ?e = "?s + nat (bw_Bytes w)"
  let ?l = "1 + int (count_list (take ?s text) LF)"
  let ?a = "0 < ?s \<and> text ! (?s - 1) \<noteq> LF" and ?b = "?e < length text \<and> (?e = 0 \<or> text ! (?e - 1) \<noteq> LF)"
  have "butlast (byteWindowHeader w) @ '' start_line='' @ itoa ?l @ '' start_mid_line='' @ fmt_bool ?a
      @ '' end_mid_line='' @ fmt_bool ?b @ '']'' = ''['' @ str_join '' '' (byte_words text w ?l ?a ?b) @ '']''"
    by (cases "bw_More w") (simp_all add: byteWindowHeader_def byte_words_def kv_def butlast_append fmt_bool_def)
  moreover have "\<exists>rest. (rest = [] \<or> hd rest = LF) \<and> numberedReadFileWindow text w =
      (butlast (byteWindowHeader w) @ '' start_line='' @ itoa ?l @ '' start_mid_line='' @ fmt_bool ?a
      @ '' end_mid_line='' @ fmt_bool ?b @ '']'') @ rest"
    unfolding numberedReadFileWindow_def Let_def by (cases "bw_Content w = []") auto
  ultimately show ?thesis by (metis append.assoc)
qed

lemma numbered_lines_form:
  assumes "line_window text line n = Ok w"
  shows "\<exists>rest c. (rest = [] \<or> hd rest = LF) \<and> numberedReadFileLines text line n = Ok c
    \<and> c = ''['' @ str_join '' '' (line_words w) @ '']'' @ rest"
  using assms by (cases "lw_More w"; cases "lw_Values w = []")
    (force simp: numberedReadFileLines_def line_words_def kv_def fmt_bool_def)+

lemma byte_words_ok: "\<forall>x \<in> set (byte_words text w l a b). header_word x" "byte_words text w l a b \<noteq> []"
  using value_chars by (auto simp: byte_words_def graphic_def header_word_def kv_def)

lemma line_words_ok: "\<forall>x \<in> set (line_words w). header_word x" "line_words w \<noteq> []"
  using value_chars by (auto simp: line_words_def graphic_def header_word_def kv_def)

lemma windowUTF8_ranges:
  assumes "windowUTF8 text offset limit = Ok w"
  shows "bw_Offset w = offset" "1 \<le> offset" "offset \<le> int (length text) + 1" "bw_TotalBytes w = int (length text)"
    "0 \<le> bw_Bytes w" "offset - 1 + bw_Bytes w \<le> int (length text)"
    "bw_NextOffset w = (if bw_More w then offset + bw_Bytes w else 0)"
    "bw_More w \<longleftrightarrow> offset - 1 + bw_Bytes w < int (length text)"
proof -
  let ?n = "int (length text)"
  let ?m = "min ?n (wrap64 (offset - 1 + limit))"
  define e where "e = back_off text (offset - 1) ?m"
  have "e \<le> ?n"
    using back_off_bounds [of "offset - 1" ?m "text"] back_off_below [of ?m "offset - 1" "text"] unfolding e_def by linarith
  moreover have "1 \<le> offset \<and> offset \<le> ?n + 1 \<and> \<not> e < offset - 1 \<and>
      w = \<lparr>bw_Content = take (nat (e - (offset - 1))) (drop (nat (offset - 1)) text), bw_Offset = offset, bw_Bytes = e - (offset - 1),
        bw_TotalBytes = ?n, bw_More = e < ?n, bw_NextOffset = (if e < ?n then e + 1 else 0)\<rparr>"
    using assms unfolding windowUTF8_def Let_def e_def [symmetric] by (simp split: if_splits)
  ultimately have *: "1 \<le> offset" "offset \<le> ?n + 1" "\<exists>e. offset - 1 \<le> e \<and> e \<le> ?n \<and>
      w = \<lparr>bw_Content = take (nat (e - (offset - 1))) (drop (nat (offset - 1)) text), bw_Offset = offset, bw_Bytes = e - (offset - 1),
        bw_TotalBytes = ?n, bw_More = e < ?n, bw_NextOffset = (if e < ?n then e + 1 else 0)\<rparr>"
    by (auto intro: exI [of _ e])
  then show "1 \<le> offset" "offset \<le> ?n + 1" by simp_all
  from *(3) show "bw_Offset w = offset" "bw_TotalBytes w = ?n" "0 \<le> bw_Bytes w" "offset - 1 + bw_Bytes w \<le> ?n"
    "bw_NextOffset w = (if bw_More w then offset + bw_Bytes w else 0)" "bw_More w \<longleftrightarrow> offset - 1 + bw_Bytes w < ?n"
    by auto
qed

lemma line_window_ranges:
  assumes "line_window text line n = Ok w"
  shows "lw_Line w = line" "1 \<le> line" "line \<le> lw_Total w + 1" "lw_Total w = int (length (text_lines text))"
    "int (length (lw_Values w)) \<le> lw_Total w" "0 \<le> lw_Next w" "lw_Next w \<le> lw_Total w" "\<not> lw_More w \<longrightarrow> lw_Next w = 0"
  using assms by (auto simp: line_window_def Let_def split: if_splits)

lemma byte_header:
  assumes "windowUTF8 text offset limit = Ok w" "int (length text) < 2 ^ 63 - 1"
  shows "headerInteger (numberedReadFileWindow text w) ''offset'' = bw_Offset w"
    "headerInteger (numberedReadFileWindow text w) ''bytes'' = bw_Bytes w"
    "headerInteger (numberedReadFileWindow text w) ''total'' = bw_TotalBytes w"
    "headerInteger (numberedReadFileWindow text w) ''next_offset'' = bw_NextOffset w"
proof -
  obtain l a b rest where f: "rest = [] \<or> hd rest = LF"
    "numberedReadFileWindow text w = ''['' @ str_join '' '' (byte_words text w l a b) @ '']'' @ rest"
    using numbered_window_form by blast
  have h: "headerInteger (numberedReadFileWindow text w) key = first_int key (byte_words text w l a b)" for key
    unfolding f(2) by (rule header_fields [OF byte_words_ok f(1)])
  note r = windowUTF8_ranges [OF assms(1)]
  have "in_int64 (bw_Offset w)" "in_int64 (bw_Bytes w)" "in_int64 (bw_TotalBytes w)" "in_int64 (bw_NextOffset w)"
    and last: "\<not> bw_More w \<longrightarrow> bw_NextOffset w = 0"
    using r assms(2) by (auto simp: in_int64_def)
  then show "headerInteger (numberedReadFileWindow text w) ''offset'' = bw_Offset w"
    "headerInteger (numberedReadFileWindow text w) ''bytes'' = bw_Bytes w"
    "headerInteger (numberedReadFileWindow text w) ''total'' = bw_TotalBytes w"
    "headerInteger (numberedReadFileWindow text w) ''next_offset'' = bw_NextOffset w"
    unfolding h byte_words_def by (simp_all add: first_int_simps)
qed

lemma line_header:
  assumes "line_window text line n = Ok w" "lw_Total w < 2 ^ 63 - 1" "numberedReadFileLines text line n = Ok c"
  shows "headerInteger c ''line'' = lw_Line w" "headerInteger c ''lines'' = int (length (lw_Values w))"
    "headerInteger c ''total_lines'' = lw_Total w" "headerInteger c ''next_line'' = lw_Next w"
proof -
  obtain rest where f: "rest = [] \<or> hd rest = LF" "c = ''['' @ str_join '' '' (line_words w) @ '']'' @ rest"
    using numbered_lines_form [OF assms(1)] assms(3) by auto
  have h: "headerInteger c key = first_int key (line_words w)" for key
    unfolding f(2) by (rule header_fields [OF line_words_ok f(1)])
  note r = line_window_ranges [OF assms(1)]
  have "in_int64 (lw_Line w)" "in_int64 (int (length (lw_Values w)))" "in_int64 (lw_Total w)" "in_int64 (lw_Next w)"
    using r assms(2) by (auto simp: in_int64_def)
  with r(8) show "headerInteger c ''line'' = lw_Line w" "headerInteger c ''lines'' = int (length (lw_Values w))"
    "headerInteger c ''total_lines'' = lw_Total w" "headerInteger c ''next_line'' = lw_Next w"
    unfolding h line_words_def by (simp_all add: first_int_simps)
qed

section \<open>Properties\<close>

lemma text_lines_bound: "length (text_lines text) \<le> Suc (length text)"
proof -
  have "length (text_lines text) \<le> length (split_char LF text)" by (simp add: text_lines_def Let_def)
  also have "\<dots> \<le> Suc (length text)" by (simp add: length_split_char count_le_length)
  finally show ?thesis .
qed

lemma clamp_candidate_fields:
  "cb_next (clamp_candidate count M content n) = headerInteger content (cm_cursor M)"
  "cb_remaining (clamp_candidate count M content n) = max 0 (wrap64 (
     headerInteger content (if cm_unit M = ''lines'' then ''total_lines'' else ''total'')
     - wrap64 (headerInteger content (if cm_unit M = ''lines'' then ''line'' else ''offset'') - 1 + headerInteger content (cm_unit M))))"
  by (simp_all add: clamp_candidate_def Let_def)

lemma map_of_update:
  "map_of (map (\<lambda>(k', v'). if k' = k then (k, v) else (k', v')) m) x = (if x = k then map_option (\<lambda>_. v) (map_of m k) else map_of m x)"
  by (induction m) auto

lemma gget_gput: "gget (gput m k v) k' = (if k' = k then v else gget m k')"
  by (cases "map_of m k") (auto simp: gput_def gget_def ghas_def map_of_update map_add_def split: option.splits)

text \<open>C26. The numbers the clamp reports to the model are the true ones: reading back the header that
  \<^verbatim>\<open>read_file\<close> printed, in byte mode and in line mode, it finds exactly how many bytes or lines of the file
  lie behind the window and where the next window starts (0 at the end of the file).\<close>

theorem clamp_reads_its_own_windows:
  assumes "readFileWindow text args cfg = Ok content" "int (length text) < 2 ^ 63 - 4"
    "c = clamp_candidate count (clamp_mode cfg args) content n"
  shows "if ghas args ''line''
    then \<exists>w. line_window text (number (gget args ''line'') 1) (number (gget args ''lines'') 200) = Ok w
      \<and> cb_remaining c = max 0 (int (length (text_lines text)) - (lw_Line w - 1 + int (length (lw_Values w)))) \<and> cb_next c = lw_Next w
    else \<exists>w. windowUTF8 text (number (gget args ''offset'') 1) (min (number (gget args ''limit'') (rf_DefaultLimit cfg)) (rf_MaxLimit cfg)) = Ok w
      \<and> cb_remaining c = int (length text) - (bw_Offset w - 1 + bw_Bytes w) \<and> cb_next c = bw_NextOffset w"
proof (cases "ghas args ''line''")
  case True
  let ?line = "number (gget args ''line'') 1" and ?n = "number (gget args ''lines'') 200"
  from True assms(1) have n: "numberedReadFileLines text ?line ?n = Ok content"
    by (auto simp: readFileWindow_def split: if_splits)
  then obtain w where w: "line_window text ?line ?n = Ok w"
    by (cases "line_window text ?line ?n") (auto simp: numberedReadFileLines_def)
  note r = line_window_ranges [OF w]
  have small: "lw_Total w < 2 ^ 63 - 2" using text_lines_bound [of "text"] assms(2) r(4) by linarith
  note h = line_header [OF w _ n]
  have "in_int64 (lw_Line w - 1 + int (length (lw_Values w)))"
    "in_int64 (lw_Total w - (lw_Line w - 1 + int (length (lw_Values w))))"
  proof -
    have "lw_Line w - 1 + int (length (lw_Values w)) \<le> lw_Total w"
      using w by (auto simp: line_window_def Let_def split: if_splits)
    with r small show "in_int64 (lw_Line w - 1 + int (length (lw_Values w)))"
      "in_int64 (lw_Total w - (lw_Line w - 1 + int (length (lw_Values w))))" by (auto simp: in_int64_def)
  qed
  with True w h small r(4) show ?thesis
    by (auto simp: assms(3) clamp_candidate_fields clamp_mode_def wrap64_id)
next
  case False
  let ?o = "number (gget args ''offset'') 1" and ?l = "min (number (gget args ''limit'') (rf_DefaultLimit cfg)) (rf_MaxLimit cfg)"
  from False assms(1) obtain w where w: "windowUTF8 text ?o ?l = Ok w" "content = numberedReadFileWindow text w"
    by (cases "windowUTF8 text ?o ?l") (auto simp: readFileWindow_def split: if_splits)
  note r = windowUTF8_ranges [OF w(1)]
  note h = byte_header [OF w(1)]
  have "in_int64 (bw_Offset w - 1 + bw_Bytes w)" "in_int64 (bw_TotalBytes w - (bw_Offset w - 1 + bw_Bytes w))"
    "0 \<le> bw_TotalBytes w - (bw_Offset w - 1 + bw_Bytes w)"
    using r assms(2) by (auto simp: in_int64_def)
  with False w h assms(2) r(4) show ?thesis
    by (auto simp: assms(3) clamp_candidate_fields clamp_mode_def wrap64_id)
qed

text \<open>The bisection returns the largest window that fits: when every smaller read succeeds and a larger limit
  never yields fewer tokens, the clamp returns the annotated read of the largest limit up to the requested one whose
  tokens are available, and gives up only when even a limit of one does not fit.\<close>

theorem clamp_returns_largest_window:
  assumes "M = clamp_mode cfg args" "1 \<le> cm_requested M"
    "\<forall>n. 1 \<le> n \<and> n \<le> cm_requested M \<longrightarrow> snd (repeat (gput args (cm_field M) (GInt n)))"
    "\<forall>m n. 1 \<le> m \<and> m \<le> n \<and> n \<le> cm_requested M \<longrightarrow>
       cb_tokens (candidate_for repeat count M args m) \<le> cb_tokens (candidate_for repeat count M args n)"
  shows "case clampReadFileResult repeat count cfg args metadata available of
      None \<Rightarrow> available < cb_tokens (candidate_for repeat count M args 1)
    | Some (content, meta, tokens) \<Rightarrow> \<exists>n. 1 \<le> n \<and> n \<le> cm_requested M
        \<and> content = cb_content (candidate_for repeat count M args n) \<and> tokens = count content \<and> tokens \<le> available
        \<and> (\<forall>m. n < m \<and> m \<le> cm_requested M \<longrightarrow> available < cb_tokens (candidate_for repeat count M args m))"
proof -
  let ?c = "candidate_for repeat count M args" and ?r = "cm_requested M"
  have t: "cb_tokens (?c n) = count (cb_content (?c n))" for n
    by (simp add: candidate_for_def clamp_candidate_def Let_def)
  obtain k b where k: "clamp_loop repeat count M args available 1 ?r None = Some b" "1 \<le> k" "k \<le> ?r + 1"
    "bisected ?c available k b" "\<forall>m. k \<le> m \<and> m \<le> ?r \<longrightarrow> available < cb_tokens (?c m)"
    using clamp_loop_largest [of ?r repeat args M count 1 ?r available None] assms(2-4) by (auto simp: bisected_def)
  show ?thesis
  proof (cases "k = 1")
    case True
    with k assms(1,2) show ?thesis by (simp add: clampReadFileResult_def bisected_def)
  next
    case False
    with k have b: "b = Some (?c (k - 1))" "cb_tokens (?c (k - 1)) \<le> available" by (auto simp: bisected_def)
    have "clampReadFileResult repeat count cfg args metadata available
        = Some (cb_content (?c (k - 1)), clamp_metadata M metadata (?c (k - 1)), cb_tokens (?c (k - 1)))"
      using k(1) b(1) assms(1,2) by (simp add: clampReadFileResult_def Let_def)
    with b(2) k False t show ?thesis by (auto intro!: exI [of _ "k - 1"])
  qed
qed

text \<open>C27. A windowed result that is passed on as successful fits: whenever at least one token is available, the
  content handed on for \<^verbatim>\<open>read_file\<close>, \<^verbatim>\<open>fetch_url\<close> or \<^verbatim>\<open>call_service\<close> has no more tokens than are available and the
  reported size is its size; otherwise it is an error that names the size and the limit, and asks for a retry with a
  limit of at least one (or with fewer windows).\<close>

theorem successful_windows_fit:
  assumes "fitWindowResult W repeat count hasSession name args content ok metadata (count content) available
      = (content', ok', metadata', tokens')" "windowed_tool name" "1 \<le> available" "ok"
  shows "tokens' = count content' \<and> (ok' \<longrightarrow> tokens' \<le> available)
    \<and> (\<not> ok' \<longrightarrow> available < count content \<and> gget metadata' ''original_result_tokens'' = GInt (count content)
        \<and> (gget metadata' ''retry_windows'' = GStr ''fewer_or_smaller''
           \<or> (\<exists>l. gget metadata' ''retry_limit'' = GInt l \<and> 1 \<le> l)))"
proof -
  have l: "1 \<le> retry_limit W name args" by (simp add: retry_limit_def Let_def)
  have clamped: "t = count c \<and> t \<le> available"
    if clamp: "clampReadFileResult repeat count (wc_ReadFile W) args metadata available = Some (c, m, t)" for c m t
  proof -
    let ?M = "clamp_mode (wc_ReadFile W) args"
    from clamp obtain b where b: "clamp_loop repeat count ?M args available 1 (cm_requested ?M) None = Some (Some b)"
      "c = cb_content b" "t = cb_tokens b"
      by (auto simp: clampReadFileResult_def Let_def split: if_splits option.splits)
    from clamp_loop_fits [OF b(1)] obtain n where "b = candidate_for repeat count ?M args n" "cb_tokens b \<le> available" by auto
    with b show ?thesis by (simp add: candidate_for_def clamp_candidate_def Let_def)
  qed
  show ?thesis
  proof (cases "count content \<le> available")
    case True
    with assms show ?thesis by (auto simp: fitWindowResult_def Let_def)
  next
    case large: False
    show ?thesis
    proof (cases "name = ''read_file'' \<and> hasSession \<and> \<not> ghas args ''windows''")
      case True
      with large assms clamped l show ?thesis
        by (cases "clampReadFileResult repeat count (wc_ReadFile W) args metadata available")
          (auto simp: fitWindowResult_def Let_def gget_gput too_large_def)
    next
      case False
      with large assms l show ?thesis by (auto simp: fitWindowResult_def Let_def gget_gput too_large_def split: if_splits)
    qed
  qed
qed

section \<open>Examples\<close>

definition demo_rf :: readFileTool where
  "demo_rf = \<lparr>rf_DefaultLimit = 2, rf_MaxLimit = 8\<rparr>"

definition demo_read :: "gmap \<Rightarrow> string \<times> bool" where
  \<comment> \<open>\<^verbatim>\<open>read_file\<close> on a file with the content \<open>abc\<close>\<close>
  "demo_read args = (case readFileWindow ''abc'' args demo_rf of Ok c \<Rightarrow> (c, True) | _ \<Rightarrow> ([], False))"

definition demo_body :: "gmap \<Rightarrow> string \<times> bool" where
  \<comment> \<open>a read that returns as many bytes as the limit says, without a header\<close>
  "demo_body args = (replicate (nat (integerArgument (gget args ''limit'') 0)) (CHR ''x''), True)"

definition demo_size :: "string \<Rightarrow> int" where
  \<comment> \<open>a tokenizer with one token per byte\<close>
  "demo_size s = int (length s)"

definition demo_mode :: clampMode where
  "demo_mode = clamp_mode demo_rf []"

definition demo_windows :: windowCfg where
  "demo_windows = \<lparr>wc_ReadFile = demo_rf, wc_FetchDefaultLimit = 16384, wc_ServiceBodyKB = Map.empty\<rparr>"

lemma demo_requested: "cm_requested demo_mode = 2" by code_simp

lemma demo_size_1: "cb_tokens (candidate_for demo_body demo_size demo_mode [] 1) = 71" by code_simp

lemma demo_size_2: "cb_tokens (candidate_for demo_body demo_size demo_mode [] 2) = 72" by code_simp

lemmas demo_sizes = demo_size_1 demo_size_2

lemma demo_reads:
  "snd (demo_body (gput [] (cm_field demo_mode) (GInt 1)))" "snd (demo_body (gput [] (cm_field demo_mode) (GInt 2)))" by code_simp+

lemma one_or_two: "1 \<le> n \<Longrightarrow> n \<le> 2 \<Longrightarrow> n = 1 \<or> n = (2 :: int)" by linarith

theorem clamp_reads_its_own_windows_witness:
  "cb_remaining (clamp_candidate demo_size demo_mode (fst (demo_read [])) 2) = 1
   \<and> cb_next (clamp_candidate demo_size demo_mode (fst (demo_read [])) 2) = 3"
proof -
  have r: "readFileWindow ''abc'' [] demo_rf = Ok (fst (demo_read []))" by code_simp
  have w: "windowUTF8 ''abc'' (number (gget [] ''offset'') 1) (min (number (gget [] ''limit'') (rf_DefaultLimit demo_rf)) (rf_MaxLimit demo_rf))
    = Ok \<lparr>bw_Content = ''ab'', bw_Offset = 1, bw_Bytes = 2, bw_TotalBytes = 3, bw_More = True, bw_NextOffset = 3\<rparr>" by code_simp
  have "\<not> ghas [] ''line''" by code_simp
  with clamp_reads_its_own_windows [OF r _ refl, of demo_size 2] w show ?thesis by (simp add: demo_mode_def)
qed

theorem clamp_returns_largest_window_witness:
  "case clampReadFileResult demo_body demo_size demo_rf [] [] 71 of
     None \<Rightarrow> False
   | Some (content, meta, tokens) \<Rightarrow> content = cb_content (candidate_for demo_body demo_size demo_mode [] 1) \<and> tokens = 71"
proof -
  have reads: "\<forall>n. 1 \<le> n \<and> n \<le> cm_requested demo_mode \<longrightarrow> snd (demo_body (gput [] (cm_field demo_mode) (GInt n)))"
    using demo_reads one_or_two unfolding demo_requested by blast
  have mono: "\<forall>m n. 1 \<le> m \<and> m \<le> n \<and> n \<le> cm_requested demo_mode \<longrightarrow>
      cb_tokens (candidate_for demo_body demo_size demo_mode [] m) \<le> cb_tokens (candidate_for demo_body demo_size demo_mode [] n)"
  proof (intro allI impI)
    fix m n :: int assume "1 \<le> m \<and> m \<le> n \<and> n \<le> cm_requested demo_mode"
    then consider "m = n" | "m = 1" "n = 2" using one_or_two [of m] one_or_two [of n] by (auto simp: demo_requested)
    then show "cb_tokens (candidate_for demo_body demo_size demo_mode [] m) \<le> cb_tokens (candidate_for demo_body demo_size demo_mode [] n)"
      by cases (simp_all add: demo_sizes)
  qed
  have t: "demo_size (cb_content (candidate_for demo_body demo_size demo_mode [] n))
      = cb_tokens (candidate_for demo_body demo_size demo_mode [] n)" for n
    by (simp add: candidate_for_def clamp_candidate_def Let_def)
  note * = clamp_returns_largest_window [OF demo_mode_def _ reads mono, of 71 "[]"]
  show ?thesis
    using * one_or_two demo_sizes t by (fastforce simp: demo_requested split: option.splits)
qed

theorem successful_windows_fit_witness:
  "case fitWindowResult demo_windows demo_body demo_size True ''read_file'' [] (replicate 300 (CHR ''x'')) True [] 300 71 of
     (content, ok, meta, tokens) \<Rightarrow> tokens = demo_size content \<and> (ok \<and> tokens \<le> 71 \<or> \<not> ok)"
proof -
  let ?x = "replicate 300 (CHR ''x'')"
  have s: "demo_size ?x = 300" by (simp add: demo_size_def)
  obtain c k m n where f: "fitWindowResult demo_windows demo_body demo_size True ''read_file'' [] ?x True [] (demo_size ?x) 71 = (c, k, m, n)"
    by (metis prod_cases4)
  from successful_windows_fit [OF f] have "n = demo_size c \<and> (k \<longrightarrow> n \<le> 71)" by (auto simp: windowed_tool_def)
  with f s show ?thesis by auto
qed

end
