(* ===== verification/Go_Float.thy ===== *)
theory Go_Float
  imports Complex_Main Events_Model "HOL-Library.Log_Nat"
begin

text \<open>
  The \<^verbatim>\<open>float64\<close> arithmetic of the token budget: every operation is the exact rational one followed by \<open>fl\<close>,
  the rounding to 53 significant bits, ties to even, that IEEE 754 prescribes.  The magnitudes that occur lie far
  from overflow and from the subnormal numbers, which are not modelled.
\<close>

section \<open>Rounding\<close>

definition fexp :: "rat \<Rightarrow> int" where
  \<comment> \<open>the binary exponent of a positive number: \<open>2 ^ fexp x \<le> x < 2 ^ (fexp x + 1)\<close>\<close>
  "fexp x = (let (a, b) = quotient_of x; k = bitlen a - bitlen b in if 2 powi k \<le> x then k else k - 1)"

definition round_even :: "rat \<Rightarrow> int" where
  "round_even y = (let f = \<lfloor>y\<rfloor>; d = y - of_int f in
     if d < 1 / 2 then f else if 1 / 2 < d then f + 1 else if even f then f else f + 1)"

definition fl :: "rat \<Rightarrow> rat" where
  "fl x = (if x = 0 then 0 else let e = fexp \<bar>x\<bar> - 52 in sgn x * (of_int (round_even (\<bar>x\<bar> / 2 powi e)) * 2 powi e))"

definition go_round :: "rat \<Rightarrow> int" where
  \<comment> \<open>\<^verbatim>\<open>int(math.Round(x))\<close>: halves away from zero\<close>
  "go_round x = (if x < 0 then - \<lfloor>- x + 1 / 2\<rfloor> else \<lfloor>x + 1 / 2\<rfloor>)"

definition go_ceil :: "rat \<Rightarrow> int" where
  \<comment> \<open>\<^verbatim>\<open>int(math.Ceil(x))\<close>\<close>
  "go_ceil x = \<lceil>x\<rceil>"

definition scaled :: "rat \<Rightarrow> int \<Rightarrow> rat" where
  \<comment> \<open>\<^verbatim>\<open>float64(n) * c\<close> for a decimal constant \<open>c\<close>\<close>
  "scaled c n = fl (fl (of_int n) * fl c)"

definition tenth_more :: "int \<Rightarrow> int" where
  \<comment> \<open>\<^verbatim>\<open>int(math.Ceil(float64(n) * 1.1))\<close>\<close>
  "tenth_more n = go_ceil (scaled (11 / 10) n)"

section \<open>Rounding is monotone at integers\<close>

lemma fexp_lower: "0 < x \<Longrightarrow> 2 powi fexp x \<le> x"
proof -
  assume x: "0 < x"
  obtain a b where q: "quotient_of x = (a, b)" by fastforce
  then have b: "0 < b" and xq: "x = of_int a / of_int b"
    by (simp_all add: quotient_of_denom_pos quotient_of_div)
  with x have a: "0 < a" by (simp add: zero_less_divide_iff)
  let ?k = "bitlen a - bitlen b"
  have "2 ^ nat (bitlen a - 1) \<le> a" "b < 2 ^ nat (bitlen b)" using bitlen_bounds a b by blast+
  moreover have "1 \<le> bitlen a" "1 \<le> bitlen b" using a b bitlen_eq_zero_iff bitlen_nonneg by (metis int_one_le_iff_zero_less linorder_not_le order_le_less)+
  ultimately have "(2 :: rat) powi (bitlen a - 1) \<le> of_int a" "of_int b \<le> (2 :: rat) powi bitlen b"
    by (auto simp: power_int_def simp del: of_int_power simp flip: of_int_power)
  then have "2 powi (bitlen a - 1) * of_int b \<le> of_int a * (2 :: rat) powi bitlen b"
    using a b by (intro mult_mono) auto
  then have "2 powi (?k - 1) \<le> x"
    using b by (simp add: xq power_int_diff power_int_add field_simps)
  then show ?thesis by (simp add: fexp_def q Let_def)
qed

lemma round_even_bounds: "\<lfloor>y\<rfloor> \<le> round_even y" "round_even y \<le> \<lceil>y\<rceil>"
proof -
  show "\<lfloor>y\<rfloor> \<le> round_even y" by (simp add: round_even_def Let_def)
  show "round_even y \<le> \<lceil>y\<rceil>"
  proof (cases "y = of_int \<lfloor>y\<rfloor>")
    case True
    then show ?thesis by (simp add: round_even_def Let_def)
  next
    case False
    then have "\<lfloor>y\<rfloor> + 1 \<le> \<lceil>y\<rceil>" by linarith
    then show ?thesis by (auto simp: round_even_def Let_def)
  qed
qed

lemma fl_zero [simp]: "fl 0 = 0"
  by (simp add: fl_def)

lemma fl_pos: "0 < x \<Longrightarrow> fl x = of_int (round_even (x / 2 powi (fexp x - 52))) * 2 powi (fexp x - 52)"
  by (simp add: fl_def Let_def)

lemma powi_nat_int: "0 \<le> k \<Longrightarrow> (2 :: rat) powi k = of_int (2 ^ nat k)"
  by (simp add: power_int_def)

lemma fl_ge_int:
  assumes "0 \<le> n" "n \<le> 2 ^ 53" "of_int n \<le> x"
  shows "of_int n \<le> fl x"
proof (cases "n = 0 \<or> x \<le> 0")
  case True
  show ?thesis
  proof (cases "x \<le> 0")
    case True
    with assms have "n = 0" "x = 0" by (auto dest: order_trans)
    then show ?thesis by simp
  next
    case False
    with True have "n = 0" by simp
    moreover have "0 \<le> round_even (x / 2 powi (fexp x - 52))"
      using round_even_bounds(1) [of "x / 2 powi (fexp x - 52)"] False by (meson divide_nonneg_nonneg linorder_not_le not_less_iff_gr_or_eq order_trans zero_le_floor zero_le_power_int zero_less_numeral less_imp_le)
    ultimately show ?thesis using False by (simp add: fl_pos)
  qed
next
  case False
  then have x: "0 < x" and n: "0 < n" using assms by auto
  define e where "e = fexp x - 52"
  have p: "(0 :: rat) < 2 powi e" by simp
  have "\<exists>m. of_int n \<le> of_int m * (2 :: rat) powi e \<and> of_int m \<le> x / 2 powi e"
  proof (cases "e \<le> 0")
    case True
    then have "of_int n = of_int (n * 2 ^ nat (- e)) * (2 :: rat) powi e"
      by (simp add: power_int_def field_simps)
    with assms(3) p show ?thesis by (intro exI [of _ "n * 2 ^ nat (- e)"]) (simp add: le_divide_eq del: of_int_mult)
  next
    case False
    then have "2 ^ 53 \<le> (2 :: rat) powi fexp x"
      using power_int_increasing [of 53 "fexp x" "2 :: rat"] by (simp add: e_def)
    moreover have "(2 :: rat) powi fexp x = of_int (2 ^ 52) * 2 powi e"
      by (simp add: e_def power_int_diff)
    moreover have "(of_int n :: rat) \<le> 2 ^ 53" using assms(2) by (metis of_int_le_iff of_int_numeral of_int_power)
    ultimately show ?thesis using fexp_lower [OF x] p
      by (intro exI [of _ "2 ^ 52"]) (simp add: le_divide_eq)
  qed
  then obtain m where m: "of_int n \<le> of_int m * (2 :: rat) powi e" "of_int m \<le> x / 2 powi e" by blast
  from m(2) have "m \<le> \<lfloor>x / 2 powi e\<rfloor>" by (simp add: le_floor_iff)
  then have "m \<le> round_even (x / 2 powi e)" using round_even_bounds(1) by (rule order_trans)
  then have "of_int m * (2 :: rat) powi e \<le> of_int (round_even (x / 2 powi e)) * 2 powi e" using p by simp
  with m(1) have "of_int n \<le> of_int (round_even (x / 2 powi e)) * (2 :: rat) powi e" by (rule order_trans)
  with x show ?thesis by (simp add: fl_pos e_def)
qed

lemma fl_nonneg: "0 \<le> x \<Longrightarrow> 0 \<le> fl x"
  using fl_ge_int [of 0 x] by simp

lemma go_ceil_ge: "of_int n \<le> x \<Longrightarrow> n \<le> go_ceil x"
  unfolding go_ceil_def by linarith

lemma fl_11: "1 \<le> fl (11 / 10)"
  using fl_ge_int [of 1 "11 / 10"] by simp

lemma tenth_more_ge: "0 \<le> n \<Longrightarrow> n \<le> 2 ^ 53 \<Longrightarrow> n \<le> tenth_more n"
proof -
  assume n: "0 \<le> n" "n \<le> 2 ^ 53"
  have "of_int n \<le> fl (of_int n)" using n by (intro fl_ge_int) auto
  moreover have "fl (of_int n) \<le> fl (of_int n) * fl (11 / 10)"
    using fl_11 fl_nonneg [of "of_int n"] n(1) by (simp add: mult_le_cancel_left1)
  ultimately have "of_int n \<le> scaled (11 / 10) n" unfolding scaled_def using n by (intro fl_ge_int) auto
  then show ?thesis unfolding tenth_more_def by (rule go_ceil_ge)
qed

lemma tenth_more_examples: "tenth_more 10 = 11" "tenth_more 110 = 122" "tenth_more 30 = 33" "tenth_more 7 = 8"
  by code_simp+

end
