(* ===== verification/Budget.thy ===== *)
theory Budget
  imports Flight Go_Float
begin

text \<open>
  The token budget of a request (\<^verbatim>\<open>internal/agent/budget.go\<close>): how many tokens the system prompt, the tools and
  every message of the conversation take, measured with the model server's template and tokenizer where it has
  them and estimated from character counts otherwise.

  The model server is the record \<open>llm_server\<close>: \<^verbatim>\<open>Tokenize\<close>, \<^verbatim>\<open>ApplyTemplate\<close> and the transport kind of an error,
  each a function of its arguments for the duration of one measurement.  \<^verbatim>\<open>json.Marshal\<close> and the two hash keys are
  arguments as well.  A message travels with its record, so the index of \<^verbatim>\<open>in.Messages\<close> and \<^verbatim>\<open>in.Records\<close> is
  the position in one list of pairs.  A Go map that is ranged over is an association list in iteration order.
\<close>

section \<open>Data\<close>

record profile =
  pr_ID :: string
  pr_Tokenize :: bool
  pr_ApplyTemplate :: bool
  pr_ApplyTemplateTools :: bool
  pr_CachedTokens :: bool
  pr_Preserve :: bool
  pr_NCtx :: int
  pr_ReserveOutput :: int

record llmMessage =
  lm_Role :: string
  lm_Content :: gval
  lm_Reasoning :: string
  lm_ToolCalls :: "toolCall list"
  lm_ToolCallID :: string
  lm_Name :: string

definition system_message :: "string \<Rightarrow> llmMessage" where
  "system_message c = \<lparr>lm_Role = ''system'', lm_Content = GStr c, lm_Reasoning = [], lm_ToolCalls = [],
     lm_ToolCallID = [], lm_Name = []\<rparr>"

record llm_server =
  sv_Tokenize :: "string \<Rightarrow> int gores"
  sv_ApplyTemplate :: "llmMessage list \<Rightarrow> gval list \<Rightarrow> string gores"
  sv_connected :: "string \<Rightarrow> bool" \<comment> \<open>the error came after the connection was made (\<^verbatim>\<open>TransportConnected\<close>)\<close>

record budget_ops =
  bo_marshal :: "gval \<Rightarrow> string"
  bo_show :: "gval \<Rightarrow> string" \<comment> \<open>\<^verbatim>\<open>fmt.Sprint\<close> of a value that is not a string\<close>
  bo_weightKey :: "llmMessage \<Rightarrow> string"

type_synonym counts = "(string \<times> int) list"

record budgetInput =
  bi_SystemBase :: string
  bi_SystemProject :: string
  bi_SystemWorkspaceMemory :: string
  bi_System :: string
  bi_WithoutToolSystems :: "(string \<times> string) list"
  bi_Schemas :: "gval list"
  bi_AllSchemas :: "(string \<times> gval) list"
  bi_Messages :: "(llmMessage \<times> message) list"

record budgetState =
  bs_cpt :: rat
  bs_lastChars :: rat
  bs_pendingChars :: rat
  bs_requestEstimate :: int
  bs_measured :: int
  bs_cached :: int
  bs_hasMeasured :: bool
  bs_hasCached :: bool

record cachedToolCosts =
  cc_key :: string
  cc_schema :: counts
  cc_marginal :: counts

record cachedMessageWeight =
  cw_key :: string
  cw_tokens :: int

record budgeter =
  bg_states :: "string \<rightharpoonup> budgetState"
  bg_toolCosts :: "string \<rightharpoonup> cachedToolCosts"
  bg_messageWeights :: "string \<times> string \<rightharpoonup> cachedMessageWeight"

record budget =
  bu_NCtx :: int
  bu_Reserve :: int
  bu_Ceiling :: int
  bu_UsedEst :: int
  bu_UsedMeasured :: int
  bu_Drift :: int
  bu_CachedLast :: "int option"
  bu_Mode :: string
  bu_Estimated :: bool
  bu_EstimatedCategories :: "string list"
  bu_Categories :: counts
  bu_ToolSchemaTokens :: counts
  bu_ToolMarginalTokens :: counts

section \<open>The state of a session's budget\<close>

definition NewBudgeter :: budgeter where
  "NewBudgeter = \<lparr>bg_states = Map.empty, bg_toolCosts = Map.empty, bg_messageWeights = Map.empty\<rparr>"

definition fresh_budget_state :: budgetState where
  \<comment> \<open>\<^verbatim>\<open>&budgetState{cpt: 3.6}\<close>\<close>
  "fresh_budget_state = \<lparr>bs_cpt = fl (36 / 10), bs_lastChars = 0, bs_pendingChars = 0, bs_requestEstimate = 0, bs_measured = 0,
     bs_cached = 0, bs_hasMeasured = False, bs_hasCached = False\<rparr>"

definition state_of :: "budgeter \<Rightarrow> string \<Rightarrow> budgetState" where
  \<comment> \<open>\<^verbatim>\<open>Budgeter.state\<close>: a copy; that it stores the fresh state on first use is seen by no other operation\<close>
  "state_of b sid = (case bg_states b sid of None \<Rightarrow> fresh_budget_state | Some st \<Rightarrow> st)"

definition save_state :: "budgeter \<Rightarrow> string \<Rightarrow> (budgetState \<Rightarrow> budgetState) \<Rightarrow> budgeter" where
  "save_state b sid f = b\<lparr>bg_states := (bg_states b)(sid \<mapsto> f (state_of b sid))\<rparr>"

definition RecordUsage :: "budgeter \<Rightarrow> string \<Rightarrow> int \<Rightarrow> int \<Rightarrow> budgeter" where
  "RecordUsage b sid promptTokens cached = save_state b sid (\<lambda>st.
     let st1 = st\<lparr>bs_measured := promptTokens, bs_hasMeasured := True\<rparr>;
         st2 = (if 0 \<le> cached then st1\<lparr>bs_cached := cached, bs_hasCached := True\<rparr> else st1)
     in if 0 < promptTokens \<and> 0 < bs_lastChars st2
        then let observed = fl (bs_lastChars st2 / fl (of_int promptTokens))
             in st2\<lparr>bs_cpt := fl (fl (bs_cpt st2 / 2) + fl (observed / 2))\<rparr>
        else st2)"

definition MarkRequest :: "budgeter \<Rightarrow> string \<Rightarrow> int \<Rightarrow> budgeter" where
  "MarkRequest b sid estimate = save_state b sid (\<lambda>st. st\<lparr>bs_requestEstimate := estimate, bs_lastChars := bs_pendingChars st\<rparr>)"

definition ColdPrefill :: "budgeter \<Rightarrow> string \<Rightarrow> bool" where
  "ColdPrefill b sid = (let st = state_of b sid in
     bs_hasMeasured st \<and> bs_hasCached st \<and> 0 < bs_measured st \<and> bs_cached st < bs_measured st div 2)"

definition InvalidateToolCosts :: "budgeter \<Rightarrow> budgeter" where
  "InvalidateToolCosts b = b\<lparr>bg_toolCosts := Map.empty\<rparr>"

definition cachedCosts :: "budgeter \<Rightarrow> string \<Rightarrow> string \<Rightarrow> (counts \<times> counts) option" where
  "cachedCosts b sid key = (case bg_toolCosts b sid of
       Some entry \<Rightarrow> if cc_key entry = key then Some (cc_schema entry, cc_marginal entry) else None
     | None \<Rightarrow> None)"

definition saveCosts :: "budgeter \<Rightarrow> string \<Rightarrow> string \<Rightarrow> counts \<Rightarrow> counts \<Rightarrow> budgeter" where
  "saveCosts b sid key schema marginal =
     b\<lparr>bg_toolCosts := (bg_toolCosts b)(sid \<mapsto> \<lparr>cc_key = key, cc_schema = schema, cc_marginal = marginal\<rparr>)\<rparr>"

definition message_weight :: "budgeter \<Rightarrow> string \<Rightarrow> string \<Rightarrow> string \<Rightarrow> int option" where
  \<comment> \<open>\<^verbatim>\<open>cachedMessageWeight\<close>\<close>
  "message_weight b sid mid key = (if mid = [] then None else case bg_messageWeights b (sid, mid) of
       Some entry \<Rightarrow> if cw_key entry = key then Some (cw_tokens entry) else None
     | None \<Rightarrow> None)"

definition saveMessageWeight :: "budgeter \<Rightarrow> string \<Rightarrow> string \<Rightarrow> string \<Rightarrow> int \<Rightarrow> budgeter" where
  "saveMessageWeight b sid mid key tokens = (if mid = [] then b
     else b\<lparr>bg_messageWeights := (bg_messageWeights b)((sid, mid) \<mapsto> \<lparr>cw_key = key, cw_tokens = tokens\<rparr>)\<rparr>)"

section \<open>Helpers\<close>

fun fallbackOverhead :: "string \<Rightarrow> int" where
  "fallbackOverhead role =
     (if role = ''system'' then 4 else if role = ''user'' then 4 else if role = ''assistant'' then 4
      else if role = ''assistant_tools'' then 12 else if role = ''tool'' then 5 else 0)"

definition part_text :: "budget_ops \<Rightarrow> gval \<Rightarrow> string" where
  "part_text O1 part = (case part of GMap m \<Rightarrow>
       if gget m ''type'' = GStr ''text''
       then (case gget m ''text'' of GStr s \<Rightarrow> s | v \<Rightarrow> bo_show O1 v) else []
     | _ \<Rightarrow> [])"

definition messageText :: "budget_ops \<Rightarrow> gval \<Rightarrow> string" where
  "messageText O1 v = (case v of GStr s \<Rightarrow> s | GList parts \<Rightarrow> concat (map (part_text O1) parts) | _ \<Rightarrow> bo_show O1 v)"

definition messageChars :: "budget_ops \<Rightarrow> llmMessage \<Rightarrow> int" where
  "messageChars O1 m = int (rune_count (messageText O1 (lm_Content m))) + int (rune_count (lm_Reasoning m))
     + sum_list (map (\<lambda>c. int (rune_count (tc_Arguments c))) (lm_ToolCalls m))"

definition estimateChars :: "rat \<Rightarrow> rat \<Rightarrow> int" where
  "estimateChars chars cpt = (if chars \<le> 0 then 0 else go_ceil (fl (chars / cpt)))"

definition schema_name :: "gval \<Rightarrow> string" where
  "schema_name schema = (case schema of GMap w \<Rightarrow>
       (case gget w ''function'' of GMap f \<Rightarrow> str_or_empty (gget f ''name'') | _ \<Rightarrow> []) | _ \<Rightarrow> [])"

definition schemasWithout :: "gval list \<Rightarrow> string \<Rightarrow> gval list" where
  "schemasWithout schemas excluded = filter (\<lambda>s. schema_name s \<noteq> excluded) schemas"

fun cadd :: "counts \<Rightarrow> string \<Rightarrow> int \<Rightarrow> counts" where
  \<comment> \<open>\<^verbatim>\<open>m[k] += n\<close>\<close>
  "cadd [] k n = [(k, n)]"
| "cadd ((k', v) # m) k n = (if k' = k then (k', v + n) # m else (k', v) # cadd m k n)"

definition total_count :: "counts \<Rightarrow> int" where
  "total_count m = sum_list (map snd m)"

definition category_names :: "string list" where
  "category_names = [''system'', ''project'', ''workspace_memory'', ''agent_memory'', ''tools'', ''history'', ''files'',
     ''results'', ''fetched'', ''summary'']"

definition start_counts :: "int \<Rightarrow> int \<Rightarrow> int \<Rightarrow> int \<Rightarrow> int \<Rightarrow> counts" where
  \<comment> \<open>the categories before the messages are counted\<close>
  "start_counts sys proj wmem amem tools = [(''system'', sys), (''project'', proj), (''workspace_memory'', wmem),
     (''agent_memory'', amem), (''tools'', tools), (''history'', 0), (''files'', 0), (''results'', 0), (''fetched'', 0), (''summary'', 0)]"

section \<open>Estimated accounting\<close>

record measured =
  me_mode :: string
  me_counts :: counts
  me_estimated :: "string list"
  me_messages :: "string \<rightharpoonup> int \<times> bool"
  me_chars :: rat
  me_schema :: counts
  me_marginal :: counts

definition fill_input :: "budgetInput \<Rightarrow> budgetInput" where
  \<comment> \<open>the defaults of the project and workspace-memory prompts\<close>
  "fill_input i =
     (let p = (if bi_SystemProject i = [] then bi_SystemBase i else bi_SystemProject i);
          w = (if bi_SystemWorkspaceMemory i = [] then p else bi_SystemWorkspaceMemory i)
      in i\<lparr>bi_SystemProject := p, bi_SystemWorkspaceMemory := w\<rparr>)"

definition runes_of :: "string \<Rightarrow> rat" where
  "runes_of s = of_nat (rune_count s)"

fun count_messages ::
  "(llmMessage \<Rightarrow> int) \<Rightarrow> (llmMessage \<times> message) list \<Rightarrow> counts \<Rightarrow> (string \<rightharpoonup> int \<times> bool) \<Rightarrow> counts \<times> (string \<rightharpoonup> int \<times> bool)" where
  \<comment> \<open>the loop over the messages of the two estimating branches\<close>
  "count_messages tokens [] cats ms = (cats, ms)"
| "count_messages tokens ((m, r) # rest) cats ms =
     count_messages tokens rest (cadd cats (msg_Category r) (tokens m)) (ms(msg_ID r \<mapsto> (tokens m, True)))"

definition measure_estimated :: "budget_ops \<Rightarrow> rat \<Rightarrow> budgetInput \<Rightarrow> measured" where
  "measure_estimated O1 cpt0 i =
     (let cpt = (if cpt0 \<le> 0 then fl (36 / 10) else cpt0);
          baseChars = runes_of (bi_SystemBase i); projectChars = runes_of (bi_SystemProject i);
          memoryChars = runes_of (bi_SystemWorkspaceMemory i); fullChars = runes_of (bi_System i);
          toolChars = scaled (11 / 10) (int (rune_count (bo_marshal O1 (GList (bi_Schemas i)))));
          prefixChars = fl (fullChars + toolChars);
          start = start_counts (estimateChars baseChars cpt) (estimateChars (max 0 (projectChars - baseChars)) cpt)
            (estimateChars (max 0 (memoryChars - projectChars)) cpt) (estimateChars (max 0 (fullChars - memoryChars)) cpt)
            (estimateChars toolChars cpt);
          (cats, ms) = count_messages (\<lambda>m. estimateChars (of_int (messageChars O1 m)) cpt) (bi_Messages i) start Map.empty;
          full = estimateChars prefixChars cpt
      in \<lparr>me_mode = ''estimated'', me_counts = cats, me_estimated = category_names, me_messages = ms,
          me_chars = foldl (\<lambda>c m. fl (c + of_int (messageChars O1 (fst m)))) prefixChars (bi_Messages i),
          me_schema = map (\<lambda>(n, s). (n, estimateChars (scaled (11 / 10) (int (rune_count (bo_marshal O1 s)))) cpt)) (bi_AllSchemas i),
          me_marginal = map (\<lambda>(n, w). (n, max 0 (full - estimateChars
            (fl (runes_of w + scaled (11 / 10) (int (rune_count (bo_marshal O1 (GList (schemasWithout (bi_Schemas i) n))))))) cpt)))
            (bi_WithoutToolSystems i)\<rparr>)"

definition tokenize_or_estimate :: "llm_server \<Rightarrow> string \<Rightarrow> int" where
  "tokenize_or_estimate V s = (case sv_Tokenize V s of Ok n \<Rightarrow> n | _ \<Rightarrow> estimatedTokenCount s)"

definition message_tokens :: "budget_ops \<Rightarrow> llm_server \<Rightarrow> llmMessage \<Rightarrow> int" where
  "message_tokens O1 V m =
     (let count = tokenize_or_estimate V;
          overhead = (if lm_Role m = ''assistant'' \<and> lm_ToolCalls m \<noteq> [] then fallbackOverhead ''assistant_tools''
                      else fallbackOverhead (lm_Role m))
      in count (messageText O1 (lm_Content m)) + count (lm_Reasoning m) + overhead
         + sum_list (map (\<lambda>c. count (tc_Arguments c)) (lm_ToolCalls m)))"

definition measure_tokenized :: "budget_ops \<Rightarrow> llm_server \<Rightarrow> budgetInput \<Rightarrow> measured" where
  "measure_tokenized O1 V i =
     (let count = tokenize_or_estimate V;
          tools = tenth_more (count (bo_marshal O1 (GList (bi_Schemas i))));
          start = start_counts (count (bi_SystemBase i) + fallbackOverhead ''system'')
            (max 0 (count (bi_SystemProject i) - count (bi_SystemBase i)))
            (max 0 (count (bi_SystemWorkspaceMemory i) - count (bi_SystemProject i)))
            (max 0 (count (bi_System i) - count (bi_SystemWorkspaceMemory i))) tools;
          (cats, ms) = count_messages (message_tokens O1 V) (bi_Messages i) start Map.empty;
          full = count (bi_System i) + tools
      in \<lparr>me_mode = ''exact'', me_counts = cats, me_estimated = category_names, me_messages = ms, me_chars = 0,
          me_schema = map (\<lambda>(n, s). (n, tenth_more (count (bo_marshal O1 s)))) (bi_AllSchemas i),
          me_marginal = map (\<lambda>(n, w). (n, max 0 (full - count w
            - tenth_more (count (bo_marshal O1 (GList (schemasWithout (bi_Schemas i) n))))))) (bi_WithoutToolSystems i)\<rparr>)"

section \<open>Accounting with the server's template\<close>

fun gores_map :: "('a \<Rightarrow> 'b gores) \<Rightarrow> 'a list \<Rightarrow> 'b list gores" where
  "gores_map f [] = Ok []"
| "gores_map f (x # xs) = gores_bind (f x) (\<lambda>y. gores_bind (gores_map f xs) (\<lambda>ys. Ok (y # ys)))"

fun wrap_err :: "string \<Rightarrow> 'a gores \<Rightarrow> 'a gores" where
  \<comment> \<open>\<^verbatim>\<open>fmt.Errorf("...: %w", err)\<close>\<close>
  "wrap_err what (Err e) = Err (what @ '': '' @ e)"
| "wrap_err what r = r"

definition render :: "llm_server \<Rightarrow> llmMessage list \<Rightarrow> gval list \<Rightarrow> int gores" where
  "render V messages tools = gores_bind (sv_ApplyTemplate V messages tools) (sv_Tokenize V)"

record exactPrefix =
  ex_counts :: counts
  ex_estimated :: "string list"
  ex_tools :: int
  ex_active :: "gval list"
  ex_previous :: int
  ex_schema :: counts
  ex_marginal :: counts

definition template_costs :: "llm_server \<Rightarrow> budgetInput \<Rightarrow> int \<Rightarrow> int \<Rightarrow> (counts \<times> counts) gores" where
  \<comment> \<open>the cost of each tool when the template renders tools\<close>
  "template_costs V i withMemory withTools =
     gores_bind (gores_map (\<lambda>(n, s). gores_bind (wrap_err (''count schema '' @ n) (render V [system_message (bi_System i)] [s]))
         (\<lambda>one. Ok (n, max 0 (one - withMemory)))) (bi_AllSchemas i)) (\<lambda>schema.
     gores_bind (gores_map (\<lambda>(n, w). gores_bind (wrap_err (''count marginal '' @ n)
           (render V [system_message w] (schemasWithout (bi_Schemas i) n)))
         (\<lambda>without. Ok (n, max 0 (withTools - without)))) (bi_WithoutToolSystems i)) (\<lambda>marginal.
     Ok (schema, marginal)))"

definition plain_costs :: "budget_ops \<Rightarrow> llm_server \<Rightarrow> budgetInput \<Rightarrow> int \<Rightarrow> int \<Rightarrow> (counts \<times> counts) gores" where
  \<comment> \<open>the cost of each tool when only the text of its schema can be counted\<close>
  "plain_costs O1 V i withMemory tools =
     gores_bind (gores_map (\<lambda>(n, s). gores_bind (wrap_err (''count schema '' @ n) (sv_Tokenize V (bo_marshal O1 s)))
         (\<lambda>v. Ok (n, tenth_more v))) (bi_AllSchemas i)) (\<lambda>schema.
     gores_bind (gores_map (\<lambda>(n, w).
         gores_bind (wrap_err (''count marginal system '' @ n) (render V [system_message w] [])) (\<lambda>withoutBase.
         gores_bind (wrap_err (''count marginal schema '' @ n)
             (sv_Tokenize V (bo_marshal O1 (GList (schemasWithout (bi_Schemas i) n))))) (\<lambda>v.
         Ok (n, max 0 (withMemory + tools - withoutBase - tenth_more v))))) (bi_WithoutToolSystems i)) (\<lambda>marginal.
     Ok (schema, marginal)))"

definition exact_prefix ::
  "budget_ops \<Rightarrow> llm_server \<Rightarrow> profile \<Rightarrow> budgetInput \<Rightarrow> (counts \<times> counts) option \<Rightarrow> exactPrefix gores" where
  "exact_prefix O1 V P i cached =
     gores_bind (render V [system_message (bi_SystemBase i)] []) (\<lambda>base.
     gores_bind (if bi_SystemProject i \<noteq> bi_SystemBase i then render V [system_message (bi_SystemProject i)] [] else Ok base) (\<lambda>withProject.
     gores_bind (render V [system_message (bi_SystemWorkspaceMemory i)] []) (\<lambda>withWorkspaceMemory.
     gores_bind (render V [system_message (bi_System i)] []) (\<lambda>withMemory.
       let start = start_counts base (max 0 (withProject - base)) (max 0 (withWorkspaceMemory - withProject))
             (max 0 (withMemory - withWorkspaceMemory))
       in if pr_ApplyTemplateTools P then
            gores_bind (render V [system_message (bi_System i)] (bi_Schemas i)) (\<lambda>withTools.
            gores_bind (case cached of Some c \<Rightarrow> Ok c | None \<Rightarrow> template_costs V i withMemory withTools) (\<lambda>(schema, marginal).
            Ok \<lparr>ex_counts = start (max 0 (withTools - withMemory)), ex_estimated = [], ex_tools = max 0 (withTools - withMemory),
                ex_active = bi_Schemas i, ex_previous = withTools, ex_schema = schema, ex_marginal = marginal\<rparr>))
          else
            gores_bind (wrap_err ''count tool schemas'' (sv_Tokenize V (bo_marshal O1 (GList (bi_Schemas i))))) (\<lambda>v.
            gores_bind (case cached of Some c \<Rightarrow> Ok c | None \<Rightarrow> plain_costs O1 V i withMemory (tenth_more v)) (\<lambda>(schema, marginal).
            Ok \<lparr>ex_counts = start (tenth_more v), ex_estimated = [''tools''], ex_tools = tenth_more v, ex_active = [],
                ex_previous = withMemory + tenth_more v, ex_schema = schema, ex_marginal = marginal\<rparr>))))))"

definition fresh_weight :: "budget_ops \<Rightarrow> llm_server \<Rightarrow> nat \<Rightarrow> llmMessage \<Rightarrow> int gores" where
  \<comment> \<open>the weight of one message of a group, counted; \<open>n\<close> is its index\<close>
  "fresh_weight O1 V n m =
     gores_bind (wrap_err (''weight message '' @ itoa (int n)) (sv_Tokenize V (messageText O1 (lm_Content m) @ lm_Reasoning m))) (\<lambda>w.
     gores_bind (gores_map (\<lambda>c. wrap_err (''weight tool call '' @ tc_Name c) (sv_Tokenize V (tc_Arguments c))) (lm_ToolCalls m)) (\<lambda>vs.
     Ok (w + sum_list vs + 1)))"

fun group_weights ::
  "budget_ops \<Rightarrow> llm_server \<Rightarrow> string \<Rightarrow> nat \<Rightarrow> (llmMessage \<times> message) list \<Rightarrow> budgeter \<Rightarrow> int list gores \<times> budgeter" where
  "group_weights O1 V sid n [] b = (Ok [], b)"
| "group_weights O1 V sid n ((m, r) # rest) b =
     (let key = bo_weightKey O1 m in
      case message_weight b sid (msg_ID r) key of
        Some w \<Rightarrow> (let (ws, b') = group_weights O1 V sid (Suc n) rest b in (gores_bind ws (\<lambda>ws. Ok (w # ws)), b'))
      | None \<Rightarrow> (case fresh_weight O1 V n m of
            Ok w \<Rightarrow> (let (ws, b') = group_weights O1 V sid (Suc n) rest (saveMessageWeight b sid (msg_ID r) key w)
                     in (gores_bind ws (\<lambda>ws. Ok (w # ws)), b'))
          | Err e \<Rightarrow> (Err e, b)
          | Panic \<Rightarrow> (Panic, b)))"

definition share :: "int \<Rightarrow> int \<Rightarrow> int \<Rightarrow> int" where
  \<comment> \<open>\<^verbatim>\<open>int(math.Round(float64(groupTokens*weight) / float64(totalWeight)))\<close>\<close>
  "share g weight totalWeight = go_round (fl (fl (of_int (wrap64 (g * weight))) / fl (of_int totalWeight)))"

fun assign_tokens :: "int \<Rightarrow> int \<Rightarrow> int \<Rightarrow> int list \<Rightarrow> int list" where
  \<comment> \<open>\<open>g\<close> the tokens of the group, \<open>assigned\<close> those given out; the last message takes the rest\<close>
  "assign_tokens g totalWeight assigned [] = []"
| "assign_tokens g totalWeight assigned [w] = [g - assigned]"
| "assign_tokens g totalWeight assigned (w # v # ws) =
     (let tokens = share g w totalWeight in tokens # assign_tokens g totalWeight (assigned + tokens) (v # ws))"

fun record_tokens ::
  "(llmMessage \<times> message) list \<Rightarrow> int list \<Rightarrow> counts \<Rightarrow> (string \<rightharpoonup> int \<times> bool) \<Rightarrow> counts \<times> (string \<rightharpoonup> int \<times> bool)" where
  "record_tokens ((m, r) # rest) (t # ts) cats ms =
     record_tokens rest ts (cadd cats (msg_Category r) t) (ms(msg_ID r \<mapsto> (t, False)))"
| "record_tokens rest ts cats ms = (cats, ms)"

definition group_length :: "llmMessage \<Rightarrow> (llmMessage \<times> message) list \<Rightarrow> nat" where
  \<comment> \<open>how many of the following messages belong to the group of \<open>m\<close>\<close>
  "group_length m rest = (if lm_Role m = ''assistant'' \<and> lm_ToolCalls m \<noteq> []
     then length (takeWhile (\<lambda>(m', r'). lm_Role m' = ''tool'') (take (length (lm_ToolCalls m)) rest)) else 0)"

definition group_complete :: "llmMessage \<Rightarrow> (llmMessage \<times> message) list \<Rightarrow> bool" where
  "group_complete m rest \<longleftrightarrow>
     \<not> (lm_Role m = ''assistant'' \<and> lm_ToolCalls m \<noteq> [] \<and> group_length m rest < length (lm_ToolCalls m))"

record groupAcc =
  ga_prefix :: "llmMessage list"
  ga_previous :: int
  ga_counts :: counts
  ga_messages :: "string \<rightharpoonup> int \<times> bool"

function measure_groups ::
  "budget_ops \<Rightarrow> llm_server \<Rightarrow> string \<Rightarrow> profile \<Rightarrow> exactPrefix \<Rightarrow> nat \<Rightarrow> (llmMessage \<times> message) list \<Rightarrow> groupAcc \<Rightarrow> budgeter
     \<Rightarrow> groupAcc gores \<times> budgeter" where
  \<comment> \<open>the loop over the messages; \<open>n\<close> is the index of the first one\<close>
  "measure_groups O1 V sid P X n [] a b = (Ok a, b)"
| "measure_groups O1 V sid P X n ((m, r) # rest) a b =
     (let k = group_length m rest; group = (m, r) # take k rest;
          prefix = ga_prefix a @ map fst group
      in if \<not> group_complete m rest then (Err ''incomplete tool-call group'', b)
         else case render V prefix (ex_active X) of
           Ok v \<Rightarrow>
             let current = (if pr_ApplyTemplateTools P then v else v + ex_tools X);
                 groupTokens = max 0 (current - ga_previous a);
                 (weights, b1) = group_weights O1 V sid n group b
             in (case weights of
                   Ok ws \<Rightarrow>
                     let tokens = assign_tokens groupTokens (sum_list ws) 0 ws;
                         (cats, ms) = record_tokens group tokens (ga_counts a) (ga_messages a)
                     in measure_groups O1 V sid P X (n + k + 1) (drop k rest)
                          \<lparr>ga_prefix = prefix, ga_previous = current, ga_counts = cats, ga_messages = ms\<rparr> b1
                 | Err e \<Rightarrow> (Err e, b1)
                 | Panic \<Rightarrow> (Panic, b1))
         | Err e \<Rightarrow> (Err e, b)
         | Panic \<Rightarrow> (Panic, b))"
  by pat_completeness auto
termination
  by (relation "measure (\<lambda>(O1, V, sid, P, X, n, ms, a, b). length ms)") auto

definition measure_exact ::
  "budget_ops \<Rightarrow> llm_server \<Rightarrow> string \<Rightarrow> profile \<Rightarrow> budgetInput \<Rightarrow> (counts \<times> counts) option \<Rightarrow> budgeter \<Rightarrow> measured gores \<times> budgeter" where
  "measure_exact O1 V sid P i cached b =
     (case exact_prefix O1 V P i cached of
        Ok X \<Rightarrow>
          let (res, b') = measure_groups O1 V sid P X 0 (bi_Messages i)
                \<lparr>ga_prefix = [system_message (bi_System i)], ga_previous = ex_previous X, ga_counts = ex_counts X, ga_messages = Map.empty\<rparr> b
          in (gores_bind res (\<lambda>a. Ok \<lparr>me_mode = ''exact'', me_counts = ga_counts a, me_estimated = ex_estimated X,
                 me_messages = ga_messages a, me_chars = 0, me_schema = ex_schema X, me_marginal = ex_marginal X\<rparr>), b')
      | Err e \<Rightarrow> (Err e, b)
      | Panic \<Rightarrow> (Panic, b))"

section \<open>Measuring\<close>

definition force_estimate :: "string \<Rightarrow> profile \<Rightarrow> bool" where
  "force_estimate accounting P \<longleftrightarrow> accounting = ''estimated'' \<or> \<not> pr_Tokenize P"

definition measure_with ::
  "budget_ops \<Rightarrow> llm_server \<Rightarrow> string \<Rightarrow> string \<Rightarrow> profile \<Rightarrow> budgetInput \<Rightarrow> (counts \<times> counts) option \<Rightarrow> budgeter \<Rightarrow> measured gores \<times> budgeter" where
  \<comment> \<open>the choice between the three ways of counting\<close>
  "measure_with O1 V accounting sid P i cached b =
     (if force_estimate accounting P then (Ok (measure_estimated O1 (bs_cpt (state_of b sid)) i), b)
      else if \<not> pr_ApplyTemplate P then (Ok (measure_tokenized O1 V i), b)
      else measure_exact O1 V sid P i cached b)"

definition budget_of :: "profile \<Rightarrow> budgetState \<Rightarrow> measured \<Rightarrow> counts \<times> counts \<Rightarrow> budget" where
  "budget_of P st M costs =
     (let used = total_count (me_counts M) in
      \<lparr>bu_NCtx = pr_NCtx P, bu_Reserve = pr_ReserveOutput P, bu_Ceiling = max 0 (pr_NCtx P - pr_ReserveOutput P), bu_UsedEst = used,
       bu_UsedMeasured = (if bs_hasMeasured st then bs_measured st else 0),
       bu_Drift = (if bs_hasMeasured st then bs_measured st - bs_requestEstimate st else 0),
       bu_CachedLast = (if pr_CachedTokens P \<and> bs_hasCached st then Some (bs_cached st) else None),
       bu_Mode = me_mode M, bu_Estimated = (me_estimated M \<noteq> []), bu_EstimatedCategories = me_estimated M,
       bu_Categories = me_counts M, bu_ToolSchemaTokens = fst costs, bu_ToolMarginalTokens = snd costs\<rparr>)"

definition measure_session ::
  "budget_ops \<Rightarrow> llm_server \<Rightarrow> (rat \<Rightarrow> budgetInput \<Rightarrow> string) \<Rightarrow> string \<Rightarrow> profile \<Rightarrow> session \<Rightarrow> budgetInput \<Rightarrow> bool \<Rightarrow> budgeter
     \<Rightarrow> budget gores \<times> session \<times> budgeter" where
  \<comment> \<open>\<^verbatim>\<open>Budgeter.measure\<close>; \<open>cost_key\<close> is \<^verbatim>\<open>toolCostKey\<close> for this profile and accounting.  The session keeps the
     message counts; its token tables and its copy of the budget are for display and not modelled.\<close>
  "measure_session O1 V cost_key accounting P s i0 mark b =
     (let i = fill_input i0; sid = s_ID s; st = state_of b sid;
          key = cost_key (if force_estimate accounting P then bs_cpt st else 0) i;
          cached = cachedCosts b sid key; (res, b1) = measure_with O1 V accounting sid P i cached b
      in case res of
           Ok M \<Rightarrow>
             let costs = (case cached of Some c \<Rightarrow> c | None \<Rightarrow> (me_schema M, me_marginal M));
                 b2 = (if cached = None then saveCosts b1 sid key (fst costs) (snd costs) else b1);
                 bu = budget_of P st M costs;
                 b3 = save_state b2 sid (\<lambda>saved. let s1 = saved\<lparr>bs_pendingChars := me_chars M\<rparr> in
                        if mark then s1\<lparr>bs_requestEstimate := bu_UsedEst bu, bs_lastChars := me_chars M\<rparr> else s1)
             in (Ok bu, SetMessageCounts s (me_messages M), b3)
         | Err e \<Rightarrow> (Err e, s, b1)
         | Panic \<Rightarrow> (Panic, s, b1))"

definition Measure ::
  "budget_ops \<Rightarrow> llm_server \<Rightarrow> (string \<Rightarrow> rat \<Rightarrow> budgetInput \<Rightarrow> string) \<Rightarrow> string \<Rightarrow> bool \<Rightarrow> profile \<Rightarrow> session \<Rightarrow> budgetInput \<Rightarrow> bool
     \<Rightarrow> budgeter \<Rightarrow> (budget gores \<times> session \<times> budgeter) \<times> string option" where
  \<comment> \<open>\<^verbatim>\<open>Measure\<close> and \<^verbatim>\<open>MeasureWithBusy\<close>: an error after the connection was made falls back to estimates; the last
     component is the error \<^verbatim>\<open>onBusy\<close> is told about.  \<open>cancelled\<close> is \<^verbatim>\<open>ctx.Err() != nil\<close>.\<close>
  "Measure O1 V cost_key accounting cancelled P s i mark b =
     (case measure_session O1 V (cost_key accounting) accounting P s i mark b of
        (Err e, s', b') \<Rightarrow>
          if cancelled \<or> \<not> sv_connected V e then ((Err e, s', b'), None)
          else (measure_session O1 V (cost_key ''estimated'') ''estimated'' P s' i mark b', Some e)
      | r \<Rightarrow> (r, None))"

section \<open>The exact budget and the rendered prompt\<close>

lemma total_count_cadd [simp]: "total_count (cadd m k n) = total_count m + n"
  by (induction m k n rule: cadd.induct) (auto simp: total_count_def)

lemma length_assign_tokens [simp]: "length (assign_tokens g t a ws) = length ws"
  by (induction g t a ws rule: assign_tokens.induct) (auto simp: Let_def)

lemma sum_assign_tokens: "ws \<noteq> [] \<Longrightarrow> sum_list (assign_tokens g t a ws) = g - a"
  by (induction g t a ws rule: assign_tokens.induct) (auto simp: Let_def)

lemma record_tokens_total:
  "length ts = length gs \<Longrightarrow> total_count (fst (record_tokens gs ts cats ms)) = total_count cats + sum_list ts"
  by (induction gs ts cats ms rule: record_tokens.induct) auto

lemma group_weights_length:
  "group_weights O1 V sid n gs b = (Ok ws, b') \<Longrightarrow> length ws = length gs"
proof (induction O1 V sid n gs b arbitrary: ws b' rule: group_weights.induct)
  case (2 O1 V sid n m r rest b)
  show ?case
  proof (cases "message_weight b sid (msg_ID r) (bo_weightKey O1 m)")
    case None
    then obtain w where "fresh_weight O1 V n m = Ok w" using 2(3) by (auto split: gores.splits)
    with None 2(1) [OF refl None this] 2(3) show ?thesis by (auto simp: gores_bind_Ok split: prod.splits)
  next
    case (Some w)
    with 2(2) [OF refl Some] 2(3) show ?thesis by (auto simp: gores_bind_Ok split: prod.splits)
  qed
qed simp

definition prompt_of :: "llm_server \<Rightarrow> profile \<Rightarrow> exactPrefix \<Rightarrow> llmMessage list \<Rightarrow> int gores" where
  \<comment> \<open>the tokens of a rendered prompt, with the estimate of the tools when the template leaves them out\<close>
  "prompt_of V P X ms = gores_bind (render V ms (ex_active X)) (\<lambda>v. Ok (if pr_ApplyTemplateTools P then v else v + ex_tools X))"

definition server_grows :: "llm_server \<Rightarrow> bool" where
  \<comment> \<open>a longer conversation never has fewer tokens\<close>
  "server_grows V \<longleftrightarrow> (\<forall>ms ms' ts a b. render V ms ts = Ok a \<and> render V (ms @ ms') ts = Ok b \<longrightarrow> a \<le> b)"

definition prompts_grow :: "llm_server \<Rightarrow> budgetInput \<Rightarrow> bool" where
  \<comment> \<open>the system prompts, each an extension of the one before, and the tools never have fewer tokens\<close>
  "prompts_grow V i \<longleftrightarrow> (\<forall>b p w m t. render V [system_message (bi_SystemBase i)] [] = Ok b
     \<and> render V [system_message (bi_SystemProject i)] [] = Ok p \<and> render V [system_message (bi_SystemWorkspaceMemory i)] [] = Ok w
     \<and> render V [system_message (bi_System i)] [] = Ok m \<and> render V [system_message (bi_System i)] (bi_Schemas i) = Ok t
     \<longrightarrow> b \<le> p \<and> p \<le> w \<and> w \<le> m \<and> m \<le> t)"

definition acc_ok :: "llm_server \<Rightarrow> profile \<Rightarrow> exactPrefix \<Rightarrow> bool \<Rightarrow> groupAcc \<Rightarrow> bool" where
  "acc_ok V P X e a \<longleftrightarrow> prompt_of V P X (ga_prefix a) = Ok (ga_previous a) \<and> ga_previous a \<le> total_count (ga_counts a)
     \<and> (server_grows V \<and> e \<longrightarrow> total_count (ga_counts a) = ga_previous a)"

lemma prompt_grows:
  "server_grows V \<Longrightarrow> prompt_of V P X ms = Ok a \<Longrightarrow> prompt_of V P X (ms @ ms') = Ok b \<Longrightarrow> a \<le> b"
  by (auto simp: prompt_of_def gores_bind_Ok server_grows_def split: if_splits)

lemma measure_groups_step:
  assumes "measure_groups O1 V sid P X n ((m, r) # rest) a b = (Ok a', b')" "k = group_length m rest" "gs = (m, r) # take k rest"
  obtains current ws b1 cats ms where
    "group_complete m rest" "prompt_of V P X (ga_prefix a @ map fst gs) = Ok current"
    "group_weights O1 V sid n gs b = (Ok ws, b1)"
    "record_tokens gs (assign_tokens (max 0 (current - ga_previous a)) (sum_list ws) 0 ws) (ga_counts a) (ga_messages a) = (cats, ms)"
    "measure_groups O1 V sid P X (n + k + 1) (drop k rest)
       \<lparr>ga_prefix = ga_prefix a @ map fst gs, ga_previous = current, ga_counts = cats, ga_messages = ms\<rparr> b1 = (Ok a', b')"
proof -
  from assms have complete: "group_complete m rest" by (auto simp: Let_def split: if_splits)
  with assms obtain v where v: "render V (ga_prefix a @ map fst gs) (ex_active X) = Ok v"
    by (auto simp: Let_def split: gores.splits)
  let ?current = "if pr_ApplyTemplateTools P then v else v + ex_tools X"
  obtain res b1 where w: "group_weights O1 V sid n gs b = (res, b1)" by fastforce
  with assms complete v obtain ws where ws: "res = Ok ws" by (auto simp: Let_def split: gores.splits)
  obtain cats ms where r: "record_tokens gs (assign_tokens (max 0 (?current - ga_previous a)) (sum_list ws) 0 ws)
      (ga_counts a) (ga_messages a) = (cats, ms)" by fastforce
  have "measure_groups O1 V sid P X (n + k + 1) (drop k rest)
       \<lparr>ga_prefix = ga_prefix a @ map fst gs, ga_previous = ?current, ga_counts = cats, ga_messages = ms\<rparr> b1 = (Ok a', b')"
    using assms(1) complete v w ws r unfolding measure_groups.simps Let_def assms(2,3) by simp
  with complete v w ws r show ?thesis by (intro that) (auto simp: prompt_of_def)
qed

declare measure_groups.simps(2) [simp del]

lemma measure_groups_ok:
  assumes "measure_groups O1 V sid P X n ms a b = (Ok a', b')" "acc_ok V P X e a"
  shows "acc_ok V P X e a' \<and> ga_prefix a' = ga_prefix a @ map fst ms"
  using assms
proof (induction "length ms" arbitrary: n ms a b rule: less_induct)
  case less
  show ?case
  proof (cases ms)
    case (Cons mr rest)
    obtain m r where mr: "mr = (m, r)" by fastforce
    define k where "k = group_length m rest"
    define gs where "gs = (m, r) # take k rest"
    have step: "measure_groups O1 V sid P X n ((m, r) # rest) a b = (Ok a', b')" using less.prems(1) Cons mr by simp
    obtain current ws b1 cats ms1 where st: "group_complete m rest"
      "prompt_of V P X (ga_prefix a @ map fst gs) = Ok current" "group_weights O1 V sid n gs b = (Ok ws, b1)"
      "record_tokens gs (assign_tokens (max 0 (current - ga_previous a)) (sum_list ws) 0 ws) (ga_counts a) (ga_messages a) = (cats, ms1)"
      "measure_groups O1 V sid P X (n + k + 1) (drop k rest)
        \<lparr>ga_prefix = ga_prefix a @ map fst gs, ga_previous = current, ga_counts = cats, ga_messages = ms1\<rparr> b1 = (Ok a', b')"
      by (rule measure_groups_step [OF step k_def gs_def])
    from group_weights_length [OF st(3)] have ws: "length ws = length gs" "ws \<noteq> []" by (auto simp: gs_def)
    have "total_count cats = total_count (ga_counts a) + max 0 (current - ga_previous a)"
      using record_tokens_total [of "assign_tokens (max 0 (current - ga_previous a)) (sum_list ws) 0 ws" gs "ga_counts a" "ga_messages a"]
        st(4) ws by (simp add: sum_assign_tokens)
    with less.prems(2) st(2) prompt_grows [of V P X "ga_prefix a" "ga_previous a" "map fst gs" current]
    have "acc_ok V P X e \<lparr>ga_prefix = ga_prefix a @ map fst gs, ga_previous = current, ga_counts = cats, ga_messages = ms1\<rparr>"
      by (auto simp: acc_ok_def)
    from less.hyps [OF _ st(5) this] Cons mr show ?thesis by (auto simp: gs_def simp flip: map_append)
  qed (use less.prems in simp)
qed

lemma exact_prefix_ok:
  assumes "exact_prefix O1 V P i cached = Ok X" "e \<longrightarrow> pr_ApplyTemplateTools P \<and> prompts_grow V i"
  shows "acc_ok V P X e \<lparr>ga_prefix = [system_message (bi_System i)], ga_previous = ex_previous X, ga_counts = ex_counts X, ga_messages = ms\<rparr>"
    "ex_active X = (if pr_ApplyTemplateTools P then bi_Schemas i else [])"
proof -
  from assms(1) obtain base withProject wm mem where r: "render V [system_message (bi_System i)] [] = Ok mem"
    "(let start = start_counts base (max 0 (withProject - base)) (max 0 (wm - withProject)) (max 0 (mem - wm))
       in if pr_ApplyTemplateTools P then
            gores_bind (render V [system_message (bi_System i)] (bi_Schemas i)) (\<lambda>withTools.
            gores_bind (case cached of Some c \<Rightarrow> Ok c | None \<Rightarrow> template_costs V i mem withTools) (\<lambda>(schema, marginal).
            Ok \<lparr>ex_counts = start (max 0 (withTools - mem)), ex_estimated = [], ex_tools = max 0 (withTools - mem),
                ex_active = bi_Schemas i, ex_previous = withTools, ex_schema = schema, ex_marginal = marginal\<rparr>))
          else
            gores_bind (wrap_err ''count tool schemas'' (sv_Tokenize V (bo_marshal O1 (GList (bi_Schemas i))))) (\<lambda>v.
            gores_bind (case cached of Some c \<Rightarrow> Ok c | None \<Rightarrow> plain_costs O1 V i mem (tenth_more v)) (\<lambda>(schema, marginal).
            Ok \<lparr>ex_counts = start (tenth_more v), ex_estimated = [''tools''], ex_tools = tenth_more v, ex_active = [],
                ex_previous = mem + tenth_more v, ex_schema = schema, ex_marginal = marginal\<rparr>))) = Ok X"
    and g: "render V [system_message (bi_SystemBase i)] [] = Ok base" "render V [system_message (bi_SystemWorkspaceMemory i)] [] = Ok wm"
      "(if bi_SystemProject i \<noteq> bi_SystemBase i then render V [system_message (bi_SystemProject i)] [] else Ok base) = Ok withProject"
    unfolding exact_prefix_def gores_bind_Ok by blast
  from g have p: "render V [system_message (bi_SystemProject i)] [] = Ok withProject" by (auto split: if_splits)
  have t: "total_count (start_counts a b c d e) = a + b + c + d + e" for a b c d e
    by (simp add: start_counts_def total_count_def)
  show "acc_ok V P X e \<lparr>ga_prefix = [system_message (bi_System i)], ga_previous = ex_previous X, ga_counts = ex_counts X, ga_messages = ms\<rparr>"
    "ex_active X = (if pr_ApplyTemplateTools P then bi_Schemas i else [])"
    using r g(1,2) p assms(2)
    by (cases "pr_ApplyTemplateTools P"; force simp: Let_def gores_bind_Ok acc_ok_def prompt_of_def prompts_grow_def t split: prod.splits)+
qed

section \<open>Tool-call groups\<close>

fun grouped :: "(string \<times> nat) list \<Rightarrow> bool" where
  \<comment> \<open>roles and numbers of tool calls: every assistant message is followed by at least as many tool messages as it calls\<close>
  "grouped [] = True"
| "grouped ((role, n) # rest) \<longleftrightarrow> (role = ''assistant'' \<longrightarrow> n \<le> length (takeWhile (\<lambda>(r, k). r = ''tool'') rest)) \<and> grouped rest"

definition llm_shape :: "llmMessage \<Rightarrow> string \<times> nat" where
  "llm_shape m = (lm_Role m, length (lm_ToolCalls m))"

definition total_server :: "llm_server \<Rightarrow> bool" where
  \<comment> \<open>the server answers every request\<close>
  "total_server V \<longleftrightarrow> (\<forall>s. \<exists>n. sv_Tokenize V s = Ok n) \<and> (\<forall>ms tools. \<exists>s. sv_ApplyTemplate V ms tools = Ok s)"

lemma grouped_tools: "\<forall>x \<in> set xs. fst x = ''tool'' \<Longrightarrow> grouped (xs @ ys) = grouped ys"
  by (induction xs) auto

lemma takeWhile_tools:
  "takeWhile (\<lambda>(r, k). r = ''tool'') (map (\<lambda>p. llm_shape (fst p)) rest) = map (\<lambda>p. llm_shape (fst p)) (takeWhile (\<lambda>(m', r'). lm_Role m' = ''tool'') rest)"
  by (induction rest) (auto simp: llm_shape_def split: prod.splits)

lemma length_takeWhile_take: "length (takeWhile P (take n xs)) = min n (length (takeWhile P xs))"
  by (induction xs arbitrary: n) (auto simp: take_Cons split: nat.splits)

lemma grouped_group:
  "grouped (map (\<lambda>p. llm_shape (fst p)) ((m, r) # rest)) \<longleftrightarrow>
     group_complete m rest \<and> grouped (map (\<lambda>p. llm_shape (fst p)) (drop (group_length m rest) rest))"
proof -
  let ?k = "group_length m rest" and ?tool = "\<lambda>(m', r'). lm_Role m' = ''tool''"
  have "\<forall>x \<in> set (take ?k rest). lm_Role (fst x) = ''tool''"
  proof (cases "lm_Role m = ''assistant'' \<and> lm_ToolCalls m \<noteq> []")
    case True
    let ?xs = "take (length (lm_ToolCalls m)) rest"
    have k: "?k = length (takeWhile ?tool ?xs)" using True by (simp add: group_length_def)
    then have "takeWhile ?tool ?xs = take ?k ?xs" using takeWhile_eq_take [of ?tool ?xs] by metis
    moreover have "?k \<le> length (lm_ToolCalls m)" unfolding k by (simp add: length_takeWhile_take)
    then have "take ?k ?xs = take ?k rest" by (simp add: min_def)
    ultimately have "take ?k rest = takeWhile ?tool ?xs" by simp
    then show ?thesis by (auto dest: set_takeWhileD)
  qed (auto simp: group_length_def)
  then have "grouped (map (\<lambda>p. llm_shape (fst p)) (take ?k rest) @ map (\<lambda>p. llm_shape (fst p)) (drop ?k rest))
      = grouped (map (\<lambda>p. llm_shape (fst p)) (drop ?k rest))"
    by (intro grouped_tools) (auto simp: llm_shape_def)
  then have rest: "grouped (map (\<lambda>p. llm_shape (fst p)) rest) = grouped (map (\<lambda>p. llm_shape (fst p)) (drop ?k rest))"
    by (simp flip: map_append)
  have "group_complete m rest \<longleftrightarrow> (lm_Role m = ''assistant'' \<longrightarrow> length (lm_ToolCalls m) \<le> length (takeWhile ?tool rest))"
    by (auto simp: group_complete_def group_length_def length_takeWhile_take)
  with rest show ?thesis by (simp add: llm_shape_def [of m] takeWhile_tools)
qed

lemma total_render: "total_server V \<Longrightarrow> \<exists>n. render V ms ts = Ok n"
  by (metis gores_bind.simps(1) render_def total_server_def)

lemma gores_map_Ok: "\<forall>x \<in> set xs. \<exists>y. f x = Ok y \<Longrightarrow> \<exists>ys. gores_map f xs = Ok ys"
  by (induction xs) auto

lemma total_weight:
  assumes "total_server V"
  shows "\<exists>w. fresh_weight O1 V n m = Ok w"
proof -
  have t: "\<exists>n. wrap_err e (sv_Tokenize V s) = Ok n" for e s using assms by (metis total_server_def wrap_err.simps(2))
  from t obtain w where "wrap_err (''weight message '' @ itoa (int n)) (sv_Tokenize V (messageText O1 (lm_Content m) @ lm_Reasoning m)) = Ok w"
    by blast
  moreover from t have "\<exists>vs. gores_map (\<lambda>c. wrap_err (''weight tool call '' @ tc_Name c) (sv_Tokenize V (tc_Arguments c))) (lm_ToolCalls m) = Ok vs"
    by (intro gores_map_Ok) blast
  ultimately show ?thesis by (auto simp: fresh_weight_def)
qed

lemma total_group_weights: "total_server V \<Longrightarrow> \<exists>ws b'. group_weights O1 V sid n gs b = (Ok ws, b')"
proof (induction gs arbitrary: n b)
  case (Cons mr gs)
  obtain m r where mr: "mr = (m, r)" by fastforce
  obtain w where w: "fresh_weight O1 V n m = Ok w" using total_weight [OF Cons.prems] by blast
  show ?case
  proof (cases "message_weight b sid (msg_ID r) (bo_weightKey O1 m)")
    case None
    with w Cons.IH [OF Cons.prems, of "Suc n" "saveMessageWeight b sid (msg_ID r) (bo_weightKey O1 m) w"] mr
    show ?thesis by (auto simp: Let_def split_beta)
  next
    case (Some v)
    with Cons.IH [OF Cons.prems, of "Suc n" b] mr show ?thesis by (auto simp: Let_def split_beta)
  qed
qed simp

lemma measure_groups_total:
  assumes "total_server V"
  shows "if grouped (map (\<lambda>p. llm_shape (fst p)) ms) then \<exists>a'. fst (measure_groups O1 V sid P X n ms a b) = Ok a'
    else fst (measure_groups O1 V sid P X n ms a b) = Err ''incomplete tool-call group''"
proof (induction "length ms" arbitrary: n ms a b rule: less_induct)
  case less
  show ?case
  proof (cases ms)
    case (Cons mr rest)
    obtain m r where mr: "mr = (m, r)" by fastforce
    let ?k = "group_length m rest"
    let ?gs = "(m, r) # take ?k rest"
    obtain v where v: "render V (ga_prefix a @ map fst ?gs) (ex_active X) = Ok v" using total_render [OF assms] by blast
    obtain ws b1 where w: "group_weights O1 V sid n ?gs b = (Ok ws, b1)" using total_group_weights [OF assms] by blast
    let ?c = "if pr_ApplyTemplateTools P then v else v + ex_tools X"
    obtain cats ms1 where r: "record_tokens ?gs (assign_tokens (max 0 (?c - ga_previous a)) (sum_list ws) 0 ws)
        (ga_counts a) (ga_messages a) = (cats, ms1)" by fastforce
    have step: "measure_groups O1 V sid P X n ms a b =
      (if \<not> group_complete m rest then (Err ''incomplete tool-call group'', b)
       else measure_groups O1 V sid P X (n + ?k + 1) (drop ?k rest)
         \<lparr>ga_prefix = ga_prefix a @ map fst ?gs, ga_previous = ?c, ga_counts = cats, ga_messages = ms1\<rparr> b1)"
      using v w r unfolding Cons mr measure_groups.simps(2) Let_def by simp
    have "length (drop ?k rest) < length ms" using Cons by simp
    from less [OF this] show ?thesis using grouped_group [of m r rest] Cons mr unfolding step by auto
  qed simp
qed

section \<open>Properties\<close>

lemma fill_input_same [simp]:
  "bi_System (fill_input i) = bi_System i" "bi_Schemas (fill_input i) = bi_Schemas i" "bi_Messages (fill_input i) = bi_Messages i"
  "bi_SystemBase (fill_input i) = bi_SystemBase i"
  by (simp_all add: fill_input_def Let_def)

lemma measure_session_exact:
  assumes "measure_session O1 V cost_key accounting P s i mark b = (Ok bu, s', b')" "\<not> force_estimate accounting P" "pr_ApplyTemplate P"
  obtains X a cached b1 where "exact_prefix O1 V P (fill_input i) cached = Ok X"
    "measure_groups O1 V (s_ID s) P X 0 (bi_Messages i) \<lparr>ga_prefix = [system_message (bi_System i)],
       ga_previous = ex_previous X, ga_counts = ex_counts X, ga_messages = Map.empty\<rparr> b = (Ok a, b1)"
    "bu_UsedEst bu = total_count (ga_counts a)" "s' = SetMessageCounts s (ga_messages a)" "bu_Mode bu = ''exact''"
    "bu_NCtx bu = pr_NCtx P"
proof -
  define cached where "cached = cachedCosts b (s_ID s) (cost_key (0 :: rat) (fill_input i))"
  obtain res b1 where w: "measure_with O1 V accounting (s_ID s) P (fill_input i) cached b = (res, b1)" by fastforce
  with assms obtain M where M: "res = Ok M" "bu_UsedEst bu = total_count (me_counts M)" "s' = SetMessageCounts s (me_messages M)"
    "bu_Mode bu = me_mode M" "bu_NCtx bu = pr_NCtx P"
    by (auto simp: measure_session_def Let_def cached_def budget_of_def split: gores.splits)
  have e: "measure_exact O1 V (s_ID s) P (fill_input i) cached b = (Ok M, b1)"
    using w M(1) assms(2,3) by (simp add: measure_with_def)
  then obtain X where X: "exact_prefix O1 V P (fill_input i) cached = Ok X"
    by (auto simp: measure_exact_def split: gores.splits)
  with e M obtain a where "measure_groups O1 V (s_ID s) P X 0 (bi_Messages i) \<lparr>ga_prefix = [system_message (bi_System i)],
       ga_previous = ex_previous X, ga_counts = ex_counts X, ga_messages = Map.empty\<rparr> b = (Ok a, b1)"
    "me_counts M = ga_counts a" "me_messages M = ga_messages a" "me_mode M = ''exact''"
    by (auto simp: measure_exact_def gores_bind_Ok split: prod.splits)
  with X M show ?thesis by (intro that) auto
qed

lemma exact_budget:
  assumes "measure_session O1 V cost_key accounting P s i mark b = (Ok bu, s', b')" "\<not> force_estimate accounting P" "pr_ApplyTemplate P"
    "prompt = system_message (bi_System i) # map fst (bi_Messages i)"
  shows "if pr_ApplyTemplateTools P
    then \<exists>n. render V prompt (bi_Schemas i) = Ok n \<and> n \<le> bu_UsedEst bu
      \<and> (server_grows V \<and> prompts_grow V (fill_input i) \<longrightarrow> bu_UsedEst bu = n)
    else \<exists>n v. render V prompt [] = Ok n \<and> sv_Tokenize V (bo_marshal O1 (GList (bi_Schemas i))) = Ok v
      \<and> n + tenth_more v \<le> bu_UsedEst bu"
proof -
  from assms(1-3) obtain X a cached b1 where m: "exact_prefix O1 V P (fill_input i) cached = Ok X"
    "measure_groups O1 V (s_ID s) P X 0 (bi_Messages i) \<lparr>ga_prefix = [system_message (bi_System i)],
       ga_previous = ex_previous X, ga_counts = ex_counts X, ga_messages = Map.empty\<rparr> b = (Ok a, b1)"
    "bu_UsedEst bu = total_count (ga_counts a)" by (rule measure_session_exact)
  define e where "e \<longleftrightarrow> pr_ApplyTemplateTools P \<and> prompts_grow V (fill_input i)"
  then have e: "e \<longrightarrow> pr_ApplyTemplateTools P \<and> prompts_grow V (fill_input i)" by simp
  from exact_prefix_ok(1) [OF m(1) e] have "acc_ok V P X e \<lparr>ga_prefix = [system_message (bi_System i)],
       ga_previous = ex_previous X, ga_counts = ex_counts X, ga_messages = Map.empty\<rparr>" by simp
  from measure_groups_ok [OF m(2) this] assms(4) have a: "acc_ok V P X e a" "ga_prefix a = prompt" by auto
  have act: "ex_active X = (if pr_ApplyTemplateTools P then bi_Schemas i else [])"
    using exact_prefix_ok(2) [OF m(1) e] by simp
  show ?thesis
  proof (cases "pr_ApplyTemplateTools P")
    case True
    with a act m(3) e_def show ?thesis by (auto simp: acc_ok_def prompt_of_def gores_bind_Ok)
  next
    case False
    from m(1) False obtain v where "wrap_err ''count tool schemas'' (sv_Tokenize V (bo_marshal O1 (GList (bi_Schemas i)))) = Ok v"
      "ex_tools X = tenth_more v"
      by (auto simp: exact_prefix_def gores_bind_Ok Let_def split: prod.splits)
    moreover from this(1) have "sv_Tokenize V (bo_marshal O1 (GList (bi_Schemas i))) = Ok v"
      by (cases "sv_Tokenize V (bo_marshal O1 (GList (bi_Schemas i)))") auto
    ultimately show ?thesis using False a act m(3) by (auto simp: acc_ok_def prompt_of_def gores_bind_Ok)
  qed
qed

text \<open>An exact budget counts the prompt the server will see: the estimate of a measured conversation is at least the
  number of tokens of the rendered conversation (system prompt, all messages and the tool schemas), whatever the
  template does, and it is exactly that number when a longer conversation never has fewer tokens.  When the
  template does not render tools, the separate allowance for them is included.\<close>

theorem exact_budget_counts_the_prompt:
  assumes "measure_session O1 V cost_key accounting P s i mark b = (Ok bu, s', b')" "\<not> force_estimate accounting P" "pr_ApplyTemplate P"
    "prompt = system_message (bi_System i) # map fst (bi_Messages i)"
  shows "if pr_ApplyTemplateTools P
    then \<exists>n. render V prompt (bi_Schemas i) = Ok n \<and> n \<le> bu_UsedEst bu
      \<and> (server_grows V \<and> prompts_grow V (fill_input i) \<longrightarrow> bu_UsedEst bu = n)
    else \<exists>n v. render V prompt [] = Ok n \<and> sv_Tokenize V (bo_marshal O1 (GList (bi_Schemas i))) = Ok v
      \<and> n + tenth_more v \<le> bu_UsedEst bu"
  using exact_budget [OF assms] .

lemma total_exact_prefix:
  assumes "total_server V"
  shows "\<exists>X. exact_prefix O1 V P i cached = Ok X"
proof -
  have tok: "\<exists>n. wrap_err e (sv_Tokenize V s) = Ok n" for e s using assms by (metis total_server_def wrap_err.simps(2))
  have ren: "\<exists>n. wrap_err e (render V ms ts) = Ok n" for e ms ts using total_render [OF assms] by (metis wrap_err.simps(2))
  note r = total_render [OF assms]
  from r obtain base where 1: "render V [system_message (bi_SystemBase i)] [] = Ok base" by blast
  from r obtain p where 2: "(if bi_SystemProject i \<noteq> bi_SystemBase i then render V [system_message (bi_SystemProject i)] [] else Ok base) = Ok p"
    by (cases "bi_SystemProject i = bi_SystemBase i") auto
  from r obtain w where 3: "render V [system_message (bi_SystemWorkspaceMemory i)] [] = Ok w" by blast
  from r obtain m where 4: "render V [system_message (bi_System i)] [] = Ok m" by blast
  from r obtain t where 5: "render V [system_message (bi_System i)] (bi_Schemas i) = Ok t" by blast
  from tok obtain v where 6: "wrap_err ''count tool schemas'' (sv_Tokenize V (bo_marshal O1 (GList (bi_Schemas i)))) = Ok v" by blast
  have tc: "\<exists>c. template_costs V i m t = Ok c"
  proof -
    have "\<exists>ys. gores_map (\<lambda>(n, s). gores_bind (wrap_err (''count schema '' @ n) (render V [system_message (bi_System i)] [s]))
         (\<lambda>one. Ok (n, max 0 (one - m)))) (bi_AllSchemas i) = Ok ys"
      using ren by (intro gores_map_Ok) (fastforce split: prod.splits)
    moreover have "\<exists>ys. gores_map (\<lambda>(n, w). gores_bind (wrap_err (''count marginal '' @ n)
           (render V [system_message w] (schemasWithout (bi_Schemas i) n)))
         (\<lambda>without. Ok (n, max 0 (t - without)))) (bi_WithoutToolSystems i) = Ok ys"
      using ren by (intro gores_map_Ok) (fastforce split: prod.splits)
    ultimately show ?thesis unfolding template_costs_def by fastforce
  qed
  have pc: "\<exists>c. plain_costs O1 V i m (tenth_more v) = Ok c"
  proof -
    have "\<exists>ys. gores_map (\<lambda>(n, s). gores_bind (wrap_err (''count schema '' @ n) (sv_Tokenize V (bo_marshal O1 s)))
         (\<lambda>v. Ok (n, tenth_more v))) (bi_AllSchemas i) = Ok ys"
      using tok by (intro gores_map_Ok) (fastforce split: prod.splits)
    moreover have "\<exists>ys. gores_map (\<lambda>(n, w).
         gores_bind (wrap_err (''count marginal system '' @ n) (render V [system_message w] [])) (\<lambda>withoutBase.
         gores_bind (wrap_err (''count marginal schema '' @ n)
             (sv_Tokenize V (bo_marshal O1 (GList (schemasWithout (bi_Schemas i) n))))) (\<lambda>u.
         Ok (n, max 0 (m + tenth_more v - withoutBase - tenth_more u))))) (bi_WithoutToolSystems i) = Ok ys"
    proof (intro gores_map_Ok ballI)
      fix x assume "x \<in> set (bi_WithoutToolSystems i)"
      obtain n w where x: "x = (n, w)" by fastforce
      from ren obtain wb where "wrap_err (''count marginal system '' @ n) (render V [system_message w] []) = Ok wb" by blast
      moreover from tok obtain u where "wrap_err (''count marginal schema '' @ n)
             (sv_Tokenize V (bo_marshal O1 (GList (schemasWithout (bi_Schemas i) n)))) = Ok u" by blast
      ultimately show "\<exists>y. (case x of (n, w) \<Rightarrow>
         gores_bind (wrap_err (''count marginal system '' @ n) (render V [system_message w] [])) (\<lambda>withoutBase.
         gores_bind (wrap_err (''count marginal schema '' @ n)
             (sv_Tokenize V (bo_marshal O1 (GList (schemasWithout (bi_Schemas i) n))))) (\<lambda>u.
         Ok (n, max 0 (m + tenth_more v - withoutBase - tenth_more u))))) = Ok y" by (simp add: x)
    qed
    ultimately show ?thesis unfolding plain_costs_def by fastforce
  qed
  from tc pc show ?thesis unfolding exact_prefix_def 1 2 3 4 5 6 gores_bind.simps Let_def
    by (cases cached) (auto split: prod.splits)
qed

text \<open>The budget refuses exactly the conversations it cannot render: with a server that answers every request,
  measuring succeeds if and only if every assistant message is followed by at least as many tool results as it
  makes calls, and otherwise fails with \<open>incomplete tool-call group\<close>.\<close>

theorem budget_refuses_exactly_incomplete_groups:
  assumes "total_server V" "\<not> force_estimate accounting P" "pr_ApplyTemplate P"
    "measure_session O1 V cost_key accounting P s i mark b = (res, s', b')"
    "whole \<longleftrightarrow> grouped (map llm_shape (map fst (bi_Messages i)))"
  shows "(whole \<longrightarrow> (\<exists>bu. res = Ok bu)) \<and> (\<not> whole \<longrightarrow> res = Err ''incomplete tool-call group'' \<and> s' = s)"
proof -
  define cached where "cached = cachedCosts b (s_ID s) (cost_key (0 :: rat) (fill_input i))"
  obtain X where X: "exact_prefix O1 V P (fill_input i) cached = Ok X" using total_exact_prefix [OF assms(1)] by blast
  let ?a = "\<lparr>ga_prefix = [system_message (bi_System i)], ga_previous = ex_previous X, ga_counts = ex_counts X, ga_messages = Map.empty\<rparr>"
  obtain r1 b1 where g: "measure_groups O1 V (s_ID s) P X 0 (bi_Messages i) ?a b = (r1, b1)" by fastforce
  with measure_groups_total [OF assms(1), of "bi_Messages i" O1 "s_ID s" P X 0 ?a b] assms(5)
  have r: "if whole then \<exists>a'. r1 = Ok a' else r1 = Err ''incomplete tool-call group''"
    by (auto simp: comp_def split: if_splits)
  have w: "measure_with O1 V accounting (s_ID s) P (fill_input i) cached b
    = (gores_bind r1 (\<lambda>a. Ok \<lparr>me_mode = ''exact'', me_counts = ga_counts a, me_estimated = ex_estimated X,
         me_messages = ga_messages a, me_chars = 0, me_schema = ex_schema X, me_marginal = ex_marginal X\<rparr>), b1)"
    using X g assms(2,3) by (simp add: measure_with_def measure_exact_def)
  show ?thesis
  proof (cases whole)
    case True
    with r obtain a' where "r1 = Ok a'" by auto
    with w True assms(2,4) show ?thesis by (auto simp: measure_session_def Let_def cached_def [symmetric])
  next
    case False
    with r have "r1 = Err ''incomplete tool-call group''" by simp
    with w False assms(2,4) show ?thesis by (auto simp: measure_session_def Let_def cached_def [symmetric])
  qed
qed

section \<open>Examples\<close>

definition demo_ops :: budget_ops where
  "demo_ops = \<lparr>bo_marshal = (\<lambda>_. ''{}''), bo_show = (\<lambda>_. []), bo_weightKey = (\<lambda>m. lm_Role m)\<rparr>"

definition demo_server :: llm_server where
  \<comment> \<open>a template that joins the contents and one byte per tool, and a tokenizer with one token per byte\<close>
  "demo_server = \<lparr>sv_Tokenize = (\<lambda>s. Ok (int (length s))),
     sv_ApplyTemplate = (\<lambda>ms ts. Ok (concat (map (\<lambda>m. messageText demo_ops (lm_Content m) @ ''|'') ms) @ replicate (length ts) (CHR ''t''))),
     sv_connected = (\<lambda>_. True)\<rparr>"

definition demo_profile :: profile where
  "demo_profile = \<lparr>pr_ID = ''p'', pr_Tokenize = True, pr_ApplyTemplate = True, pr_ApplyTemplateTools = True, pr_CachedTokens = False,
     pr_Preserve = False, pr_NCtx = 100, pr_ReserveOutput = 10\<rparr>"

definition demo_msg :: "string \<Rightarrow> string \<Rightarrow> toolCall list \<Rightarrow> llmMessage \<times> message" where
  "demo_msg role content calls = (\<lparr>lm_Role = role, lm_Content = GStr content, lm_Reasoning = [], lm_ToolCalls = calls,
     lm_ToolCallID = [], lm_Name = []\<rparr>, emptyMessage\<lparr>msg_ID := role, msg_Role := role, msg_Category := ''history''\<rparr>)"

definition demo_input :: "(llmMessage \<times> message) list \<Rightarrow> budgetInput" where
  "demo_input ms = \<lparr>bi_SystemBase = ''ab'', bi_SystemProject = [], bi_SystemWorkspaceMemory = [], bi_System = ''abc'',
     bi_WithoutToolSystems = [], bi_Schemas = [GNil], bi_AllSchemas = [], bi_Messages = ms\<rparr>"

definition demo_read_call :: toolCall where
  "demo_read_call = \<lparr>tc_ID = ''c1'', tc_Name = ''read_file'', tc_Arguments = ''{}''\<rparr>"

definition demo_turn :: "(llmMessage \<times> message) list" where
  "demo_turn = [demo_msg ''user'' ''hi'' [], demo_msg ''assistant'' [] [demo_read_call], demo_msg ''tool'' ''body'' []]"

lemma demo_grows: "server_grows demo_server"
  by (auto simp: server_grows_def render_def demo_server_def)

lemma demo_prompts: "prompts_grow demo_server (fill_input (demo_input ms))"
  by (auto simp: prompts_grow_def render_def demo_server_def demo_input_def fill_input_def Let_def system_message_def messageText_def)

lemma demo_total: "total_server demo_server"
  by (simp add: total_server_def demo_server_def)

definition demo_budget_session :: session where
  "demo_budget_session = idle_session ''s'' ''b''"

abbreviation demo_measure :: "(llmMessage \<times> message) list \<Rightarrow> budget gores \<times> session \<times> budgeter" where
  "demo_measure ms \<equiv> measure_session demo_ops demo_server (\<lambda>_ _. []) [] demo_profile demo_budget_session (demo_input ms) False NewBudgeter"

lemma demo_flags: "\<not> force_estimate [] demo_profile" "pr_ApplyTemplate demo_profile" "pr_ApplyTemplateTools demo_profile"
  by (simp_all add: force_estimate_def demo_profile_def)

theorem budget_refuses_exactly_incomplete_groups_witness:
  "(\<exists>bu. fst (demo_measure demo_turn) = Ok bu) \<and> fst (demo_measure (butlast demo_turn)) = Err ''incomplete tool-call group''"
proof -
  have g: "grouped (map llm_shape (map fst (bi_Messages (demo_input demo_turn))))"
    "\<not> grouped (map llm_shape (map fst (bi_Messages (demo_input (butlast demo_turn)))))" by code_simp+
  have p: "demo_measure ms = (fst (demo_measure ms), fst (snd (demo_measure ms)), snd (snd (demo_measure ms)))" for ms by simp
  from budget_refuses_exactly_incomplete_groups [OF demo_total demo_flags(1,2) p refl] g show ?thesis by blast
qed

theorem exact_budget_counts_the_prompt_witness:
  "case fst (demo_measure demo_turn) of Ok bu \<Rightarrow> bu_UsedEst bu = 14 | _ \<Rightarrow> False"
proof -
  have g: "grouped (map llm_shape (map fst (bi_Messages (demo_input demo_turn))))" by code_simp
  obtain bu s' b' where m: "demo_measure demo_turn = (Ok bu, s', b')"
  proof -
    have "case fst (demo_measure demo_turn) of Ok bu \<Rightarrow> True | _ \<Rightarrow> False" by code_simp
    then show ?thesis by (cases "demo_measure demo_turn") (auto intro: that split: gores.splits)
  qed
  have r: "render demo_server (system_message (bi_System (demo_input demo_turn)) # map fst (bi_Messages (demo_input demo_turn)))
      (bi_Schemas (demo_input demo_turn)) = Ok 14" by code_simp
  from exact_budget_counts_the_prompt [OF m demo_flags(1,2) refl] demo_flags(3) demo_grows demo_prompts r have "bu_UsedEst bu = 14"
    by auto
  with m show ?thesis by simp
qed

end
