(* ===== verification/Plan_Proposals.thy ===== *)
theory Plan_Proposals
  imports Events_Model
begin

text \<open>
  Plan proposals in a model's answer (\<^verbatim>\<open>internal/agent/plan_proposals.go\<close>): the fenced blocks that are
  taken out of the visible text, and the messages a proposal is bound to.

  Decoding the JSON body of a block into its version and proposals is the parameter \<open>decode\<close>
  (\<open>None\<close> when \<^verbatim>\<open>json.Unmarshal\<close> fails).
\<close>

type_synonym proposal_json = "string \<Rightarrow> (int \<times> planProposal list) option"

definition planProposalFence :: string where
  "planProposalFence = ''```agentb-plan-proposals''"

definition fence_end :: string where
  "fence_end = CHR 0x0A # ''```''"

definition proposal_filled :: "planProposal \<Rightarrow> bool" where
  "proposal_filled p \<longleftrightarrow> pp_ID p \<noteq> [] \<and> pp_Kind p \<noteq> [] \<and> pp_Path p \<noteq> [] \<and> pp_OldText p \<noteq> [] \<and> pp_ItemID p \<noteq> []"

definition valid_envelope :: "proposal_json \<Rightarrow> string \<Rightarrow> planProposal list option" where
  "valid_envelope decode body =
     (case decode body of None \<Rightarrow> None
      | Some (version, ps) \<Rightarrow> if version \<noteq> 1 \<or> ps = [] \<or> \<not> list_all proposal_filled ps then None else Some ps)"

definition next_proposals :: "proposal_json \<Rightarrow> string \<Rightarrow> (string \<times> planProposal list) option" where
  \<comment> \<open>one round: the text without its first block, and what the block proposes; \<open>None\<close> ends the loop\<close>
  "next_proposals decode visible =
     (case str_index visible planProposalFence of None \<Rightarrow> None
      | Some start \<Rightarrow>
          let rest = drop (start + length planProposalFence) visible;
              rest = (case rest of c # r \<Rightarrow> if c = CHR 0x0D then r else rest | [] \<Rightarrow> rest)
          in case rest of [] \<Rightarrow> None
             | c # body \<Rightarrow>
                 if c \<noteq> CHR 0x0A then None
                 else (case str_index body fence_end of None \<Rightarrow> None
                   | Some n \<Rightarrow> map_option (\<lambda>ps. (take start visible @ drop (n + 4) body, ps))
                       (valid_envelope decode (take n body))))"

lemma next_proposals_shorter:
  assumes "next_proposals decode v = Some (v', ps)"
  shows "length v' < length v"
proof -
  from assms obtain start where s: "str_index v planProposalFence = Some start"
    by (auto simp: next_proposals_def split: option.splits)
  let ?r = "drop (start + length planProposalFence) v"
  let ?r' = "case ?r of c # r \<Rightarrow> if c = CHR 0x0D then r else ?r | [] \<Rightarrow> ?r"
  from assms s obtain c body n where b: "?r' = c # body" "v' = take start v @ drop (n + 4) body"
    by (auto simp: next_proposals_def Let_def split: option.splits list.splits if_splits)
  have "length ?r' \<le> length ?r" by (cases ?r) auto
  then have "length body < length ?r" using b(1) by auto
  moreover have "start + length planProposalFence \<le> length v" by (rule str_index_le [OF s])
  ultimately show ?thesis using b(2) by (auto simp: min_def)
qed

function proposal_loop :: "proposal_json \<Rightarrow> string \<Rightarrow> planProposal list \<Rightarrow> string \<times> planProposal list" where
  "proposal_loop decode visible proposals =
     (case next_proposals decode visible of None \<Rightarrow> (visible, proposals)
      | Some (visible', ps) \<Rightarrow> proposal_loop decode visible' (proposals @ ps))"
  by pat_completeness auto
termination
  by (relation "measure (\<lambda>(d, v, ps). length v)") (auto dest: next_proposals_shorter)

declare proposal_loop.simps [simp del]

definition parsePlanProposals :: "proposal_json \<Rightarrow> string \<Rightarrow> string \<times> planProposal list" where
  "parsePlanProposals decode content = (let (visible, ps) = proposal_loop decode content [] in (trim_space visible, ps))"

definition last_user_id :: "message list \<Rightarrow> string" where
  \<comment> \<open>the last user message that was not elided\<close>
  "last_user_id ms = (case find (\<lambda>m. msg_Role m = ''user'' \<and> \<not> msg_Elided m) (rev ms) of None \<Rightarrow> [] | Some m \<Rightarrow> msg_ID m)"

definition bindPlanProposalSources :: "message list \<Rightarrow> planProposal list \<Rightarrow> string \<Rightarrow> planProposal list" where
  "bindPlanProposalSources ms ps assistantID =
     (let user = last_user_id ms in
      map (\<lambda>p. p\<lparr>pp_SourceMessageIDs := (if user \<noteq> [] then [user] else []) @ [assistantID]\<rparr>) ps)"

section \<open>What reaches the tray\<close>

definition opens_block :: "proposal_json \<Rightarrow> string \<Rightarrow> string \<Rightarrow> string \<Rightarrow> string \<Rightarrow> planProposal list \<Rightarrow> bool" where
  \<comment> \<open>the first fence of \<open>v\<close>, behind \<open>pre\<close>, opens a well-formed block: its \<open>body\<close> runs to the first
    closing fence and holds the proposals \<open>ps\<close>; \<open>post\<close> is the text after it\<close>
  "opens_block decode v pre body post ps \<longleftrightarrow>
     (\<exists>cr \<in> {[], [CHR 0x0D]}. v = pre @ planProposalFence @ cr @ CHR 0x0A # body @ fence_end @ post)
     \<and> str_index v planProposalFence = Some (length pre)
     \<and> str_index (body @ fence_end @ post) fence_end = Some (length body)
     \<and> valid_envelope decode body = Some ps"

inductive blocks_removed :: "proposal_json \<Rightarrow> string \<Rightarrow> string \<Rightarrow> planProposal list \<Rightarrow> bool" for decode where
  br_none: "blocks_removed decode v v []"
| br_block: "opens_block decode v pre body post qs \<Longrightarrow> blocks_removed decode (pre @ post) w ps
    \<Longrightarrow> blocks_removed decode v w (qs @ ps)"

definition sources_of :: "message list \<Rightarrow> string \<Rightarrow> string list \<Rightarrow> bool" where
  \<comment> \<open>the last user message that was not elided, if there is one and it has an identifier, and the answer\<close>
  "sources_of ms assistantID ids \<longleftrightarrow>
     (\<exists>before m after. ms = before @ m # after \<and> msg_Role m = ''user'' \<and> \<not> msg_Elided m
        \<and> (\<forall>x \<in> set after. msg_Role x \<noteq> ''user'' \<or> msg_Elided x)
        \<and> ids = (if msg_ID m = [] then [assistantID] else [msg_ID m, assistantID]))
     \<or> (\<forall>x \<in> set ms. msg_Role x \<noteq> ''user'' \<or> msg_Elided x) \<and> ids = [assistantID]"

lemma length_fence_end [simp]: "length fence_end = 4"
  by (simp add: fence_end_def)

lemma next_proposals_block:
  assumes "next_proposals decode v = Some (w, qs)"
  shows "\<exists>pre body post. opens_block decode v pre body post qs \<and> w = pre @ post"
proof -
  from assms obtain start where s: "str_index v planProposalFence = Some start"
    by (auto simp: next_proposals_def split: option.splits)
  from str_index_Some [OF s] obtain pre b where v: "v = pre @ planProposalFence @ b" "length pre = start" by blast
  then have d: "drop (start + length planProposalFence) v = b" "take start v = pre" by simp_all
  let ?b = "case b of c # r \<Rightarrow> if c = CHR 0x0D then r else b | [] \<Rightarrow> b"
  from assms s obtain c body n where b: "?b = c # body" "c = CHR 0x0A" "str_index body fence_end = Some n"
    "w = pre @ drop (n + 4) body" "valid_envelope decode (take n body) = Some qs"
    by (auto simp: next_proposals_def Let_def d split: option.splits list.splits if_splits)
  from str_index_Some [OF b(3)] obtain x y where xy: "body = x @ fence_end @ y" "length x = n" by blast
  have "\<exists>cr \<in> {[], [CHR 0x0D]}. b = cr @ CHR 0x0A # body" using b(1,2) by (cases b) (auto split: if_splits)
  then have "opens_block decode v pre x y qs"
    using s v b(3,5) xy by (auto simp: opens_block_def)
  then show ?thesis using b(4) xy by auto
qed

lemma block_next_proposals:
  assumes "opens_block decode v pre body post qs"
  shows "next_proposals decode v = Some (pre @ post, qs)"
proof -
  from assms obtain cr where cr: "cr = [] \<or> cr = [CHR 0x0D]" "v = pre @ planProposalFence @ cr @ CHR 0x0A # body @ fence_end @ post"
    and f: "str_index v planProposalFence = Some (length pre)" "str_index (body @ fence_end @ post) fence_end = Some (length body)"
      "valid_envelope decode body = Some qs"
    by (auto simp: opens_block_def)
  have "drop (length pre + length planProposalFence) v = cr @ CHR 0x0A # body @ fence_end @ post" "take (length pre) v = pre"
    by (simp_all add: cr(2))
  with cr(1) f show ?thesis by (auto simp: next_proposals_def Let_def)
qed

lemma valid_envelope_filled: "valid_envelope decode body = Some ps \<Longrightarrow> list_all proposal_filled ps"
  by (auto simp: valid_envelope_def split: option.splits if_splits)

lemma proposal_loop_result:
  "\<exists>qs. snd (proposal_loop decode v ps) = ps @ qs \<and> blocks_removed decode v (fst (proposal_loop decode v ps)) qs
     \<and> next_proposals decode (fst (proposal_loop decode v ps)) = None"
proof (induction decode v ps rule: proposal_loop.induct)
  case (1 decode v ps)
  show ?case
  proof (cases "next_proposals decode v")
    case None
    then show ?thesis by (auto simp: proposal_loop.simps [of decode v] intro: br_none)
  next
    case (Some r)
    obtain w qs where r: "r = (w, qs)" by fastforce
    from next_proposals_block Some r obtain pre body post where "opens_block decode v pre body post qs" "w = pre @ post" by blast
    with 1 [OF Some r [symmetric]] Some r show ?thesis
      by (auto simp: proposal_loop.simps [of decode v ps] intro: br_block)
  qed
qed

lemma blocks_removed_filled: "blocks_removed decode v w ps \<Longrightarrow> list_all proposal_filled ps"
  by (induction rule: blocks_removed.induct) (auto simp: opens_block_def dest: valid_envelope_filled)

lemma find_Some_split: "find P xs = Some m \<Longrightarrow> \<exists>a b. xs = a @ m # b \<and> P m \<and> (\<forall>x \<in> set a. \<not> P x)"
proof (induction xs)
  case (Cons x xs)
  show ?case
  proof (cases "P x")
    case False
    with Cons obtain a b where "xs = a @ m # b" "P m" "\<forall>x \<in> set a. \<not> P x" by auto
    with False have "x # xs = (x # a) @ m # b \<and> P m \<and> (\<forall>x \<in> set (x # a). \<not> P x)" by simp
    then show ?thesis by blast
  next
    case True
    with Cons(2) have "x # xs = [] @ m # xs \<and> P m \<and> (\<forall>x \<in> set []. \<not> P x)" by simp
    then show ?thesis by blast
  qed
qed simp

lemma bound_sources:
  "sources_of ms assistantID ((if last_user_id ms \<noteq> [] then [last_user_id ms] else []) @ [assistantID])"
proof (cases "find (\<lambda>m. msg_Role m = ''user'' \<and> \<not> msg_Elided m) (rev ms)")
  case None
  then have "last_user_id ms = []" by (simp add: last_user_id_def)
  with None show ?thesis by (auto simp: sources_of_def find_None_iff)
next
  case (Some m)
  then have l: "last_user_id ms = msg_ID m" by (simp add: last_user_id_def)
  from find_Some_split [OF Some] obtain a b where s: "rev ms = a @ m # b" "msg_Role m = ''user'' \<and> \<not> msg_Elided m"
    "\<forall>x \<in> set a. \<not> (msg_Role x = ''user'' \<and> \<not> msg_Elided x)" by blast
  from arg_cong [OF s(1), of rev] have "ms = rev b @ m # rev a" by simp
  with s(2,3) l show ?thesis unfolding sources_of_def by (intro disjI1 exI [of _ "rev b"] exI [of _ m] exI [of _ "rev a"]) auto
qed

text \<open>C28. What leaves a model's answer as proposals is what its leading well-formed blocks hold, block by block from
  the first fence on, and the visible text is the answer without exactly those blocks, up to the first fence
  that opens no well-formed block: from there on everything stays, a later well-formed block included.  Every
  proposal names an identifier, kind, path, old text and item.  Its sources are the last user message that was
  not elided, if there is one, and the answer itself, whatever the model wrote; nothing else of it changes.\<close>

theorem proposals_are_complete_and_bound:
  assumes "parsePlanProposals decode content = (visible, ps)" "bound = bindPlanProposalSources ms ps assistantID"
  shows "(\<exists>rest. visible = trim_space rest \<and> blocks_removed decode content rest ps
      \<and> (\<nexists>pre body post qs. opens_block decode rest pre body post qs))
    \<and> map (pp_SourceMessageIDs_update (\<lambda>_. [])) bound = map (pp_SourceMessageIDs_update (\<lambda>_. [])) ps
    \<and> (\<forall>p \<in> set bound. proposal_filled p \<and> sources_of ms assistantID (pp_SourceMessageIDs p))"
proof (intro conjI ballI)
  obtain rest where v: "proposal_loop decode content [] = (rest, ps)" "visible = trim_space rest"
    using assms(1) by (auto simp: parsePlanProposals_def split: prod.splits)
  with proposal_loop_result [of decode content "[]"]
  have r: "blocks_removed decode content rest ps" "next_proposals decode rest = None" by auto
  then have "\<not> opens_block decode rest pre body post qs" for pre body post qs
    using block_next_proposals [of decode rest pre body post qs] by auto
  with v(2) r(1) show "\<exists>rest. visible = trim_space rest \<and> blocks_removed decode content rest ps
      \<and> (\<nexists>pre body post qs. opens_block decode rest pre body post qs)" by blast
  show "map (pp_SourceMessageIDs_update (\<lambda>_. [])) bound = map (pp_SourceMessageIDs_update (\<lambda>_. [])) ps"
    by (simp add: assms(2) bindPlanProposalSources_def Let_def)
  fix p assume "p \<in> set bound"
  then obtain q where q: "q \<in> set ps"
    "p = q\<lparr>pp_SourceMessageIDs := (if last_user_id ms \<noteq> [] then [last_user_id ms] else []) @ [assistantID]\<rparr>"
    unfolding assms(2) bindPlanProposalSources_def Let_def set_map by blast
  with blocks_removed_filled [OF r(1)] show "proposal_filled p" by (simp add: list_all_iff proposal_filled_def)
  from q(2) bound_sources [of ms assistantID] show "sources_of ms assistantID (pp_SourceMessageIDs p)" by simp
qed

definition demo_proposal :: planProposal where
  "demo_proposal = \<lparr>pp_ID = ''p1'', pp_Kind = ''edit'', pp_Path = ''PLAN.md'', pp_OldText = ''a'', pp_NewText = ''b'', pp_ItemID = ''1'',
     pp_SourceMessageIDs = [''m-99'']\<rparr>"

definition demo_answer :: string where
  "demo_answer = ''ok'' @ [CHR 0x0A] @ planProposalFence @ [CHR 0x0A] @ ''{}'' @ fence_end"

definition demo_users :: "message list" where
  "demo_users = [emptyMessage\<lparr>msg_ID := ''m-0'', msg_Role := ''user''\<rparr>, emptyMessage\<lparr>msg_ID := ''m-1'', msg_Role := ''user''\<rparr>]"

theorem proposals_are_complete_and_bound_witness:
  "\<exists>p \<in> set (bindPlanProposalSources demo_users (snd (parsePlanProposals (\<lambda>_. Some (1, [demo_proposal])) demo_answer)) ''m-2'').
     pp_SourceMessageIDs p = [''m-1'', ''m-2''] \<and> sources_of demo_users ''m-2'' (pp_SourceMessageIDs p)"
proof -
  let ?p = "parsePlanProposals (\<lambda>_. Some (1, [demo_proposal])) demo_answer"
  have p: "?p = (fst ?p, snd ?p)" by simp
  have m: "map pp_SourceMessageIDs (bindPlanProposalSources demo_users (snd ?p) ''m-2'') = [[''m-1'', ''m-2'']]" by code_simp
  then obtain q where "q \<in> set (bindPlanProposalSources demo_users (snd ?p) ''m-2'')" "pp_SourceMessageIDs q = [''m-1'', ''m-2'']"
    by (cases "bindPlanProposalSources demo_users (snd ?p) ''m-2''") auto
  with proposals_are_complete_and_bound [OF p refl, of demo_users "''m-2''"] show ?thesis by blast
qed

end
