(* ===== verification/Run_Model.thy ===== *)
theory Run_Model
  imports Summaries Tool_Window Plan_Proposals Guards
begin

text \<open>
  One turn of a run (\<^verbatim>\<open>Runner.Run\<close> in \<^verbatim>\<open>internal/agent/run.go\<close>, with \<^verbatim>\<open>truncation.go\<close>): the mailbox boundary,
  rebinding the agent's profile, assembling and measuring the request, compaction when it does not fit, the model
  call, the truncated-call retry, the final answer, the tool calls and their results, the guards, and compaction
  after the turn.

  What the world answers during one turn is a \<open>turn_env\<close>: configuration as read in that turn, the rendered prompts
  and schemas, the model server, the streamed deltas, the model's answer, the tools, and when cancellation is seen.
  Cancellation is a threshold on the checkpoints \<^verbatim>\<open>ctx.Err()\<close> is evaluated at, because a cancelled context
  stays cancelled; every value of the threshold is allowed.  A phase of the turn yields \<open>Go\<close> (on to the next one),
  \<open>Restart\<close> (\<^verbatim>\<open>continue\<close>) or \<open>Halt\<close> (\<^verbatim>\<open>return\<close>).  The published events of the run are those of its flight book;
  \<open>rn_sent\<close> records every request sent with its budget.
\<close>

section \<open>State and environment\<close>

record run_cfg =
  rc_MaxWallClockSeconds :: int
  rc_MaxToolCalls :: int
  rc_CycleWindow :: int
  rc_MaxConsecutiveToolErrors :: int

record boundaryAction =
  ba_Stop :: bool
  ba_Revision :: string
  ba_Delayed :: bool \<comment> \<open>\<^verbatim>\<open>action.Delay > 0\<close>\<close>
  ba_Err :: "string option"

record llmRequest =
  rq_Messages :: "llmMessage list"
  rq_Tools :: "gval list"
  rq_ToolChoice :: gval
  rq_MaxTokens :: int
  rq_Thinking :: bool

record llmResponse =
  rp_Content :: string
  rp_Reasoning :: string
  rp_ToolCalls :: "toolCall list"
  rp_FinishReason :: string
  rp_PromptTokens :: int
  rp_CompletionTokens :: int
  rp_CachedTokens :: int
  rp_Timings :: gval
  rp_DurationMS :: int

record streamDelta = delta +
  sd_Total :: int
  sd_Cache :: int
  sd_Processed :: int

record turn_env =
  te_cancel :: "nat option" \<comment> \<open>the first checkpoint of the turn that sees the context cancelled\<close>
  te_compact_cancelled :: bool \<comment> \<open>a measurement of the compaction sees the context cancelled\<close>
  te_wall :: bool \<comment> \<open>the cancellation is the wall-clock backstop\<close>
  te_boundary :: "boundaryAction option"
  te_revision_estimated :: "string \<Rightarrow> bool" \<comment> \<open>the text asks for a plan, so its tokens are estimated\<close>
  te_rebind :: "session \<Rightarrow> (agent \<times> string) option" \<comment> \<open>the configured agent of the session and the label of its profile\<close>
  te_profile :: "string \<Rightarrow> profile option"
  te_att :: att_env
  te_ops :: budget_ops
  te_server :: llm_server
  te_cost_key :: "string \<Rightarrow> rat \<Rightarrow> budgetInput \<Rightarrow> string"
  te_accounting :: string
  te_input :: "session \<Rightarrow> budgetInput" \<comment> \<open>prompts and schemas rendered for the session; the messages are added\<close>
  te_host :: string
  te_dial :: "string \<Rightarrow> bool" \<comment> \<open>the error is \<^verbatim>\<open>TransportDial\<close>\<close>
  te_params :: "int \<Rightarrow> gval" \<comment> \<open>\<^verbatim>\<open>requestParams\<close> for a token limit\<close>
  te_thinking :: bool
  te_deltas :: "streamDelta list"
  te_stream_busy :: bool
  te_chat :: "llmRequest \<Rightarrow> llmResponse gores"
  te_count :: counter
  te_decode :: "string \<Rightarrow> gmap gores" \<comment> \<open>\<^verbatim>\<open>tools.DecodeArgs\<close>\<close>
  te_decode_map :: "string \<Rightarrow> gmap option"
  te_encode_map :: "gmap \<Rightarrow> string option"
  te_proposals :: proposal_json
  te_exec :: "nat \<Rightarrow> exec_env" \<comment> \<open>the world of the n-th tool call of the turn\<close>
  te_ms :: "string \<Rightarrow> int" \<comment> \<open>measured durations\<close>
  te_windows :: windowCfg
  te_clean :: "string \<Rightarrow> string"
  te_written :: "string \<Rightarrow> (string \<times> int) option" \<comment> \<open>relative path and size of the regular file a tool wrote\<close>
  te_digest :: "string \<Rightarrow> string"
  te_marshal :: "gmap \<Rightarrow> string"
  te_cycle :: "string \<times> string option" \<comment> \<open>the operator's answer to a cycle, or the error of the wait\<close>
  te_MaxTurns :: int
  te_json :: compact_json
  te_readDefaultLimit :: int \<comment> \<open>the smaller of the default and the maximal read limit\<close>
  te_SoftPct :: rat
  te_SummaryPct :: rat
  te_summary :: summary_env
  te_unquote :: "string \<Rightarrow> string option"
  te_encode :: "gmap \<Rightarrow> string"

record run_state =
  rn_session :: session
  rn_exec :: exec_state
  rn_budgeter :: budgeter
  rn_flights :: flightBook
  rn_guards :: runGuards
  rn_reasoning :: "string \<Rightarrow> bool" \<comment> \<open>\<^verbatim>\<open>currentReasoning\<close>\<close>
  rn_turn :: int
  rn_toolCallsUsed :: int
  rn_lengthSeen :: bool
  rn_truncatedToolRetry :: string
  rn_repairTried :: bool
  rn_cancelled :: bool
  rn_produced :: "string \<rightharpoonup> string \<times> int"
  rn_sent :: "(llmRequest \<times> budget) list"

datatype 'a phase =
    Go 'a run_state
  | Restart run_state
  | Halt string string int run_state

abbreviation and_then :: "'a phase \<Rightarrow> ('a \<Rightarrow> run_state \<Rightarrow> 'b phase) \<Rightarrow> 'b phase" where
  \<comment> \<open>the next phase, unless the turn ended\<close>
  "and_then p f \<equiv> (case p of Go x st \<Rightarrow> f x st | Restart st \<Rightarrow> Restart st | Halt reason detail turn st \<Rightarrow> Halt reason detail turn st)"

definition ctx_err :: "turn_env \<Rightarrow> run_state \<Rightarrow> nat \<Rightarrow> bool" where
  \<comment> \<open>\<^verbatim>\<open>ctx.Err() != nil\<close> at a checkpoint: 0 the loop head, 1 the mailbox, 2 the budget, 3 the model call, 4 + n after
     the n-th tool, then after the tools and while an answer to a cycle is awaited\<close>
  "ctx_err E st p \<longleftrightarrow> rn_cancelled st \<or> (case te_cancel E of None \<Rightarrow> False | Some k \<Rightarrow> k \<le> p)"

definition gerr :: "'a gores \<Rightarrow> string" where
  "gerr r = (case r of Err e \<Rightarrow> e | _ \<Rightarrow> [])"

section \<open>Publishing\<close>

definition publish_all :: "event list \<Rightarrow> run_state \<Rightarrow> run_state" where
  "publish_all evs st = st\<lparr>rn_flights := (rn_flights st)\<lparr>fb_events := fb_events (rn_flights st) @ evs\<rparr>\<rparr>"

definition emit :: "string \<Rightarrow> string \<Rightarrow> gval \<Rightarrow> run_state \<Rightarrow> run_state" where
  "emit runID etype d st = publish_all [events_New etype (s_ID (rn_session st)) runID d] st"

definition stage_event :: "string \<Rightarrow> string \<Rightarrow> int \<Rightarrow> int \<Rightarrow> gval" where
  "stage_event name state turn ms = GMap [(''stage'', GStr name), (''state'', GStr state), (''turn'', GInt turn), (''ms'', GInt ms)]"

definition enter_stage :: "string \<Rightarrow> string \<Rightarrow> run_state \<Rightarrow> run_state" where
  \<comment> \<open>\<^verbatim>\<open>stage\<close> before the function it runs\<close>
  "enter_stage runID name st = emit runID ''stage'' (stage_event name ''enter'' (rn_turn st) 0)
     (st\<lparr>rn_flights := setFlightStage (rn_flights st) (s_ID (rn_session st)) runID (rn_turn st) name\<rparr>)"

definition leave_stage :: "turn_env \<Rightarrow> string \<Rightarrow> string \<Rightarrow> run_state \<Rightarrow> run_state" where
  "leave_stage E runID name st = emit runID ''stage'' (stage_event name ''exit'' (rn_turn st) (te_ms E name)) st"

definition failure :: "string \<Rightarrow> string \<Rightarrow> string \<Rightarrow> run_state \<Rightarrow> run_state" where
  \<comment> \<open>\<^verbatim>\<open>operationalError\<close>\<close>
  "failure runID where1 e st = publish_all [operational_error (rn_session st) runID where1 e] st"

definition append_message :: "string \<Rightarrow> message \<Rightarrow> run_state \<Rightarrow> run_state" where
  \<comment> \<open>\<^verbatim>\<open>s.Append(m)\<close> and its event\<close>
  "append_message runID m st = publish_all [appended_event (rn_session st) runID m] (st\<lparr>rn_session := Append (rn_session st) m\<rparr>)"

definition new_message :: "turn_env \<Rightarrow> string \<Rightarrow> string \<Rightarrow> string \<Rightarrow> run_state \<Rightarrow> message \<times> run_state" where
  \<comment> \<open>\<^verbatim>\<open>makeMessage\<close>\<close>
  "new_message E role c category st = (let n = fb_ids (rn_flights st) + 1 in
     (made_message (te_count E) n role c category (rn_turn st), st\<lparr>rn_flights := (rn_flights st)\<lparr>fb_ids := n\<rparr>\<rparr>))"

definition context_stop :: "run_cfg \<Rightarrow> turn_env \<Rightarrow> string \<Rightarrow> int \<Rightarrow> string \<Rightarrow> run_state \<Rightarrow> 'a phase" where
  \<comment> \<open>\<^verbatim>\<open>contextStop\<close>; the abort record joins the session's messages\<close>
  "context_stop C E runID turn fallback st =
     (if te_wall E then Halt ''wall_clock''
        (''guessed wall-clock backstop reached after '' @ itoa (rc_MaxWallClockSeconds C) @ '' seconds'') turn st
      else
        let b = rn_flights st; ((reason, detail, t), b') = stopped (te_unquote E) (te_encode E) b (s_ID (rn_session st)) runID turn fallback;
            added = map snd (drop (length (fb_appended b)) (fb_appended b'))
        in Halt reason detail t (st\<lparr>rn_flights := b', rn_session := fold (\<lambda>m s. Append s m) added (rn_session st)\<rparr>))"

section \<open>The boundary of a turn\<close>

definition add_revision :: "turn_env \<Rightarrow> string \<Rightarrow> run_state \<Rightarrow> run_state" where
  \<comment> \<open>\<^verbatim>\<open>AddUser\<close>: a user message without attachments, published outside the run\<close>
  "add_revision E body st =
     (case te_profile E (s_ServerID (rn_session st)) of
        None \<Rightarrow> emit [] ''error'' (GMap [(''where'', GStr ''mailbox''), (''message'', GStr ''profile not found'')]) st
      | Some P \<Rightarrow>
          let n = fb_ids (rn_flights st) + 1;
              (tokens, estimated) = (if te_revision_estimated E body then (estimatedTokenCount body, True) else te_count E body)
          in append_message [] (emptyMessage\<lparr>msg_ID := ''m-'' @ itoa n, msg_Role := ''user'', msg_Content := body,
                 msg_Category := ''history'', msg_Tokens := tokens, msg_Estimated := estimated\<rparr>)
               (st\<lparr>rn_flights := (rn_flights st)\<lparr>fb_ids := n\<rparr>\<rparr>))"

definition applyMailboxBoundary :: "turn_env \<Rightarrow> string \<Rightarrow> run_state \<Rightarrow> (bool \<times> string) \<times> run_state" where
  "applyMailboxBoundary E runID st =
     (case te_boundary E of None \<Rightarrow> ((False, []), st)
      | Some action \<Rightarrow>
          let st1 = (case ba_Err action of None \<Rightarrow> st
                | Some e \<Rightarrow> emit runID ''error'' (GMap [(''where'', GStr ''mailbox''), (''message'', GStr e)]) st)
          in if ba_Stop action then ((True, ''STOP read from INBOX.md''), st1)
             else let st2 = (if ba_Revision action \<noteq> [] then add_revision E (ba_Revision action) st1 else st1)
                  in if ba_Delayed action \<and> ctx_err E st2 1 then ((True, ''context canceled''), st2) else ((False, []), st2))"

definition boundary_phase :: "run_cfg \<Rightarrow> turn_env \<Rightarrow> string \<Rightarrow> run_state \<Rightarrow> unit phase" where
  "boundary_phase C E runID st =
     (if ctx_err E st 0 then context_stop C E runID (rn_turn st) ''cancellation requested'' st
      else let ((stop, detail), st1) = applyMailboxBoundary E runID st in
        if \<not> stop then Go () st1
        else if ctx_err E st1 1 then context_stop C E runID (rn_turn st1) detail st1
        else Halt ''mailbox_stop'' detail (rn_turn st1) st1)"

definition rebind_phase :: "turn_env \<Rightarrow> string \<Rightarrow> run_state \<Rightarrow> profile phase" where
  \<comment> \<open>the agent's configuration, the turn counter, the profile\<close>
  "rebind_phase E runID st =
     (let s = rn_session st;
          s1 = (case te_rebind E s of None \<Rightarrow> s | Some (ag, label) \<Rightarrow> snd (ApplyAgentConfig s (s_AgentID s) ag label));
          turn = rn_turn st + 1; st1 = st\<lparr>rn_session := s1, rn_turn := turn\<rparr>
      in case te_profile E (s_ServerID s1) of
           None \<Rightarrow> Halt ''profile_not_runnable'' ''profile not found'' (turn - 1) st1
         | Some P \<Rightarrow> Go P (st1\<lparr>rn_session := SetRun s1 ((s_Run s1)\<lparr>rs_Turn := turn\<rparr>)\<rparr>))"

section \<open>Assembling and measuring the request\<close>

definition count_values :: "counts \<Rightarrow> gval" where
  "count_values cs = GMap (map (\<lambda>(k, n). (k, GInt n)) cs)"

definition budget_data :: "budget \<Rightarrow> gval" where
  "budget_data bu = GMap [(''n_ctx'', GInt (bu_NCtx bu)), (''reserve'', GInt (bu_Reserve bu)), (''ceiling'', GInt (bu_Ceiling bu)),
     (''used_est'', GInt (bu_UsedEst bu)), (''used_measured'', GInt (bu_UsedMeasured bu)), (''drift'', GInt (bu_Drift bu)),
     (''cached_last'', (case bu_CachedLast bu of None \<Rightarrow> GNil | Some n \<Rightarrow> GInt n)), (''mode'', GStr (bu_Mode bu)),
     (''estimated'', GBool (bu_Estimated bu)), (''estimated_categories'', GStrs (bu_EstimatedCategories bu)),
     (''categories'', count_values (bu_Categories bu)), (''tool_schema_tokens'', count_values (bu_ToolSchemaTokens bu)),
     (''tool_marginal_tokens'', count_values (bu_ToolMarginalTokens bu))]"

definition request_input :: "turn_env \<Rightarrow> profile \<Rightarrow> run_state \<Rightarrow> budgetInput" where
  "request_input E P st = (te_input E (rn_session st))\<lparr>bi_Messages := assembled (te_att E) P (rn_reasoning st) (s_Messages (rn_session st))\<rparr>"

definition request_for :: "turn_env \<Rightarrow> profile \<Rightarrow> string \<Rightarrow> budgetInput \<Rightarrow> budget \<Rightarrow> llmRequest" where
  "request_for E P retry i bu = \<lparr>rq_Messages = system_message (bi_System i) # map fst (bi_Messages i), rq_Tools = bi_Schemas i,
     rq_ToolChoice = (if retry = [] then GStr ''auto''
       else GMap [(''type'', GStr ''function''), (''function'', GMap [(''name'', GStr retry)])]),
     rq_MaxTokens = requestTokenLimit P bu (guardedPromptTokens bu), rq_Thinking = te_thinking E\<rparr>"

definition assemble_phase :: "turn_env \<Rightarrow> string \<Rightarrow> profile \<Rightarrow> run_state \<Rightarrow> (llmRequest \<times> budget) gores \<times> run_state" where
  "assemble_phase E runID P st0 =
     (let st = enter_stage runID ''assemble'' st0; i = request_input E P st;
          ((res, s, b), busy) = Measure (te_ops E) (te_server E) (te_cost_key E) (te_accounting E) (ctx_err E st 2) P
             (rn_session st) i False (rn_budgeter st);
          st1 = st\<lparr>rn_session := s, rn_budgeter := b\<rparr>;
          st2 = (case busy of None \<Rightarrow> st1
             | Some e \<Rightarrow> emit runID ''model.busy'' (GMap [(''host'', GStr (te_host E)), (''detail'', GStr e)]) st1)
      in case res of
           Ok bu \<Rightarrow>
             let st3 = leave_stage E runID ''assemble'' (emit runID ''budget'' (budget_data bu) st2);
                 st4 = (if busy = None then st3 else emit runID ''model.reachable'' (GMap [(''server_id'', GStr (pr_ID P))]) st3)
             in (Ok (request_for E P (rn_truncatedToolRetry st) i bu, bu), st4)
         | r \<Rightarrow> (Err (gerr r), leave_stage E runID ''assemble'' st2))"

definition measure_history :: "turn_env \<Rightarrow> profile \<Rightarrow> (string \<Rightarrow> bool) option \<Rightarrow> run_state \<Rightarrow> budget gores \<times> run_state" where
  \<comment> \<open>\<^verbatim>\<open>measureSession\<close>\<close>
  "measure_history E P reasoning st =
     (let s = rn_session st;
          i = (te_input E s)\<lparr>bi_Messages := measured_messages (te_att E) P reasoning (s_Messages s)\<rparr>;
          ((res, s', b), busy) = Measure (te_ops E) (te_server E) (te_cost_key E) (te_accounting E)
            (rn_cancelled st \<or> te_compact_cancelled E) P s i False (rn_budgeter st)
      in (res, st\<lparr>rn_session := s', rn_budgeter := b\<rparr>))"

section \<open>When the budget cannot be measured\<close>

definition publishModelUnreachable :: "turn_env \<Rightarrow> string \<Rightarrow> string \<Rightarrow> run_state \<Rightarrow> bool \<times> run_state" where
  "publishModelUnreachable E runID e st =
     (if te_dial E e then (True, emit runID ''model.unreachable'' (GMap [(''host'', GStr (te_host E)), (''detail'', GStr e)]) st)
      else (False, st))"

definition firstToolName :: "toolCall list \<Rightarrow> string" where
  "firstToolName calls = (case calls of [] \<Rightarrow> [] | c # _ \<Rightarrow> tc_Name c)"

definition bad_call_index :: "(string \<Rightarrow> gmap gores) \<Rightarrow> message list \<Rightarrow> nat option" where
  \<comment> \<open>the last assistant message with a call whose arguments do not decode\<close>
  "bad_call_index decode ms = find (\<lambda>i. msg_Role (ms ! i) = ''assistant''
       \<and> (\<exists>c \<in> set (msg_ToolCalls (ms ! i)). case decode (tc_Arguments c) of Ok _ \<Rightarrow> False | _ \<Rightarrow> True)) (rev [0..<length ms])"

definition repair_keeps :: "message list \<Rightarrow> nat \<Rightarrow> nat \<Rightarrow> bool" where
  \<comment> \<open>the message at \<open>i\<close> stays when the calls of the message at \<open>bad\<close> are removed\<close>
  "repair_keeps ms bad i =
     (if i = bad then trim_space (msg_Content (ms ! bad)) \<noteq> []
      else \<not> (msg_Role (ms ! i) = ''tool'' \<and> msg_ToolCallID (ms ! i) \<in> set (map tc_ID (msg_ToolCalls (ms ! bad)))))"

definition repaired_messages :: "message list \<Rightarrow> nat \<Rightarrow> message list" where
  "repaired_messages ms bad = map (\<lambda>i. if i = bad then (ms ! i)\<lparr>msg_ToolCalls := []\<rparr> else ms ! i)
     (filter (repair_keeps ms bad) [0..<length ms])"

definition repairMalformedToolCall :: "turn_env \<Rightarrow> string \<Rightarrow> run_state \<Rightarrow> bool \<times> run_state" where
  "repairMalformedToolCall E runID st =
     (let s = rn_session st; ms = s_Messages s in
      case bad_call_index (te_decode E) ms of None \<Rightarrow> (False, st)
      | Some bad \<Rightarrow>
          let m = ms ! bad; prose = (trim_space (msg_Content m) \<noteq> []);
              removed = map ((!) ms) (filter (\<lambda>i. \<not> repair_keeps ms bad i) [0..<length ms]);
              st1 = st\<lparr>rn_session := ReplaceMessages s (repaired_messages ms bad)\<rparr>;
              st2 = (if prose then (emit runID ''message.updated'' (GMap [(''id'', GStr (msg_ID m)),
                         (''patch'', GMap [(''tool_calls'', GCalls [])])]) st1)\<lparr>rn_reasoning := (rn_reasoning st)(msg_ID m := True)\<rparr> else st1);
              st3 = fold (\<lambda>x. emit runID ''message.removed'' (GMap [(''id'', GStr (msg_ID x)), (''reason'', GStr ''unrenderable_tool_call'')])) removed st2
          in (True, emit runID ''model.retry'' (GMap [(''turn'', GInt (msg_Turn m)), (''reason'', GStr ''malformed_tool_history''),
                (''tool'', GStr (firstToolName (msg_ToolCalls m))), (''attempt'', GInt 1), (''max_attempts'', GInt 1)]) st3))"

definition budget_failed :: "run_cfg \<Rightarrow> turn_env \<Rightarrow> string \<Rightarrow> string \<Rightarrow> run_state \<Rightarrow> 'a phase" where
  "budget_failed C E runID e st =
     (let turn = rn_turn st in
      if ctx_err E st 2 then context_stop C E runID (turn - 1) ''budget accounting canceled'' st
      else let st1 = failure runID ''budget'' e st;
               (repaired, st2) = (if rn_repairTried st1 then (False, st1) else repairMalformedToolCall E runID st1)
           in if repaired then Restart (st2\<lparr>rn_repairTried := True, rn_turn := turn - 1\<rparr>)
              else let (unreachable, st3) = publishModelUnreachable E runID e st2 in
                if unreachable then Halt ''model_unreachable'' e (turn - 1) st3
                else Halt ''model_error'' (''budget accounting: '' @ e) (turn - 1) st3)"

section \<open>Compaction\<close>

definition run_summary :: "turn_env \<Rightarrow> string \<Rightarrow> profile \<Rightarrow> run_state \<Rightarrow> bool \<times> run_state" where
  \<comment> \<open>\<^verbatim>\<open>summarize\<close> on the run's session, identifiers and events\<close>
  "run_summary E runID P st =
     (let (accepted, y) = summarize (te_summary E) runID P
            \<lparr>ss_session = rn_session st, ss_ids = fb_ids (rn_flights st), ss_events = fb_events (rn_flights st)\<rparr>
      in (accepted, st\<lparr>rn_session := ss_session y,
            rn_flights := (rn_flights st)\<lparr>fb_ids := ss_ids y, fb_events := ss_events y\<rparr>\<rparr>))"

definition percent_of :: "int \<Rightarrow> rat \<Rightarrow> int" where
  \<comment> \<open>\<^verbatim>\<open>int(float64(n) * x)\<close>\<close>
  "percent_of n x = trunc_rat (fl (fl (of_int n) * fl x))"

definition shouldBatchElide :: "int \<Rightarrow> int \<Rightarrow> rat \<Rightarrow> rat \<Rightarrow> bool \<Rightarrow> bool" where
  "shouldBatchElide used roof softPct summaryPct coldPrefill =
     (if roof \<le> 0 \<or> coldPrefill then False
      else let high = (if summaryPct \<le> softPct then min (fl (95 / 100)) (fl (softPct + fl (1 / 10))) else summaryPct)
           in percent_of roof high \<le> used)"

definition elide_old :: "turn_env \<Rightarrow> string \<Rightarrow> budget \<Rightarrow> run_state \<Rightarrow> bool \<times> run_state" where
  \<comment> \<open>\<^verbatim>\<open>ElideOld\<close> down to 60 percent of the ceiling\<close>
  "elide_old E runID bu st =
     (let ((did, used), s, evs) = ElideOld (te_json E) (rn_session st) runID (bu_UsedEst bu) (percent_of (bu_Ceiling bu) (60 / 100))
            (te_readDefaultLimit E) (te_count E)
      in (did, publish_all evs (st\<lparr>rn_session := s\<rparr>)))"

definition compactToFit :: "turn_env \<Rightarrow> string \<Rightarrow> profile \<Rightarrow> budget \<Rightarrow> run_state \<Rightarrow> bool \<times> run_state" where
  "compactToFit E runID P bu st =
     (let (did, st1) = elide_old E runID bu st;
          (res, st2) = measure_history E P (Some (rn_reasoning st1)) st1;
          (changed, st3) = (case res of
              Ok nxt \<Rightarrow> if bu_NCtx nxt < guardedPromptTokens nxt + bu_Reserve nxt
                then let (accepted, st') = run_summary E runID P st2 in (accepted \<or> did, st') else (did, st2)
            | r \<Rightarrow> (did, failure runID ''compaction_budget'' (gerr r) st2));
          turn = rs_Turn (s_Run (rn_session st3))
      in if changed then (True, emit runID ''stage'' (stage_event ''compact'' ''exit'' turn 0)
             (emit runID ''stage'' (stage_event ''compact'' ''enter'' turn 0) st3))
         else (False, st3))"

definition after_summary :: "turn_env \<Rightarrow> string \<Rightarrow> profile \<Rightarrow> bool \<Rightarrow> run_state \<Rightarrow> run_state" where
  \<comment> \<open>the last measurement of \<^verbatim>\<open>compactAfterTurn\<close>, published when something changed\<close>
  "after_summary E runID P changed st =
     (if \<not> changed then st
      else let (res, st1) = measure_history E P (Some (rn_reasoning st)) st in
        case res of Ok nxt \<Rightarrow> emit runID ''budget'' (budget_data nxt) st1
        | r \<Rightarrow> failure runID ''compaction_budget'' (gerr r) st1)"

definition summarize_if_full :: "turn_env \<Rightarrow> string \<Rightarrow> profile \<Rightarrow> bool \<Rightarrow> budget \<Rightarrow> run_state \<Rightarrow> run_state" where
  "summarize_if_full E runID P changed bu st =
     (if 0 < bu_Ceiling bu \<and> percent_of (bu_Ceiling bu) (te_SummaryPct E) \<le> bu_UsedEst bu
      then let (accepted, st1) = run_summary E runID P st in after_summary E runID P (accepted \<or> changed) st1
      else after_summary E runID P changed st)"

definition compactAfterTurn :: "turn_env \<Rightarrow> string \<Rightarrow> profile \<Rightarrow> run_state \<Rightarrow> run_state" where
  "compactAfterTurn E runID P st =
     (let (superseded, s, evs) = Supersede (te_json E) (rn_session st) runID (rn_turn st) (te_readDefaultLimit E) (te_count E);
          (res, st1) = measure_history E P (Some (rn_reasoning st)) (publish_all evs (st\<lparr>rn_session := s\<rparr>))
      in case res of
           Ok bu \<Rightarrow>
             if shouldBatchElide (bu_UsedEst bu) (bu_Ceiling bu) (te_SoftPct E) (te_SummaryPct E) (ColdPrefill (rn_budgeter st1) (s_ID s))
             then let (did, st2) = elide_old E runID bu st1 in
               if \<not> did then summarize_if_full E runID P superseded bu st2
               else let (res2, st3) = measure_history E P (Some (rn_reasoning st2)) st2 in
                 (case res2 of Ok bu2 \<Rightarrow> summarize_if_full E runID P True bu2 st3
                  | r \<Rightarrow> failure runID ''compaction_budget'' (gerr r) st3)
             else summarize_if_full E runID P superseded bu st1
         | r \<Rightarrow> failure runID ''compaction_budget'' (gerr r) st1)"

definition fit_phase :: "turn_env \<Rightarrow> string \<Rightarrow> profile \<Rightarrow> budget \<Rightarrow> run_state \<Rightarrow> unit phase" where
  "fit_phase E runID P bu st =
     (let guardUsed = guardedPromptTokens bu; least = outputFloor P in
      if guardUsed + least \<le> bu_NCtx bu then Go () st
      else let (changed, st1) = compactToFit E runID P bu st in
        if changed then Restart (st1\<lparr>rn_turn := rn_turn st - 1\<rparr>)
        else Halt ''context_ceiling'' (''prompt '' @ itoa guardUsed @ '' tokens leaves less than the '' @ itoa least
               @ ''-token output floor in n_ctx '' @ itoa (bu_NCtx bu) @ '' after compaction'') (rn_turn st - 1) st1)"

section \<open>The model call\<close>

definition stream_delta :: "string \<Rightarrow> streamDelta \<Rightarrow> string \<times> run_state \<Rightarrow> string \<times> run_state" where
  \<comment> \<open>the callback of the stream; the first component is the visible text so far\<close>
  "stream_delta runID d acc =
     (let (partial, st) = acc; turn = rn_turn st;
          st1 = st\<lparr>rn_flights := addFlightDelta (rn_flights st) (s_ID (rn_session st)) runID (delta.truncate d)\<rparr>
      in if de_Kind d = ''progress''
         then (partial, emit runID ''model.progress'' (GMap [(''turn'', GInt turn), (''total'', GInt (sd_Total d)),
                 (''cache'', GInt (sd_Cache d)), (''processed'', GInt (sd_Processed d))]) st1)
         else let partial1 = (if de_Kind d = ''content'' then partial @ de_Text d else partial);
                  st2 = (if de_Kind d = ''content'' then st1\<lparr>rn_session := UpdatePartial (rn_session st1) partial1\<rparr> else st1)
              in (partial1, emit runID ''model.delta'' (GMap [(''turn'', GInt turn), (''kind'', GStr (de_Kind d)),
                   (''index'', GInt (de_Index d)), (''text'', GStr (durableModelDeltaText (de_Kind d) (de_Text d)))]) st2))"

definition send_request :: "turn_env \<Rightarrow> string \<Rightarrow> llmRequest \<Rightarrow> budget \<Rightarrow> run_state \<Rightarrow> run_state" where
  \<comment> \<open>the request event and \<^verbatim>\<open>MarkRequest\<close>\<close>
  "send_request E runID rq bu st =
     (let st1 = emit runID ''model.request'' (GMap [(''turn'', GInt (rn_turn st)), (''message_count'', GInt (int (length (rq_Messages rq)))),
            (''tool_count'', GInt (int (length (rq_Tools rq)))), (''params'', te_params E (rq_MaxTokens rq)),
            (''est_prompt_tokens'', GInt (bu_UsedEst bu)), (''estimated'', GBool (bu_Estimated bu))]) st
      in st1\<lparr>rn_budgeter := MarkRequest (rn_budgeter st1) (s_ID (rn_session st1)) (bu_UsedEst bu), rn_sent := rn_sent st1 @ [(rq, bu)]\<rparr>)"

definition call_phase :: "run_cfg \<Rightarrow> turn_env \<Rightarrow> string \<Rightarrow> profile \<Rightarrow> llmRequest \<Rightarrow> budget \<Rightarrow> run_state \<Rightarrow> llmResponse phase" where
  "call_phase C E runID P rq bu st0 =
     (let st = enter_stage runID ''call_model'' (send_request E runID rq bu st0);
          st1 = snd (fold (stream_delta runID) (te_deltas E) ([], st));
          st2 = (if te_stream_busy E then emit runID ''model.busy'' (GMap [(''host'', GStr (te_host E)),
                   (''detail'', GStr ''connected; waiting for model response'')]) st1 else st1);
          st3 = leave_stage E runID ''call_model'' (st2\<lparr>rn_session := UpdatePartial (rn_session st2) []\<rparr>)
      in case te_chat E rq of
           Ok response \<Rightarrow> Go response (if te_stream_busy E
             then emit runID ''model.reachable'' (GMap [(''server_id'', GStr (pr_ID P))]) st3 else st3)
         | r \<Rightarrow>
             if ctx_err E st3 3 then context_stop C E runID (rn_turn st3) ''model call canceled'' st3
             else let (unreachable, st4) = publishModelUnreachable E runID (gerr r) st3 in
               if unreachable then Halt ''model_unreachable'' (gerr r) (rn_turn st4) st4
               else Halt ''model_error'' (gerr r) (rn_turn st4) st4)"

definition record_response :: "turn_env \<Rightarrow> string \<Rightarrow> llmResponse \<Rightarrow> toolCall list \<Rightarrow> run_state \<Rightarrow> run_state" where
  "record_response E runID rp durable st =
     (let st1 = st\<lparr>rn_budgeter := RecordUsage (rn_budgeter st) (s_ID (rn_session st)) (rp_PromptTokens rp) (rp_CachedTokens rp),
            rn_session := RecordModelTurn (rn_session st)\<rparr>;
          (tokens, estimated) = te_count E (rp_Reasoning rp);
          st2 = emit runID ''model.response'' (GMap [(''turn'', GInt (rn_turn st)), (''finish_reason'', GStr (rp_FinishReason rp)),
            (''content'', GStr (rp_Content rp)), (''reasoning_tokens'', GInt tokens), (''reasoning_tokens_estimated'', GBool estimated),
            (''tool_calls'', GCalls durable),
            (''usage'', GMap [(''prompt_tokens'', GInt (rp_PromptTokens rp)), (''completion_tokens'', GInt (rp_CompletionTokens rp)),
               (''cached_tokens'', (if rp_CachedTokens rp < 0 then GNil else GInt (rp_CachedTokens rp)))]),
            (''timings'', rp_Timings rp), (''duration_ms'', GInt (rp_DurationMS rp))]) st1
      in leave_stage E runID ''parse'' (enter_stage runID ''parse'' st2))"

definition truncation_phase :: "turn_env \<Rightarrow> string \<Rightarrow> llmResponse \<Rightarrow> toolCall list \<Rightarrow> run_state \<Rightarrow> unit phase" where
  \<comment> \<open>a tool call cut off by the output limit is retried once, and the retry must return that call\<close>
  "truncation_phase E runID rp durable st =
     (let name = firstToolName durable; turn = rn_turn st; wanted = rn_truncatedToolRetry st in
      if rp_FinishReason rp = ''length'' \<and> rp_ToolCalls rp \<noteq> [] then
        if rn_lengthSeen st then Halt ''length'' (''truncated '' @ name @ '' call hit the output limit twice'') turn st
        else if name = [] then Halt ''length'' ''truncated tool call had no function name and could not be retried safely'' turn st
        else Restart (emit runID ''model.retry'' (GMap [(''turn'', GInt turn), (''next_turn'', GInt (turn + 1)),
               (''reason'', GStr ''truncated_tool_call''), (''tool'', GStr name), (''attempt'', GInt 1), (''max_attempts'', GInt 1)])
               (st\<lparr>rn_lengthSeen := True, rn_truncatedToolRetry := name\<rparr>))
      else if wanted \<noteq> [] then
        if rp_ToolCalls rp = [] \<or> name \<noteq> wanted
        then Halt ''length'' (''truncated '' @ wanted @ '' call retry did not return that tool call'') turn st
        else Go () (st\<lparr>rn_truncatedToolRetry := [], rn_lengthSeen := False\<rparr>)
      else Go () st)"

definition assistant_message :: "turn_env \<Rightarrow> llmResponse \<Rightarrow> toolCall list \<Rightarrow> run_state \<Rightarrow> message \<times> run_state" where
  \<comment> \<open>the model's answer as a message, without its proposal blocks\<close>
  "assistant_message E rp calls st =
     (let (visible, proposals) = parsePlanProposals (te_proposals E) (rp_Content rp);
          (m, st1) = new_message E ''assistant'' visible ''history'' st
      in (m\<lparr>msg_Reasoning := rp_Reasoning rp, msg_ToolCalls := calls,
            msg_PlanProposals := bindPlanProposalSources (s_Messages (rn_session st)) proposals (msg_ID m)\<rparr>,
          st1\<lparr>rn_reasoning := (rn_reasoning st1)(msg_ID m := True)\<rparr>))"

definition answer_phase :: "turn_env \<Rightarrow> string \<Rightarrow> llmResponse \<Rightarrow> run_state \<Rightarrow> unit phase" where
  \<comment> \<open>an answer without tool calls ends the run\<close>
  "answer_phase E runID rp st =
     (if rp_ToolCalls rp \<noteq> [] \<or> rp_FinishReason rp = ''tool_calls'' then Go () st
      else if rp_FinishReason rp = ''length'' then Halt ''length'' ''model output was truncated'' (rn_turn st) st
      else let (m, st1) = assistant_message E rp [] (enter_stage runID ''append'' st);
               st2 = leave_stage E runID ''append'' (append_message runID m st1)
           in Halt ''done'' [] (rn_turn st2) st2)"

section \<open>Tool calls\<close>

record toolResult =
  tr_call :: toolCall
  tr_durable :: toolCall
  tr_args :: gmap
  tr_argErr :: "string option"
  tr_content :: string
  tr_ok :: bool
  tr_operatorContext :: bool
  tr_category :: string
  tr_untrusted :: bool
  tr_metadata :: gmap

definition dispatched :: "turn_env \<Rightarrow> toolCall \<Rightarrow> toolCall \<Rightarrow> toolResult" where
  "dispatched E call durable =
     \<lparr>tr_call = call, tr_durable = durable, tr_args = (case te_decode E (tc_Arguments call) of Ok args \<Rightarrow> args | _ \<Rightarrow> []),
      tr_argErr = (case te_decode E (tc_Arguments call) of Ok _ \<Rightarrow> None | r \<Rightarrow> Some (gerr r)), tr_content = [], tr_ok = False,
      tr_operatorContext = False, tr_category = [], tr_untrusted = False, tr_metadata = []\<rparr>"

definition dispatch_phase :: "run_cfg \<Rightarrow> turn_env \<Rightarrow> string \<Rightarrow> llmResponse \<Rightarrow> toolCall list \<Rightarrow> run_state \<Rightarrow> toolResult list phase" where
  "dispatch_phase C E runID rp durable st0 =
     (let results = map2 (dispatched E) (rp_ToolCalls rp) durable;
          st = leave_stage E runID ''dispatch'' (enter_stage runID ''dispatch'' st0);
          n = rn_toolCallsUsed st + int (length results)
      in if rc_MaxToolCalls C < n
         then Halt ''tool_budget'' (''guessed tool-call backstop of '' @ itoa (rc_MaxToolCalls C) @ '' would be exceeded'') (rn_turn st) st
         else Go results (st\<lparr>rn_toolCallsUsed := n\<rparr>))"

definition producedFileMetadata :: "turn_env \<Rightarrow> string \<Rightarrow> gmap \<Rightarrow> gmap" where
  "producedFileMetadata E name args =
     (let path = str_or_empty (gget args ''path'') in
      if name \<noteq> ''write_file'' \<and> name \<noteq> ''edit_file'' \<or> path = [] then []
      else case te_written E path of None \<Rightarrow> []
        | Some (relative, k) \<Rightarrow> [(''file'', GMap [(''path'', GStr relative), (''bytes'', GInt k)])])"

definition preview :: "string \<Rightarrow> string" where
  "preview v0 = (let v = filter (\<lambda>c. c \<noteq> CHR 0x0D) v0 in
     if 500 < rune_count v then take_runes 500 v @ [CHR 0xE2, CHR 0x80, CHR 0xA6] else v)"

definition toolResultEventData :: "int \<Rightarrow> toolResult \<Rightarrow> int \<Rightarrow> int \<Rightarrow> gmap" where
  "toolResultEventData turn r ms tokens =
     mergeResultMetadata [(''turn'', GInt turn), (''call_id'', GStr (tc_ID (tr_call r))), (''name'', GStr (tc_Name (tr_call r))),
       (''ok'', GBool (tr_ok r)), (''operator_context'', GBool (tr_operatorContext r)), (''untrusted'', GBool (tr_untrusted r)),
       (''ms'', GInt ms), (''bytes'', GInt (int (length (tr_content r)))), (''tokens'', GInt tokens),
       (''preview'', GStr (preview (tr_content r)))] (tr_metadata r)"

definition run_tool :: "turn_env \<Rightarrow> string \<Rightarrow> nat \<Rightarrow> toolResult \<Rightarrow> run_state \<Rightarrow> toolResult \<times> run_state" where
  \<comment> \<open>one call of the loop, before the result is fitted\<close>
  "run_tool E runID n r st =
     (case tr_argErr r of
        Some e \<Rightarrow> (r\<lparr>tr_content := ''error: '' @ e, tr_ok := False\<rparr>, st)
      | None \<Rightarrow>
          let s = rn_session st; name = tc_Name (tr_call r); args = tr_args r;
              b1 = setFlightTool (rn_flights st) (s_ID s) runID (rn_turn st) (tr_durable r) args;
              (outcome, x) = executeTool (te_exec E n) s (rn_exec st) runID (tc_ID (tr_call r)) name args;
              b2 = setFlightToolOutput b1 (s_ID s) runID (co_Content outcome);
              written = (if co_OK outcome then producedFileMetadata E name args else []);
              st1 = st\<lparr>rn_exec := x, rn_flights := b2, rn_produced := (case gget written ''file'' of
                GMap f \<Rightarrow> (case gget f ''bytes'' of GInt k \<Rightarrow> (rn_produced st)(to_lower (str_or_empty (gget f ''path'')) \<mapsto> (str_or_empty (gget f ''path''), k))
                           | _ \<Rightarrow> rn_produced st)
              | _ \<Rightarrow> rn_produced st)\<rparr>
          in (r\<lparr>tr_content := co_Content outcome, tr_ok := co_OK outcome, tr_operatorContext := co_OperatorContext outcome,
                tr_category := co_Category outcome,
                tr_untrusted := co_Untrusted outcome
                  \<or> co_OK outcome \<and> name = ''read_file'' \<and> untrustedAttachmentRead (te_clean E) (s_Messages s) args,
                tr_metadata := mergeResultMetadata (co_Metadata outcome) written\<rparr>, st1))"

definition fit_result :: "turn_env \<Rightarrow> string \<Rightarrow> nat \<Rightarrow> int \<Rightarrow> toolResult \<Rightarrow> run_state \<Rightarrow> int \<times> toolResult \<times> run_state" where
  \<comment> \<open>the end of the loop body: the remaining tokens, the fitted result, the events\<close>
  "fit_result E runID n remaining r st =
     (let count = (\<lambda>c. fst (te_count E c));
          (content, ok, meta, tokens) = fitWindowResult (te_windows E) (repeatReadFile (te_exec E n) (tr_operatorContext r)) count True
            (tc_Name (tr_call r)) (tr_args r) (tr_content r) (tr_ok r) (tr_metadata r) (count (tr_content r)) remaining;
          r1 = r\<lparr>tr_content := content, tr_ok := ok, tr_metadata := meta\<rparr>;
          st1 = st\<lparr>rn_session := IncrementToolCall (rn_session st) (tc_Name (tr_call r))\<rparr>
      in (max 0 (remaining - tokens), r1,
          emit runID ''tool.result'' (GMap (toolResultEventData (rn_turn st) r1 (te_ms E (tc_ID (tr_call r))) tokens)) st1))"

primrec execute_from :: "turn_env \<Rightarrow> string \<Rightarrow> nat \<Rightarrow> int \<Rightarrow> toolResult list \<Rightarrow> run_state \<Rightarrow> toolResult list \<times> run_state" where
  \<comment> \<open>the loop over the calls; \<open>n\<close> is the index of the first one\<close>
  "execute_from E runID n remaining [] st = ([], st)"
| "execute_from E runID n remaining (r # rest) st =
     (let st1 = emit runID ''tool.call'' (GMap [(''turn'', GInt (rn_turn st)), (''call_id'', GStr (tc_ID (tr_call r))),
            (''name'', GStr (tc_Name (tr_call r))), (''args'', GMap (sanitizedToolArguments (tc_Name (tr_call r)) (tr_args r)))]) st;
          (r1, st2) = run_tool E runID n r st1
      in if ctx_err E st2 (4 + n) then (r1 # rest, st2)
         else let (remaining1, r2, st3) = fit_result E runID n remaining r1 st2;
                  (rs, st4) = execute_from E runID (Suc n) remaining1 rest st3
              in (r2 # rs, st4))"

definition toolResultContextMargin :: int where "toolResultContextMargin = 1024"

definition execute_phase :: "run_cfg \<Rightarrow> turn_env \<Rightarrow> string \<Rightarrow> budget \<Rightarrow> toolResult list \<Rightarrow> run_state \<Rightarrow> toolResult list phase" where
  "execute_phase C E runID bu results st =
     (let remaining = max 0 (bu_NCtx bu - bu_Reserve bu - bu_UsedEst bu - toolResultContextMargin);
          (rs, st1) = execute_from E runID 0 remaining results (enter_stage runID ''execute'' st);
          st2 = leave_stage E runID ''execute'' st1
      in if ctx_err E st2 (4 + length results) then context_stop C E runID (rn_turn st2) ''tool execution canceled'' st2
         else Go rs st2)"

definition result_message :: "turn_env \<Rightarrow> toolResult \<Rightarrow> run_state \<Rightarrow> message \<times> run_state" where
  "result_message E r st =
     (let category = (if tc_Name (tr_call r) = ''read_file'' \<and> tr_category r = [] then ''files''
            else if tr_category r = [] then ''results'' else tr_category r);
          (m, st1) = new_message E ''tool'' (tr_content r) category st
      in (m\<lparr>msg_ToolCallID := tc_ID (tr_call r), msg_Name := tc_Name (tr_call r), msg_OK := Some (tr_ok r)\<rparr>, st1))"

definition append_result :: "turn_env \<Rightarrow> string \<Rightarrow> toolResult \<Rightarrow> run_state \<Rightarrow> run_state" where
  "append_result E runID r st = (let (m, st1) = result_message E r st in append_message runID m st1)"

definition append_phase :: "turn_env \<Rightarrow> string \<Rightarrow> message \<Rightarrow> toolResult list \<Rightarrow> run_state \<Rightarrow> run_state" where
  "append_phase E runID assistant results st =
     leave_stage E runID ''append'' (fold (append_result E runID) results
       (append_message runID assistant (enter_stage runID ''append'' st)))"

primrec observe_phase :: "run_cfg \<Rightarrow> turn_env \<Rightarrow> string \<Rightarrow> nat \<Rightarrow> toolResult list \<Rightarrow> run_state \<Rightarrow> unit phase" where
  \<comment> \<open>the guards, result by result; \<open>n\<close> is the number of calls of the turn\<close>
  "observe_phase C E runID n [] st = Go () st"
| "observe_phase C E runID n (r # rest) st =
     (let call = tr_call r; args = sanitizedToolArguments (tc_Name call) (tr_args r);
          (g, (reason, detail, prior)) = Observe (te_digest E) (te_marshal E) (rn_guards st)
            \<lparr>ob_callID = tc_ID call, ob_name = tc_Name call, ob_args = args, ob_result = tr_content r, ob_ok = tr_ok r\<rparr>;
          st1 = st\<lparr>rn_guards := g\<rparr>; turn = rn_turn st
      in if reason = ''cycle'' then
           let st2 = emit runID ''cycle.detected'' (GMap [(''call_id'', GStr (tc_ID call)), (''name'', GStr (tc_Name call)),
                 (''args'', GMap args), (''prior_call_id'', GStr prior)]) st1
           in (case te_cycle E of
                 (decision, Some e) \<Rightarrow> if ctx_err E st2 (5 + n) then context_stop C E runID turn ''approval wait canceled'' st2
                   else Halt ''cycle'' e turn st2
               | (decision, None) \<Rightarrow> if decision = ''continue''
                   then observe_phase C E runID n rest (st2\<lparr>rn_guards := ResetCycle (rn_guards st2)\<rparr>)
                   else Halt ''cycle'' detail turn st2)
         else if reason \<noteq> [] then Halt reason detail turn st1
         else observe_phase C E runID n rest st1)"

definition end_phase :: "turn_env \<Rightarrow> string \<Rightarrow> profile \<Rightarrow> run_state \<Rightarrow> unit phase" where
  "end_phase E runID P st =
     (if te_MaxTurns E \<le> rn_turn st then Halt ''turn_ceiling'' ''maximum turns reached'' (rn_turn st) st
      else Restart (leave_stage E runID ''compact'' (compactAfterTurn E runID P (enter_stage runID ''compact'' st))))"

section \<open>A turn, the loop, the run\<close>

definition tools_phase :: "run_cfg \<Rightarrow> turn_env \<Rightarrow> string \<Rightarrow> profile \<Rightarrow> budget \<Rightarrow> llmResponse \<Rightarrow> toolCall list \<Rightarrow> run_state \<Rightarrow> unit phase" where
  \<comment> \<open>an answer with tool calls\<close>
  "tools_phase C E runID P bu rp durable st =
     (let (assistant, st1) = assistant_message E rp durable st in
      and_then (dispatch_phase C E runID rp durable st1) (\<lambda>results st2.
      and_then (execute_phase C E runID bu results st2) (\<lambda>rs st3.
      and_then (observe_phase C E runID (length rs) rs (append_phase E runID assistant rs st3)) (\<lambda>u.
      end_phase E runID P))))"

definition respond_phase :: "run_cfg \<Rightarrow> turn_env \<Rightarrow> string \<Rightarrow> profile \<Rightarrow> budget \<Rightarrow> llmResponse \<Rightarrow> run_state \<Rightarrow> unit phase" where
  \<comment> \<open>what follows the model's answer\<close>
  "respond_phase C E runID P bu rp st =
     (let durable = sanitizedToolCalls (te_decode_map E) (te_encode_map E) (rp_ToolCalls rp);
          st1 = record_response E runID rp durable st
      in and_then (truncation_phase E runID rp durable st1) (\<lambda>u st2.
         and_then (answer_phase E runID rp st2) (\<lambda>u. tools_phase C E runID P bu rp durable)))"

definition iteration :: "run_cfg \<Rightarrow> turn_env \<Rightarrow> string \<Rightarrow> run_state \<Rightarrow> unit phase" where
  \<comment> \<open>one round of the loop of \<^verbatim>\<open>Run\<close>\<close>
  "iteration C E runID st =
     and_then (boundary_phase C E runID st) (\<lambda>u st1.
     and_then (rebind_phase E runID st1) (\<lambda>P st2.
     case assemble_phase E runID P st2 of
       (Ok (rq, bu), st3) \<Rightarrow>
         and_then (fit_phase E runID P bu st3) (\<lambda>u st4.
         and_then (call_phase C E runID P rq bu st4) (\<lambda>rp. respond_phase C E runID P bu rp))
     | (r, st3) \<Rightarrow> budget_failed C E runID (gerr r) st3))"

definition remember_cancel :: "turn_env \<Rightarrow> run_state \<Rightarrow> run_state" where
  \<comment> \<open>a context cancelled in this turn is still cancelled in the next one\<close>
  "remember_cancel E st = st\<lparr>rn_cancelled := (rn_cancelled st \<or> te_cancel E \<noteq> None \<or> te_compact_cancelled E)\<rparr>"

fun run_loop :: "run_cfg \<Rightarrow> string \<Rightarrow> turn_env list \<Rightarrow> run_state \<Rightarrow> unit phase" where
  \<comment> \<open>the loop for as many rounds as there are environments; \<open>Restart\<close> means the run goes on\<close>
  "run_loop C runID [] st = Restart st"
| "run_loop C runID (E # Es) st =
     (case iteration C E runID st of
        Restart st1 \<Rightarrow> run_loop C runID Es (remember_cancel E st1)
      | p \<Rightarrow> p)"

definition bounded_cfg :: "run_cfg \<Rightarrow> run_cfg" where
  \<comment> \<open>the defaults of the two backstops\<close>
  "bounded_cfg C = C\<lparr>rc_MaxWallClockSeconds := (if rc_MaxWallClockSeconds C \<le> 0 then 6 * 60 * 60 else rc_MaxWallClockSeconds C),
     rc_MaxToolCalls := (if rc_MaxToolCalls C \<le> 0 then 1000 else rc_MaxToolCalls C)\<rparr>"

definition start_state :: "run_cfg \<Rightarrow> run_state \<Rightarrow> run_state" where
  \<comment> \<open>the variables of a new run\<close>
  "start_state C st = st\<lparr>rn_guards := newRunGuards (rc_CycleWindow C) (rc_MaxConsecutiveToolErrors C), rn_reasoning := (\<lambda>_. False),
     rn_turn := 0, rn_toolCallsUsed := 0, rn_lengthSeen := False, rn_truncatedToolRetry := [], rn_repairTried := False,
     rn_sent := []\<rparr>"

definition before_loop :: "run_cfg \<Rightarrow> turn_env \<Rightarrow> string \<Rightarrow> string option \<Rightarrow> run_state \<Rightarrow> unit phase" where
  \<comment> \<open>what \<^verbatim>\<open>Run\<close> checks before its loop; the fourth argument is the detail of a handled plan registration\<close>
  "before_loop C E runID registration st =
     (let ((stop, detail), st1) = applyMailboxBoundary E runID st; s = rn_session st1 in
      if stop then if ctx_err E st1 1 then context_stop C E runID 0 detail st1 else Halt ''mailbox_stop'' detail 0 st1
      else if te_profile E (s_ServerID s) = None then Halt ''profile_not_runnable'' ''profile not found'' 0 st1
      else if \<not> s_Runnable s then Halt ''profile_not_runnable'' (s_NotRunnableReason s) 0 st1
      else case registration of Some d \<Rightarrow> Halt ''done'' d 0 st1 | None \<Rightarrow> Go () st1)"

definition turnCeilingDetail :: "int \<Rightarrow> (string \<times> string \<times> string) list \<Rightarrow> string" where
  \<comment> \<open>items are source path, status and delivered path\<close>
  "turnCeilingDetail turns items =
     ''completed '' @ itoa turns @ '' turns; delivery: ''
     @ (if items = [] then ''no files'' else str_join '', '' (map (\<lambda>(source, status, delivered).
          source @ '' '' @ status @ (if delivered \<noteq> [] then '' to '' @ delivered else [])) items))
     @ ''; continue: send Continue in this chat; the session history and delivered work are retained''"

definition publish_final_budget :: "turn_env \<Rightarrow> run_state \<Rightarrow> run_state" where
  \<comment> \<open>\<^verbatim>\<open>PublishBudget\<close>\<close>
  "publish_final_budget E st =
     (case te_profile E (s_ServerID (rn_session st)) of None \<Rightarrow> st
      | Some P \<Rightarrow> let (res, st1) = measure_history E P None st in
          (case res of Ok bu \<Rightarrow> emit [] ''budget'' (budget_data bu) st1
           | r \<Rightarrow> snd (publishModelUnreachable E [] (gerr r) (failure [] ''budget'' (gerr r) st1))))"

definition closing :: "turn_env \<Rightarrow> string \<Rightarrow> (string \<times> string \<times> string) list \<Rightarrow> bool \<Rightarrow> string \<Rightarrow> string \<Rightarrow> int \<Rightarrow> run_state
     \<Rightarrow> (string \<times> string \<times> int) \<times> run_state" where
  \<comment> \<open>the deferred calls, last one first: the final budget if the loop was entered and the model is reachable, the
     grants of the run, delivery, the end of the flight record\<close>
  "closing E runID items looped reason detail turns st =
     (let st1 = (if looped \<and> reason \<noteq> ''model_unreachable'' then publish_final_budget E st else st);
          sid = s_ID (rn_session st1); x = rn_exec st1;
          st2 = st1\<lparr>rn_exec := x\<lparr>xs_grants := lapseShellGrants (lapseFileRunGrant (xs_grants x) sid runID) sid runID\<rparr>\<rparr>;
          st3 = leave_stage E runID ''append'' (enter_stage runID ''append'' (st2\<lparr>rn_turn := turns\<rparr>))
      in ((reason, if reason = ''turn_ceiling'' then turnCeilingDetail turns items else detail, turns),
          st3\<lparr>rn_flights := endFlight (rn_flights st3) sid runID\<rparr>))"

definition Run ::
  "run_cfg \<Rightarrow> string \<Rightarrow> turn_env \<Rightarrow> turn_env list \<Rightarrow> string option \<Rightarrow> (string \<times> string \<times> string) list \<Rightarrow> run_state
     \<Rightarrow> (string \<times> string \<times> int) option \<times> run_state" where
  \<comment> \<open>\<open>E0\<close> is the world before the loop, \<open>Es\<close> the world of its rounds; \<open>None\<close> while the run goes on\<close>
  "Run C0 runID E0 Es registration items st0 =
     (let C = bounded_cfg C0; sid = s_ID (rn_session st0);
          st = start_state C (st0\<lparr>rn_flights := beginFlight (rn_flights st0) sid runID\<rparr>);
          final = last (E0 # Es)
      in case before_loop C E0 runID registration st of
           Halt reason detail turns st1 \<Rightarrow> (let (r, st2) = closing E0 runID items False reason detail turns st1 in (Some r, st2))
         | Restart st1 \<Rightarrow> (None, st1)
         | Go u st1 \<Rightarrow> (case run_loop C runID Es (remember_cancel E0 st1) of
               Halt reason detail turns st2 \<Rightarrow> (let (r, st3) = closing final runID items True reason detail turns st2 in (Some r, st3))
             | Restart st2 \<Rightarrow> (None, st2)
             | Go u st2 \<Rightarrow> (None, st2)))"

end
