(* ===== verification/Run_Loop.thy ===== *)
theory Run_Loop
  imports Run_Model
begin

text \<open>
  What holds of every run: the reasons it stops for, the limits on turns, requests and tool calls, the size of every
  request it sends, and the shape of the conversation it builds.

  \<open>ensures p G R H\<close> says what holds of the result of a phase, whichever way it ends.  The locale \<open>run_invariant\<close>
  is the contract of an invariant of the loop: one round keeps it, or ends the run in a state that satisfies the
  conclusion; its lemmas lift that to all rounds and are interpreted for the limits, the requests and the history.
\<close>

section \<open>Reasoning about phases\<close>

definition ensures :: "'a phase \<Rightarrow> ('a \<Rightarrow> run_state \<Rightarrow> bool) \<Rightarrow> (run_state \<Rightarrow> bool) \<Rightarrow> (string \<Rightarrow> int \<Rightarrow> run_state \<Rightarrow> bool) \<Rightarrow> bool" where
  "ensures p G R H = (case p of Go x st \<Rightarrow> G x st | Restart st \<Rightarrow> R st | Halt reason detail turn st \<Rightarrow> H reason turn st)"

lemma ensures_simps [simp]:
  "ensures (Go x st) G R H = G x st" "ensures (Restart st) G R H = R st" "ensures (Halt reason detail turn st) G R H = H reason turn st"
  by (simp_all add: ensures_def)

lemma ensures_and_then [simp]: "ensures (and_then p f) G R H = ensures p (\<lambda>x st. ensures (f x st) G R H) R H"
  by (cases p) simp_all

lemma ensures_mono:
  assumes "ensures p G R H" "\<And>x st. G x st \<Longrightarrow> G' x st" "\<And>st. R st \<Longrightarrow> R' st" "\<And>r t st. H r t st \<Longrightarrow> H' r t st"
  shows "ensures p G' R' H'"
  using assms by (cases p) simp_all

lemma ensures_bind:
  assumes "ensures p G0 R0 H0" "\<And>x st. G0 x st \<Longrightarrow> ensures (f x st) G R H" "\<And>st. R0 st \<Longrightarrow> R st" "\<And>r t st. H0 r t st \<Longrightarrow> H r t st"
  shows "ensures (and_then p f) G R H"
  using assms by (cases p) simp_all

lemma ensures_conj: "ensures p G R H \<Longrightarrow> ensures p G' R' H' \<Longrightarrow> ensures p (\<lambda>x st. G x st \<and> G' x st) (\<lambda>st. R st \<and> R' st) (\<lambda>r t st. H r t st \<and> H' r t st)"
  by (cases p) simp_all

locale run_invariant =
  fixes C :: run_cfg and runID :: string and good :: "turn_env \<Rightarrow> bool"
    and inv :: "run_state \<Rightarrow> bool" and conclusion :: "string \<Rightarrow> int \<Rightarrow> run_state \<Rightarrow> bool"
  assumes round: "good E \<Longrightarrow> inv st \<Longrightarrow> ensures (iteration C E runID st) (\<lambda>x. inv) inv conclusion"
    and cancel: "inv st \<Longrightarrow> inv (remember_cancel E st)"
begin

lemma rounds: "\<forall>E \<in> set Es. good E \<Longrightarrow> inv st \<Longrightarrow> ensures (run_loop C runID Es st) (\<lambda>x. inv) inv conclusion"
proof (induction Es arbitrary: st)
  case (Cons E Es)
  from Cons.prems have "ensures (iteration C E runID st) (\<lambda>x. inv) inv conclusion" by (simp add: round)
  with Cons show ?case by (cases "iteration C E runID st") (simp_all add: cancel)
qed simp

end

section \<open>What the steps leave alone\<close>

definition loop_vars :: "run_state \<Rightarrow> int \<times> int \<times> bool \<times> string \<times> (llmRequest \<times> budget) list" where
  "loop_vars st = (rn_turn st, rn_toolCallsUsed st, rn_lengthSeen st, rn_truncatedToolRetry st, rn_sent st)"

lemma loop_vars_iff:
  "loop_vars st = loop_vars st' \<longleftrightarrow> rn_turn st = rn_turn st' \<and> rn_toolCallsUsed st = rn_toolCallsUsed st'
     \<and> rn_lengthSeen st = rn_lengthSeen st' \<and> rn_truncatedToolRetry st = rn_truncatedToolRetry st' \<and> rn_sent st = rn_sent st'"
  by (simp add: loop_vars_def)

lemma loop_vars_updates [simp]:
  "loop_vars (st\<lparr>rn_session := a\<rparr>) = loop_vars st" "loop_vars (st\<lparr>rn_exec := b\<rparr>) = loop_vars st"
  "loop_vars (st\<lparr>rn_budgeter := c\<rparr>) = loop_vars st" "loop_vars (st\<lparr>rn_flights := d\<rparr>) = loop_vars st"
  "loop_vars (st\<lparr>rn_guards := e\<rparr>) = loop_vars st" "loop_vars (st\<lparr>rn_reasoning := f\<rparr>) = loop_vars st"
  "loop_vars (st\<lparr>rn_produced := g\<rparr>) = loop_vars st" "loop_vars (st\<lparr>rn_cancelled := h\<rparr>) = loop_vars st"
  "loop_vars (st\<lparr>rn_repairTried := i\<rparr>) = loop_vars st"
  by (simp_all add: loop_vars_def)

lemma publish_vars [simp]:
  "loop_vars (publish_all evs st) = loop_vars st" "loop_vars (emit r t d st) = loop_vars st" "loop_vars (failure r w e st) = loop_vars st"
  "loop_vars (append_message r m st) = loop_vars st" "loop_vars (enter_stage r n st) = loop_vars st" "loop_vars (leave_stage E r n st) = loop_vars st"
  by (simp_all add: publish_all_def emit_def failure_def append_message_def enter_stage_def leave_stage_def)

lemma new_message_vars [simp]: "loop_vars (snd (new_message E role c cat st)) = loop_vars st"
  by (simp add: new_message_def Let_def)

lemma unreachable_vars [simp]: "loop_vars (snd (publishModelUnreachable E r e st)) = loop_vars st"
  by (simp add: publishModelUnreachable_def)

lemma fold_emit_vars [simp]: "loop_vars (fold (\<lambda>x. emit r t (d x)) xs st) = loop_vars st"
  by (induction xs arbitrary: st) simp_all

lemma measure_vars [simp]: "loop_vars (snd (measure_history E P reasoning st)) = loop_vars st"
  by (simp add: measure_history_def Let_def split_beta)

lemma summary_vars [simp]: "loop_vars (snd (run_summary E r P st)) = loop_vars st"
  by (simp add: run_summary_def Let_def split_beta)

lemma elide_vars [simp]: "loop_vars (snd (elide_old E r bu st)) = loop_vars st"
  by (simp add: elide_old_def Let_def split_beta)

lemma compact_vars [simp]: "loop_vars (snd (compactToFit E r P bu st)) = loop_vars st"
  by (simp add: compactToFit_def Let_def split_beta split: gores.split)

lemma after_summary_vars [simp]: "loop_vars (after_summary E r P c st) = loop_vars st"
  by (simp add: after_summary_def Let_def split_beta split: gores.split)

lemma summarize_if_full_vars [simp]: "loop_vars (summarize_if_full E r P c bu st) = loop_vars st"
  by (simp add: summarize_if_full_def Let_def split_beta)

lemma after_turn_vars [simp]: "loop_vars (compactAfterTurn E r P st) = loop_vars st"
  by (simp add: compactAfterTurn_def Let_def split_beta split: gores.split)

lemma revision_vars [simp]: "loop_vars (add_revision E b st) = loop_vars st"
  by (simp add: add_revision_def Let_def split_beta split: option.split)

lemma mailbox_vars [simp]: "loop_vars (snd (applyMailboxBoundary E r st)) = loop_vars st"
  by (simp add: applyMailboxBoundary_def Let_def split: option.split)

lemma assemble_vars [simp]: "loop_vars (snd (assemble_phase E r P st)) = loop_vars st"
  by (simp add: assemble_phase_def Let_def split_beta split: gores.split option.split)

lemma repair_vars [simp]: "loop_vars (snd (repairMalformedToolCall E r st)) = loop_vars st"
  by (simp add: repairMalformedToolCall_def Let_def split: option.split)

lemma stream_vars [simp]: "loop_vars (snd (fold (stream_delta r) ds acc)) = loop_vars (snd acc)"
  by (induction ds arbitrary: acc) (simp_all add: stream_delta_def Let_def split_beta)

lemma response_vars [simp]: "loop_vars (record_response E r rp d st) = loop_vars st"
  by (simp add: record_response_def Let_def split_beta)

lemma assistant_vars [simp]: "loop_vars (snd (assistant_message E rp c st)) = loop_vars st"
  by (simp add: assistant_message_def Let_def split_beta)

lemma run_tool_vars [simp]: "loop_vars (snd (run_tool E r n x st)) = loop_vars st"
  by (simp add: run_tool_def Let_def split_beta split: option.split)

lemma fit_result_vars [simp]: "loop_vars (snd (snd (fit_result E r n m x st))) = loop_vars st"
  by (simp add: fit_result_def Let_def split_beta)

lemma execute_vars [simp]: "loop_vars (snd (execute_from E r n m xs st)) = loop_vars st"
  by (induction xs arbitrary: n m st) (simp_all add: Let_def split_beta)

lemma append_result_vars [simp]: "loop_vars (append_result E r x st) = loop_vars st"
  by (simp add: append_result_def result_message_def Let_def split_beta)

lemma append_phase_vars [simp]: "loop_vars (append_phase E r m xs st) = loop_vars st"
proof -
  have "loop_vars (fold (append_result E r) xs st) = loop_vars st" for st by (induction xs arbitrary: st) simp_all
  then show ?thesis by (simp add: append_phase_def)
qed

lemma vars_fields:
  assumes "loop_vars st' = loop_vars st"
  shows "rn_turn st' = rn_turn st" "rn_toolCallsUsed st' = rn_toolCallsUsed st" "rn_lengthSeen st' = rn_lengthSeen st"
    "rn_truncatedToolRetry st' = rn_truncatedToolRetry st" "rn_sent st' = rn_sent st"
  using assms by (simp_all add: loop_vars_iff)

lemmas fields_of = vars_fields [OF mailbox_vars] vars_fields [OF publish_vars(2)] vars_fields [OF publish_vars(5)] vars_fields [OF publish_vars(6)]
  vars_fields [OF stream_vars] vars_fields [OF unreachable_vars] vars_fields [OF assemble_vars] vars_fields [OF response_vars]
  vars_fields [OF assistant_vars] vars_fields [OF execute_vars] vars_fields [OF append_phase_vars] vars_fields [OF after_turn_vars]
  vars_fields [OF publish_vars(4)]

section \<open>How phases end\<close>

definition StopReasons :: "string list" where
  "StopReasons = [''done'', ''aborted_mid_model'', ''aborted_mid_tool'', ''aborted_mid_run'', ''mailbox_stop'', ''turn_ceiling'', ''wall_clock'',
     ''tool_budget'', ''cycle'', ''tool_errors'', ''context_ceiling'', ''length'', ''model_error'', ''model_unreachable'', ''profile_not_runnable'']"

definition stops :: "run_state \<Rightarrow> int \<Rightarrow> string \<Rightarrow> int \<Rightarrow> run_state \<Rightarrow> bool" where
  \<comment> \<open>a declared reason, the given turn, the loop variables of \<open>st\<close>\<close>
  "stops st turn r t st' \<longleftrightarrow> r \<in> set StopReasons \<and> t = turn \<and> loop_vars st' = loop_vars st"

lemma abortReason_declared: "abortReason b sid runID \<in> set StopReasons"
proof -
  have "list_all (\<lambda>r. r \<in> set StopReasons) [''aborted_mid_run'', ''aborted_mid_tool'', ''aborted_mid_model'']" by code_simp
  then show ?thesis by (simp add: abortReason_def split: option.split)
qed

lemma context_stop_ensures: "ensures (context_stop C E r turn d st) G R (\<lambda>x t st'. stops st turn x t st')"
proof -
  have "''wall_clock'' \<in> set StopReasons" by (simp add: StopReasons_def)
  then show ?thesis by (simp add: context_stop_def stops_def Let_def split_beta stopped_def abortReason_declared)
qed

lemma halt_reason [simp]:
  "stops st turn ''done'' t st' = (t = turn \<and> loop_vars st' = loop_vars st)"
  "stops st turn ''mailbox_stop'' t st' = (t = turn \<and> loop_vars st' = loop_vars st)"
  "stops st turn ''turn_ceiling'' t st' = (t = turn \<and> loop_vars st' = loop_vars st)"
  "stops st turn ''tool_budget'' t st' = (t = turn \<and> loop_vars st' = loop_vars st)"
  "stops st turn ''cycle'' t st' = (t = turn \<and> loop_vars st' = loop_vars st)"
  "stops st turn ''tool_errors'' t st' = (t = turn \<and> loop_vars st' = loop_vars st)"
  "stops st turn ''context_ceiling'' t st' = (t = turn \<and> loop_vars st' = loop_vars st)"
  "stops st turn ''length'' t st' = (t = turn \<and> loop_vars st' = loop_vars st)"
  "stops st turn ''model_error'' t st' = (t = turn \<and> loop_vars st' = loop_vars st)"
  "stops st turn ''model_unreachable'' t st' = (t = turn \<and> loop_vars st' = loop_vars st)"
  "stops st turn ''profile_not_runnable'' t st' = (t = turn \<and> loop_vars st' = loop_vars st)"
  by (simp_all add: stops_def StopReasons_def)

lemma stops_cong: "loop_vars st1 = loop_vars st \<Longrightarrow> stops st1 turn = stops st turn"
  by (intro ext) (simp add: stops_def)

lemma context_stop_from:
  "loop_vars st1 = loop_vars st \<Longrightarrow> turn1 = turn \<Longrightarrow> ensures (context_stop C E r turn1 d st1) G R (stops st turn)"
  using context_stop_ensures [of C E r turn1 d st1 G R] stops_cong [of st1 st turn] by simp

lemma boundary_ensures:
  "ensures (boundary_phase C E r st) (\<lambda>u st'. loop_vars st' = loop_vars st) (\<lambda>st'. False) (stops st (rn_turn st))"
  by (simp add: boundary_phase_def Let_def split_beta fields_of context_stop_from)

lemma rebind_ensures:
  "ensures (rebind_phase E r st)
     (\<lambda>P st'. (\<exists>sid. te_profile E sid = Some P) \<and> loop_vars st' = loop_vars (st\<lparr>rn_turn := rn_turn st + 1\<rparr>))
     (\<lambda>st'. False) (\<lambda>x t st'. stops (st\<lparr>rn_turn := rn_turn st + 1\<rparr>) (rn_turn st) x t st')"
  by (auto simp: rebind_phase_def Let_def loop_vars_def split: option.split)

lemma budget_failed_ensures:
  "ensures (budget_failed C E r e st) G (\<lambda>st'. loop_vars st' = loop_vars (st\<lparr>rn_turn := rn_turn st - 1\<rparr>)) (stops st (rn_turn st - 1))"
proof -
  have 1: "loop_vars (st'\<lparr>rn_repairTried := b, rn_turn := k\<rparr>) = loop_vars (st\<lparr>rn_turn := k\<rparr>)" if "loop_vars st' = loop_vars st" for st' b k
    using that by (simp add: loop_vars_def)
  have 2: "loop_vars (snd (repairMalformedToolCall E r (failure r ''budget'' e st))) = loop_vars st" by simp
  show ?thesis
    by (auto simp: budget_failed_def Let_def split_beta 1 2 intro!: context_stop_from)
qed

lemma fit_ensures:
  "ensures (fit_phase E r P bu st) (\<lambda>u st'. st' = st \<and> guardedPromptTokens bu + outputFloor P \<le> bu_NCtx bu)
     (\<lambda>st'. loop_vars st' = loop_vars (st\<lparr>rn_turn := rn_turn st - 1\<rparr>)) (stops st (rn_turn st - 1))"
proof -
  have "loop_vars (snd (compactToFit E r P bu st)\<lparr>rn_turn := k\<rparr>) = loop_vars (st\<lparr>rn_turn := k\<rparr>)" for k
    using compact_vars [of E r P bu st] by (simp only: loop_vars_def run_state.simps prod.inject) simp
  then show ?thesis by (simp add: fit_phase_def Let_def split_beta)
qed

lemma send_vars: "loop_vars (send_request E r rq bu st) = loop_vars (st\<lparr>rn_sent := rn_sent st @ [(rq, bu)]\<rparr>)"
  using publish_vars(2) [of r "''model.request''" _ st] by (simp add: send_request_def Let_def loop_vars_def)

lemma call_ensures:
  "ensures (call_phase C E r P rq bu st) (\<lambda>rp st'. loop_vars st' = loop_vars (st\<lparr>rn_sent := rn_sent st @ [(rq, bu)]\<rparr>)) (\<lambda>st'. False)
     (stops (st\<lparr>rn_sent := rn_sent st @ [(rq, bu)]\<rparr>) (rn_turn st))"
proof -
  have "rn_turn (send_request E r rq bu st) = rn_turn st" by (simp add: send_request_def Let_def fields_of)
  then show ?thesis
    by (simp add: call_phase_def Let_def split_beta send_vars fields_of context_stop_from split: gores.split)
qed

definition retry_ok :: "run_state \<Rightarrow> bool" where
  "retry_ok st \<longleftrightarrow> rn_lengthSeen st = (rn_truncatedToolRetry st \<noteq> [])"

lemma truncation_ensures:
  assumes "retry_ok st"
  shows "ensures (truncation_phase E r rp durable st)
     (\<lambda>u st'. loop_vars st' = loop_vars (st\<lparr>rn_lengthSeen := False, rn_truncatedToolRetry := []\<rparr>))
     (\<lambda>st'. \<not> rn_lengthSeen st \<and> retry_ok st' \<and> loop_vars st' = loop_vars (st\<lparr>rn_lengthSeen := True, rn_truncatedToolRetry := firstToolName durable\<rparr>))
     (stops st (rn_turn st))"
  using assms by (simp add: truncation_phase_def Let_def retry_ok_def loop_vars_def fields_of)

lemma answer_ensures:
  "ensures (answer_phase E r rp st) (\<lambda>u st'. st' = st) (\<lambda>st'. False) (stops st (rn_turn st))"
  by (simp add: answer_phase_def Let_def split_beta fields_of)

lemma dispatch_ensures:
  "ensures (dispatch_phase C E r rp durable st)
     (\<lambda>rs st'. rn_toolCallsUsed st' = rn_toolCallsUsed st + int (length rs) \<and> rn_toolCallsUsed st' \<le> rc_MaxToolCalls C
        \<and> loop_vars st' = loop_vars (st\<lparr>rn_toolCallsUsed := rn_toolCallsUsed st'\<rparr>))
     (\<lambda>st'. False) (stops st (rn_turn st))"
  by (simp add: dispatch_phase_def Let_def fields_of) (simp add: loop_vars_def fields_of)

lemma execute_ensures:
  "ensures (execute_phase C E r bu results st) (\<lambda>rs st'. loop_vars st' = loop_vars st) (\<lambda>st'. False) (stops st (rn_turn st))"
  by (simp add: execute_phase_def Let_def split_beta fields_of context_stop_from)

lemma Observe_reason: "fst (snd (Observe dg mj g ob)) \<in> {''cycle'', ''tool_errors'', []}"
  by (simp add: Observe_def Let_def)

lemma observe_ensures:
  "ensures (observe_phase C E r n rs st) (\<lambda>u st'. loop_vars st' = loop_vars st) (\<lambda>st'. False) (stops st (rn_turn st))"
proof (induction rs arbitrary: st)
  case (Cons x rs)
  let ?o = "Observe (te_digest E) (te_marshal E) (rn_guards st)
    \<lparr>ob_callID = tc_ID (tr_call x), ob_name = tc_Name (tr_call x), ob_args = sanitizedToolArguments (tc_Name (tr_call x)) (tr_args x),
     ob_result = tr_content x, ob_ok = tr_ok x\<rparr>"
  have r: "fst (snd ?o) = ''cycle'' \<or> fst (snd ?o) = ''tool_errors'' \<or> fst (snd ?o) = []" using Observe_reason by blast
  have ih: "ensures (observe_phase C E r n rs st') (\<lambda>u st''. loop_vars st'' = loop_vars st) (\<lambda>st''. False) (stops st (rn_turn st))"
    if "loop_vars st' = loop_vars st" for st'
    using Cons [of st'] that stops_cong [OF that] vars_fields(1) [OF that] by (auto elim: ensures_mono)
  from r show ?case
    by (elim disjE) (simp_all add: Let_def split_beta fields_of context_stop_from ih split: option.split)
qed simp

lemma end_ensures:
  "ensures (end_phase E r P st) (\<lambda>u st'. False) (\<lambda>st'. loop_vars st' = loop_vars st \<and> rn_turn st < te_MaxTurns E) (stops st (rn_turn st))"
  by (simp add: end_phase_def)

section \<open>One round\<close>

definition ended :: "int \<Rightarrow> run_state \<Rightarrow> string \<Rightarrow> int \<Rightarrow> run_state \<Rightarrow> bool" where
  \<comment> \<open>a declared reason, the turn and the requests of \<open>st\<close>, tool calls within the limit\<close>
  "ended limit st r t st' \<longleftrightarrow> r \<in> set StopReasons \<and> t = rn_turn st \<and> rn_sent st' = rn_sent st
     \<and> rn_toolCallsUsed st' \<le> max (rn_toolCallsUsed st) limit"

lemma stops_ended:
  "stops st1 t r k st' \<Longrightarrow> t = rn_turn st \<Longrightarrow> rn_sent st1 = rn_sent st \<Longrightarrow> rn_toolCallsUsed st1 \<le> max (rn_toolCallsUsed st) limit
     \<Longrightarrow> ended limit st r k st'"
  by (auto simp: stops_def ended_def loop_vars_def)

definition next_turn :: "int \<Rightarrow> run_state \<Rightarrow> run_state \<Rightarrow> bool" where
  \<comment> \<open>the variables after a round of tool calls\<close>
  "next_turn limit st st' \<longleftrightarrow> rn_turn st' = rn_turn st \<and> rn_sent st' = rn_sent st \<and> rn_lengthSeen st' = rn_lengthSeen st
     \<and> rn_truncatedToolRetry st' = rn_truncatedToolRetry st \<and> rn_toolCallsUsed st' \<le> limit"

lemma tools_ensures:
  "ensures (tools_phase C E r P bu rp durable st) (\<lambda>u st'. False)
     (\<lambda>st'. next_turn (rc_MaxToolCalls C) st st' \<and> rn_turn st < te_MaxTurns E) (ended (rc_MaxToolCalls C) st)"
  (is "ensures _ _ ?R ?H")
proof -
  obtain m st1 where m: "assistant_message E rp durable st = (m, st1)" by fastforce
  with assistant_vars [of E rp durable st] have 1: "loop_vars st1 = loop_vars st" by simp
  note v1 = vars_fields [OF 1]
  show ?thesis
    unfolding tools_phase_def m Let_def prod.case
  proof (rule ensures_bind [OF dispatch_ensures], goal_cases)
    case (1 results st2)
    show ?case
    proof (rule ensures_bind [OF execute_ensures], goal_cases)
      case (1 rs st3)
      then have 3: "loop_vars (append_phase E r m rs st3) = loop_vars st2" by simp
      show ?case
      proof (rule ensures_bind [OF observe_ensures], goal_cases)
        case (1 u st4)
        with 3 have 4: "loop_vars st4 = loop_vars st2" by simp
        show ?case
          by (rule ensures_mono [OF end_ensures]; use 4 \<open>rn_toolCallsUsed st2 = _ \<and> _\<close> v1 in \<open>auto simp: loop_vars_def next_turn_def intro!: stops_ended\<close>)
      qed (use 3 \<open>rn_toolCallsUsed st2 = _ \<and> _\<close> v1 in \<open>auto simp: loop_vars_def intro!: stops_ended\<close>)
    qed (use \<open>rn_toolCallsUsed st2 = _ \<and> _\<close> v1 in \<open>auto simp: loop_vars_def intro!: stops_ended\<close>)
  qed (use v1 in \<open>auto intro!: stops_ended\<close>)
qed

lemma respond_ensures:
  assumes "retry_ok st"
  shows "ensures (respond_phase C E r P bu rp st) (\<lambda>u st'. False)
     (\<lambda>st'. rn_turn st' = rn_turn st \<and> rn_sent st' = rn_sent st \<and> retry_ok st' \<and>
        (if rn_lengthSeen st' then \<not> rn_lengthSeen st \<and> rn_toolCallsUsed st' = rn_toolCallsUsed st
         else rn_toolCallsUsed st' \<le> rc_MaxToolCalls C \<and> rn_turn st < te_MaxTurns E))
     (ended (rc_MaxToolCalls C) st)"
proof -
  define d st1 where "d = sanitizedToolCalls (te_decode_map E) (te_encode_map E) (rp_ToolCalls rp)" and "st1 = record_response E r rp d st"
  have 1: "loop_vars st1 = loop_vars st" by (simp add: st1_def)
  note v1 = vars_fields [OF 1]
  from assms v1 have ok: "retry_ok st1" by (simp add: retry_ok_def)
  show ?thesis
    unfolding respond_phase_def Let_def d_def [symmetric] st1_def [symmetric]
  proof (rule ensures_bind [OF truncation_ensures [OF ok]], goal_cases)
    case (1 u st2)
    show ?case
    proof (rule ensures_bind [OF answer_ensures], goal_cases)
      case (1 u st3)
      then show ?case
        by (intro ensures_mono [OF tools_ensures];
            use \<open>loop_vars st2 = _\<close> v1 in \<open>auto simp: loop_vars_def next_turn_def retry_ok_def ended_def\<close>)
    qed (use \<open>loop_vars st2 = _\<close> v1 in \<open>auto simp: loop_vars_def intro!: stops_ended\<close>)
  qed (use v1 in \<open>auto simp: loop_vars_def intro!: stops_ended\<close>)
qed

definition request_ok :: "turn_env \<Rightarrow> string \<Rightarrow> llmRequest \<times> budget \<Rightarrow> bool" where
  \<comment> \<open>a request assembled and measured in this turn that leaves room for the output floor\<close>
  "request_ok E runID x \<longleftrightarrow> (\<exists>P sid st. te_profile E sid = Some P \<and> fst (assemble_phase E runID P st) = Ok x
     \<and> guardedPromptTokens (snd x) + outputFloor P \<le> bu_NCtx (snd x))"

definition round_goes_on :: "run_cfg \<Rightarrow> turn_env \<Rightarrow> string \<Rightarrow> run_state \<Rightarrow> run_state \<Rightarrow> bool" where
  \<comment> \<open>nothing was sent and the turn is taken again, or one request was sent\<close>
  "round_goes_on C E runID st st' \<longleftrightarrow> retry_ok st' \<and> (loop_vars st' = loop_vars st
     \<or> (\<exists>x. request_ok E runID x \<and> rn_sent st' = rn_sent st @ [x] \<and> rn_turn st' = rn_turn st + 1 \<and>
          (if rn_lengthSeen st' then \<not> rn_lengthSeen st \<and> rn_toolCallsUsed st' = rn_toolCallsUsed st
           else rn_toolCallsUsed st' \<le> rc_MaxToolCalls C \<and> rn_turn st + 1 < te_MaxTurns E)))"

definition round_ends :: "run_cfg \<Rightarrow> turn_env \<Rightarrow> string \<Rightarrow> run_state \<Rightarrow> string \<Rightarrow> int \<Rightarrow> run_state \<Rightarrow> bool" where
  "round_ends C E runID st r t st' \<longleftrightarrow> r \<in> set StopReasons \<and> rn_toolCallsUsed st' \<le> max (rn_toolCallsUsed st) (rc_MaxToolCalls C)
     \<and> (t = rn_turn st \<and> rn_sent st' = rn_sent st
        \<or> t = rn_turn st + 1 \<and> (\<exists>x. request_ok E runID x \<and> rn_sent st' = rn_sent st @ [x]))"

lemma stops_round_ends:
  "stops st1 t r k st' \<Longrightarrow> t = rn_turn st \<Longrightarrow> rn_sent st1 = rn_sent st \<Longrightarrow> rn_toolCallsUsed st1 = rn_toolCallsUsed st
     \<Longrightarrow> round_ends C E runID st r k st'"
  by (auto simp: stops_def round_ends_def loop_vars_def)

lemma iteration_ensures:
  assumes "retry_ok st"
  shows "ensures (iteration C E runID st) (\<lambda>u st'. False) (round_goes_on C E runID st) (round_ends C E runID st)"
  unfolding iteration_def
proof (rule ensures_bind [OF boundary_ensures], goal_cases)
  case (1 u st1)
  note v1 = vars_fields [OF 1]
  show ?case
  proof (rule ensures_bind [OF rebind_ensures], goal_cases)
    case (1 P st2)
    then obtain sid where sid: "te_profile E sid = Some P" by blast
    obtain res st3 where a: "assemble_phase E runID P st2 = (res, st3)" by fastforce
    with assemble_vars [of E runID P st2] 1 have "loop_vars st3 = loop_vars (st1\<lparr>rn_turn := rn_turn st1 + 1\<rparr>)" by simp
    then have v3: "rn_turn st3 = rn_turn st + 1" "rn_sent st3 = rn_sent st" "rn_toolCallsUsed st3 = rn_toolCallsUsed st"
      "rn_lengthSeen st3 = rn_lengthSeen st" "rn_truncatedToolRetry st3 = rn_truncatedToolRetry st"
      using v1 by (simp_all add: loop_vars_def)
    have again: "round_goes_on C E runID st st'" if "loop_vars st' = loop_vars (st3\<lparr>rn_turn := rn_turn st3 - 1\<rparr>)" for st'
      using that v3 assms by (simp add: round_goes_on_def loop_vars_def retry_ok_def)
    have stop: "round_ends C E runID st r t st'" if "stops st3 (rn_turn st3 - 1) r t st'" for r t st'
      using that v3 by (auto intro!: stops_round_ends)
    have failed: "ensures (budget_failed C E runID e st3) (\<lambda>u st'. False) (round_goes_on C E runID st) (round_ends C E runID st)" for e
      by (rule ensures_mono [OF budget_failed_ensures [where G = "\<lambda>u st'. False"]]) (auto intro: again stop)
    show ?case
    proof (cases res)
      case (Ok x)
      obtain rq bu where x: "x = (rq, bu)" by fastforce
      have "ensures (and_then (fit_phase E runID P bu st3) (\<lambda>u st4.
          and_then (call_phase C E runID P rq bu st4) (\<lambda>rp. respond_phase C E runID P bu rp)))
          (\<lambda>u st'. False) (round_goes_on C E runID st) (round_ends C E runID st)"
      proof (rule ensures_bind [OF fit_ensures], goal_cases)
        case (1 u st4)
        with sid a Ok x have ok: "request_ok E runID (rq, bu)" unfolding request_ok_def by (metis fst_conv snd_conv)
        from 1 have st4: "st4 = st3" by simp
        show ?case
        proof (rule ensures_bind [OF call_ensures], goal_cases)
          case (1 rp st5)
          then have v5: "rn_turn st5 = rn_turn st + 1" "rn_sent st5 = rn_sent st @ [(rq, bu)]" "rn_toolCallsUsed st5 = rn_toolCallsUsed st"
            "rn_lengthSeen st5 = rn_lengthSeen st" "rn_truncatedToolRetry st5 = rn_truncatedToolRetry st"
            using v3 st4 by (simp_all add: loop_vars_def)
          then have "retry_ok st5" using assms by (simp add: retry_ok_def)
          from respond_ensures [OF this] show ?case
            by (rule ensures_mono) (use v5 ok in \<open>auto simp: round_goes_on_def round_ends_def ended_def\<close>)
        next
          case (3 r t st')
          with v3 st4 ok show ?case by (auto simp: stops_def round_ends_def loop_vars_def)
        qed simp
      qed (auto intro: again stop)
      with a Ok x show ?thesis by simp
    qed (use a failed in simp_all)
  qed (use v1 in \<open>auto intro!: stops_round_ends\<close>)
qed (auto intro!: stops_round_ends)

section \<open>Limits\<close>

definition within_limits :: "run_cfg \<Rightarrow> int \<Rightarrow> run_state \<Rightarrow> bool" where
  \<comment> \<open>at the head of the loop; a pending retry may take one turn more\<close>
  "within_limits C maxTurns st \<longleftrightarrow> retry_ok st \<and> rn_turn st = int (length (rn_sent st))
     \<and> rn_turn st < maxTurns + (if rn_lengthSeen st then 1 else 0) \<and> rn_toolCallsUsed st \<le> rc_MaxToolCalls C"

definition limits_hold :: "run_cfg \<Rightarrow> int \<Rightarrow> string \<Rightarrow> int \<Rightarrow> run_state \<Rightarrow> bool" where
  "limits_hold C maxTurns r t st \<longleftrightarrow> r \<in> set StopReasons \<and> t = int (length (rn_sent st)) \<and> t \<le> maxTurns + 1
     \<and> rn_toolCallsUsed st \<le> rc_MaxToolCalls C"

lemma within_limits_cong: "loop_vars st' = loop_vars st \<Longrightarrow> within_limits C k st' = within_limits C k st"
  by (simp add: within_limits_def retry_ok_def loop_vars_def)

interpretation limits: run_invariant C runID "\<lambda>E. te_MaxTurns E \<le> maxTurns" "within_limits C maxTurns" "limits_hold C maxTurns"
  for C runID maxTurns
proof (unfold_locales, goal_cases)
  case (1 E st)
  then have "retry_ok st" by (simp add: within_limits_def)
  from iteration_ensures [OF this, of C E runID] show ?case
    by (rule ensures_mono)
      (use 1 in \<open>auto simp: round_goes_on_def round_ends_def within_limits_def limits_hold_def loop_vars_def split: if_splits\<close>)
next
  case (2 st E)
  then show ?case by (subst within_limits_cong [of _ st]) (simp_all add: remember_cancel_def)
qed

section \<open>Whole runs\<close>

lemma final_budget_vars [simp]: "loop_vars (publish_final_budget E st) = loop_vars st"
  by (simp add: publish_final_budget_def Let_def split_beta split: option.split gores.split)

lemma closing_vars:
  assumes "closing E runID items looped reason detail turns st = ((r, d, t), st')"
  shows "r = reason" "t = turns" "rn_sent st' = rn_sent st" "rn_toolCallsUsed st' = rn_toolCallsUsed st"
proof -
  let ?a = "if looped \<and> reason \<noteq> ''model_unreachable'' then publish_final_budget E st else st"
  have a: "loop_vars ?a = loop_vars st" by simp
  from assms show "r = reason" "t = turns" by (simp_all add: closing_def Let_def)
  from assms have "loop_vars st' = loop_vars (?a\<lparr>rn_turn := turns\<rparr>)" by (auto simp: closing_def Let_def loop_vars_def fields_of)
  with a show "rn_sent st' = rn_sent st" "rn_toolCallsUsed st' = rn_toolCallsUsed st" by (simp_all add: loop_vars_def split: if_splits)
qed

lemma before_loop_ensures:
  assumes "rn_turn st = 0"
  shows "ensures (before_loop C E runID registration st) (\<lambda>u st'. loop_vars st' = loop_vars st) (\<lambda>st'. False) (stops st 0)"
  by (simp add: before_loop_def Let_def split_beta context_stop_from split: option.split)

lemma start_vars: "loop_vars (start_state C st) = (0, 0, False, [], [])"
  by (simp add: start_state_def loop_vars_def)

lemma bounded_positive: "0 < rc_MaxToolCalls (bounded_cfg C)"
  by (simp add: bounded_cfg_def)

text \<open>An invariant of the loop that holds at the start of a run, and whose conclusion survives the deferred calls,
  gives a property of every finished run.\<close>

lemma run_conclusion:
  assumes run: "Run C runID E0 Es registration items st0 = (Some (reason, detail, turns), st')"
    and start: "\<And>st. loop_vars st = (0, 0, False, [], []) \<Longrightarrow> I st"
    and loop: "\<And>st. I st \<Longrightarrow> ensures (run_loop (bounded_cfg C) runID Es st) G R H"
    and early: "\<And>r t st. r \<in> set StopReasons \<Longrightarrow> t = 0 \<Longrightarrow> loop_vars st = (0, 0, False, [], []) \<Longrightarrow> H r t st"
  shows "\<exists>st1. H reason turns st1 \<and> rn_sent st' = rn_sent st1 \<and> rn_toolCallsUsed st' = rn_toolCallsUsed st1"
proof -
  let ?st = "start_state (bounded_cfg C) (st0\<lparr>rn_flights := beginFlight (rn_flights st0) (s_ID (rn_session st0)) runID\<rparr>)"
  let ?b = "before_loop (bounded_cfg C) E0 runID registration ?st"
  have vars: "loop_vars ?st = (0, 0, False, [], [])" by (rule start_vars)
  then have b: "ensures ?b (\<lambda>u st'. loop_vars st' = loop_vars ?st) (\<lambda>st'. False) (stops ?st 0)"
    by (intro before_loop_ensures) (simp add: loop_vars_def)
  show ?thesis
  proof (cases ?b)
    case (Go u st1)
    let ?l = "run_loop (bounded_cfg C) runID Es (remember_cancel E0 st1)"
    from b Go vars have "I (remember_cancel E0 st1)" by (intro start) (simp add: remember_cancel_def)
    from loop [OF this] run Go obtain r d t st2 where l: "?l = Halt r d t st2" "H r t st2"
      by (cases ?l) (auto simp: Run_def Let_def)
    with run Go have "closing (last (E0 # Es)) runID items True r d t st2 = ((reason, detail, turns), st')"
      by (simp del: last.simps add: Run_def Let_def split: prod.splits)
    from closing_vars [OF this] l(2) show ?thesis by auto
  next
    case (Halt r d t st1)
    with run have c: "closing E0 runID items False r d t st1 = ((reason, detail, turns), st')"
      by (simp add: Run_def Let_def split: prod.splits)
    from b Halt vars have "H r t st1" by (intro early) (auto simp: stops_def)
    with closing_vars [OF c] show ?thesis by auto
  qed (use b in simp)
qed

section \<open>The tool calls a run executes\<close>

text \<open>Every executed call is announced by a \<^verbatim>\<open>tool.call\<close> event.  The calls a run has still to account for are
  those events beyond its counter: no step but the loop over the calls raises that difference, and the dispatch
  has lowered it by as many calls as the loop executes.\<close>

definition call_event :: "event \<Rightarrow> bool" where
  "call_event e \<longleftrightarrow> ev_Type e = ''tool.call''"

definition calls_in :: "event list \<Rightarrow> nat" where
  "calls_in evs = length (filter call_event evs)"

definition calls_made :: "run_state \<Rightarrow> nat" where
  "calls_made st = calls_in (fb_events (rn_flights st))"

definition unpaid :: "run_state \<Rightarrow> int" where
  "unpaid st = int (calls_made st) - rn_toolCallsUsed st"

lemma calls_in_append [simp]: "calls_in (a @ b) = calls_in a + calls_in b"
  by (simp add: calls_in_def)

lemma calls_in_Nil [simp]: "calls_in [] = 0"
  by (simp add: calls_in_def)

lemma calls_in_one [simp]: "calls_in [events_New t s r d] = (if t = ''tool.call'' then 1 else 0)"
  by (simp add: calls_in_def call_event_def)

lemma calls_in_two: "calls_in (x # y # xs) = calls_in [x] + calls_in (y # xs)"
  by (simp add: calls_in_def)

lemma flight_events [simp]:
  "fb_events (setFlightStage b sid r t stage) = fb_events b" "fb_events (setFlightTool b sid r t c a) = fb_events b"
  "fb_events (setFlightToolOutput b sid r out) = fb_events b" "fb_events (addFlightDelta b sid r d) = fb_events b"
  "fb_events (beginFlight b sid r) = fb_events b" "fb_events (endFlight b sid r) = fb_events b"
  by (simp_all add: flight_defs split: option.split)

lemma stopped_calls [simp]: "calls_in (fb_events (snd (stopped u e b sid r t d))) = calls_in (fb_events b)"
  by (simp add: stopped_def recordAbort_def Let_def split_beta calls_in_two)

lemma unpaid_updates [simp]:
  "unpaid (st\<lparr>rn_session := a\<rparr>) = unpaid st" "unpaid (st\<lparr>rn_exec := b\<rparr>) = unpaid st"
  "unpaid (st\<lparr>rn_budgeter := c\<rparr>) = unpaid st" "unpaid (st\<lparr>rn_guards := e\<rparr>) = unpaid st"
  "unpaid (st\<lparr>rn_reasoning := f\<rparr>) = unpaid st" "unpaid (st\<lparr>rn_produced := g\<rparr>) = unpaid st"
  "unpaid (st\<lparr>rn_cancelled := h\<rparr>) = unpaid st" "unpaid (st\<lparr>rn_repairTried := i\<rparr>) = unpaid st"
  "unpaid (st\<lparr>rn_turn := j\<rparr>) = unpaid st" "unpaid (st\<lparr>rn_lengthSeen := k\<rparr>) = unpaid st"
  "unpaid (st\<lparr>rn_truncatedToolRetry := l\<rparr>) = unpaid st" "unpaid (st\<lparr>rn_sent := m\<rparr>) = unpaid st"
  by (simp_all add: unpaid_def calls_made_def)

lemma unpaid_flights [simp]:
  "calls_in (fb_events b) = calls_in (fb_events (rn_flights st)) \<Longrightarrow> unpaid (st\<lparr>rn_flights := b\<rparr>) = unpaid st"
  by (simp add: unpaid_def calls_made_def)

lemma publish_unpaid:
  "unpaid (publish_all evs st) = unpaid st + int (calls_in evs)" "unpaid (emit r t d st) = unpaid st + (if t = ''tool.call'' then 1 else 0)"
  by (simp_all add: publish_all_def emit_def unpaid_def calls_made_def)

lemma quiet_unpaid [simp]:
  "t \<noteq> ''tool.call'' \<Longrightarrow> unpaid (emit r t d st) = unpaid st" "unpaid (failure r w e st) = unpaid st"
  "unpaid (append_message r m st) = unpaid st" "unpaid (enter_stage r n st) = unpaid st" "unpaid (leave_stage E r n st) = unpaid st"
  by (simp_all add: publish_unpaid failure_def append_message_def enter_stage_def leave_stage_def operational_error_def appended_event_def)

lemma fold_emit_unpaid [simp]: "t \<noteq> ''tool.call'' \<Longrightarrow> unpaid (fold (\<lambda>x. emit r t (d x)) xs st) = unpaid st"
  by (induction xs arbitrary: st) simp_all

lemma measure_unpaid [simp]: "unpaid (snd (measure_history E P reasoning st)) = unpaid st"
  by (simp add: measure_history_def Let_def split_beta)

lemma Summarize_calls: "calls_in (snd (snd (Summarize s r m src))) = 0"
  by (simp add: Summarize_def Let_def compaction_event_def calls_in_two)

lemma trySummary_calls: "calls_in (ss_events (snd (trySummary S r P role fb est ested y))) = calls_in (ss_events y)"
  by (simp add: trySummary_def Let_def split_beta Summarize_calls attempt_event_def operational_error_def appended_event_def calls_in_two
      split: gores.split)

lemma summarize_calls: "calls_in (ss_events (snd (summarize S r P y))) = calls_in (ss_events y)"
  by (simp add: summarize_def attempt_def Let_def split_beta trySummary_calls attempt_event_def split: option.split gores.split prod.split)

lemma summary_unpaid [simp]: "unpaid (snd (run_summary E r P st)) = unpaid st"
  by (simp add: run_summary_def Let_def split_beta summarize_calls)

lemma elide_from_calls:
  "calls_in (snd (snd (snd (elide_from J s r target rdl count skip js used (ms, aff, evs))))) = calls_in evs"
  by (induction js arbitrary: used ms aff evs) (simp_all add: Let_def updated_def)

lemma ElideOld_calls: "calls_in (snd (snd (ElideOld J s r used target rdl count))) = 0"
  using elide_from_calls [of J s r target rdl count "kept_results (s_Messages s)" "[0..<length (s_Messages s)]" used "s_Messages s" "[]" "[]"]
  by (simp add: ElideOld_def Let_def split_beta compaction_event_def)

lemma try_supersede_calls: "calls_in (snd (snd (try_supersede J s r rdl count item cc p acc))) = calls_in (snd (snd acc))"
  by (cases acc) (simp add: try_supersede_eq updated_def)

lemma supersede_current_calls: "calls_in (snd (snd (supersede_current J s r turn rdl count c acc))) = calls_in (snd (snd acc))"
proof -
  have "calls_in (snd (snd (fold (try_supersede J s r rdl count item cc) ps a))) = calls_in (snd (snd a))" for item cc ps a
    by (induction ps arbitrary: a) (simp_all add: try_supersede_calls)
  then show ?thesis by (simp add: supersede_current_def Let_def split_beta)
qed

lemma Supersede_calls: "calls_in (snd (snd (Supersede J s r turn rdl count))) = 0"
proof -
  have "calls_in (snd (snd (fold (supersede_current J s r turn rdl count) cs a))) = calls_in (snd (snd a))" for cs a
    by (induction cs arbitrary: a) (simp_all add: supersede_current_calls)
  then show ?thesis by (simp add: Supersede_def Let_def split_beta compaction_event_def)
qed

lemma elide_unpaid [simp]: "unpaid (snd (elide_old E r bu st)) = unpaid st"
  by (simp add: elide_old_def Let_def split_beta publish_unpaid ElideOld_calls)

lemma compact_unpaid [simp]: "unpaid (snd (compactToFit E r P bu st)) = unpaid st"
  by (simp add: compactToFit_def Let_def split_beta split: gores.split)

lemma after_summary_unpaid [simp]: "unpaid (after_summary E r P c st) = unpaid st"
  by (simp add: after_summary_def Let_def split_beta split: gores.split)

lemma summarize_if_full_unpaid [simp]: "unpaid (summarize_if_full E r P c bu st) = unpaid st"
  by (simp add: summarize_if_full_def Let_def split_beta)

lemma after_turn_unpaid [simp]: "unpaid (compactAfterTurn E r P st) = unpaid st"
  by (simp add: compactAfterTurn_def Let_def split_beta publish_unpaid Supersede_calls split: gores.split)

lemma new_message_unpaid [simp]: "unpaid (snd (new_message E role c cat st)) = unpaid st"
  by (simp add: new_message_def Let_def)

lemma unreachable_unpaid [simp]: "unpaid (snd (publishModelUnreachable E r e st)) = unpaid st"
  by (simp add: publishModelUnreachable_def)

lemma mailbox_unpaid [simp]: "unpaid (snd (applyMailboxBoundary E r st)) = unpaid st"
  by (simp add: applyMailboxBoundary_def add_revision_def Let_def split_beta split: option.split)

lemma assemble_unpaid [simp]: "unpaid (snd (assemble_phase E r P st)) = unpaid st"
  by (simp add: assemble_phase_def Let_def split_beta split: gores.split option.split)

lemma repair_unpaid [simp]: "unpaid (snd (repairMalformedToolCall E r st)) = unpaid st"
  by (simp add: repairMalformedToolCall_def Let_def split: option.split)

lemma stream_unpaid [simp]: "unpaid (snd (fold (stream_delta r) ds acc)) = unpaid (snd acc)"
  by (induction ds arbitrary: acc) (simp_all add: stream_delta_def Let_def split_beta)

lemma response_unpaid [simp]: "unpaid (record_response E r rp d st) = unpaid st"
  by (simp add: record_response_def Let_def split_beta)

lemma assistant_unpaid [simp]: "unpaid (snd (assistant_message E rp c st)) = unpaid st"
  by (simp add: assistant_message_def Let_def split_beta)

lemma send_unpaid [simp]: "unpaid (send_request E r rq bu st) = unpaid st"
  by (simp add: send_request_def Let_def)

lemma run_tool_unpaid [simp]: "unpaid (snd (run_tool E r n x st)) = unpaid st"
  by (simp add: run_tool_def Let_def split_beta split: option.split)

lemma fit_result_unpaid [simp]: "unpaid (snd (snd (fit_result E r n m x st))) = unpaid st"
  by (simp add: fit_result_def Let_def split_beta)

lemma append_phase_unpaid [simp]: "unpaid (append_phase E r m xs st) = unpaid st"
proof -
  have "unpaid (fold (append_result E r) xs st) = unpaid st" for st
    by (induction xs arbitrary: st) (simp_all add: append_result_def result_message_def Let_def split_beta)
  then show ?thesis by (simp add: append_phase_def)
qed

lemma execute_unpaid: "unpaid (snd (execute_from E r n m xs st)) \<le> unpaid st + int (length xs)"
proof (induction xs arbitrary: n m st)
  case (Cons x xs)
  define d where "d = GMap [(''turn'', GInt (rn_turn st)), (''call_id'', GStr (tc_ID (tr_call x))),
    (''name'', GStr (tc_Name (tr_call x))), (''args'', GMap (sanitizedToolArguments (tc_Name (tr_call x)) (tr_args x)))]"
  obtain r1 st2 where t: "run_tool E r n x (emit r ''tool.call'' d st) = (r1, st2)" by fastforce
  with run_tool_unpaid [of E r n x "emit r ''tool.call'' d st"] have 2: "unpaid st2 = unpaid st + 1" by (simp add: publish_unpaid)
  obtain m1 r2 st3 where f: "fit_result E r n m r1 st2 = (m1, r2, st3)" by (metis surj_pair)
  with fit_result_unpaid [of E r n m r1 st2] have 3: "unpaid st3 = unpaid st2" by simp
  show ?case using Cons.IH [of "Suc n" m1 st3] 2 3
    by (simp add: Let_def d_def [symmetric] t f split_beta)
qed simp

definition owes :: "int \<Rightarrow> 'a phase \<Rightarrow> bool" where
  \<comment> \<open>however the phase ends, at most \<open>k\<close> calls are unaccounted for\<close>
  "owes k p \<longleftrightarrow> ensures p (\<lambda>x st. unpaid st \<le> k) (\<lambda>st. unpaid st \<le> k) (\<lambda>r t st. unpaid st \<le> k)"

lemma owes_simps [simp]:
  "owes k (Go x st) \<longleftrightarrow> unpaid st \<le> k" "owes k (Restart st) \<longleftrightarrow> unpaid st \<le> k" "owes k (Halt r d t st) \<longleftrightarrow> unpaid st \<le> k"
  by (simp_all add: owes_def)

lemma owes_bind: "owes k p \<Longrightarrow> (\<And>x st. p = Go x st \<Longrightarrow> unpaid st \<le> k \<Longrightarrow> owes k (f x st)) \<Longrightarrow> owes k (and_then p f)"
  by (cases p) simp_all

lemma context_stop_owes [simp]: "owes k (context_stop C E r turn d st) \<longleftrightarrow> unpaid st \<le> k"
  by (simp add: context_stop_def Let_def split_beta)

lemma before_loop_owes: "unpaid st \<le> k \<Longrightarrow> owes k (before_loop C E r reg st)"
  by (simp add: before_loop_def Let_def split_beta split: option.split)

lemma boundary_owes: "unpaid st \<le> k \<Longrightarrow> owes k (boundary_phase C E r st)"
  by (simp add: boundary_phase_def Let_def split_beta)

lemma rebind_owes: "unpaid st \<le> k \<Longrightarrow> owes k (rebind_phase E r st)"
  by (simp add: rebind_phase_def Let_def split: option.split)

lemma budget_failed_owes: "unpaid st \<le> k \<Longrightarrow> owes k (budget_failed C E r e st)"
  by (simp add: budget_failed_def Let_def split_beta)

lemma fit_owes: "unpaid st \<le> k \<Longrightarrow> owes k (fit_phase E r P bu st)"
  by (simp add: fit_phase_def Let_def split_beta)

lemma call_owes: "unpaid st \<le> k \<Longrightarrow> owes k (call_phase C E r P rq bu st)"
  by (simp add: call_phase_def Let_def split_beta split: gores.split)

lemma truncation_owes: "unpaid st \<le> k \<Longrightarrow> owes k (truncation_phase E r rp durable st)"
  by (simp add: truncation_phase_def Let_def)

lemma answer_owes: "unpaid st \<le> k \<Longrightarrow> owes k (answer_phase E r rp st)"
  by (simp add: answer_phase_def Let_def split_beta)

lemma observe_owes: "unpaid st \<le> k \<Longrightarrow> owes k (observe_phase C E r n rs st)"
proof (induction rs arbitrary: st)
  case (Cons x rs)
  then show ?case by (simp add: Let_def split_beta split: option.split)
qed simp

lemma end_owes: "unpaid st \<le> k \<Longrightarrow> owes k (end_phase E r P st)"
  by (simp add: end_phase_def)

lemma dispatch_pays:
  "dispatch_phase C E r rp durable st = Go rs st' \<Longrightarrow> unpaid st' = unpaid st - int (length rs)"
proof -
  have u: "unpaid (st\<lparr>rn_toolCallsUsed := rn_toolCallsUsed st + j\<rparr>) = unpaid st - j" for st :: run_state and j
    by (simp add: unpaid_def calls_made_def)
  assume "dispatch_phase C E r rp durable st = Go rs st'"
  then show ?thesis by (auto simp: dispatch_phase_def Let_def u split: if_splits)
qed

lemma dispatch_owes: "unpaid st \<le> k \<Longrightarrow> owes k (dispatch_phase C E r rp durable st)"
proof (cases "dispatch_phase C E r rp durable st")
  case (Go rs st')
  then show "unpaid st \<le> k \<Longrightarrow> ?thesis" using dispatch_pays [OF Go] by simp
qed (auto simp: dispatch_phase_def Let_def split: if_splits)

lemma execute_owes: "unpaid st + int (length results) \<le> k \<Longrightarrow> owes k (execute_phase C E r bu results st)"
  using execute_unpaid [of E r 0 "max 0 (bu_NCtx bu - bu_Reserve bu - bu_UsedEst bu - toolResultContextMargin)" results "enter_stage r ''execute'' st"]
  by (simp add: execute_phase_def Let_def split_beta)

lemma tools_owes: "unpaid st \<le> k \<Longrightarrow> owes k (tools_phase C E r P bu rp durable st)"
  unfolding tools_phase_def Let_def split_beta
  by (rule owes_bind [OF dispatch_owes]; (rule owes_bind [OF execute_owes])?; (rule owes_bind [OF observe_owes])?; (rule end_owes)?)
    (simp_all add: dispatch_pays)

lemma iteration_owes: "unpaid st \<le> k \<Longrightarrow> owes k (iteration C E r st)"
  unfolding iteration_def
proof (rule owes_bind [OF boundary_owes], goal_cases)
  case (2 u st1)
  then show ?case
  proof (intro owes_bind [OF rebind_owes], goal_cases)
    case (2 P st2)
    obtain res st3 where a: "assemble_phase E r P st2 = (res, st3)" by fastforce
    with assemble_unpaid [of E r P st2] 2 have 3: "unpaid st3 \<le> k" by simp
    have resp: "owes k (respond_phase C E r P bu rp st)" if "unpaid st \<le> k" for bu rp st
      unfolding respond_phase_def Let_def
      by (rule owes_bind [OF truncation_owes]; (rule owes_bind [OF answer_owes])?; (rule tools_owes)?) (use that in simp_all)
    show ?case
    proof (cases res)
      case (Ok x)
      obtain rq bu where x: "x = (rq, bu)" by fastforce
      have "owes k (and_then (fit_phase E r P bu st3) (\<lambda>u st4. and_then (call_phase C E r P rq bu st4) (\<lambda>rp. respond_phase C E r P bu rp)))"
        by (intro owes_bind [OF fit_owes [OF 3]] owes_bind [OF call_owes] resp)
      with a Ok x show ?thesis by simp
    qed (use a budget_failed_owes [OF 3] in simp_all)
  qed
qed

interpretation calls: run_invariant C runID "\<lambda>E. True" "\<lambda>st. unpaid st \<le> k" "\<lambda>r t st. unpaid st \<le> k"
  for C runID k
proof
  fix E st assume "unpaid st \<le> k"
  from iteration_owes [OF this, of C E runID] show "ensures (iteration C E runID st) (\<lambda>x st. unpaid st \<le> k) (\<lambda>st. unpaid st \<le> k) (\<lambda>r t st. unpaid st \<le> k)"
    by (simp add: owes_def)
qed (simp add: remember_cancel_def)

lemma closing_unpaid: "unpaid (snd (closing E r items looped reason detail turns st)) = unpaid st"
  by (simp add: closing_def publish_final_budget_def Let_def split_beta split: option.split gores.split)

lemma run_pays:
  assumes run: "Run C runID E0 Es registration items st0 = (res, st')"
  shows "int (calls_made st') \<le> int (calls_made st0) + rn_toolCallsUsed st'"
proof -
  let ?st = "start_state (bounded_cfg C) (st0\<lparr>rn_flights := beginFlight (rn_flights st0) (s_ID (rn_session st0)) runID\<rparr>)"
  let ?b = "before_loop (bounded_cfg C) E0 runID registration ?st" and ?k = "int (calls_made st0)"
  have "unpaid ?st = ?k" by (simp add: unpaid_def calls_made_def start_state_def)
  then have b: "owes ?k ?b" by (intro before_loop_owes) simp
  have "unpaid st' \<le> ?k"
  proof (cases ?b)
    case (Go u st1)
    let ?l = "run_loop (bounded_cfg C) runID Es (remember_cancel E0 st1)"
    from b Go have "owes ?k ?l" using calls.rounds [of Es "remember_cancel E0 st1" ?k "bounded_cfg C" runID]
      by (simp add: owes_def remember_cancel_def)
    with run Go show ?thesis using closing_unpaid [of "last (E0 # Es)" runID items True]
      by (cases ?l) (auto simp: Run_def Let_def split_beta simp del: last.simps)
  next
    case (Restart st1)
    with run b show ?thesis by (simp add: Run_def Let_def)
  next
    case (Halt r d t st1)
    with run b closing_unpaid [of E0 runID items False r d t st1] show ?thesis by (auto simp: Run_def Let_def split_beta)
  qed
  then show ?thesis by (simp add: unpaid_def)
qed

text \<open>C2. A run stays within its limits, whatever the model, the tools and the operator answer: it sends exactly as
  many model requests as it reports turns, at most one more than the configured number of turns (a tool call
  truncated in the last turn is retried), and the tool calls it executes, each announced by a \<^verbatim>\<open>tool.call\<close>
  event of the run, are at most its backstop; the counter it keeps of them is no larger than the backstop either.\<close>

theorem runs_stay_within_limits:
  assumes "Run C runID E0 Es registration items st0 = (Some (reason, detail, turns), st')"
    "\<forall>E \<in> set Es. te_MaxTurns E \<le> maxTurns" "1 \<le> maxTurns"
  shows "turns = int (length (rn_sent st')) \<and> turns \<le> maxTurns + 1
    \<and> rn_toolCallsUsed st' \<le> rc_MaxToolCalls (bounded_cfg C)
    \<and> int (calls_made st') \<le> int (calls_made st0) + rc_MaxToolCalls (bounded_cfg C)"
proof -
  have "\<exists>st1. limits_hold (bounded_cfg C) maxTurns reason turns st1 \<and> rn_sent st' = rn_sent st1 \<and> rn_toolCallsUsed st' = rn_toolCallsUsed st1"
    by (rule run_conclusion [OF assms(1) _ limits.rounds [OF assms(2)]])
      (use assms(3) bounded_positive [of C] in \<open>auto simp: within_limits_def limits_hold_def retry_ok_def loop_vars_def\<close>)
  with run_pays [OF assms(1)] show ?thesis by (auto simp: limits_hold_def)
qed

text \<open>Every run that ends reports one of the declared stop reasons.\<close>

theorem runs_stop_for_declared_reasons:
  assumes "Run C runID E0 Es registration items st0 = (Some (reason, detail, turns), st')"
  shows "reason \<in> set StopReasons"
proof -
  define k where "k = Max (insert 1 (te_MaxTurns ` set Es))"
  have k: "\<forall>E \<in> set Es. te_MaxTurns E \<le> k" "1 \<le> k" by (auto simp: k_def)
  have "\<exists>st1. limits_hold (bounded_cfg C) k reason turns st1 \<and> rn_sent st' = rn_sent st1 \<and> rn_toolCallsUsed st' = rn_toolCallsUsed st1"
    by (rule run_conclusion [OF assms _ limits.rounds [OF k(1)]])
      (use k(2) bounded_positive [of C] in \<open>auto simp: within_limits_def limits_hold_def retry_ok_def loop_vars_def\<close>)
  then show ?thesis by (auto simp: limits_hold_def)
qed

section \<open>Requests\<close>

lemma measure_session_budget:
  assumes "measure_session O1 V ck accounting P s i mark b = (Ok bu, s', b')"
  shows "bu_NCtx bu = pr_NCtx P" "bu_Reserve bu = pr_ReserveOutput P" "force_estimate accounting P \<Longrightarrow> bu_Mode bu = ''estimated''"
proof -
  let ?c = "cachedCosts b (s_ID s) (ck (if force_estimate accounting P then bs_cpt (state_of b (s_ID s)) else 0) (fill_input i))"
  obtain M b1 where m: "measure_with O1 V accounting (s_ID s) P (fill_input i) ?c b = (Ok M, b1)"
    "bu = budget_of P (state_of b (s_ID s)) M (case ?c of Some c \<Rightarrow> c | None \<Rightarrow> (me_schema M, me_marginal M))"
    using assms unfolding measure_session_def Let_def by (auto split: prod.splits gores.splits)
  then show "bu_NCtx bu = pr_NCtx P" "bu_Reserve bu = pr_ReserveOutput P" by (simp_all add: budget_of_def Let_def)
  have e: "me_mode (measure_estimated O1 c j) = ''estimated''" for c j
    by (simp add: measure_estimated_def Let_def split: prod.split)
  show "bu_Mode bu = ''estimated''" if "force_estimate accounting P"
  proof -
    from m(1) that have "M = measure_estimated O1 (bs_cpt (state_of b (s_ID s))) (fill_input i)" by (auto simp: measure_with_def)
    with m(2) e show ?thesis by (simp add: budget_of_def Let_def)
  qed
qed

lemma Measure_budget:
  assumes "Measure O1 V ck accounting cancelled P s i mark b = ((Ok bu, s', b'), busy)"
  shows "bu_NCtx bu = pr_NCtx P" "bu_Reserve bu = pr_ReserveOutput P"
    "bu_Mode bu \<noteq> ''estimated'' \<Longrightarrow> \<not> force_estimate accounting P \<and> measure_session O1 V (ck accounting) accounting P s i mark b = (Ok bu, s', b')"
proof -
  have "measure_session O1 V (ck accounting) accounting P s i mark b = (Ok bu, s', b')
    \<or> (\<exists>s1 b1. measure_session O1 V (ck ''estimated'') ''estimated'' P s1 i mark b1 = (Ok bu, s', b'))"
    using assms by (auto simp: Measure_def split: prod.splits gores.splits if_splits)
  moreover have "force_estimate ''estimated'' P" by (simp add: force_estimate_def)
  ultimately show "bu_NCtx bu = pr_NCtx P" "bu_Reserve bu = pr_ReserveOutput P"
    "bu_Mode bu \<noteq> ''estimated'' \<Longrightarrow> \<not> force_estimate accounting P \<and> measure_session O1 V (ck accounting) accounting P s i mark b = (Ok bu, s', b')"
    by (auto dest: measure_session_budget)
qed

definition request_fits :: "turn_env \<Rightarrow> profile \<Rightarrow> llmRequest \<Rightarrow> budget \<Rightarrow> bool" where
  \<comment> \<open>room for the output; with exact accounting the rendered prompt and the output limit fit the context together\<close>
  "request_fits E P rq bu \<longleftrightarrow> outputFloor P \<le> rq_MaxTokens rq \<and> guardedPromptTokens bu + rq_MaxTokens rq \<le> pr_NCtx P
     \<and> (bu_Mode bu \<noteq> ''estimated'' \<and> pr_ApplyTemplate P \<and> pr_ApplyTemplateTools P \<longrightarrow>
         (\<exists>n. render (te_server E) (rq_Messages rq) (rq_Tools rq) = Ok n \<and> n + rq_MaxTokens rq \<le> pr_NCtx P))"

lemma request_ok_fits:
  assumes "request_ok E runID (rq, bu)" "\<forall>sid P. te_profile E sid = Some P \<longrightarrow> 0 \<le> pr_NCtx P"
  shows "\<exists>sid P. te_profile E sid = Some P \<and> request_fits E P rq bu"
proof -
  from assms(1) obtain P sid st where p: "te_profile E sid = Some P" "fst (assemble_phase E runID P st) = Ok (rq, bu)"
    "guardedPromptTokens bu + outputFloor P \<le> bu_NCtx bu" by (auto simp: request_ok_def)
  let ?st = "enter_stage runID ''assemble'' st"
  let ?i = "request_input E P ?st"
  obtain res s b busy where m0: "Measure (te_ops E) (te_server E) (te_cost_key E) (te_accounting E) (ctx_err E ?st 2) P (rn_session ?st) ?i False (rn_budgeter ?st)
      = ((res, s, b), busy)" by (metis surj_pair)
  with p(2) have "res = Ok bu" and rq: "rq = request_for E P (rn_truncatedToolRetry ?st) ?i bu"
    by (simp_all add: assemble_phase_def Let_def split: gores.splits)
  with m0 have m: "Measure (te_ops E) (te_server E) (te_cost_key E) (te_accounting E) (ctx_err E ?st 2) P (rn_session ?st) ?i False (rn_budgeter ?st)
      = ((Ok bu, s, b), busy)" by simp
  note n = Measure_budget(1) [OF m]
  from assms(2) p(1) have n0: "0 \<le> pr_NCtx P" by blast
  have lim: "rq_MaxTokens rq = requestTokenLimit P bu (guardedPromptTokens bu)" by (simp add: rq request_for_def)
  have fl: "outputFloor P \<le> rq_MaxTokens rq" "guardedPromptTokens bu + rq_MaxTokens rq \<le> pr_NCtx P"
    using p(3) n n0 by (auto simp: lim requestTokenLimit_def outputFloor_def minimumOutputFloor_def)
  have ex: "\<exists>n. render (te_server E) (rq_Messages rq) (rq_Tools rq) = Ok n \<and> n + rq_MaxTokens rq \<le> pr_NCtx P"
    if "bu_Mode bu \<noteq> ''estimated''" "pr_ApplyTemplate P" "pr_ApplyTemplateTools P"
  proof -
    from Measure_budget(3) [OF m that(1)] have f: "\<not> force_estimate (te_accounting E) P"
      and ms: "measure_session (te_ops E) (te_server E) (te_cost_key E (te_accounting E)) (te_accounting E) P (rn_session ?st) ?i False (rn_budgeter ?st)
        = (Ok bu, s, b)" by auto
    from exact_budget [OF ms f that(2) refl] that(3)
    obtain n where "render (te_server E) (system_message (bi_System ?i) # map fst (bi_Messages ?i)) (bi_Schemas ?i) = Ok n" "n \<le> bu_UsedEst bu"
      by auto
    moreover have "guardedPromptTokens bu = bu_UsedEst bu" using that(1) by (simp add: guardedPromptTokens_def)
    ultimately show ?thesis using fl(2) by (auto simp: rq request_for_def)
  qed
  from p(1) fl ex show ?thesis by (auto simp: request_fits_def)
qed

interpretation requests: run_invariant C runID "\<lambda>E. \<forall>x. request_ok E runID x \<longrightarrow> Q x"
    "\<lambda>st. retry_ok st \<and> (\<forall>x \<in> set (rn_sent st). Q x)" "\<lambda>r t st. \<forall>x \<in> set (rn_sent st). Q x"
  for C runID Q
proof (unfold_locales, goal_cases)
  case (1 E st)
  then show ?case
    by (intro ensures_mono [OF iteration_ensures [of st C E runID]]) (auto simp: round_goes_on_def round_ends_def loop_vars_def)
next
  case (2 st E)
  then show ?case by (simp add: remember_cancel_def retry_ok_def)
qed

definition fits_somewhere :: "turn_env list \<Rightarrow> llmRequest \<times> budget \<Rightarrow> bool" where
  \<comment> \<open>the request fits under a profile of one of the rounds\<close>
  "fits_somewhere Es x \<longleftrightarrow> (\<exists>E \<in> set Es. \<exists>sid P. te_profile E sid = Some P \<and> request_fits E P (fst x) (snd x))"

text \<open>C3. Every request a run sends fits the model's context: at least the output floor is left for the answer, the
  guarded prompt and the output limit together stay within the context, and when the budget was measured exactly with
  the server's own template, so do the rendered prompt and the output limit.\<close>

theorem sent_requests_fit_the_context:
  assumes "Run C runID E0 Es registration items st0 = (Some (reason, detail, turns), st')"
    "\<forall>E \<in> set Es. \<forall>sid P. te_profile E sid = Some P \<longrightarrow> 0 \<le> pr_NCtx P"
  shows "\<forall>x \<in> set (rn_sent st'). \<exists>E \<in> set Es. \<exists>sid P. te_profile E sid = Some P \<and> request_fits E P (fst x) (snd x)"
proof -
  have good: "\<forall>E \<in> set Es. \<forall>x. request_ok E runID x \<longrightarrow> fits_somewhere Es x"
  proof (intro ballI allI impI)
    fix E x assume "E \<in> set Es" "request_ok E runID x"
    then show "fits_somewhere Es x"
      using request_ok_fits [of E runID "fst x" "snd x"] assms(2) unfolding fits_somewhere_def by auto
  qed
  have "\<exists>st1 :: run_state. (\<forall>x \<in> set (rn_sent st1). fits_somewhere Es x) \<and> rn_sent st' = rn_sent st1 \<and> rn_toolCallsUsed st' = rn_toolCallsUsed st1"
    by (rule run_conclusion [OF assms(1) _ requests.rounds [OF good]]) (auto simp: retry_ok_def loop_vars_def)
  then obtain st1 :: run_state where "\<forall>x \<in> set (rn_sent st1). fits_somewhere Es x" "rn_sent st' = rn_sent st1" by blast
  then show ?thesis by (simp only: fits_somewhere_def)
qed

section \<open>The conversation a run builds\<close>

definition msg_shape :: "message \<Rightarrow> string \<times> nat" where
  "msg_shape m = (msg_Role m, length (msg_ToolCalls m))"

definition well_formed :: "(string \<times> nat) list \<Rightarrow> bool" where
  \<comment> \<open>every assistant message is followed by a result for each of its calls; the first message makes no calls\<close>
  "well_formed xs \<longleftrightarrow> grouped xs \<and> xs \<noteq> [] \<and> \<not> (fst (hd xs) = ''assistant'' \<and> 0 < snd (hd xs))"

definition shapes :: "run_state \<Rightarrow> (string \<times> nat) list" where
  "shapes st = map msg_shape (s_Messages (rn_session st))"

lemma grouped_append: "grouped xs \<Longrightarrow> grouped ys \<Longrightarrow> grouped (xs @ ys)"
proof (induction xs)
  case (Cons x xs)
  obtain r n where x: "x = (r, n)" by fastforce
  have "length (takeWhile (\<lambda>(r, k). r = ''tool'') xs) \<le> length (takeWhile (\<lambda>(r, k). r = ''tool'') (xs @ ys))"
    by (induction xs) auto
  with Cons x show ?case by auto
qed simp

lemma grouped_drop: "grouped xs \<Longrightarrow> grouped (drop k xs)"
proof (induction k arbitrary: xs)
  case (Suc k)
  then show ?case by (cases xs rule: grouped.cases) auto
qed simp

lemma grouped_no_assistant: "\<forall>x \<in> set xs. fst x \<noteq> ''assistant'' \<Longrightarrow> grouped xs"
  by (induction xs rule: grouped.induct) auto

lemma well_formed_append: "well_formed xs \<Longrightarrow> grouped ys \<Longrightarrow> well_formed (xs @ ys)"
  by (auto simp: well_formed_def grouped_append)

lemma stubbed_shapes: "stubbed_list J calls ms ms' \<Longrightarrow> map msg_shape ms' = map msg_shape ms"
  by (auto simp: list_all2_conv_all_nth stubbed_fields msg_shape_def intro!: nth_equalityI)

lemma summarised_shapes:
  assumes "summarised ms ms'" "well_formed (map msg_shape ms)"
  shows "well_formed (map msg_shape ms')"
proof -
  from assms(1) obtain m where m: "7 < length ms" "ms' = hd ms # m # drop (length ms - 6) ms" "msg_ToolCalls m = []"
    by (auto simp: summarised_def)
  then have h: "hd (map msg_shape ms) = msg_shape (hd ms)" by (cases ms) auto
  from assms(2) have "grouped (drop (length ms - 6) (map msg_shape ms))" by (intro grouped_drop) (simp add: well_formed_def)
  with m assms(2) h show ?thesis by (auto simp: well_formed_def drop_map msg_shape_def)
qed

lemma counts_shapes [simp]: "map msg_shape (s_Messages (SetMessageCounts s values)) = map msg_shape (s_Messages s)"
  by (simp add: SetMessageCounts_def msg_shape_def split: option.split)

lemma measure_session_shapes:
  "measure_session O1 V ck accounting P s i mark b = (res, s', b') \<Longrightarrow> map msg_shape (s_Messages s') = map msg_shape (s_Messages s)"
  unfolding measure_session_def Let_def by (auto split: prod.splits gores.splits)

lemma Measure_shapes:
  "Measure O1 V ck accounting cancelled P s i mark b = ((res, s', b'), busy) \<Longrightarrow> map msg_shape (s_Messages s') = map msg_shape (s_Messages s)"
  unfolding Measure_def by (auto dest!: measure_session_shapes split: prod.splits gores.splits if_splits)

lemma session_frames [simp]:
  "s_Messages (Append s m) = s_Messages s @ [m]" "s_Messages (SetRun s r) = s_Messages s" "s_Messages (UpdatePartial s p) = s_Messages s"
  "s_Messages (RecordModelTurn s) = s_Messages s" "s_Messages (IncrementToolCall s n) = s_Messages s"
  "s_Messages (snd (ApplyAgentConfig s i ag l)) = s_Messages s" "s_Messages (ReplaceMessages s ms) = ms"
  "s_Messages (RecordCompaction s d) = s_Messages s"
  by (simp_all add: Append_def SetRun_def UpdatePartial_def RecordModelTurn_def IncrementToolCall_def ApplyAgentConfig_def Let_def
      ReplaceMessages_def RecordCompaction_def)

lemma shapes_updates [simp]:
  "shapes (st\<lparr>rn_exec := b\<rparr>) = shapes st" "shapes (st\<lparr>rn_budgeter := c\<rparr>) = shapes st" "shapes (st\<lparr>rn_flights := d\<rparr>) = shapes st"
  "shapes (st\<lparr>rn_guards := e\<rparr>) = shapes st" "shapes (st\<lparr>rn_reasoning := f\<rparr>) = shapes st" "shapes (st\<lparr>rn_turn := n\<rparr>) = shapes st"
  "shapes (st\<lparr>rn_toolCallsUsed := n\<rparr>) = shapes st" "shapes (st\<lparr>rn_lengthSeen := h\<rparr>) = shapes st"
  "shapes (st\<lparr>rn_truncatedToolRetry := j\<rparr>) = shapes st" "shapes (st\<lparr>rn_repairTried := h\<rparr>) = shapes st"
  "shapes (st\<lparr>rn_cancelled := h\<rparr>) = shapes st" "shapes (st\<lparr>rn_produced := g\<rparr>) = shapes st" "shapes (st\<lparr>rn_sent := k\<rparr>) = shapes st"
  "shapes (st\<lparr>rn_session := s\<rparr>) = map msg_shape (s_Messages s)"
  by (simp_all add: shapes_def)

lemma publish_shapes [simp]:
  "shapes (publish_all evs st) = shapes st" "shapes (emit r t d st) = shapes st" "shapes (failure r w e st) = shapes st"
  "shapes (enter_stage r n st) = shapes st" "shapes (leave_stage E r n st) = shapes st"
  "shapes (append_message r m st) = shapes st @ [msg_shape m]" "shapes (snd (publishModelUnreachable E r e st)) = shapes st"
  "shapes (snd (new_message E role c cat st)) = shapes st"
  by (simp_all add: publish_all_def emit_def failure_def enter_stage_def leave_stage_def append_message_def publishModelUnreachable_def
      new_message_def Let_def shapes_def)

lemma measure_shapes [simp]: "shapes (snd (measure_history E P reasoning st)) = shapes st"
proof -
  let ?i = "(te_input E (rn_session st))\<lparr>bi_Messages := measured_messages (te_att E) P reasoning (s_Messages (rn_session st))\<rparr>"
  obtain res s b busy where "Measure (te_ops E) (te_server E) (te_cost_key E) (te_accounting E) (rn_cancelled st \<or> te_compact_cancelled E) P
      (rn_session st) ?i False (rn_budgeter st) = ((res, s, b), busy)" by (metis surj_pair)
  with Measure_shapes [OF this] show ?thesis by (simp add: measure_history_def Let_def shapes_def)
qed

lemma elide_shapes [simp]: "shapes (snd (elide_old E r bu st)) = shapes st"
proof -
  obtain ok u s evs where e: "ElideOld (te_json E) (rn_session st) r (bu_UsedEst bu) (percent_of (bu_Ceiling bu) (60 / 100))
      (te_readDefaultLimit E) (te_count E) = ((ok, u), s, evs)" by (metis surj_pair)
  from ElideOld_spec [OF e] have "map msg_shape (s_Messages s) = shapes st" by (auto simp: shapes_def dest: stubbed_shapes)
  with e show ?thesis by (simp add: elide_old_def)
qed

lemma summary_well_formed: "well_formed (shapes st) \<Longrightarrow> well_formed (shapes (snd (run_summary E r P st)))"
  using summarize_rewritten [of "\<lparr>ss_session = rn_session st, ss_ids = fb_ids (rn_flights st), ss_events = fb_events (rn_flights st)\<rparr>" "te_summary E" r P]
  by (auto simp: run_summary_def Let_def split_beta rewritten_def shapes_def summarised_shapes split: if_splits)

lemma compact_well_formed: "well_formed (shapes st) \<Longrightarrow> well_formed (shapes (snd (compactToFit E r P bu st)))"
  by (simp add: compactToFit_def Let_def split_beta summary_well_formed split: gores.split)

lemma after_summary_shapes [simp]: "shapes (after_summary E r P c st) = shapes st"
  by (simp add: after_summary_def Let_def split_beta split: gores.split)

lemma summarize_if_full_well_formed: "well_formed (shapes st) \<Longrightarrow> well_formed (shapes (summarize_if_full E r P c bu st))"
  by (simp add: summarize_if_full_def Let_def split_beta summary_well_formed)

lemma after_turn_well_formed: "well_formed (shapes st) \<Longrightarrow> well_formed (shapes (compactAfterTurn E r P st))"
proof -
  assume w: "well_formed (shapes st)"
  obtain ok s evs where e: "Supersede (te_json E) (rn_session st) r (rn_turn st) (te_readDefaultLimit E) (te_count E) = (ok, s, evs)"
    by (metis surj_pair)
  have "map msg_shape (s_Messages s) = shapes st"
    using stubbed_shapes [OF Supersede_stubs [where s = "rn_session st" and J = "te_json E" and runID = r
        and turn = "rn_turn st" and rdl = "te_readDefaultLimit E" and count = "te_count E"]] e
    by (simp add: shapes_def)
  with w e show ?thesis
    by (simp add: compactAfterTurn_def Let_def split_beta summarize_if_full_well_formed split: gores.split)
qed

lemma single_grouped: "r \<noteq> ''assistant'' \<or> n = 0 \<Longrightarrow> grouped [(r, n)]"
  by auto

lemma revision_well_formed: "well_formed (shapes st) \<Longrightarrow> well_formed (shapes (add_revision E b st))"
  by (auto simp: add_revision_def Let_def split_beta msg_shape_def emptyMessage_def intro!: well_formed_append split: option.split)

lemma mailbox_well_formed: "well_formed (shapes st) \<Longrightarrow> well_formed (shapes (snd (applyMailboxBoundary E r st)))"
  by (simp add: applyMailboxBoundary_def Let_def revision_well_formed split: option.split)

lemma stream_shapes [simp]: "shapes (snd (fold (stream_delta r) ds acc)) = shapes (snd acc)"
proof (induction ds arbitrary: acc)
  case (Cons d ds)
  have "shapes (snd (stream_delta r d acc)) = shapes (snd acc)"
    by (simp add: stream_delta_def Let_def split_beta) (simp add: shapes_def)
  with Cons show ?case by simp
qed simp

lemma response_shapes [simp]: "shapes (record_response E r rp d st) = shapes st"
  by (simp add: record_response_def Let_def split_beta) (simp add: shapes_def)

lemma assistant_shapes:
  assumes "assistant_message E rp calls st = (m, st1)"
  shows "shapes st1 = shapes st" "msg_shape m = (''assistant'', length calls)"
  using assms by (auto simp: assistant_message_def Let_def split_beta new_message_def made_message_def msg_shape_def shapes_def)

lemma run_tool_shapes [simp]: "shapes (snd (run_tool E r n x st)) = shapes st"
  by (simp add: run_tool_def Let_def split_beta split: option.split)

lemma fit_result_shapes [simp]: "shapes (snd (snd (fit_result E r n m x st))) = shapes st"
  by (simp add: fit_result_def Let_def split_beta) (simp add: shapes_def)

lemma execute_shapes [simp]: "shapes (snd (execute_from E r n m xs st)) = shapes st"
  by (induction xs arbitrary: n m st) (simp_all add: Let_def split_beta)

lemma append_result_shapes [simp]: "shapes (append_result E r x st) = shapes st @ [(''tool'', 0)]"
  by (simp add: append_result_def result_message_def Let_def split_beta new_message_def made_message_def msg_shape_def emptyMessage_def)

lemma append_phase_shapes:
  "shapes (append_phase E r m rs st) = shapes st @ msg_shape m # replicate (length rs) (''tool'', 0)"
proof -
  have "shapes (fold (append_result E r) rs st) = shapes st @ replicate (length rs) (''tool'', 0)" for st
    by (induction rs arbitrary: st) (simp_all add: replicate_append_same [symmetric])
  then show ?thesis by (simp add: append_phase_def)
qed

lemma turn_grouped: "n \<le> k \<Longrightarrow> grouped ((''assistant'', n) # replicate k (''tool'', 0))"
proof -
  have "length (takeWhile (\<lambda>(r, j). r = ''tool'') (replicate k (''tool'', 0 :: nat))) = k" by (induction k) auto
  moreover have "grouped (replicate k (''tool'', 0 :: nat))" by (intro grouped_no_assistant) auto
  ultimately show "n \<le> k \<Longrightarrow> ?thesis" by simp
qed

section \<open>Measuring never fails on a well-formed conversation\<close>

lemma assembled_grouped:
  assumes "grouped (map msg_shape ms)"
  shows "grouped (map llm_shape (map fst (assembled A P f ms)))"
proof -
  have shape: "llm_shape (requestMessage A m) = msg_shape m" "llm_shape (converted A P f m) = msg_shape m" for m
    by (simp_all add: llm_shape_def msg_shape_def requestMessage_def converted_def Let_def)
  have records: "grouped (map msg_shape (filter isHarnessAbortRecord ms))"
    by (intro grouped_no_assistant) (auto simp: msg_shape_def isHarnessAbortRecord_def)
  have rest: "grouped (map msg_shape (filter (\<lambda>m. \<not> isHarnessAbortRecord m) ms))" using assms
  proof (induction ms)
    case (Cons m ms)
    let ?ok = "\<lambda>m. \<not> isHarnessAbortRecord m"
    have t: "length (takeWhile (\<lambda>(r, k). r = ''tool'') (map msg_shape ms)) \<le> length (takeWhile (\<lambda>(r, k). r = ''tool'') (map msg_shape (filter ?ok ms)))"
      by (induction ms) (auto simp: msg_shape_def isHarnessAbortRecord_def)
    have s: "msg_shape m = (msg_Role m, length (msg_ToolCalls m))" by (simp add: msg_shape_def)
    from Cons.prems have "grouped (map msg_shape ms)" by (simp add: s)
    with Cons.IH have ih: "grouped (map msg_shape (filter ?ok ms))" .
    show ?case
    proof (cases "?ok m")
      case True
      have "msg_Role m = ''assistant'' \<longrightarrow> length (msg_ToolCalls m) \<le> length (takeWhile (\<lambda>(r, k). r = ''tool'') (map msg_shape ms))"
        using Cons.prems by (simp add: s)
      with True t ih show ?thesis by (simp add: s) (meson le_trans)
    qed (use ih in simp)
  qed simp
  have "map llm_shape (map fst (assembled A P f ms))
      = map msg_shape (filter isHarnessAbortRecord ms) @ map msg_shape (filter (\<lambda>m. \<not> isHarnessAbortRecord m) ms)"
    by (simp add: assembled_def comp_def shape)
  with grouped_append [OF records rest] show ?thesis by simp
qed

lemma measure_session_total:
  assumes "total_server V" "grouped (map llm_shape (map fst (bi_Messages i)))"
  shows "\<exists>bu s' b'. measure_session O1 V ck accounting P s i mark b = (Ok bu, s', b')"
proof -
  obtain res s' b' where m: "measure_session O1 V ck accounting P s i mark b = (res, s', b')" by (metis surj_pair)
  show ?thesis
  proof (cases "\<not> force_estimate accounting P \<and> pr_ApplyTemplate P")
    case True
    with budget_refuses_exactly_incomplete_groups [OF assms(1) _ _ m refl] assms(2) m show ?thesis by auto
  next
    case False
    then show ?thesis unfolding measure_session_def measure_with_def Let_def by (auto split: prod.split)
  qed
qed

lemma Measure_total:
  assumes "total_server V" "grouped (map llm_shape (map fst (bi_Messages i)))"
  shows "\<exists>bu s' b'. Measure O1 V ck accounting cancelled P s i mark b = ((Ok bu, s', b'), None)"
  using measure_session_total [OF assms, of O1 "ck accounting" accounting P s mark b] by (auto simp: Measure_def)

lemma assemble_total:
  assumes "total_server (te_server E)" "well_formed (shapes st)"
  shows "\<exists>rq bu st'. assemble_phase E r P st = (Ok (rq, bu), st') \<and> shapes st' = shapes st"
proof -
  let ?st = "enter_stage r ''assemble'' st"
  have "grouped (map msg_shape (s_Messages (rn_session ?st)))"
    using assms(2) publish_shapes(4) [of r "''assemble''" st] by (simp add: well_formed_def shapes_def)
  then have "grouped (map llm_shape (map fst (bi_Messages (request_input E P ?st))))" by (simp add: request_input_def assembled_grouped del: map_map)
  from Measure_total [OF assms(1) this] obtain bu s b where m: "Measure (te_ops E) (te_server E) (te_cost_key E) (te_accounting E) (ctx_err E ?st 2) P
      (rn_session ?st) (request_input E P ?st) False (rn_budgeter ?st) = ((Ok bu, s, b), None)" by blast
  from Measure_shapes [OF m] have "map msg_shape (s_Messages s) = shapes st"
    using publish_shapes(4) [of r "''assemble''" st] by (simp add: shapes_def)
  with m show ?thesis by (simp add: assemble_phase_def Let_def)
qed

definition model_failures :: "string list" where "model_failures = [''model_error'', ''model_unreachable'']"

definition sound_end :: "string \<Rightarrow> int \<Rightarrow> run_state \<Rightarrow> bool" where
  \<comment> \<open>the model was not to blame, and the conversation is well-formed\<close>
  "sound_end r t st \<longleftrightarrow> r \<notin> set model_failures \<and> well_formed (shapes st)"

definition answering :: "turn_env \<Rightarrow> bool" where
  \<comment> \<open>a model server that answers every request\<close>
  "answering E \<longleftrightarrow> total_server (te_server E) \<and> (\<forall>rq. case te_chat E rq of Ok rp \<Rightarrow> True | _ \<Rightarrow> False)"

lemma other_reasons [simp]:
  "sound_end ''done'' t st = well_formed (shapes st)" "sound_end ''mailbox_stop'' t st = well_formed (shapes st)"
  "sound_end ''turn_ceiling'' t st = well_formed (shapes st)" "sound_end ''tool_budget'' t st = well_formed (shapes st)"
  "sound_end ''cycle'' t st = well_formed (shapes st)" "sound_end ''tool_errors'' t st = well_formed (shapes st)"
  "sound_end ''context_ceiling'' t st = well_formed (shapes st)" "sound_end ''length'' t st = well_formed (shapes st)"
  "sound_end ''profile_not_runnable'' t st = well_formed (shapes st)" "sound_end ''wall_clock'' t st = well_formed (shapes st)"
  by (simp_all add: sound_end_def model_failures_def)

lemma abortReason_no_failure: "abortReason b sid runID \<notin> set model_failures"
proof -
  have "list_all (\<lambda>r. r \<notin> set model_failures) [''aborted_mid_run'', ''aborted_mid_tool'', ''aborted_mid_model'']" by code_simp
  then show ?thesis by (simp add: abortReason_def split: option.split)
qed

lemma stopped_records:
  assumes "stopped u e b sid r turn d = (x, b')"
  shows "fst x \<notin> set model_failures" "\<exists>ms. fb_appended b' = fb_appended b @ ms \<and> (\<forall>p \<in> set ms. msg_shape (snd p) = (''system'', 0))"
proof -
  from assms show "fst x \<notin> set model_failures" by (auto simp: stopped_def Let_def split_beta abortReason_no_failure)
  obtain d' where "recordAbort u e b sid r (abortReason b sid r) d' = (fst (snd x), b')"
    using assms by (auto simp: stopped_def Let_def split: prod.splits)
  then show "\<exists>ms. fb_appended b' = fb_appended b @ ms \<and> (\<forall>p \<in> set ms. msg_shape (snd p) = (''system'', 0))"
    unfolding recordAbort_def Let_def by (auto simp: msg_shape_def emptyMessage_def split: if_splits)
qed

lemma appended_shapes: "map msg_shape (s_Messages (fold (\<lambda>m s. Append s m) ms s)) = map msg_shape (s_Messages s) @ map msg_shape ms"
  by (induction ms arbitrary: s) simp_all

lemma context_stop_sound:
  assumes "well_formed (shapes st)"
  shows "ensures (context_stop C E r turn d st) G R sound_end"
proof (cases "te_wall E")
  case False
  obtain x b' where s: "stopped (te_unquote E) (te_encode E) (rn_flights st) (s_ID (rn_session st)) r turn d = (x, b')" by fastforce
  obtain reason detail k where x: "x = (reason, detail, k)" by (metis surj_pair)
  from stopped_records [OF s] x obtain ms where ms: "reason \<notin> set model_failures" "fb_appended b' = fb_appended (rn_flights st) @ ms"
    "\<forall>p \<in> set ms. msg_shape (snd p) = (''system'', 0)" by auto
  have "grouped (map msg_shape (map snd ms))" using ms(3) by (intro grouped_no_assistant) auto
  with assms have "well_formed (shapes st @ map msg_shape (map snd ms))" by (rule well_formed_append)
  with False s x ms(1,2) show ?thesis by (simp add: context_stop_def Let_def appended_shapes sound_end_def shapes_def)
qed (use assms in \<open>simp add: context_stop_def\<close>)

abbreviation keeps_form :: "'a phase \<Rightarrow> bool" where
  "keeps_form p \<equiv> ensures p (\<lambda>x st. well_formed (shapes st)) (\<lambda>st. well_formed (shapes st)) sound_end"

lemma boundary_form: "well_formed (shapes st) \<Longrightarrow> keeps_form (boundary_phase C E r st)"
  by (simp add: boundary_phase_def Let_def split_beta mailbox_well_formed context_stop_sound)

lemma rebind_form: "well_formed (shapes st) \<Longrightarrow> keeps_form (rebind_phase E r st)"
  by (simp add: rebind_phase_def Let_def shapes_def split: option.split)

lemma fit_form: "well_formed (shapes st) \<Longrightarrow> keeps_form (fit_phase E r P bu st)"
  by (simp add: fit_phase_def Let_def split_beta compact_well_formed)

lemma call_form:
  assumes "well_formed (shapes st)" "answering E"
  shows "keeps_form (call_phase C E r P rq bu st)"
proof -
  have "shapes (send_request E r rq bu st) = shapes st" by (simp add: send_request_def Let_def)
  moreover have "case te_chat E rq of Ok rp \<Rightarrow> True | _ \<Rightarrow> False" using assms(2) by (simp add: answering_def)
  then obtain rp where "te_chat E rq = Ok rp" by (cases "te_chat E rq") auto
  ultimately show ?thesis using assms(1) by (simp add: call_phase_def Let_def split_beta) (simp add: shapes_def [symmetric])
qed

lemma truncation_form: "well_formed (shapes st) \<Longrightarrow> keeps_form (truncation_phase E r rp durable st)"
  by (simp add: truncation_phase_def Let_def)

lemma answer_form: "well_formed (shapes st) \<Longrightarrow> keeps_form (answer_phase E r rp st)"
proof -
  assume w: "well_formed (shapes st)"
  obtain m st1 where m: "assistant_message E rp [] (enter_stage r ''append'' st) = (m, st1)" by fastforce
  with w assistant_shapes [OF m] show ?thesis by (auto simp: answer_phase_def m Let_def intro!: well_formed_append)
qed

lemma observe_form: "well_formed (shapes st) \<Longrightarrow> keeps_form (observe_phase C E r n rs st)"
proof (induction rs arbitrary: st)
  case (Cons x rs)
  let ?o = "Observe (te_digest E) (te_marshal E) (rn_guards st)
    \<lparr>ob_callID = tc_ID (tr_call x), ob_name = tc_Name (tr_call x), ob_args = sanitizedToolArguments (tc_Name (tr_call x)) (tr_args x),
     ob_result = tr_content x, ob_ok = tr_ok x\<rparr>"
  have "fst (snd ?o) = ''cycle'' \<or> fst (snd ?o) = ''tool_errors'' \<or> fst (snd ?o) = []" using Observe_reason by blast
  then show ?case using Cons.prems
    by (elim disjE) (simp_all add: Let_def split_beta context_stop_sound Cons.IH split: option.split)
qed simp

lemma execute_length: "length (fst (execute_from E r n m xs st)) = length xs"
  by (induction xs arbitrary: n m st) (simp_all add: Let_def split_beta)

lemma execute_form:
  "well_formed (shapes st) \<Longrightarrow>
     ensures (execute_phase C E r bu results st) (\<lambda>rs st'. shapes st' = shapes st \<and> length rs = length results) (\<lambda>st'. False) sound_end"
  by (simp add: execute_phase_def Let_def split_beta context_stop_sound execute_length)

lemma dispatch_form:
  "well_formed (shapes st) \<Longrightarrow>
     ensures (dispatch_phase C E r rp durable st)
       (\<lambda>rs st'. shapes st' = shapes st \<and> length rs = min (length (rp_ToolCalls rp)) (length durable)) (\<lambda>st'. False) sound_end"
  by (simp add: dispatch_phase_def Let_def)

lemma tools_form:
  assumes "well_formed (shapes st)" "length durable = length (rp_ToolCalls rp)"
  shows "keeps_form (tools_phase C E r P bu rp durable st)"
proof -
  obtain m st1 where m: "assistant_message E rp durable st = (m, st1)" by fastforce
  note a = assistant_shapes [OF m]
  show ?thesis unfolding tools_phase_def m Let_def prod.case
  proof (rule ensures_bind [OF dispatch_form], goal_cases)
    case (2 results st2)
    show ?case
    proof (rule ensures_bind [OF execute_form], goal_cases)
      case (2 rs st3)
      have "grouped (msg_shape m # replicate (length rs) (''tool'', 0))"
        unfolding a(2) using assms(2) 2 \<open>shapes st2 = _ \<and> _\<close> by (intro turn_grouped) simp
      with assms(1) a(1) 2 \<open>shapes st2 = _ \<and> _\<close> have "well_formed (shapes (append_phase E r m rs st3))"
        unfolding append_phase_shapes by (intro well_formed_append) auto
      from observe_form [OF this] show ?case
        by (rule ensures_bind) (simp_all add: end_phase_def after_turn_well_formed)
    qed (use assms(1) a(1) \<open>shapes st2 = _ \<and> _\<close> in simp_all)
  qed (use assms(1) a(1) in simp_all)
qed

lemma respond_form:
  assumes "well_formed (shapes st)"
  shows "keeps_form (respond_phase C E r P bu rp st)"
proof -
  let ?d = "sanitizedToolCalls (te_decode_map E) (te_encode_map E) (rp_ToolCalls rp)"
  have d: "length ?d = length (rp_ToolCalls rp)" by (simp add: sanitizedToolCalls_def)
  from assms have "keeps_form (truncation_phase E r rp ?d (record_response E r rp ?d st))" by (intro truncation_form) simp
  then show ?thesis unfolding respond_phase_def Let_def
  proof (rule ensures_bind, goal_cases)
    case (1 u st2)
    show ?case by (rule ensures_bind [OF answer_form [OF 1]]) (simp_all add: tools_form d)
  qed simp_all
qed

lemma iteration_form:
  assumes w: "well_formed (shapes st)" and a: "answering E"
  shows "keeps_form (iteration C E r st)"
  unfolding iteration_def
proof (rule ensures_bind [OF boundary_form], goal_cases)
  case (2 u st1)
  then show ?case
  proof (rule ensures_bind [OF rebind_form], goal_cases)
    case (1 P st2)
    with a obtain rq bu st3 where m: "assemble_phase E r P st2 = (Ok (rq, bu), st3)" "well_formed (shapes st3)"
      using assemble_total [of E st2 r P] by (auto simp: answering_def)
    from fit_form [OF m(2)] show ?case unfolding m(1) prod.case gores.case
    proof (rule ensures_bind, goal_cases)
      case (1 u st4)
      show ?case by (rule ensures_bind [OF call_form [OF 1 a]]) (simp_all add: respond_form)
    qed simp_all
  qed simp_all
qed (use w in simp_all)

interpretation conversation: run_invariant C runID answering "\<lambda>st. well_formed (shapes st)" sound_end for C runID
  by unfold_locales (simp_all add: iteration_form remember_cancel_def)

lemma before_loop_form:
  "well_formed (shapes st) \<Longrightarrow> keeps_form (before_loop C E r registration st)"
  by (simp add: before_loop_def Let_def split_beta mailbox_well_formed context_stop_sound split: option.split)

lemma closing_shapes:
  "closing E r items looped reason detail turns st = (x, st') \<Longrightarrow> shapes st' = shapes st"
  "closing E r items looped reason detail turns st = (x, st') \<Longrightarrow> fst x = reason"
proof -
  have "shapes (publish_final_budget E st) = shapes st"
    by (simp add: publish_final_budget_def Let_def split_beta split: option.split gores.split)
  then show "closing E r items looped reason detail turns st = (x, st') \<Longrightarrow> shapes st' = shapes st"
    "closing E r items looped reason detail turns st = (x, st') \<Longrightarrow> fst x = reason"
    by (auto simp: closing_def Let_def split: if_splits)
qed

text \<open>C1. Whatever the model proposes, the operator decides and the context forces, a run never leaves a conversation
  the model server would refuse: when the server answers every request, a conversation in which every tool call is
  followed by its result stays one through retries, stubs, summaries, mailbox revisions, aborts and the final answer,
  and the run never ends with a model error.\<close>

theorem conversations_stay_well_formed:
  assumes "Run C runID E0 Es registration items st0 = (Some (reason, detail, turns), st')"
    "well_formed (map msg_shape (s_Messages (rn_session st0)))" "\<forall>E \<in> set Es. answering E"
  shows "well_formed (map msg_shape (s_Messages (rn_session st'))) \<and> reason \<noteq> ''model_error'' \<and> reason \<noteq> ''model_unreachable''"
proof -
  let ?st = "start_state (bounded_cfg C) (st0\<lparr>rn_flights := beginFlight (rn_flights st0) (s_ID (rn_session st0)) runID\<rparr>)"
  let ?b = "before_loop (bounded_cfg C) E0 runID registration ?st"
  from assms(2) have "well_formed (shapes ?st)" by (simp add: start_state_def) (simp add: shapes_def)
  then have b: "keeps_form ?b" by (rule before_loop_form)
  have "sound_end reason 0 st'"
  proof (cases ?b)
    case (Go u st1)
    let ?l = "run_loop (bounded_cfg C) runID Es (remember_cancel E0 st1)"
    from b Go have "keeps_form ?l" by (intro conversation.rounds [OF assms(3)]) (simp add: remember_cancel_def)
    with assms(1) Go obtain r d t st2 where l: "?l = Halt r d t st2" "sound_end r t st2"
      by (cases ?l) (auto simp: Run_def Let_def)
    with assms(1) Go have c: "closing (last (E0 # Es)) runID items True r d t st2 = ((reason, detail, turns), st')"
      by (simp del: last.simps add: Run_def Let_def split: prod.splits)
    from closing_shapes [OF c] l(2) show ?thesis by (simp add: sound_end_def)
  next
    case (Halt r d t st1)
    with assms(1) have c: "closing E0 runID items False r d t st1 = ((reason, detail, turns), st')"
      by (simp add: Run_def Let_def split: prod.splits)
    from closing_shapes [OF c] b Halt show ?thesis by (simp add: sound_end_def)
  qed (use b assms(1) in \<open>simp add: Run_def Let_def\<close>)
  then show ?thesis by (simp add: sound_end_def model_failures_def shapes_def)
qed

section \<open>A run that is answered at once\<close>

definition first_state :: "run_cfg \<Rightarrow> string \<Rightarrow> run_state \<Rightarrow> run_state" where
  \<comment> \<open>the state in which the loop of a new run starts\<close>
  "first_state C runID st0 = start_state (bounded_cfg C) (st0\<lparr>rn_flights := beginFlight (rn_flights st0) (s_ID (rn_session st0)) runID\<rparr>)"

lemma first_state_fields [simp]:
  "rn_session (first_state C runID st0) = rn_session st0" "rn_cancelled (first_state C runID st0) = rn_cancelled st0"
  "loop_vars (first_state C runID st0) = (0, 0, False, [], [])"
  by (simp_all add: first_state_def start_vars) (simp_all add: start_state_def)

lemma assemble_shapes: "shapes (snd (assemble_phase E r P st)) = shapes st"
proof -
  let ?st = "enter_stage r ''assemble'' st"
  obtain res s b busy where m: "Measure (te_ops E) (te_server E) (te_cost_key E) (te_accounting E) (ctx_err E ?st 2) P
      (rn_session ?st) (request_input E P ?st) False (rn_budgeter ?st) = ((res, s, b), busy)" by (metis surj_pair)
  from Measure_shapes [OF m] have "map msg_shape (s_Messages s) = shapes st"
    using publish_shapes(4) [of r "''assemble''" st] by (simp add: shapes_def)
  with m show ?thesis by (simp add: assemble_phase_def Let_def split: gores.split option.split)
qed

lemma rebind_shapes: "ensures (rebind_phase E r st) (\<lambda>P st'. shapes st' = shapes st) R (\<lambda>r t st'. shapes st' = shapes st)"
  by (simp add: rebind_phase_def Let_def split_beta shapes_def split: option.split)

lemma plain_answer_halts:
  assumes "loop_vars st = (k, u, False, [], sent)" "rp_ToolCalls rp = []" "rp_FinishReason rp \<notin> {''tool_calls'', ''length''}"
  shows "\<exists>st'. respond_phase C E r P bu rp st = Halt ''done'' [] k st' \<and> rn_sent st' = sent \<and> shapes st' = shapes st @ [(''assistant'', 0)]"
proof -
  let ?d = "sanitizedToolCalls (te_decode_map E) (te_encode_map E) (rp_ToolCalls rp)"
  let ?st = "record_response E r rp ?d st"
  have v: "rn_truncatedToolRetry ?st = []" "rn_turn ?st = k" "rn_sent ?st = sent"
    using vars_fields [OF response_vars [of E r rp ?d st]] assms(1) by (simp_all add: loop_vars_def)
  obtain m st1 where m: "assistant_message E rp [] (enter_stage r ''append'' ?st) = (m, st1)" by fastforce
  have "loop_vars st1 = loop_vars ?st" using m assistant_vars [of E rp "[]" "enter_stage r ''append'' ?st"] by simp
  from vars_fields [OF this] v m assms(2,3) assistant_shapes [OF m] show ?thesis
    by (simp add: respond_phase_def truncation_phase_def answer_phase_def Let_def fields_of)
qed

lemma answered_at_once:
  assumes quiet: "te_boundary E0 = None" "te_cancel E0 = None" "\<not> te_compact_cancelled E0" "\<not> rn_cancelled st0"
      "te_boundary E = None" "te_cancel E = None"
    and runnable: "s_Runnable (rn_session st0)" "te_profile E0 (s_ServerID (rn_session st0)) \<noteq> None"
    and request: "rebind_phase E runID (first_state C runID st0) = Go P st2" "assemble_phase E runID P st2 = (Ok (rq, bu), st3)"
      "guardedPromptTokens bu + outputFloor P \<le> bu_NCtx bu"
    and answer: "te_chat E rq = Ok rp" "rp_ToolCalls rp = []" "rp_FinishReason rp \<notin> {''tool_calls'', ''length''}"
  shows "\<exists>st'. Run C runID E0 (E # Es) None items st0 = (Some (''done'', [], 1), st') \<and> rn_sent st' = [(rq, bu)]
    \<and> map msg_shape (s_Messages (rn_session st')) = map msg_shape (s_Messages (rn_session st0)) @ [(''assistant'', 0)]"
proof -
  let ?st = "first_state C runID st0"
  have b0: "before_loop (bounded_cfg C) E0 runID None ?st = Go () ?st"
    using quiet(1) runnable by (auto simp: before_loop_def applyMailboxBoundary_def Let_def)
  have r0: "remember_cancel E0 ?st = ?st"
    using quiet(2,3,4) first_state_fields(2) [of C runID st0] by (cases ?st) (simp add: remember_cancel_def)
  have b1: "boundary_phase (bounded_cfg C) E runID ?st = Go () ?st"
    using quiet(4-6) by (simp add: boundary_phase_def applyMailboxBoundary_def ctx_err_def)
  have v2: "loop_vars st2 = (1, 0, False, [], [])" "shapes st2 = shapes ?st"
    using rebind_ensures [of E runID ?st] request(1) first_state_fields(3) [of C runID st0] rebind_shapes [of E runID ?st]
    by (simp_all add: loop_vars_def)
  have v3: "loop_vars st3 = (1, 0, False, [], [])" "shapes st3 = shapes ?st"
    using assemble_vars [of E runID P st2] assemble_shapes [of E runID P st2] request(2) v2 by simp_all
  have f: "fit_phase E runID P bu st3 = Go () st3" using request(3) by (simp add: fit_phase_def Let_def)
  obtain st4 where c: "call_phase (bounded_cfg C) E runID P rq bu st3 = Go rp st4"
    using answer(1) by (simp add: call_phase_def Let_def)
  have v4: "loop_vars st4 = (1, 0, False, [], [(rq, bu)])"
    using call_ensures [of "bounded_cfg C" E runID P rq bu st3] v3(1) by (simp add: c loop_vars_def)
  have s4: "shapes st4 = shapes ?st"
  proof -
    have "shapes (send_request E runID rq bu st3) = shapes st3" by (simp add: send_request_def Let_def)
    with c answer(1) v3(2) show ?thesis by (auto simp: call_phase_def Let_def shapes_def [symmetric])
  qed
  from plain_answer_halts [OF v4 answer(2,3)] obtain st5 where a: "respond_phase (bounded_cfg C) E runID P bu rp st4 = Halt ''done'' [] 1 st5"
    "rn_sent st5 = [(rq, bu)]" "shapes st5 = shapes st4 @ [(''assistant'', 0)]" by blast
  have i: "iteration (bounded_cfg C) E runID ?st = Halt ''done'' [] 1 st5"
    by (simp add: iteration_def b1 request(1,2) f c a(1))
  obtain d st' where cl: "closing (last (E # Es)) runID items True ''done'' [] 1 st5 = ((''done'', d, 1), st')" "d = []"
    by (simp add: closing_def Let_def)
  have "Run C runID E0 (E # Es) None items st0 = (Some (''done'', [], 1), st')"
    unfolding Run_def Let_def first_state_def [symmetric] b0 using cl i by (simp add: r0)
  moreover have "rn_sent st' = [(rq, bu)]" using closing_vars [OF cl(1)] a(2) by simp
  moreover have "shapes st' = shapes ?st @ [(''assistant'', 0)]" using closing_shapes(1) [OF cl(1)] a(3) s4 by simp
  ultimately show ?thesis by (simp add: shapes_def)
qed

text \<open>When nothing intervenes and the model answers the first request without tool calls, the run ends after one
  turn as done: one request was sent and the answer is the one message added to the conversation.\<close>

theorem plain_answers_finish_the_run:
  assumes quiet: "te_boundary E0 = None" "te_cancel E0 = None" "\<not> te_compact_cancelled E0" "\<not> rn_cancelled st0"
      "te_boundary E = None" "te_cancel E = None"
    and runnable: "s_Runnable (rn_session st0)" "te_profile E0 (s_ServerID (rn_session st0)) \<noteq> None"
    and request: "rebind_phase E runID (first_state C runID st0) = Go P st2" "assemble_phase E runID P st2 = (Ok (rq, bu), st3)"
      "guardedPromptTokens bu + outputFloor P \<le> bu_NCtx bu"
    and answer: "te_chat E rq = Ok rp" "rp_ToolCalls rp = []" "rp_FinishReason rp \<notin> {''tool_calls'', ''length''}"
  shows "\<exists>st'. Run C runID E0 (E # Es) None items st0 = (Some (''done'', [], 1), st') \<and> rn_sent st' = [(rq, bu)]
    \<and> map msg_shape (s_Messages (rn_session st')) = map msg_shape (s_Messages (rn_session st0)) @ [(''assistant'', 0)]"
  by (rule answered_at_once [OF assms])

section \<open>Examples\<close>

definition demo_run_profile :: profile where
  "demo_run_profile = demo_profile\<lparr>pr_NCtx := 9000, pr_ReserveOutput := 100\<rparr>"

definition demo_reply :: llmResponse where
  "demo_reply = \<lparr>rp_Content = ''ok'', rp_Reasoning = [], rp_ToolCalls = [], rp_FinishReason = ''stop'', rp_PromptTokens = 7,
     rp_CompletionTokens = 2, rp_CachedTokens = -1, rp_Timings = GNil, rp_DurationMS = 1\<rparr>"

definition demo_summary_env :: summary_env where
  "demo_summary_env = \<lparr>se_agentC = None, se_worker = None, se_model = (\<lambda>p. p), se_ops = demo_ops, se_server = (\<lambda>_. demo_server),
     se_accounting = [], se_system = (\<lambda>_. []), se_instruction = [], se_chat = (\<lambda>_ _. Err ''no summary''), se_took = 1,
     se_ja = (\<lambda>_. ''{}''), se_jd = demo_decode, se_je = demo_line, se_count = demo_count\<rparr>"

definition demo_round :: turn_env where
  \<comment> \<open>a round without cancellation or mailbox in which the model answers ok\<close>
  "demo_round = \<lparr>te_cancel = None, te_compact_cancelled = False, te_wall = False, te_boundary = None, te_revision_estimated = (\<lambda>_. False),
     te_rebind = (\<lambda>_. None), te_profile = (\<lambda>_. Some demo_run_profile), te_att = demo_att_env, te_ops = demo_ops, te_server = demo_server,
     te_cost_key = (\<lambda>_ _ _. []), te_accounting = [], te_input = (\<lambda>_. demo_input []), te_host = ''h'', te_dial = (\<lambda>_. False),
     te_params = GInt, te_thinking = False, te_deltas = [], te_stream_busy = False, te_chat = (\<lambda>_. Ok demo_reply), te_count = demo_count,
     te_decode = (\<lambda>_. Ok []), te_decode_map = (\<lambda>_. None), te_encode_map = (\<lambda>_. None), te_proposals = (\<lambda>_. None),
     te_exec = (\<lambda>_. demo_env), te_ms = (\<lambda>_. 1), te_windows = demo_windows, te_clean = (\<lambda>p. p), te_written = (\<lambda>_. None),
     te_digest = (\<lambda>s. s), te_marshal = (\<lambda>_. ''{}''), te_cycle = (''stop'', None), te_MaxTurns = 1, te_json = demo_json,
     te_readDefaultLimit = 4096, te_SoftPct = 70 / 100, te_SummaryPct = 85 / 100, te_summary = demo_summary_env,
     te_unquote = (\<lambda>_. None), te_encode = (\<lambda>_. [])\<rparr>"

definition demo_run_state :: run_state where
  "demo_run_state = \<lparr>rn_session = (idle_session ''s'' ''b'')\<lparr>s_Messages := [emptyMessage\<lparr>msg_ID := ''m-1'', msg_Role := ''user'', msg_Content := ''hi''\<rparr>]\<rparr>,
     rn_exec = fresh_state no_grants, rn_budgeter = NewBudgeter, rn_flights = newFlightBook, rn_guards = newRunGuards 3 3,
     rn_reasoning = (\<lambda>_. False), rn_turn = 0, rn_toolCallsUsed = 0, rn_lengthSeen = False, rn_truncatedToolRetry = [], rn_repairTried = False,
     rn_cancelled = False, rn_produced = Map.empty, rn_sent = []\<rparr>"

definition demo_run_cfg :: run_cfg where
  "demo_run_cfg = \<lparr>rc_MaxWallClockSeconds = 0, rc_MaxToolCalls = 0, rc_CycleWindow = 3, rc_MaxConsecutiveToolErrors = 3\<rparr>"

abbreviation demo_run :: "(string \<times> string \<times> int) option \<times> run_state" where
  "demo_run \<equiv> Run demo_run_cfg ''r'' demo_round [demo_round] None [] demo_run_state"

definition demo_bound :: run_state where
  \<comment> \<open>the state after the profile is bound\<close>
  "demo_bound = (case rebind_phase demo_round ''r'' (first_state demo_run_cfg ''r'' demo_run_state) of Go P st \<Rightarrow> st | _ \<Rightarrow> demo_run_state)"

lemma demo_rebound: "rebind_phase demo_round ''r'' (first_state demo_run_cfg ''r'' demo_run_state) = Go demo_run_profile demo_bound"
  by (simp add: demo_bound_def rebind_phase_def Let_def demo_round_def)

lemma demo_fits:
  obtains rq bu st3 where "assemble_phase demo_round ''r'' demo_run_profile demo_bound = (Ok (rq, bu), st3)"
    "guardedPromptTokens bu + outputFloor demo_run_profile \<le> bu_NCtx bu"
proof -
  have "case fst (assemble_phase demo_round ''r'' demo_run_profile demo_bound) of
      Ok (rq, bu) \<Rightarrow> guardedPromptTokens bu + outputFloor demo_run_profile \<le> bu_NCtx bu | _ \<Rightarrow> False" by code_simp
  then show ?thesis
    by (cases "assemble_phase demo_round ''r'' demo_run_profile demo_bound") (auto intro: that split: gores.splits)
qed

lemma demo_quiet:
  "te_boundary demo_round = None" "te_cancel demo_round = None" "\<not> te_compact_cancelled demo_round" "te_profile demo_round sid = Some demo_run_profile"
  "te_chat demo_round rq = Ok demo_reply" "te_MaxTurns demo_round = 1" "te_server demo_round = demo_server"
  "rp_ToolCalls demo_reply = []" "rp_FinishReason demo_reply = ''stop''"
  by (simp_all add: demo_round_def demo_reply_def)

lemma demo_starts: "\<not> rn_cancelled demo_run_state" "s_Runnable (rn_session demo_run_state)"
    "map msg_shape (s_Messages (rn_session demo_run_state)) = [(''user'', 0)]"
  by (simp_all add: demo_run_state_def idle_session_def msg_shape_def emptyMessage_def)


lemma demo_run_done:
  obtains st' where "demo_run = (Some (''done'', [], 1), st')" "length (rn_sent st') = 1"
    "map msg_shape (s_Messages (rn_session st')) = [(''user'', 0), (''assistant'', 0)]"
proof (rule demo_fits)
  fix rq bu st3
  assume "assemble_phase demo_round ''r'' demo_run_profile demo_bound = (Ok (rq, bu), st3)"
    "guardedPromptTokens bu + outputFloor demo_run_profile \<le> bu_NCtx bu"
  with answered_at_once [OF demo_quiet(1-3) demo_starts(1) demo_quiet(1,2) demo_starts(2) _ demo_rebound _ _ demo_quiet(5,8), of rq bu st3 "[]" "[]"]
  show ?thesis by (auto simp: demo_quiet demo_starts intro: that)
qed

theorem plain_answers_finish_the_run_witness:
  "\<exists>st'. demo_run = (Some (''done'', [], 1), st') \<and> length (rn_sent st') = 1
    \<and> map msg_shape (s_Messages (rn_session st')) = [(''user'', 0), (''assistant'', 0)]"
proof (rule demo_fits)
  fix rq bu st3
  assume "assemble_phase demo_round ''r'' demo_run_profile demo_bound = (Ok (rq, bu), st3)"
    "guardedPromptTokens bu + outputFloor demo_run_profile \<le> bu_NCtx bu"
  with plain_answers_finish_the_run [OF demo_quiet(1-3) demo_starts(1) demo_quiet(1,2) demo_starts(2) _ demo_rebound _ _ demo_quiet(5,8),
      of rq bu st3 "[]" "[]"]
  show ?thesis by (auto simp: demo_quiet demo_starts)
qed

theorem runs_stay_within_limits_witness:
  "map_option (\<lambda>(reason, detail, turns). turns = int (length (rn_sent (snd demo_run))) \<and> turns \<le> 2
      \<and> int (calls_made (snd demo_run)) \<le> int (calls_made demo_run_state) + 1000) (fst demo_run) = Some True"
proof (rule demo_run_done)
  fix st' assume r: "demo_run = (Some (''done'', [], 1), st')"
  have "rc_MaxToolCalls (bounded_cfg demo_run_cfg) = 1000" by (simp add: bounded_cfg_def demo_run_cfg_def)
  with runs_stay_within_limits [OF r, of 1] show ?thesis by (simp add: r demo_quiet)
qed

theorem runs_stop_for_declared_reasons_witness:
  "map_option (\<lambda>(reason, detail, turns). reason \<in> set StopReasons) (fst demo_run) = Some True"
proof (rule demo_run_done)
  fix st' assume r: "demo_run = (Some (''done'', [], 1), st')"
  from runs_stop_for_declared_reasons [OF r] show ?thesis by (simp add: r)
qed

theorem sent_requests_fit_the_context_witness:
  "length (rn_sent (snd demo_run)) = 1 \<and> request_fits demo_round demo_run_profile (fst (hd (rn_sent (snd demo_run)))) (snd (hd (rn_sent (snd demo_run))))"
proof (rule demo_run_done)
  fix st' assume r: "demo_run = (Some (''done'', [], 1), st')" "length (rn_sent st') = 1"
  then obtain x where x: "rn_sent st' = [x]" by (cases "rn_sent st'") auto
  from sent_requests_fit_the_context [OF r(1)] have "request_fits demo_round demo_run_profile (fst x) (snd x)"
    by (simp add: demo_quiet x) (simp add: demo_run_profile_def)
  with x show ?thesis by (simp add: r(1))
qed

theorem conversations_stay_well_formed_witness:
  "map_option (\<lambda>(reason, detail, turns). reason) (fst demo_run) = Some ''done'' \<and> well_formed (map msg_shape (s_Messages (rn_session (snd demo_run))))"
proof (rule demo_run_done)
  fix st' assume r: "demo_run = (Some (''done'', [], 1), st')"
  have w: "well_formed (map msg_shape (s_Messages (rn_session demo_run_state)))" by (simp add: demo_starts well_formed_def)
  have "answering demo_round" by (simp add: answering_def demo_quiet demo_total)
  with conversations_stay_well_formed [OF r w] show ?thesis by (simp add: r)
qed

end
