(* ===== verification/Go_JSON.thy ===== *)
theory Go_JSON
  imports Budget
begin

text \<open>
  What the sources use of \<^verbatim>\<open>encoding/json\<close> when a value of type \<^verbatim>\<open>any\<close> is marshalled and read back: into an \<^verbatim>\<open>any\<close>
  (\<open>json_any\<close>: numbers become \<^verbatim>\<open>float64\<close>, structs and slices become maps and lists, empty \<^verbatim>\<open>omitempty\<close> fields are
  absent) or into a struct, where an absent or \<^verbatim>\<open>null\<close> field keeps its zero value and a value of another type is an
  error.  Strings are assumed to be valid UTF-8 and integers to be below \<open>2 ^ 53\<close>, so that the text loses nothing; a
  misspelled key, which the library would match without regard to case, does not occur.
\<close>

section \<open>Marshalling into an untyped value\<close>

definition json_int :: "int \<Rightarrow> gval" where "json_int n = GFloat (of_int n)"

definition unless_empty :: "string \<Rightarrow> string \<Rightarrow> gmap" where
  \<comment> \<open>\<^verbatim>\<open>omitempty\<close> for a string\<close>
  "unless_empty k s = (if s = [] then [] else [(k, GStr s)])"

definition unless_no :: "string \<Rightarrow> 'a list \<Rightarrow> ('a \<Rightarrow> gval) \<Rightarrow> gmap" where
  \<comment> \<open>\<^verbatim>\<open>omitempty\<close> for a slice\<close>
  "unless_no k xs f = (if xs = [] then [] else [(k, GList (map f xs))])"

definition json_call :: "toolCall \<Rightarrow> gval" where
  "json_call c = GMap [(''id'', GStr (tc_ID c)), (''name'', GStr (tc_Name c)), (''arguments'', GStr (tc_Arguments c))]"

definition json_attachment :: "attachment \<Rightarrow> gval" where
  "json_attachment a = GMap ([(''path'', GStr (at_Path a)), (''bytes'', json_int (at_Bytes a)), (''sha256'', GStr (at_SHA256 a))]
     @ unless_empty ''kind'' (at_Kind a) @ unless_empty ''outcome'' (at_Outcome a))"

definition json_proposal :: "planProposal \<Rightarrow> gval" where
  "json_proposal p = GMap ([(''id'', GStr (pp_ID p)), (''kind'', GStr (pp_Kind p)), (''path'', GStr (pp_Path p)), (''old_text'', GStr (pp_OldText p)),
     (''new_text'', GStr (pp_NewText p)), (''item_id'', GStr (pp_ItemID p))] @ unless_no ''source_message_ids'' (pp_SourceMessageIDs p) GStr)"

definition json_message :: "message \<Rightarrow> gval" where
  "json_message m = GMap ([(''id'', GStr (msg_ID m)), (''role'', GStr (msg_Role m)), (''content'', GStr (msg_Content m))]
     @ unless_empty ''reasoning'' (msg_Reasoning m) @ unless_no ''tool_calls'' (msg_ToolCalls m) json_call
     @ unless_empty ''tool_call_id'' (msg_ToolCallID m) @ unless_empty ''name'' (msg_Name m)
     @ [(''category'', GStr (msg_Category m)), (''tokens'', json_int (msg_Tokens m)), (''estimated'', GBool (msg_Estimated m)),
        (''elided'', GBool (msg_Elided m)), (''turn'', json_int (msg_Turn m))]
     @ (case msg_OK m of None \<Rightarrow> [] | Some b \<Rightarrow> [(''ok'', GBool b)])
     @ unless_no ''attachments'' (msg_Attachments m) json_attachment @ unless_no ''plan_proposals'' (msg_PlanProposals m) json_proposal)"

definition json_usage :: "modelUsage \<Rightarrow> gval" where
  "json_usage u = GMap [(''prompt_tokens'', json_int (mu_PromptTokens u)), (''completion_tokens'', json_int (mu_CompletionTokens u)),
     (''cached_tokens'', (case mu_CachedTokens u of None \<Rightarrow> GNil | Some n \<Rightarrow> json_int n))]"

definition json_summary :: "compactionSummaryData \<Rightarrow> gval" where
  "json_summary d = GMap ([(''role'', GStr (cs_Role d)), (''profile_id'', GStr (cs_ProfileID d)), (''model'', GStr (cs_Model d)),
     (''outcome'', GStr (cs_Outcome d))] @ unless_empty ''reason'' (cs_Reason d) @ unless_empty ''fallback_reason'' (cs_FallbackReason d)
     @ [(''dispatched'', GBool (cs_Dispatched d)), (''estimated_prompt_tokens'', json_int (cs_EstimatedPromptTokens d)),
        (''estimated'', GBool (cs_Estimated d)), (''n_ctx'', json_int (cs_NCtx d)), (''usage'', json_usage (cs_Usage d)),
        (''duration_ms'', json_int (cs_DurationMS d))])"

fun json_any :: "gval \<Rightarrow> gval" where
  "json_any (GInt n) = json_int n"
| "json_any (GStrs ss) = GList (map GStr ss)"
| "json_any (GList vs) = GList (map json_any vs)"
| "json_any (GMap m) = GMap (map (\<lambda>(k, v). (k, json_any v)) m)"
| "json_any (GCalls cs) = GList (map json_call cs)"
| "json_any (GMessage m) = json_message m"
| "json_any (GUsage u) = json_usage u"
| "json_any (GSummary d) = json_summary d"
| "json_any v = v"

section \<open>Reading back\<close>

definition obj :: "gval \<Rightarrow> gmap" where
  \<comment> \<open>the fields of an object, none for any other value\<close>
  "obj v = (case v of GMap m \<Rightarrow> m | _ \<Rightarrow> [])"

definition items :: "gval \<Rightarrow> gval list" where
  "items v = (case v of GList vs \<Rightarrow> vs | _ \<Rightarrow> [])"

definition num :: "gval \<Rightarrow> int" where
  "num v = (case v of GFloat q \<Rightarrow> trunc_rat q | GInt n \<Rightarrow> n | _ \<Rightarrow> 0)"

fun is_str :: "gval \<Rightarrow> bool" where "is_str (GStr s) = True" | "is_str v = (v = GNil)"
fun is_bool :: "gval \<Rightarrow> bool" where "is_bool (GBool b) = True" | "is_bool v = (v = GNil)"
fun is_num :: "gval \<Rightarrow> bool" where "is_num (GFloat q) = (q = of_int \<lfloor>q\<rfloor>)" | "is_num v = (v = GNil)"
fun is_items :: "(gval \<Rightarrow> bool) \<Rightarrow> gval \<Rightarrow> bool" where "is_items P (GList vs) = list_all P vs" | "is_items P v = (v = GNil)"
fun is_obj :: "(gmap \<Rightarrow> bool) \<Rightarrow> gval \<Rightarrow> bool" where "is_obj P (GMap m) = P m" | "is_obj P v = (v = GNil)"

definition conforms :: "(string \<times> (gval \<Rightarrow> bool)) list \<Rightarrow> gmap \<Rightarrow> bool" where
  "conforms schema m = list_all (\<lambda>(k, P). P (gget m k)) schema"

definition strs :: "gval \<Rightarrow> string list" where
  "strs v = map str_or_empty (items v)"

definition unmarshal :: "(gval \<Rightarrow> bool) \<Rightarrow> (gval \<Rightarrow> 'a) \<Rightarrow> gval \<Rightarrow> 'a gores" where
  \<comment> \<open>\<^verbatim>\<open>decode(value, &target)\<close>: marshal, then unmarshal into a type\<close>
  "unmarshal ok f v = (let j = json_any v in if ok j then Ok (f j) else Err ''json: cannot unmarshal'')"

definition call_ok :: "gval \<Rightarrow> bool" where
  "call_ok = is_obj (conforms [(''id'', is_str), (''name'', is_str), (''arguments'', is_str)])"

definition call_of :: "gval \<Rightarrow> toolCall" where
  "call_of v = (let m = obj v in \<lparr>tc_ID = str_or_empty (gget m ''id''), tc_Name = str_or_empty (gget m ''name''),
     tc_Arguments = str_or_empty (gget m ''arguments'')\<rparr>)"

definition attachment_ok :: "gval \<Rightarrow> bool" where
  "attachment_ok = is_obj (conforms [(''path'', is_str), (''bytes'', is_num), (''sha256'', is_str), (''kind'', is_str), (''outcome'', is_str)])"

definition attachment_of :: "gval \<Rightarrow> attachment" where
  "attachment_of v = (let m = obj v in \<lparr>at_Path = str_or_empty (gget m ''path''), at_Bytes = num (gget m ''bytes''),
     at_SHA256 = str_or_empty (gget m ''sha256''), at_Kind = str_or_empty (gget m ''kind''), at_Outcome = str_or_empty (gget m ''outcome'')\<rparr>)"

definition proposal_ok :: "gval \<Rightarrow> bool" where
  "proposal_ok = is_obj (conforms [(''id'', is_str), (''kind'', is_str), (''path'', is_str), (''old_text'', is_str), (''new_text'', is_str),
     (''item_id'', is_str), (''source_message_ids'', is_items is_str)])"

definition proposal_of :: "gval \<Rightarrow> planProposal" where
  "proposal_of v = (let m = obj v in \<lparr>pp_ID = str_or_empty (gget m ''id''), pp_Kind = str_or_empty (gget m ''kind''),
     pp_Path = str_or_empty (gget m ''path''), pp_OldText = str_or_empty (gget m ''old_text''), pp_NewText = str_or_empty (gget m ''new_text''),
     pp_ItemID = str_or_empty (gget m ''item_id''), pp_SourceMessageIDs = strs (gget m ''source_message_ids'')\<rparr>)"

definition message_ok :: "gval \<Rightarrow> bool" where
  "message_ok = is_obj (conforms [(''id'', is_str), (''role'', is_str), (''content'', is_str), (''reasoning'', is_str),
     (''tool_calls'', is_items call_ok), (''tool_call_id'', is_str), (''name'', is_str), (''category'', is_str), (''tokens'', is_num),
     (''estimated'', is_bool), (''elided'', is_bool), (''turn'', is_num), (''ok'', is_bool), (''attachments'', is_items attachment_ok),
     (''plan_proposals'', is_items proposal_ok)])"

definition message_of :: "gval \<Rightarrow> message" where
  "message_of v = (let m = obj v in \<lparr>msg_ID = str_or_empty (gget m ''id''), msg_Role = str_or_empty (gget m ''role''),
     msg_Content = str_or_empty (gget m ''content''), msg_Reasoning = str_or_empty (gget m ''reasoning''),
     msg_ToolCalls = map call_of (items (gget m ''tool_calls'')), msg_ToolCallID = str_or_empty (gget m ''tool_call_id''),
     msg_Name = str_or_empty (gget m ''name''), msg_Category = str_or_empty (gget m ''category''), msg_Tokens = num (gget m ''tokens''),
     msg_Estimated = as_bool (gget m ''estimated''), msg_Elided = as_bool (gget m ''elided''), msg_Turn = num (gget m ''turn''),
     msg_OK = (case gget m ''ok'' of GBool b \<Rightarrow> Some b | _ \<Rightarrow> None),
     msg_Attachments = map attachment_of (items (gget m ''attachments'')),
     msg_PlanProposals = map proposal_of (items (gget m ''plan_proposals''))\<rparr>)"

definition counts_of :: "gval \<Rightarrow> counts" where
  "counts_of v = map (\<lambda>(k, n). (k, num n)) (obj v)"

definition counts_ok :: "gval \<Rightarrow> bool" where
  "counts_ok = is_obj (list_all (\<lambda>(k, n). is_num n))"

definition opt_num :: "gval \<Rightarrow> int option" where
  "opt_num v = (if v = GNil then None else Some (num v))"

definition budget_ok :: "gval \<Rightarrow> bool" where
  "budget_ok = is_obj (conforms [(''n_ctx'', is_num), (''reserve'', is_num), (''ceiling'', is_num), (''used_est'', is_num),
     (''used_measured'', is_num), (''drift'', is_num), (''cached_last'', is_num), (''mode'', is_str), (''estimated'', is_bool),
     (''estimated_categories'', is_items is_str), (''categories'', counts_ok), (''tool_schema_tokens'', counts_ok),
     (''tool_marginal_tokens'', counts_ok)])"

definition read_budget :: "gval \<Rightarrow> budget" where
  "read_budget v = (let m = obj v in \<lparr>bu_NCtx = num (gget m ''n_ctx''), bu_Reserve = num (gget m ''reserve''), bu_Ceiling = num (gget m ''ceiling''),
     bu_UsedEst = num (gget m ''used_est''), bu_UsedMeasured = num (gget m ''used_measured''), bu_Drift = num (gget m ''drift''),
     bu_CachedLast = opt_num (gget m ''cached_last''), bu_Mode = str_or_empty (gget m ''mode''), bu_Estimated = as_bool (gget m ''estimated''),
     bu_EstimatedCategories = strs (gget m ''estimated_categories''), bu_Categories = counts_of (gget m ''categories''),
     bu_ToolSchemaTokens = counts_of (gget m ''tool_schema_tokens''), bu_ToolMarginalTokens = counts_of (gget m ''tool_marginal_tokens'')\<rparr>)"

definition usage_of :: "gval \<Rightarrow> modelUsage" where
  "usage_of v = (let m = obj v in \<lparr>mu_PromptTokens = num (gget m ''prompt_tokens''), mu_CompletionTokens = num (gget m ''completion_tokens''),
     mu_CachedTokens = opt_num (gget m ''cached_tokens'')\<rparr>)"

definition usage_ok :: "gval \<Rightarrow> bool" where
  "usage_ok = is_obj (conforms [(''prompt_tokens'', is_num), (''completion_tokens'', is_num), (''cached_tokens'', is_num)])"

definition summary_ok :: "gval \<Rightarrow> bool" where
  "summary_ok = is_obj (conforms [(''role'', is_str), (''profile_id'', is_str), (''model'', is_str), (''outcome'', is_str), (''reason'', is_str),
     (''fallback_reason'', is_str), (''dispatched'', is_bool), (''estimated_prompt_tokens'', is_num), (''estimated'', is_bool), (''n_ctx'', is_num),
     (''usage'', usage_ok), (''duration_ms'', is_num)])"

definition summary_of :: "gval \<Rightarrow> compactionSummaryData" where
  "summary_of v = (let m = obj v in \<lparr>cs_Role = str_or_empty (gget m ''role''), cs_ProfileID = str_or_empty (gget m ''profile_id''),
     cs_Model = str_or_empty (gget m ''model''), cs_Outcome = str_or_empty (gget m ''outcome''), cs_Reason = str_or_empty (gget m ''reason''),
     cs_FallbackReason = str_or_empty (gget m ''fallback_reason''), cs_Dispatched = as_bool (gget m ''dispatched''),
     cs_EstimatedPromptTokens = num (gget m ''estimated_prompt_tokens''), cs_Estimated = as_bool (gget m ''estimated''),
     cs_NCtx = num (gget m ''n_ctx''), cs_Usage = usage_of (gget m ''usage''), cs_DurationMS = num (gget m ''duration_ms'')\<rparr>)"

section \<open>Nothing is lost\<close>

lemma num_json_int [simp]: "num (json_int n) = n" "is_num (json_int n)" "json_int n \<noteq> GNil"
  by (simp_all add: num_def json_int_def)

lemma gget_simps [simp]:
  "gget [] k = GNil" "gget ((k', v) # m) k = (if k = k' then v else gget m k)"
  "gget (unless_empty k' s @ m) k = (if k = k' \<and> s \<noteq> [] then GStr s else gget m k)"
  "gget (unless_no k' xs f @ m) k = (if k = k' \<and> xs \<noteq> [] then GList (map f xs) else gget m k)"
  by (auto simp: gget_def unless_empty_def unless_no_def)

lemma gget_last [simp]:
  "gget (unless_empty k' s) k = (if k = k' \<and> s \<noteq> [] then GStr s else GNil)"
  "gget (unless_no k' xs f) k = (if k = k' \<and> xs \<noteq> [] then GList (map f xs) else GNil)"
  by (auto simp: gget_def unless_empty_def unless_no_def)

lemma readers [simp]:
  "str_or_empty (GStr s) = s" "str_or_empty GNil = []" "items GNil = []" "items (GList vs) = vs" "obj (GMap m) = m" "num GNil = 0"
  "strs (GList (map GStr ss)) = ss" "strs GNil = []"
  by (simp_all add: str_or_empty_def items_def obj_def num_def strs_def comp_def)

lemma opt_num [simp]: "opt_num (case x of None \<Rightarrow> GNil | Some n \<Rightarrow> json_int n) = x"
  by (simp add: opt_num_def split: option.split)

lemma call_round_trip [simp]: "call_of (json_call c) = c" "call_ok (json_call c)"
  by (simp_all add: call_of_def json_call_def call_ok_def conforms_def)

lemma attachment_round_trip [simp]: "attachment_of (json_attachment a) = a" "attachment_ok (json_attachment a)"
  by (simp_all add: attachment_of_def json_attachment_def attachment_ok_def conforms_def)

lemma proposal_round_trip [simp]: "proposal_of (json_proposal p) = p" "proposal_ok (json_proposal p)"
  by (simp_all add: proposal_of_def json_proposal_def proposal_ok_def conforms_def list_all_iff)

lemma map_round_trip [simp]:
  "map call_of (map json_call cs) = cs" "map attachment_of (map json_attachment as) = as" "map proposal_of (map json_proposal ps) = ps"
  by (simp_all add: comp_def)

lemma message_round_trip [simp]: "message_of (json_message m) = m" "message_ok (json_message m)"
proof -
  have 1: "gget ((case x of None \<Rightarrow> [] | Some b \<Rightarrow> [(''ok'', GBool b)]) @ rest) k = (if k = ''ok'' \<and> x \<noteq> None then GBool (the x) else gget rest k)" for x k rest
    by (cases x) auto
  show "message_of (json_message m) = m" by (cases m) (simp add: message_of_def json_message_def 1 comp_def split: option.split)
  show "message_ok (json_message m)" by (simp add: message_ok_def json_message_def conforms_def 1 list_all_iff)
qed

lemma usage_round_trip [simp]: "usage_of (json_usage u) = u" "usage_ok (json_usage u)"
  by (simp_all add: usage_of_def json_usage_def usage_ok_def conforms_def split: option.split)

lemma summary_round_trip [simp]: "summary_of (json_summary d) = d" "summary_ok (json_summary d)"
  by (simp_all add: summary_of_def json_summary_def summary_ok_def conforms_def)

end
