(* ===== verification/Projection_Model.thy ===== *)
theory Projection_Model
  imports Go_JSON Go_Float Session_Model Summaries
begin

text \<open>
  The projector (\<^verbatim>\<open>internal/projection/projector.go\<close>): the fold of the event log into the snapshot of a session that
  clients see.  \<open>project\<close> is the state part of \<^verbatim>\<open>Next\<close>; the patch is in \<open>Projection_Patch\<close>.

  \<^verbatim>\<open>projection.Run\<close> has the fields of \<^verbatim>\<open>session.RunState\<close> and is modelled by the same record.  The fields that a
  seed and a snapshot share are \<open>sessionFields\<close>.  The argument \<open>ms\<close> is the parser of time stamps in milliseconds.
  Pointers and slices that Go clones before it changes them are plain values; \<open>cloneChat\<close> stays visible because a
  round trip through JSON turns the numbers of an event's data into \<^verbatim>\<open>float64\<close>.  The policies and the tool list of
  \<^verbatim>\<open>workspace.bound\<close> are decoded into what the previous snapshot points to, without a clone: \<open>policy_pointer\<close> and
  \<open>tools_into\<close> are what the new snapshot then holds, \<open>policy_written\<close> and \<open>tools_written\<close> what the previous one is
  left with.
\<close>

section \<open>State\<close>

record projCursor =
  pc_Generation :: string
  pc_Offset :: int

record projPolicy =
  py_Path :: string
  py_Hash :: string
  py_ApprovedAt :: string
  py_Approved :: bool
  py_Changed :: bool
  py_Diff :: string
  py_Content :: string
  py_Error :: string

record projTool =
  pt_Name :: string
  pt_Enabled :: bool
  pt_Calls :: int
  pt_SchemaTokens :: int
  pt_MarginalTokens :: int

record streamTelemetry =
  tm_Key :: string
  tm_StartedAt :: int
  tm_LastChunkAt :: int
  tm_HasChunk :: bool
  tm_ReasoningChars :: int
  tm_TotalChars :: int
  tm_Rate :: int
  tm_RateStartedAt :: int
  tm_RateChars :: int
  tm_Done :: bool
  tm_ReasoningTokens :: int
  tm_Timings :: gmap

record activity =
  ac_Stage :: string
  ac_StageState :: string
  ac_CompletedStages :: "string list"
  ac_ActiveTool :: string
  ac_AlarmTool :: string
  ac_DispatchAlarm :: bool
  ac_Progress :: gmap
  ac_LastTimings :: gmap
  ac_Stream :: "streamTelemetry option"
  ac_CompactionSerial :: int

record chatEntry =
  ch_Type :: string
  ch_Key :: string
  ch_RunID :: string
  ch_Turn :: int
  ch_Text :: string
  ch_Reasoning :: string
  ch_ReasoningTokens :: int
  ch_ReasoningTokensEstimated :: bool
  ch_ThinkingStartedMS :: int
  ch_ThinkingEndedMS :: int
  ch_ThinkingMS :: "int option"
  ch_Done :: bool
  ch_ToolCallIDs :: "string list"
  ch_CallID :: string
  ch_Name :: string
  ch_Args :: "gmap option"
  ch_Result :: gmap
  ch_Content :: string
  ch_Event :: "event option"
  ch_Decision :: string
  ch_Attachments :: "attachment list"
  ch_AgentRole :: string

record modelAvailability =
  ma_Host :: string
  ma_Detail :: string

record sessionFields =
  sn_ID :: string
  sn_Label :: string
  sn_AgentID :: string
  sn_ServerID :: string
  sn_AgentName :: string
  sn_BProfile :: string
  sn_Role :: string
  sn_PlanID :: string
  sn_PlanName :: string
  sn_PlanDir :: string
  sn_PlanRepo :: string
  sn_CreatedAt :: string
  sn_Closed :: bool
  sn_NamePinned :: bool
  sn_Workspace :: string
  sn_WorkspaceDir :: string
  sn_WorkspaceMissing :: bool
  sn_Scratch :: bool
  sn_ProjectContent :: string
  sn_ProjectFiles :: "string list"
  sn_ProjectNotes :: "string list"
  sn_PendingRepoPolicy :: "projPolicy option"
  sn_RepoPolicy :: "projPolicy option"
  sn_Run :: runState
  sn_Tools :: "projTool list"
  sn_Messages :: "message list"
  sn_Budget :: budget
  sn_QueuedMessages :: int
  sn_Runnable :: bool
  sn_NotRunnableReason :: string
  sn_MemoryPath :: string
  sn_MemoryContent :: string
  sn_AgentMemoryPath :: string
  sn_AgentMemoryContent :: string
  sn_LogPath :: string
  sn_ModelTurns :: int
  sn_CompactionCount :: int
  sn_CompactionTokenDelta :: int
  sn_CompactionModelCalls :: int
  sn_CompactionPrompt :: int
  sn_CompactionCompletion :: int

record snapshot = sessionFields +
  sn_SchemaVersion :: int
  sn_Cursor :: projCursor
  sn_Complete :: bool
  sn_Activity :: activity
  sn_Timeline :: "event list"
  sn_Chat :: "chatEntry list"
  sn_PendingApproval :: "chatEntry option"
  sn_ModelUnreachable :: "modelAvailability option"
  sn_ModelBusy :: "modelAvailability option"
  sn_RunAsYou :: bool
  sn_Stale :: bool
  sn_StaleReason :: string

definition SchemaVersion :: int where "SchemaVersion = 1"

definition idle_run :: "runState" where
  "idle_run = emptyRunState\<lparr>rs_Status := ''idle''\<rparr>"

definition no_activity :: activity where
  "no_activity = \<lparr>ac_Stage = [], ac_StageState = [], ac_CompletedStages = [], ac_ActiveTool = [], ac_AlarmTool = [], ac_DispatchAlarm = False,
     ac_Progress = [], ac_LastTimings = [], ac_Stream = None, ac_CompactionSerial = 0\<rparr>"

definition no_entry :: chatEntry where
  "no_entry = \<lparr>ch_Type = [], ch_Key = [], ch_RunID = [], ch_Turn = 0, ch_Text = [], ch_Reasoning = [], ch_ReasoningTokens = 0,
     ch_ReasoningTokensEstimated = False, ch_ThinkingStartedMS = 0, ch_ThinkingEndedMS = 0, ch_ThinkingMS = None, ch_Done = False,
     ch_ToolCallIDs = [], ch_CallID = [], ch_Name = [], ch_Args = None, ch_Result = [], ch_Content = [], ch_Event = None, ch_Decision = [],
     ch_Attachments = [], ch_AgentRole = []\<rparr>"

definition no_cursor :: projCursor where "no_cursor = \<lparr>pc_Generation = [], pc_Offset = 0\<rparr>"

section \<open>Reading event data\<close>

definition eventMap :: "gval \<Rightarrow> gmap" where
  "eventMap v = (case v of GMap m \<Rightarrow> m | _ \<Rightarrow> obj (json_any v))"

definition stringSlice :: "gval \<Rightarrow> string list" where
  "stringSlice v = strs (json_any v)"

definition stringValues :: "gval \<Rightarrow> string list" where
  "stringValues v = (case v of GStrs ss \<Rightarrow> ss | _ \<Rightarrow> strs v)"

definition toolCalls :: "gval \<Rightarrow> toolCall list" where
  "toolCalls v = map call_of (items (json_any v))"

definition firstString :: "gval list \<Rightarrow> string" where
  "firstString vs = (case filter (\<lambda>s. s \<noteq> []) (map str_or_empty vs) of [] \<Rightarrow> [] | s # _ \<Rightarrow> s)"

definition text_of :: "gmap \<Rightarrow> string \<Rightarrow> string" where
  \<comment> \<open>\<^verbatim>\<open>stringValue(data[k])\<close>\<close>
  "text_of m k = str_or_empty (gget m k)"

definition policy_into :: "projPolicy \<Rightarrow> gmap \<Rightarrow> projPolicy" where
  \<comment> \<open>decoding into a struct: what the object does not mention, or gives another type, stays\<close>
  "policy_into p m =
     (let s = (\<lambda>k old. case gget m k of GStr x \<Rightarrow> x | _ \<Rightarrow> old); b = (\<lambda>k old. case gget m k of GBool x \<Rightarrow> x | _ \<Rightarrow> old)
      in \<lparr>py_Path = s ''path'' (py_Path p), py_Hash = s ''hash'' (py_Hash p), py_ApprovedAt = s ''approved_at'' (py_ApprovedAt p),
          py_Approved = b ''approved'' (py_Approved p), py_Changed = b ''changed'' (py_Changed p), py_Diff = s ''diff'' (py_Diff p),
          py_Content = s ''content'' (py_Content p), py_Error = s ''error'' (py_Error p)\<rparr>)"

definition no_policy :: projPolicy where
  "no_policy = \<lparr>py_Path = [], py_Hash = [], py_ApprovedAt = [], py_Approved = False, py_Changed = False, py_Diff = [], py_Content = [], py_Error = []\<rparr>"

definition policy_ok :: "gval \<Rightarrow> bool" where
  "policy_ok = is_obj (conforms [(''path'', is_str), (''hash'', is_str), (''approved_at'', is_str), (''approved'', is_bool), (''changed'', is_bool),
     (''diff'', is_str), (''content'', is_str), (''error'', is_str)])"

definition policy_pointer :: "gval \<Rightarrow> projPolicy option \<Rightarrow> projPolicy option" where
  \<comment> \<open>decoding into a pointer: \<^verbatim>\<open>null\<close> clears it, any other value is decoded into what it points to, or into a new
    struct; an error of the decoder is ignored\<close>
  "policy_pointer v old = (let j = json_any v in if j = GNil then None
     else Some (policy_into (case old of None \<Rightarrow> no_policy | Some p \<Rightarrow> p) (obj j)))"

definition policy_written :: "gval \<Rightarrow> projPolicy option \<Rightarrow> projPolicy option" where
  \<comment> \<open>what another copy of the pointer \<open>old\<close> shows after \<open>policy_pointer v old\<close>\<close>
  "policy_written v old = (case old of None \<Rightarrow> None | Some p \<Rightarrow> if json_any v = GNil then Some p else policy_pointer v (Some p))"

definition tool_ok :: "gval \<Rightarrow> bool" where
  "tool_ok = is_obj (conforms [(''name'', is_str), (''enabled'', is_bool), (''calls'', is_num), (''schema_tokens'', is_num), (''marginal_tokens'', is_num)])"

definition tool_of :: "gval \<Rightarrow> projTool" where
  "tool_of v = (let m = obj v in \<lparr>pt_Name = text_of m ''name'', pt_Enabled = as_bool (gget m ''enabled''), pt_Calls = num (gget m ''calls''),
     pt_SchemaTokens = num (gget m ''schema_tokens''), pt_MarginalTokens = num (gget m ''marginal_tokens'')\<rparr>)"

definition read_tools :: "gval \<Rightarrow> projTool list gores" where
  "read_tools = unmarshal (is_items tool_ok) (\<lambda>v. map tool_of (items v))"

definition no_tool :: projTool where
  "no_tool = \<lparr>pt_Name = [], pt_Enabled = False, pt_Calls = 0, pt_SchemaTokens = 0, pt_MarginalTokens = 0\<rparr>"

definition tool_into :: "projTool \<Rightarrow> gval \<Rightarrow> projTool" where
  \<comment> \<open>decoding an element into a struct\<close>
  "tool_into t v =
     (let m = obj v; n = (\<lambda>k old. if is_num (gget m k) \<and> gget m k \<noteq> GNil then num (gget m k) else old)
      in \<lparr>pt_Name = (case gget m ''name'' of GStr x \<Rightarrow> x | _ \<Rightarrow> pt_Name t), pt_Enabled = (case gget m ''enabled'' of GBool x \<Rightarrow> x | _ \<Rightarrow> pt_Enabled t),
          pt_Calls = n ''calls'' (pt_Calls t), pt_SchemaTokens = n ''schema_tokens'' (pt_SchemaTokens t),
          pt_MarginalTokens = n ''marginal_tokens'' (pt_MarginalTokens t)\<rparr>)"

definition tools_into :: "gval \<Rightarrow> projTool list \<Rightarrow> projTool list" where
  \<comment> \<open>decoding into a slice: the elements are decoded into those that are there; an element beyond them starts from
    zero (spare capacity that an earlier, longer list left behind is not modelled)\<close>
  "tools_into v old = (case json_any v of GNil \<Rightarrow> []
     | GList vs \<Rightarrow> map (\<lambda>i. tool_into (if i < length old then old ! i else no_tool) (vs ! i)) [0..<length vs]
     | _ \<Rightarrow> old)"

definition tools_written :: "gval \<Rightarrow> projTool list \<Rightarrow> projTool list" where
  \<comment> \<open>what another copy of the slice \<open>old\<close> shows after \<open>tools_into v old\<close>\<close>
  "tools_written v old = (case json_any v of
       GList vs \<Rightarrow> map (\<lambda>i. if i < length vs then tool_into (old ! i) (vs ! i) else old ! i) [0..<length old]
     | _ \<Rightarrow> old)"

definition run_ok :: "gval \<Rightarrow> bool" where
  "run_ok = is_obj (conforms [(''status'', is_str), (''run_id'', is_str), (''turn'', is_num), (''max_turns'', is_num), (''queue_position'', is_num),
     (''partial'', is_str), (''last_stop_reason'', is_str), (''last_stop_detail'', is_str), (''last_run_id'', is_str),
     (''armed_detectors'', is_items is_str), (''result_label'', is_str)])"

definition run_of :: "gval \<Rightarrow> runState" where
  "run_of v = (let m = obj v in \<lparr>rs_Status = text_of m ''status'', rs_RunID = text_of m ''run_id'', rs_Turn = num (gget m ''turn''),
     rs_MaxTurns = num (gget m ''max_turns''), rs_QueuePosition = num (gget m ''queue_position''), rs_Partial = text_of m ''partial'',
     rs_LastStopReason = text_of m ''last_stop_reason'', rs_LastStopDetail = text_of m ''last_stop_detail'',
     rs_LastRunID = text_of m ''last_run_id'', rs_ArmedDetectors = strs (gget m ''armed_detectors''), rs_ResultLabel = text_of m ''result_label''\<rparr>)"

section \<open>The seed of a session\<close>

definition seed_ok :: "gval \<Rightarrow> bool" where
  "seed_ok = is_obj (\<lambda>m. conforms (map (\<lambda>k. (k, is_str)) [''id'', ''label'', ''agent_id'', ''server_id'', ''agent_name'', ''main_profile'', ''b_profile'',
       ''role'', ''plan_id'', ''plan_name'', ''plan_dir'', ''plan_repo'', ''created_at'', ''workspace'', ''workspace_dir'', ''project_content'',
       ''not_runnable_reason'', ''memory_path'', ''memory_content'', ''agent_memory_path'', ''agent_memory_content'', ''log_path'']) m
     \<and> conforms (map (\<lambda>k. (k, is_bool)) [''closed'', ''name_pinned'', ''workspace_missing'', ''scratch'', ''runnable'']) m
     \<and> conforms (map (\<lambda>k. (k, is_num)) [''queued_messages'', ''model_turns'', ''compaction_count'', ''compaction_token_delta'',
       ''compaction_model_calls'', ''compaction_prompt_tokens'', ''compaction_completion_tokens'']) m
     \<and> conforms [(''project_files'', is_items is_str), (''project_notes'', is_items is_str), (''pending_repo_policy'', policy_ok),
       (''repo_policy'', policy_ok), (''run'', run_ok), (''tools'', is_items tool_ok), (''messages'', is_items message_ok), (''budget'', budget_ok)] m)"

definition seed_snapshot :: "gval \<Rightarrow> projCursor \<Rightarrow> snapshot" where
  \<comment> \<open>decoding a \<^verbatim>\<open>seed\<close> and its method \<^verbatim>\<open>snapshot\<close>\<close>
  "seed_snapshot v cursor = (let m = obj v; t = text_of m; b = (\<lambda>k. as_bool (gget m k)); n = (\<lambda>k. num (gget m k)) in
     \<lparr>sn_ID = t ''id'', sn_Label = t ''label'', sn_AgentID = t ''agent_id'', sn_ServerID = t ''server_id'', sn_AgentName = t ''agent_name'',
      sn_BProfile = firstString [GStr (t ''b_profile''), GStr (t ''main_profile'')], sn_Role = firstString [GStr (t ''role''), GStr ''b''],
      sn_PlanID = t ''plan_id'', sn_PlanName = t ''plan_name'', sn_PlanDir = t ''plan_dir'', sn_PlanRepo = t ''plan_repo'',
      sn_CreatedAt = t ''created_at'', sn_Closed = b ''closed'', sn_NamePinned = b ''name_pinned'', sn_Workspace = t ''workspace'',
      sn_WorkspaceDir = firstString [GStr (t ''workspace_dir''), GStr (t ''workspace'')], sn_WorkspaceMissing = b ''workspace_missing'',
      sn_Scratch = b ''scratch'', sn_ProjectContent = t ''project_content'', sn_ProjectFiles = strs (gget m ''project_files''),
      sn_ProjectNotes = strs (gget m ''project_notes''), sn_PendingRepoPolicy = policy_pointer (gget m ''pending_repo_policy'') None,
      sn_RepoPolicy = policy_pointer (gget m ''repo_policy'') None, sn_Run = run_of (gget m ''run''),
      sn_Tools = map tool_of (items (gget m ''tools'')), sn_Messages = map message_of (items (gget m ''messages'')),
      sn_Budget = read_budget (gget m ''budget''), sn_QueuedMessages = n ''queued_messages'', sn_Runnable = b ''runnable'',
      sn_NotRunnableReason = t ''not_runnable_reason'', sn_MemoryPath = t ''memory_path'', sn_MemoryContent = t ''memory_content'',
      sn_AgentMemoryPath = t ''agent_memory_path'', sn_AgentMemoryContent = t ''agent_memory_content'', sn_LogPath = t ''log_path'',
      sn_ModelTurns = n ''model_turns'', sn_CompactionCount = n ''compaction_count'', sn_CompactionTokenDelta = n ''compaction_token_delta'',
      sn_CompactionModelCalls = n ''compaction_model_calls'', sn_CompactionPrompt = n ''compaction_prompt_tokens'',
      sn_CompactionCompletion = n ''compaction_completion_tokens'', sn_SchemaVersion = SchemaVersion, sn_Cursor = cursor, sn_Complete = True,
      sn_Activity = no_activity, sn_Timeline = [], sn_Chat = [], sn_PendingApproval = None, sn_ModelUnreachable = None, sn_ModelBusy = None,
      sn_RunAsYou = False, sn_Stale = False, sn_StaleReason = []\<rparr>)"

definition emptySnapshot :: "string \<Rightarrow> snapshot" where
  \<comment> \<open>\<^verbatim>\<open>Empty\<close>\<close>
  "emptySnapshot sid = (seed_snapshot GNil no_cursor)\<lparr>sn_Complete := False, sn_ID := sid, sn_Label := sid, sn_Role := [], sn_Run := idle_run\<rparr>"

end
