(* ===== verification/Projector.thy ===== *)
theory Projector
  imports Projection_Model
begin

text \<open>
  The fold step of the projector: one function per group of events and \<open>project\<close>, the state part of \<^verbatim>\<open>Next\<close>.
\<close>

section \<open>Chat entries\<close>

primrec update_first :: "('a \<Rightarrow> bool) \<Rightarrow> ('a \<Rightarrow> 'a) \<Rightarrow> 'a list \<Rightarrow> 'a list" where
  "update_first P f [] = []"
| "update_first P f (x # xs) = (if P x then f x # xs else x # update_first P f xs)"

definition update_last :: "('a \<Rightarrow> bool) \<Rightarrow> ('a \<Rightarrow> 'a) \<Rightarrow> 'a list \<Rightarrow> 'a list" where
  \<comment> \<open>changing the entry a search from the end finds\<close>
  "update_last P f xs = rev (update_first P f (rev xs))"

definition clone_entry :: "chatEntry \<Rightarrow> chatEntry" where
  "clone_entry e = e\<lparr>ch_Args := map_option (\<lambda>m. obj (json_any (GMap m))) (ch_Args e), ch_Result := obj (json_any (GMap (ch_Result e))),
     ch_Event := map_option (\<lambda>v. v\<lparr>ev_Data := json_any (ev_Data v)\<rparr>) (ch_Event e)\<rparr>"

definition cloneChat :: "chatEntry list \<Rightarrow> chatEntry list" where
  "cloneChat = map clone_entry"

definition appendChat :: "chatEntry list \<Rightarrow> chatEntry \<Rightarrow> chatEntry list" where
  "appendChat values entry = cloneChat values @ [entry]"

definition is_turn :: "string \<Rightarrow> int \<Rightarrow> chatEntry \<Rightarrow> bool" where
  \<comment> \<open>\<^verbatim>\<open>chatTurn\<close>\<close>
  "is_turn runID turn e \<longleftrightarrow> ch_Type e = ''agent'' \<and> ch_RunID e = runID \<and> ch_Turn e = turn"

definition is_turn_any :: "int \<Rightarrow> chatEntry \<Rightarrow> bool" where
  \<comment> \<open>\<^verbatim>\<open>chatTurnAny\<close>\<close>
  "is_turn_any turn e \<longleftrightarrow> ch_Type e = ''agent'' \<and> ch_Turn e = turn"

definition is_call :: "string \<Rightarrow> chatEntry \<Rightarrow> bool" where
  \<comment> \<open>\<^verbatim>\<open>chatCall\<close>\<close>
  "is_call callID e \<longleftrightarrow> ch_Type e = ''tool'' \<and> ch_CallID e = callID"

definition unresolved_stop :: "string \<Rightarrow> chatEntry \<Rightarrow> bool" where
  \<comment> \<open>the condition of \<^verbatim>\<open>upsertModelUnreachableNotice\<close> and \<^verbatim>\<open>resolveModelUnreachableNotice\<close>\<close>
  "unresolved_stop host e \<longleftrightarrow> ch_Type e = ''notice'' \<and> ch_Text e = host \<and> ch_Decision e \<noteq> ''resolved'' \<and>
     (case ch_Event e of None \<Rightarrow> False
      | Some v \<Rightarrow> ev_Type v = ''run.stopped'' \<and> text_of (eventMap (ev_Data v)) ''reason'' = ''model_unreachable'')"

definition upsertModelUnreachableNotice :: "chatEntry list \<Rightarrow> chatEntry \<Rightarrow> chatEntry list" where
  "upsertModelUnreachableNotice values entry = (let result = cloneChat values in
     if \<exists>e \<in> set result. unresolved_stop (ch_Text entry) e
     then update_last (unresolved_stop (ch_Text entry)) (\<lambda>e. entry\<lparr>ch_Key := ch_Key e\<rparr>) result else result @ [entry])"

definition resolveModelUnreachableNotice :: "chatEntry list \<Rightarrow> string \<Rightarrow> chatEntry list" where
  "resolveModelUnreachableNotice values host = update_last (unresolved_stop host) (\<lambda>e. e\<lparr>ch_Decision := ''resolved''\<rparr>) (cloneChat values)"

definition removeChatKey :: "chatEntry list \<Rightarrow> string \<Rightarrow> chatEntry list" where
  "removeChatKey values key = filter (\<lambda>e. ch_Key e \<noteq> key) values"

primrec remove_first :: "('a \<Rightarrow> bool) \<Rightarrow> 'a list \<Rightarrow> 'a list" where
  "remove_first P [] = []"
| "remove_first P (x # xs) = (if P x then xs else x # remove_first P xs)"

definition removeAssistantTurn :: "chatEntry list \<Rightarrow> int \<Rightarrow> chatEntry list" where
  "removeAssistantTurn values turn = rev (remove_first (is_turn_any turn) (rev values))"

definition notice_types :: "string list" where
  \<comment> \<open>\<^verbatim>\<open>chatNotice\<close>\<close>
  "notice_types = [''run.stopping'', ''run.stopped'', ''run.aborted'', ''run.queued'', ''message.queued'', ''model.retry'', ''compaction'',
     ''workspace.conflict'', ''approval.required'', ''memory.noted'', ''memory.cleared'', ''project.instructions_loaded'', ''policy.approved'',
     ''policy.denied'', ''policy.revoked'', ''operator.context'', ''signing.applied'', ''files.delivered'', ''shell.grant'',
     ''shell.grant_lapsed'', ''file.grant'', ''file.grant_lapsed'']"

definition summaryTranscript :: "string \<Rightarrow> string" where
  "summaryTranscript content0 =
     (let note = ''Progress note (auto-summary of earlier turns):'' @ [CHR 0x0A];
          content = (if prefix note content0 then drop (length note) content0 else content0);
          mark = [CHR 0x0A, CHR 0x0A] @ ''[BEGIN COMPACTION EVIDENCE]''
      in trim_space (case str_index content mark of None \<Rightarrow> content | Some i \<Rightarrow> take i content))"

section \<open>Streams\<close>

definition turnKey :: "event \<Rightarrow> gmap \<Rightarrow> string" where
  "turnKey e data = ev_RunID e @ '':'' @ itoa (num (gget data ''turn''))"

definition stream_rate :: "int \<Rightarrow> int \<Rightarrow> int" where
  \<comment> \<open>characters and milliseconds; tokens per second\<close>
  "stream_rate chars millis = go_round (fl (fl (of_int chars / fl (36 / 10)) / max (1 / 4) (fl (of_int millis / 1000))))"

definition new_stream :: "string \<Rightarrow> int \<Rightarrow> streamTelemetry" where
  "new_stream key now = \<lparr>tm_Key = key, tm_StartedAt = now, tm_LastChunkAt = now, tm_HasChunk = False, tm_ReasoningChars = 0, tm_TotalChars = 0,
     tm_Rate = 0, tm_RateStartedAt = now, tm_RateChars = 0, tm_Done = False, tm_ReasoningTokens = 0, tm_Timings = []\<rparr>"

definition touchStream :: "(string \<Rightarrow> int) \<Rightarrow> streamTelemetry option \<Rightarrow> event \<Rightarrow> gmap \<Rightarrow> bool \<Rightarrow> streamTelemetry" where
  "touchStream ms current e data delta =
     (let now = ms (ev_TS e); key = turnKey e data;
          value0 = (case current of Some v \<Rightarrow> v\<lparr>tm_Timings := obj (json_any (GMap (tm_Timings v)))\<rparr>
            | None \<Rightarrow> (new_stream [] 0));
          value1 = (if tm_Key value0 \<noteq> key then new_stream key now else value0)\<lparr>tm_LastChunkAt := now, tm_HasChunk := True\<rparr>
      in if \<not> delta then value1
         else let chars = int (rune_count (text_of data ''text''));
                  value2 = (if text_of data ''kind'' = ''reasoning'' then value1\<lparr>tm_ReasoningChars := tm_ReasoningChars value1 + chars\<rparr> else value1);
                  value3 = value2\<lparr>tm_TotalChars := tm_TotalChars value2 + chars\<rparr>;
                  value4 = (if 5000 < now - tm_RateStartedAt value3 then value3\<lparr>tm_RateStartedAt := now, tm_RateChars := 0\<rparr> else value3);
                  value5 = value4\<lparr>tm_RateChars := tm_RateChars value4 + chars\<rparr>
              in value5\<lparr>tm_Rate := stream_rate (tm_RateChars value5) (now - tm_RateStartedAt value5)\<rparr>)"

definition stream_event :: "string \<Rightarrow> event \<Rightarrow> bool" where
  "stream_event runID e \<longleftrightarrow> (ev_Type e = ''model.delta'' \<or> ev_Type e = ''model.progress'') \<and> ev_RunID e = runID"

definition discardStream :: "event list \<Rightarrow> string \<Rightarrow> int \<Rightarrow> event list" where
  "discardStream values runID turn = filter (\<lambda>e. \<not> (stream_event runID e \<and> num (gget (eventMap (ev_Data e)) ''turn'') = turn)) values"

definition discardRunStream :: "event list \<Rightarrow> string \<Rightarrow> event list" where
  "discardRunStream values runID = filter (\<lambda>e. \<not> stream_event runID e) values"

section \<open>Session and run events\<close>

definition keep_unless :: "string \<Rightarrow> string \<Rightarrow> string" where
  "keep_unless new old = (if new \<noteq> [] then new else old)"

definition on_updated :: "gmap \<Rightarrow> snapshot \<Rightarrow> snapshot" where
  "on_updated data sn =
     (let t = text_of data; set1 = (\<lambda>k old. if ghas data k then t k else old) in
      sn\<lparr>sn_AgentID := keep_unless (t ''agent_id'') (sn_AgentID sn), sn_ServerID := keep_unless (t ''server_id'') (sn_ServerID sn),
         sn_Role := keep_unless (t ''role'') (sn_Role sn), sn_PlanID := keep_unless (t ''plan_id'') (sn_PlanID sn),
         sn_PlanName := keep_unless (t ''plan_name'') (sn_PlanName sn), sn_PlanDir := keep_unless (t ''plan_dir'') (sn_PlanDir sn),
         sn_AgentName := keep_unless (t ''agent_name'') (sn_AgentName sn),
         sn_BProfile := keep_unless (keep_unless (t ''b_profile'') (t ''main_profile'')) (sn_BProfile sn),
         sn_Runnable := (if ghas data ''runnable'' then as_bool (gget data ''runnable'') else sn_Runnable sn),
         sn_NotRunnableReason := set1 ''not_runnable_reason'' (sn_NotRunnableReason sn),
         sn_MemoryPath := set1 ''memory_path'' (sn_MemoryPath sn), sn_MemoryContent := set1 ''memory_content'' (sn_MemoryContent sn)\<rparr>)"

definition appendUniqueStrings :: "string list \<Rightarrow> string list \<Rightarrow> string list" where
  "appendUniqueStrings values additions = fold (\<lambda>a vs. if a \<in> set vs then vs else vs @ [a]) additions values"

definition on_instructions :: "gmap \<Rightarrow> snapshot \<Rightarrow> snapshot" where
  "on_instructions data sn =
     (if \<not> as_bool (gget data ''lazy'') then sn
      else let block = text_of data ''block'' in
        sn\<lparr>sn_ProjectContent := (if block = [] then sn_ProjectContent sn
             else (if sn_ProjectContent sn \<noteq> [] then sn_ProjectContent sn @ [CHR 0x0A, CHR 0x0A] else []) @ block),
           sn_ProjectFiles := appendUniqueStrings (sn_ProjectFiles sn) (stringSlice (gget data ''files'')),
           sn_ProjectNotes := sn_ProjectNotes sn @ stringSlice (gget data ''notes'')\<rparr>)"

definition on_policy_approved :: "gval \<Rightarrow> gmap \<Rightarrow> snapshot \<Rightarrow> snapshot" where
  "on_policy_approved d data sn =
     (let j = json_any d;
          sn1 = (if policy_ok j then sn\<lparr>sn_RepoPolicy := Some (policy_into no_policy (obj j)), sn_PendingRepoPolicy := None\<rparr> else sn)
      in if gget data ''tools'' = GNil then sn1
         else case read_tools (gget data ''tools'') of Ok tools \<Rightarrow> sn1\<lparr>sn_Tools := tools\<rparr> | _ \<Rightarrow> sn1)"

definition on_workspace_bound :: "gmap \<Rightarrow> snapshot \<Rightarrow> snapshot" where
  "on_workspace_bound data sn =
     (let t = text_of data in
      sn\<lparr>sn_Workspace := t ''workspace_dir'', sn_WorkspaceDir := t ''workspace_dir'',
         sn_WorkspaceMissing := as_bool (gget data ''workspace_missing''), sn_ProjectContent := t ''project_content'',
         sn_ProjectFiles := stringSlice (gget data ''project_files''), sn_ProjectNotes := stringSlice (gget data ''project_notes''),
         sn_MemoryPath := t ''memory_path'', sn_MemoryContent := t ''memory_content'',
         sn_PendingRepoPolicy := policy_pointer (gget data ''pending_repo_policy'') (sn_PendingRepoPolicy sn),
         sn_RepoPolicy := policy_pointer (gget data ''repo_policy'') (sn_RepoPolicy sn),
         sn_Tools := (if gget data ''tools'' = GNil then sn_Tools sn else tools_into (gget data ''tools'') (sn_Tools sn))\<rparr>)"

definition bound_previous :: "gmap \<Rightarrow> snapshot \<Rightarrow> snapshot" where
  \<comment> \<open>what the same case leaves in the previous snapshot, which shares its policies and its tool list with the new one\<close>
  "bound_previous data sn =
     sn\<lparr>sn_PendingRepoPolicy := policy_written (gget data ''pending_repo_policy'') (sn_PendingRepoPolicy sn),
        sn_RepoPolicy := policy_written (gget data ''repo_policy'') (sn_RepoPolicy sn),
        sn_Tools := (if gget data ''tools'' = GNil then sn_Tools sn else tools_written (gget data ''tools'') (sn_Tools sn))\<rparr>"

definition filepathClean :: "string \<Rightarrow> string" where
  "filepathClean value = to_lower (map (\<lambda>c. if c = CHR ''/'' then CHR 0x5C else c) value)"

definition on_memory_cleared :: "gmap \<Rightarrow> snapshot \<Rightarrow> snapshot" where
  "on_memory_cleared data sn =
     (if equal_fold (filepathClean (text_of data ''dir'')) (filepathClean (sn_WorkspaceDir sn)) then sn\<lparr>sn_MemoryContent := []\<rparr> else sn)"

definition on_reset :: "gmap \<Rightarrow> snapshot \<Rightarrow> snapshot" where
  "on_reset data sn =
     sn\<lparr>sn_Messages := [], sn_Tools := map (\<lambda>t. t\<lparr>pt_Calls := 0\<rparr>) (sn_Tools sn), sn_QueuedMessages := 0, sn_ModelTurns := 0,
        sn_CompactionCount := 0, sn_CompactionTokenDelta := 0, sn_CompactionModelCalls := 0, sn_CompactionPrompt := 0,
        sn_CompactionCompletion := 0, sn_Run := idle_run\<lparr>rs_MaxTurns := rs_MaxTurns (sn_Run sn)\<rparr>, sn_Activity := no_activity,
        sn_Timeline := [], sn_Chat := [], sn_PendingApproval := None,
        sn_LogPath := keep_unless (text_of data ''log_path'') (sn_LogPath sn)\<rparr>"

definition on_run_queued :: "event \<Rightarrow> gmap \<Rightarrow> snapshot \<Rightarrow> snapshot" where
  "on_run_queued e data sn = sn\<lparr>sn_Run := (sn_Run sn)\<lparr>rs_Status := ''queued'', rs_RunID := firstString [gget data ''run_id'', GStr (ev_RunID e)],
     rs_QueuePosition := num (gget data ''position'')\<rparr>\<rparr>"

definition on_run_started :: "event \<Rightarrow> gmap \<Rightarrow> snapshot \<Rightarrow> snapshot" where
  "on_run_started e data sn =
     sn\<lparr>sn_Run := (sn_Run sn)\<lparr>rs_Status := ''running'', rs_RunID := firstString [gget data ''run_id'', GStr (ev_RunID e)], rs_Turn := 0,
          rs_QueuePosition := 0, rs_Partial := [], rs_LastStopReason := [], rs_LastStopDetail := [], rs_LastRunID := [],
          rs_ArmedDetectors := stringSlice (gget data ''armed_detectors''), rs_ResultLabel := []\<rparr>,
        sn_QueuedMessages := max 0 (sn_QueuedMessages sn - 1), sn_Activity := (sn_Activity sn)\<lparr>ac_DispatchAlarm := False\<rparr>\<rparr>"

definition on_run_stopped :: "event \<Rightarrow> gmap \<Rightarrow> snapshot \<Rightarrow> snapshot" where
  "on_run_stopped e data sn =
     (let reason = text_of data ''reason'' in
      sn\<lparr>sn_Run := emptyRunState\<lparr>rs_Status := (if as_bool (gget data ''queue_held'') then ''held'' else ''idle''),
           rs_MaxTurns := rs_MaxTurns (sn_Run sn), rs_QueuePosition := sn_QueuedMessages sn, rs_LastStopReason := reason,
           rs_LastStopDetail := text_of data ''detail'', rs_LastRunID := ev_RunID e, rs_ArmedDetectors := rs_ArmedDetectors (sn_Run sn)\<rparr>,
         sn_Activity := (sn_Activity sn)\<lparr>ac_Stage := ''wait_user'', ac_StageState := ''enter'', ac_ActiveTool := [],
           ac_DispatchAlarm := (ac_DispatchAlarm (sn_Activity sn) \<or> reason = ''tool_errors'')\<rparr>,
         sn_PendingApproval := (case sn_PendingApproval sn of Some p \<Rightarrow> if ch_RunID p = ev_RunID e then None else Some p | None \<Rightarrow> None)\<rparr>)"

definition available :: "gmap \<Rightarrow> modelAvailability" where
  "available data = \<lparr>ma_Host = text_of data ''host'', ma_Detail = text_of data ''detail''\<rparr>"

definition operator_grant :: "gmap \<Rightarrow> bool" where
  "operator_grant data \<longleftrightarrow> text_of data ''scope'' = ''session'' \<and> text_of data ''identity'' = ''operator''"

definition on_stage :: "gmap \<Rightarrow> snapshot \<Rightarrow> snapshot" where
  "on_stage data sn =
     (let stage = text_of data ''stage''; state = text_of data ''state''; a = (sn_Activity sn)\<lparr>ac_StageState := state\<rparr> in
      sn\<lparr>sn_Run := (sn_Run sn)\<lparr>rs_Turn := num (gget data ''turn'')\<rparr>,
         sn_Activity := (if state = ''enter''
           then a\<lparr>ac_Stage := stage, ac_CompletedStages := (if stage = ''assemble'' then [] else ac_CompletedStages a)\<rparr>
           else if stage \<in> set (ac_CompletedStages a) then a else a\<lparr>ac_CompletedStages := ac_CompletedStages a @ [stage]\<rparr>)\<rparr>)"

section \<open>Model and tool events\<close>

definition agent_entry :: "event \<Rightarrow> gmap \<Rightarrow> chatEntry" where
  "agent_entry e data = no_entry\<lparr>ch_Type := ''agent'', ch_Key := ''turn:'' @ turnKey e data, ch_RunID := ev_RunID e,
     ch_Turn := num (gget data ''turn''), ch_AgentRole := ''b''\<rparr>"

definition on_request :: "(string \<Rightarrow> int) \<Rightarrow> event \<Rightarrow> gmap \<Rightarrow> snapshot \<Rightarrow> snapshot" where
  "on_request ms e data sn = sn\<lparr>sn_Activity := (sn_Activity sn)\<lparr>ac_Stream := Some (new_stream (turnKey e data) (ms (ev_TS e)))\<rparr>,
     sn_Chat := appendChat (sn_Chat sn) (agent_entry e data)\<rparr>"

definition delta_entry :: "(string \<Rightarrow> int) \<Rightarrow> event \<Rightarrow> gmap \<Rightarrow> chatEntry \<Rightarrow> chatEntry" where
  "delta_entry ms e data c =
     (let kind = text_of data ''kind''; now = ms (ev_TS e) in
      if kind = ''reasoning'' then c\<lparr>ch_ThinkingStartedMS := (if ch_ThinkingStartedMS c = 0 then now else ch_ThinkingStartedMS c),
          ch_Reasoning := ch_Reasoning c @ text_of data ''text''\<rparr>
      else if kind = ''content'' then c\<lparr>ch_ThinkingEndedMS := (if 0 < ch_ThinkingStartedMS c \<and> ch_ThinkingEndedMS c = 0 then now else ch_ThinkingEndedMS c),
          ch_Text := ch_Text c @ text_of data ''text''\<rparr>
      else c)"

definition on_delta :: "(string \<Rightarrow> int) \<Rightarrow> event \<Rightarrow> gmap \<Rightarrow> snapshot \<Rightarrow> snapshot" where
  "on_delta ms e data sn =
     sn\<lparr>sn_Activity := (sn_Activity sn)\<lparr>ac_Stream := Some (touchStream ms (ac_Stream (sn_Activity sn)) e data True)\<rparr>,
        sn_Chat := update_last (is_turn (ev_RunID e) (num (gget data ''turn''))) (delta_entry ms e data) (cloneChat (sn_Chat sn)),
        sn_Run := (if text_of data ''kind'' = ''content''
          then (sn_Run sn)\<lparr>rs_Partial := rs_Partial (sn_Run sn) @ text_of data ''text''\<rparr> else sn_Run sn)\<rparr>"

definition response_entry :: "(string \<Rightarrow> int) \<Rightarrow> event \<Rightarrow> gmap \<Rightarrow> chatEntry \<Rightarrow> chatEntry" where
  "response_entry ms e data c =
     (let ended = (if 0 < ch_ThinkingStartedMS c \<and> ch_ThinkingEndedMS c = 0 then ms (ev_TS e) else ch_ThinkingEndedMS c) in
      c\<lparr>ch_Text := keep_unless (text_of data ''content'') (ch_Text c), ch_ReasoningTokens := num (gget data ''reasoning_tokens''),
        ch_ReasoningTokensEstimated := as_bool (gget data ''reasoning_tokens_estimated''), ch_Done := True, ch_ThinkingEndedMS := ended,
        ch_ThinkingMS := (if 0 < ch_ThinkingStartedMS c then Some (ended - ch_ThinkingStartedMS c) else ch_ThinkingMS c),
        ch_ToolCallIDs := ch_ToolCallIDs c @ map tc_ID (toolCalls (gget data ''tool_calls''))\<rparr>)"

definition on_response :: "(string \<Rightarrow> int) \<Rightarrow> event \<Rightarrow> gmap \<Rightarrow> snapshot \<Rightarrow> snapshot" where
  "on_response ms e data sn =
     (let timings = eventMap (gget data ''timings''); here = is_turn (ev_RunID e) (num (gget data ''turn'')); chat = cloneChat (sn_Chat sn) in
      sn\<lparr>sn_Run := (sn_Run sn)\<lparr>rs_Partial := []\<rparr>, sn_ModelTurns := sn_ModelTurns sn + 1,
         sn_Activity := (sn_Activity sn)\<lparr>ac_LastTimings := timings,
           ac_Stream := Some ((touchStream ms (ac_Stream (sn_Activity sn)) e data False)\<lparr>tm_Done := True,
             tm_ReasoningTokens := num (gget data ''reasoning_tokens''), tm_Timings := timings\<rparr>)\<rparr>,
         sn_Chat := update_last here (response_entry ms e data)
           (if \<exists>c \<in> set chat. here c then chat else chat @ [agent_entry e data])\<rparr>)"

definition on_tool_call :: "gmap \<Rightarrow> snapshot \<Rightarrow> snapshot" where
  "on_tool_call data sn =
     sn\<lparr>sn_Activity := (sn_Activity sn)\<lparr>ac_ActiveTool := text_of data ''name''\<rparr>,
        sn_Chat := appendChat (sn_Chat sn) (no_entry\<lparr>ch_Type := ''tool'', ch_Key := ''tool:'' @ text_of data ''call_id'',
          ch_CallID := text_of data ''call_id'', ch_Name := text_of data ''name'', ch_Args := Some (eventMap (gget data ''args''))\<rparr>)\<rparr>"

definition on_tool_result :: "gmap \<Rightarrow> snapshot \<Rightarrow> snapshot" where
  "on_tool_result data sn =
     sn\<lparr>sn_Activity := (sn_Activity sn)\<lparr>ac_ActiveTool := []\<rparr>,
        sn_Tools := update_first (\<lambda>t. pt_Name t = text_of data ''name'') (\<lambda>t. t\<lparr>pt_Calls := pt_Calls t + 1\<rparr>) (sn_Tools sn),
        sn_Chat := update_last (is_call (text_of data ''call_id'')) (\<lambda>c. c\<lparr>ch_Result := data, ch_Content := text_of data ''preview''\<rparr>)
          (cloneChat (sn_Chat sn))\<rparr>"

definition on_tool_toggled :: "gmap \<Rightarrow> snapshot \<Rightarrow> snapshot" where
  "on_tool_toggled data sn = sn\<lparr>sn_Tools := update_first (\<lambda>t. pt_Name t = text_of data ''name'')
     (\<lambda>t. t\<lparr>pt_Enabled := as_bool (gget data ''enabled'')\<rparr>) (sn_Tools sn)\<rparr>"

section \<open>Messages\<close>

definition insert_message :: "message \<Rightarrow> message list \<Rightarrow> message list" where
  \<comment> \<open>a summary goes behind the first message\<close>
  "insert_message m ms = (if msg_Category m = ''summary'' then take 1 ms @ m # drop 1 ms else ms @ [m])"

definition message_chat :: "message \<Rightarrow> chatEntry list \<Rightarrow> chatEntry list" where
  "message_chat m chat =
     (let key = ''message:'' @ msg_ID m;
          chat1 = (if msg_Category m = ''summary'' then chat @ [no_entry\<lparr>ch_Type := ''summary'', ch_Key := key, ch_Text := summaryTranscript (msg_Content m)\<rparr>]
            else if msg_Role m = ''user'' then chat @ [no_entry\<lparr>ch_Type := ''user'', ch_Key := key, ch_Text := msg_Content m, ch_Attachments := msg_Attachments m\<rparr>]
            else chat);
          chat2 = (if msg_Role m = ''assistant'' then update_last (is_turn_any (msg_Turn m)) (\<lambda>c. c\<lparr>ch_Text := keep_unless (msg_Content m) (ch_Text c),
              ch_Reasoning := msg_Reasoning m, ch_ToolCallIDs := map tc_ID (msg_ToolCalls m), ch_Done := True\<rparr>) chat1 else chat1)
      in if msg_Role m = ''tool'' then update_last (is_call (msg_ToolCallID m)) (\<lambda>c. c\<lparr>ch_Content := msg_Content m\<rparr>) chat2 else chat2)"

definition on_appended :: "gval \<Rightarrow> snapshot \<Rightarrow> snapshot gores" where
  "on_appended d sn = gores_bind (unmarshal (is_obj (conforms [(''message'', message_ok)])) (\<lambda>v. message_of (gget (obj v) ''message'')) d)
     (\<lambda>m. Ok (sn\<lparr>sn_Messages := insert_message m (sn_Messages sn), sn_Chat := message_chat m (cloneChat (sn_Chat sn))\<rparr>))"

definition patch_message :: "gmap \<Rightarrow> message \<Rightarrow> message" where
  "patch_message patch m =
     m\<lparr>msg_Content := (if ghas patch ''content'' then text_of patch ''content'' else msg_Content m),
       msg_Tokens := (if ghas patch ''tokens'' then num (gget patch ''tokens'') else msg_Tokens m),
       msg_Elided := (if ghas patch ''elided'' then as_bool (gget patch ''elided'') else msg_Elided m),
       msg_ToolCalls := (if ghas patch ''tool_calls'' then toolCalls (gget patch ''tool_calls'') else msg_ToolCalls m)\<rparr>"

definition on_message_updated :: "gmap \<Rightarrow> snapshot \<Rightarrow> snapshot" where
  "on_message_updated data sn =
     (let patch = eventMap (gget data ''patch''); hit = (\<lambda>m. msg_ID m = text_of data ''id'') in
      sn\<lparr>sn_Messages := map (\<lambda>m. if hit m then patch_message patch m else m) (sn_Messages sn),
         sn_Chat := (if ghas patch ''tool_calls''
           then fold (\<lambda>m chat. update_last (is_turn_any (msg_Turn m)) (\<lambda>c. c\<lparr>ch_ToolCallIDs := []\<rparr>) (cloneChat chat))
             (filter hit (sn_Messages sn)) (sn_Chat sn)
           else sn_Chat sn)\<rparr>)"

definition on_message_removed :: "gmap \<Rightarrow> snapshot \<Rightarrow> snapshot" where
  "on_message_removed data sn =
     (let mid = text_of data ''id''; hits = filter (\<lambda>m. msg_ID m = mid) (sn_Messages sn);
          removed = (if hits = [] then emptyMessage else last hits); chat = cloneChat (sn_Chat sn) in
      sn\<lparr>sn_Messages := filter (\<lambda>m. msg_ID m \<noteq> mid) (sn_Messages sn),
         sn_Chat := (if msg_Category removed = ''summary'' \<or> msg_Role removed = ''user'' then removeChatKey chat (''message:'' @ msg_ID removed)
           else if msg_Role removed = ''tool'' then removeChatKey chat (''tool:'' @ msg_ToolCallID removed)
           else if msg_Role removed = ''assistant'' then removeAssistantTurn chat (msg_Turn removed) else chat)\<rparr>)"

definition assign_tool :: "budget \<Rightarrow> projTool \<Rightarrow> projTool" where
  "assign_tool bu t = t\<lparr>pt_SchemaTokens := (case map_of (bu_ToolSchemaTokens bu) (pt_Name t) of Some n \<Rightarrow> n | None \<Rightarrow> pt_SchemaTokens t),
     pt_MarginalTokens := (case map_of (bu_ToolMarginalTokens bu) (pt_Name t) of Some n \<Rightarrow> n | None \<Rightarrow> pt_MarginalTokens t)\<rparr>"

definition on_budget :: "gval \<Rightarrow> snapshot \<Rightarrow> snapshot gores" where
  "on_budget d sn = gores_bind (unmarshal budget_ok read_budget d) (\<lambda>bu. Ok (sn\<lparr>sn_Budget := bu, sn_Tools := map (assign_tool bu) (sn_Tools sn)\<rparr>))"

section \<open>Approvals, compaction, memory\<close>

definition event_key :: "event \<Rightarrow> string" where
  "event_key e = ''event:'' @ itoa (ev_Seq e)"

definition on_approval_required :: "event \<Rightarrow> snapshot \<Rightarrow> snapshot" where
  "on_approval_required e sn = sn\<lparr>sn_Run := (sn_Run sn)\<lparr>rs_Status := ''paused''\<rparr>,
     sn_PendingApproval := Some (no_entry\<lparr>ch_Type := ''notice'', ch_Key := event_key e, ch_RunID := ev_RunID e, ch_Event := Some e\<rparr>)\<rparr>"

definition entry_call :: "chatEntry \<Rightarrow> string option" where
  "entry_call c = map_option (\<lambda>e. text_of (eventMap (ev_Data e)) ''call_id'') (ch_Event c)"

definition on_approval_decided :: "gmap \<Rightarrow> snapshot \<Rightarrow> snapshot" where
  "on_approval_decided data sn =
     (let decision = text_of data ''decision''; callID = text_of data ''call_id'' in
      sn\<lparr>sn_Run := (if decision \<noteq> ''superseded'' \<and> decision \<noteq> ''dismissed'' then (sn_Run sn)\<lparr>rs_Status := ''running''\<rparr> else sn_Run sn),
         sn_Chat := update_last (\<lambda>c. ch_Type c = ''notice'' \<and> entry_call c = Some callID) (\<lambda>c. c\<lparr>ch_Decision := decision\<rparr>) (cloneChat (sn_Chat sn)),
         sn_PendingApproval := (case sn_PendingApproval sn of Some p \<Rightarrow> if entry_call p = Some callID then None else Some p | None \<Rightarrow> None)\<rparr>)"

definition on_compaction :: "gmap \<Rightarrow> snapshot \<Rightarrow> snapshot" where
  "on_compaction data sn =
     sn\<lparr>sn_Activity := (sn_Activity sn)\<lparr>ac_CompactionSerial := ac_CompactionSerial (sn_Activity sn) + 1\<rparr>,
        sn_CompactionCount := sn_CompactionCount sn + 1,
        sn_CompactionTokenDelta := sn_CompactionTokenDelta sn + (num (gget data ''after'') - num (gget data ''before'')),
        sn_Messages := (if text_of data ''kind'' = ''summarize''
          then filter (\<lambda>m. msg_ID m \<notin> set (stringValues (gget data ''affected_ids''))) (sn_Messages sn) else sn_Messages sn)\<rparr>"

definition on_summary :: "gval \<Rightarrow> snapshot \<Rightarrow> snapshot gores" where
  "on_summary d sn = gores_bind (unmarshal summary_ok summary_of d) (\<lambda>attempt. Ok
     (if cs_Dispatched attempt then sn\<lparr>sn_CompactionModelCalls := sn_CompactionModelCalls sn + 1,
        sn_CompactionPrompt := sn_CompactionPrompt sn + mu_PromptTokens (cs_Usage attempt),
        sn_CompactionCompletion := sn_CompactionCompletion sn + mu_CompletionTokens (cs_Usage attempt)\<rparr> else sn))"

definition noted :: "string \<Rightarrow> string \<Rightarrow> string" where
  "noted content note = trim_right_set [CHR 0x0D, CHR 0x0A] content @ [CHR 0x0A] @ ''- '' @ note @ [CHR 0x0A]"

definition on_memory_noted :: "gmap \<Rightarrow> snapshot \<Rightarrow> snapshot" where
  "on_memory_noted data sn =
     (if text_of data ''target'' = ''agent''
      then sn\<lparr>sn_AgentMemoryPath := keep_unless (text_of data ''path'') (sn_AgentMemoryPath sn),
              sn_AgentMemoryContent := noted (sn_AgentMemoryContent sn) (text_of data ''note'')\<rparr>
      else sn\<lparr>sn_MemoryPath := keep_unless (text_of data ''path'') (sn_MemoryPath sn),
              sn_MemoryContent := noted (sn_MemoryContent sn) (text_of data ''note'')\<rparr>)"

section \<open>The step\<close>

definition on_created :: "event \<Rightarrow> projCursor \<Rightarrow> snapshot gores" where
  "on_created e cursor = gores_bind (unmarshal (is_obj (conforms [(''session'', seed_ok)])) (\<lambda>v. seed_snapshot (gget (obj v) ''session'') cursor) (ev_Data e))
     (\<lambda>sn. Ok (if ev_SessionID e \<noteq> [] then sn\<lparr>sn_ID := ev_SessionID e\<rparr> else sn))"

definition on_session_event :: "event \<Rightarrow> gmap \<Rightarrow> snapshot \<Rightarrow> snapshot" where
  \<comment> \<open>the cases of the switch about the session, its workspace and its approvals\<close>
  "on_session_event e data sn =
     (let ty = ev_Type e in
      if ty = ''session.renamed'' then sn\<lparr>sn_Label := text_of data ''label'', sn_NamePinned := (sn_NamePinned sn \<or> text_of data ''by'' = ''user'')\<rparr>
      else if ty = ''session.updated'' then on_updated data sn
      else if ty = ''project.instructions_loaded'' then on_instructions data sn
      else if ty = ''policy.approved'' then on_policy_approved (ev_Data e) data sn
      else if ty = ''policy.revoked'' then sn\<lparr>sn_RepoPolicy := None\<rparr>
      else if ty = ''policy.denied'' then sn\<lparr>sn_PendingRepoPolicy := None\<rparr>
      else if ty = ''workspace.bound'' then on_workspace_bound data sn
      else if ty = ''memory.cleared'' then on_memory_cleared data sn
      else if ty = ''memory.noted'' then on_memory_noted data sn
      else if ty = ''session.reset'' then on_reset data sn
      else if ty = ''session.closed'' then sn\<lparr>sn_Closed := True\<rparr>
      else if ty = ''session.reopened'' then sn\<lparr>sn_Closed := False, sn_RunAsYou := False\<rparr>
      else if ty = ''shell.grant'' \<or> ty = ''file.grant'' then sn\<lparr>sn_RunAsYou := (sn_RunAsYou sn \<or> operator_grant data)\<rparr>
      else if ty = ''shell.grant_lapsed'' \<or> ty = ''file.grant_lapsed'' then sn\<lparr>sn_RunAsYou := (sn_RunAsYou sn \<and> \<not> operator_grant data)\<rparr>
      else if ty = ''approval.required'' then on_approval_required e sn
      else if ty = ''approval.decided'' then on_approval_decided data sn
      else sn)"

definition on_run_event :: "(string \<Rightarrow> int) \<Rightarrow> event \<Rightarrow> gmap \<Rightarrow> snapshot \<Rightarrow> snapshot" where
  \<comment> \<open>the cases about runs, the model, tools and messages\<close>
  "on_run_event ms e data sn =
     (let ty = ev_Type e in
      if ty = ''run.queued'' then on_run_queued e data sn
      else if ty = ''run.started'' then on_run_started e data sn
      else if ty = ''run.stopping'' then sn\<lparr>sn_Run := (sn_Run sn)\<lparr>rs_Status := ''stopping''\<rparr>\<rparr>
      else if ty = ''run.stopped'' then on_run_stopped e data sn
      else if ty = ''run.labeled'' then (if ev_RunID e = rs_LastRunID (sn_Run sn)
        then sn\<lparr>sn_Run := (sn_Run sn)\<lparr>rs_ResultLabel := text_of data ''label''\<rparr>\<rparr> else sn)
      else if ty = ''model.unreachable'' then sn\<lparr>sn_ModelUnreachable := Some (available data), sn_ModelBusy := None\<rparr>
      else if ty = ''model.busy'' then sn\<lparr>sn_ModelBusy := Some (available data)\<rparr>
      else if ty = ''model.reachable'' then sn\<lparr>sn_Chat := (case sn_ModelUnreachable sn of None \<Rightarrow> sn_Chat sn
          | Some u \<Rightarrow> resolveModelUnreachableNotice (sn_Chat sn) (ma_Host u)), sn_ModelUnreachable := None, sn_ModelBusy := None\<rparr>
      else if ty = ''stage'' then on_stage data sn
      else if ty = ''model.request'' then on_request ms e data sn
      else if ty = ''model.progress'' then sn\<lparr>sn_Activity := (sn_Activity sn)\<lparr>ac_Progress := data,
          ac_Stream := Some (touchStream ms (ac_Stream (sn_Activity sn)) e data False)\<rparr>\<rparr>
      else if ty = ''model.delta'' then on_delta ms e data sn
      else if ty = ''model.response'' then on_response ms e data sn
      else if ty = ''tool.call'' then on_tool_call data sn
      else if ty = ''tool.result'' then on_tool_result data sn
      else if ty = ''tool.toggled'' then on_tool_toggled data sn
      else if ty = ''message.updated'' then on_message_updated data sn
      else if ty = ''message.removed'' then on_message_removed data sn
      else if ty = ''message.queued'' then sn\<lparr>sn_QueuedMessages := sn_QueuedMessages sn + 1\<rparr>
      else if ty = ''cycle.detected'' then sn\<lparr>sn_Activity := (sn_Activity sn)\<lparr>ac_DispatchAlarm := True\<rparr>\<rparr>
      else if ty = ''workspace.conflict'' then sn\<lparr>sn_Activity := (sn_Activity sn)\<lparr>ac_AlarmTool := ac_ActiveTool (sn_Activity sn)\<rparr>\<rparr>
      else if ty = ''compaction'' then on_compaction data sn
      else on_session_event e data sn)"

definition on_event :: "(string \<Rightarrow> int) \<Rightarrow> projCursor \<Rightarrow> event \<Rightarrow> snapshot \<Rightarrow> snapshot gores" where
  "on_event ms cursor e sn =
     (let ty = ev_Type e in
      if ty = ''session.created'' then on_created e cursor
      else if ty = ''message.appended'' then on_appended (ev_Data e) sn
      else if ty = ''budget'' then on_budget (ev_Data e) sn
      else if ty = ''compaction.summary'' then on_summary (ev_Data e) sn
      else Ok (on_run_event ms e (eventMap (ev_Data e)) sn))"

definition add_notice :: "event \<Rightarrow> snapshot \<Rightarrow> snapshot" where
  "add_notice e sn =
     (if ev_Type e \<notin> set notice_types then sn
      else let data = eventMap (ev_Data e); role = text_of data ''role'';
               entry = no_entry\<lparr>ch_Type := ''notice'', ch_Key := event_key e, ch_RunID := ev_RunID e, ch_Event := Some e,
                 ch_AgentRole := (if role = ''c'' \<or> role = ''aux'' then ''c'' else [])\<rparr>
           in sn\<lparr>sn_Chat := (case sn_ModelUnreachable sn of
                Some u \<Rightarrow> if ev_Type e = ''run.stopped'' \<and> text_of data ''reason'' = ''model_unreachable''
                  then upsertModelUnreachableNotice (sn_Chat sn) (entry\<lparr>ch_Text := ma_Host u\<rparr>) else appendChat (sn_Chat sn) entry
              | None \<Rightarrow> appendChat (sn_Chat sn) entry)\<rparr>)"

definition finish_entries :: "event \<Rightarrow> snapshot \<Rightarrow> snapshot" where
  \<comment> \<open>a stopped run leaves no entry open\<close>
  "finish_entries e sn =
     (if ev_Type e \<noteq> ''run.stopped'' then sn
      else sn\<lparr>sn_Chat := map (\<lambda>c. if ch_Type c = ''agent'' \<and> ch_RunID c = ev_RunID e then c\<lparr>ch_Done := True\<rparr> else c) (cloneChat (sn_Chat sn))\<rparr>)"

definition add_timeline :: "event \<Rightarrow> snapshot \<Rightarrow> snapshot" where
  "add_timeline e sn =
     (let all = sn_Timeline sn @ [e] in
      sn\<lparr>sn_Timeline := (if ev_Type e = ''model.response'' then discardStream all (ev_RunID e) (num (gget (eventMap (ev_Data e)) ''turn''))
         else if ev_Type e = ''run.stopped'' then discardRunStream all (ev_RunID e) else all)\<rparr>)"

definition named :: "event \<Rightarrow> snapshot \<Rightarrow> snapshot" where
  "named e sn = (if sn_ID sn = [] then sn\<lparr>sn_ID := ev_SessionID e, sn_Label := ev_SessionID e\<rparr> else sn)"

definition project :: "(string \<Rightarrow> int) \<Rightarrow> snapshot \<Rightarrow> projCursor \<Rightarrow> event \<Rightarrow> snapshot gores" where
  \<comment> \<open>the state that \<^verbatim>\<open>Next\<close> returns\<close>
  "project ms sn cursor e = gores_bind (on_event ms cursor e (named e (sn\<lparr>sn_SchemaVersion := SchemaVersion, sn_Cursor := cursor\<rparr>)))
     (\<lambda>sn1. Ok ((add_timeline e (finish_entries e (add_notice e sn1)))\<lparr>sn_Cursor := cursor\<rparr>))"

definition previous_after :: "event \<Rightarrow> snapshot \<Rightarrow> snapshot" where
  \<comment> \<open>the previous snapshot when \<^verbatim>\<open>Next\<close> compares it with the new one\<close>
  "previous_after e sn = (if ev_Type e = ''workspace.bound'' then bound_previous (eventMap (ev_Data e)) sn else sn)"

primrec project_all :: "(string \<Rightarrow> int) \<Rightarrow> snapshot \<Rightarrow> (projCursor \<times> event) list \<Rightarrow> snapshot gores" where
  \<comment> \<open>the loop of \<^verbatim>\<open>ProjectFile\<close>\<close>
  "project_all ms sn [] = Ok sn"
| "project_all ms sn (r # rs) = gores_bind (project ms sn (fst r) (snd r)) (\<lambda>sn1. project_all ms sn1 rs)"

end
