(* ===== verification/Projection_Patch.thy ===== *)
theory Projection_Patch
  imports Projector
begin

text \<open>
  Patches: \<^verbatim>\<open>diff\<close> of \<^verbatim>\<open>internal/projection/projector.go\<close>, which a server sends after every event, and the client that
  applies them (\<^verbatim>\<open>applyProjectionPatch\<close> and \<^verbatim>\<open>applyOperation\<close> of \<^verbatim>\<open>web/js/bus.js\<close>).

  \<open>pvalue\<close> is a marshalled value with its type; two values are \<^verbatim>\<open>reflect.DeepEqual\<close> when they are equal (a nil and an
  empty slice count as equal).  \<open>snapshot_fields\<close> is the table of \<^verbatim>\<open>diff\<close>: a path, how to read the field and how a
  client writes it.  The client model takes a session the client knows and covers the operations and paths the
  projector emits; \<open>None\<close> is a client that asks for a fresh snapshot (an entry that is not there, a path outside that range).
\<close>

section \<open>Patches\<close>

datatype pvalue =
    PBool (of_PBool: bool)
  | PInt (of_PInt: int)
  | PStr (of_PStr: string)
  | PStrs (of_PStrs: "string list")
  | PPolicy (of_PPolicy: "projPolicy option")
  | PTools (of_PTools: "projTool list")
  | PMessages (of_PMessages: "message list")
  | PBudget (of_PBudget: budget)
  | PActivity (of_PActivity: activity)
  | PApproval (of_PApproval: "chatEntry option")
  | PAvailability (of_PAvailability: "modelAvailability option")
  | PRun (of_PRun: runState)
  | PEntry (of_PEntry: chatEntry)
  | PChat (of_PChat: "chatEntry list")
  | PEvent (of_PEvent: event)
  | PTimeline (of_PTimeline: "event list")

record operation =
  op_Op :: string
  op_Path :: string
  op_Value :: pvalue

record patch =
  pa_SchemaVersion :: int
  pa_SessionID :: string
  pa_PreviousCursor :: projCursor
  pa_Cursor :: projCursor
  pa_Operations :: "operation list"

type_synonym field = "string \<times> (snapshot \<Rightarrow> pvalue) \<times> (pvalue \<Rightarrow> snapshot \<Rightarrow> snapshot)"

definition snapshot_fields :: "field list" where
  "snapshot_fields =
    [(''complete'', \<lambda>s. PBool (sn_Complete s), \<lambda>v. sn_Complete_update (\<lambda>_. of_PBool v)),
     (''id'', \<lambda>s. PStr (sn_ID s), \<lambda>v. sn_ID_update (\<lambda>_. of_PStr v)),
     (''label'', \<lambda>s. PStr (sn_Label s), \<lambda>v. sn_Label_update (\<lambda>_. of_PStr v)),
     (''agent_id'', \<lambda>s. PStr (sn_AgentID s), \<lambda>v. sn_AgentID_update (\<lambda>_. of_PStr v)),
     (''server_id'', \<lambda>s. PStr (sn_ServerID s), \<lambda>v. sn_ServerID_update (\<lambda>_. of_PStr v)),
     (''agent_name'', \<lambda>s. PStr (sn_AgentName s), \<lambda>v. sn_AgentName_update (\<lambda>_. of_PStr v)),
     (''b_profile'', \<lambda>s. PStr (sn_BProfile s), \<lambda>v. sn_BProfile_update (\<lambda>_. of_PStr v)),
     (''role'', \<lambda>s. PStr (sn_Role s), \<lambda>v. sn_Role_update (\<lambda>_. of_PStr v)),
     (''plan_id'', \<lambda>s. PStr (sn_PlanID s), \<lambda>v. sn_PlanID_update (\<lambda>_. of_PStr v)),
     (''plan_name'', \<lambda>s. PStr (sn_PlanName s), \<lambda>v. sn_PlanName_update (\<lambda>_. of_PStr v)),
     (''plan_dir'', \<lambda>s. PStr (sn_PlanDir s), \<lambda>v. sn_PlanDir_update (\<lambda>_. of_PStr v)),
     (''plan_repo'', \<lambda>s. PStr (sn_PlanRepo s), \<lambda>v. sn_PlanRepo_update (\<lambda>_. of_PStr v)),
     (''created_at'', \<lambda>s. PStr (sn_CreatedAt s), \<lambda>v. sn_CreatedAt_update (\<lambda>_. of_PStr v)),
     (''workspace'', \<lambda>s. PStr (sn_Workspace s), \<lambda>v. sn_Workspace_update (\<lambda>_. of_PStr v)),
     (''workspace_dir'', \<lambda>s. PStr (sn_WorkspaceDir s), \<lambda>v. sn_WorkspaceDir_update (\<lambda>_. of_PStr v)),
     (''workspace_missing'', \<lambda>s. PBool (sn_WorkspaceMissing s), \<lambda>v. sn_WorkspaceMissing_update (\<lambda>_. of_PBool v)),
     (''scratch'', \<lambda>s. PBool (sn_Scratch s), \<lambda>v. sn_Scratch_update (\<lambda>_. of_PBool v)),
     (''project_content'', \<lambda>s. PStr (sn_ProjectContent s), \<lambda>v. sn_ProjectContent_update (\<lambda>_. of_PStr v)),
     (''project_files'', \<lambda>s. PStrs (sn_ProjectFiles s), \<lambda>v. sn_ProjectFiles_update (\<lambda>_. of_PStrs v)),
     (''project_notes'', \<lambda>s. PStrs (sn_ProjectNotes s), \<lambda>v. sn_ProjectNotes_update (\<lambda>_. of_PStrs v)),
     (''pending_repo_policy'', \<lambda>s. PPolicy (sn_PendingRepoPolicy s), \<lambda>v. sn_PendingRepoPolicy_update (\<lambda>_. of_PPolicy v)),
     (''repo_policy'', \<lambda>s. PPolicy (sn_RepoPolicy s), \<lambda>v. sn_RepoPolicy_update (\<lambda>_. of_PPolicy v)),
     (''tools'', \<lambda>s. PTools (sn_Tools s), \<lambda>v. sn_Tools_update (\<lambda>_. of_PTools v)),
     (''messages'', \<lambda>s. PMessages (sn_Messages s), \<lambda>v. sn_Messages_update (\<lambda>_. of_PMessages v)),
     (''budget'', \<lambda>s. PBudget (sn_Budget s), \<lambda>v. sn_Budget_update (\<lambda>_. of_PBudget v)),
     (''queued_messages'', \<lambda>s. PInt (sn_QueuedMessages s), \<lambda>v. sn_QueuedMessages_update (\<lambda>_. of_PInt v)),
     (''runnable'', \<lambda>s. PBool (sn_Runnable s), \<lambda>v. sn_Runnable_update (\<lambda>_. of_PBool v)),
     (''not_runnable_reason'', \<lambda>s. PStr (sn_NotRunnableReason s), \<lambda>v. sn_NotRunnableReason_update (\<lambda>_. of_PStr v)),
     (''memory_path'', \<lambda>s. PStr (sn_MemoryPath s), \<lambda>v. sn_MemoryPath_update (\<lambda>_. of_PStr v)),
     (''memory_content'', \<lambda>s. PStr (sn_MemoryContent s), \<lambda>v. sn_MemoryContent_update (\<lambda>_. of_PStr v)),
     (''agent_memory_path'', \<lambda>s. PStr (sn_AgentMemoryPath s), \<lambda>v. sn_AgentMemoryPath_update (\<lambda>_. of_PStr v)),
     (''agent_memory_content'', \<lambda>s. PStr (sn_AgentMemoryContent s), \<lambda>v. sn_AgentMemoryContent_update (\<lambda>_. of_PStr v)),
     (''log_path'', \<lambda>s. PStr (sn_LogPath s), \<lambda>v. sn_LogPath_update (\<lambda>_. of_PStr v)),
     (''model_turns'', \<lambda>s. PInt (sn_ModelTurns s), \<lambda>v. sn_ModelTurns_update (\<lambda>_. of_PInt v)),
     (''compaction_count'', \<lambda>s. PInt (sn_CompactionCount s), \<lambda>v. sn_CompactionCount_update (\<lambda>_. of_PInt v)),
     (''compaction_token_delta'', \<lambda>s. PInt (sn_CompactionTokenDelta s), \<lambda>v. sn_CompactionTokenDelta_update (\<lambda>_. of_PInt v)),
     (''compaction_model_calls'', \<lambda>s. PInt (sn_CompactionModelCalls s), \<lambda>v. sn_CompactionModelCalls_update (\<lambda>_. of_PInt v)),
     (''compaction_prompt_tokens'', \<lambda>s. PInt (sn_CompactionPrompt s), \<lambda>v. sn_CompactionPrompt_update (\<lambda>_. of_PInt v)),
     (''compaction_completion_tokens'', \<lambda>s. PInt (sn_CompactionCompletion s), \<lambda>v. sn_CompactionCompletion_update (\<lambda>_. of_PInt v)),
     (''activity'', \<lambda>s. PActivity (sn_Activity s), \<lambda>v. sn_Activity_update (\<lambda>_. of_PActivity v)),
     (''pending_approval'', \<lambda>s. PApproval (sn_PendingApproval s), \<lambda>v. sn_PendingApproval_update (\<lambda>_. of_PApproval v)),
     (''model_unreachable'', \<lambda>s. PAvailability (sn_ModelUnreachable s), \<lambda>v. sn_ModelUnreachable_update (\<lambda>_. of_PAvailability v)),
     (''model_busy'', \<lambda>s. PAvailability (sn_ModelBusy s), \<lambda>v. sn_ModelBusy_update (\<lambda>_. of_PAvailability v)),
     (''run_as_you'', \<lambda>s. PBool (sn_RunAsYou s), \<lambda>v. sn_RunAsYou_update (\<lambda>_. of_PBool v)),
     (''closed'', \<lambda>s. PBool (sn_Closed s), \<lambda>v. sn_Closed_update (\<lambda>_. of_PBool v)),
     (''name_pinned'', \<lambda>s. PBool (sn_NamePinned s), \<lambda>v. sn_NamePinned_update (\<lambda>_. of_PBool v)),
     (''projection_stale'', \<lambda>s. PBool (sn_Stale s), \<lambda>v. sn_Stale_update (\<lambda>_. of_PBool v)),
     (''projection_stale_reason'', \<lambda>s. PStr (sn_StaleReason s), \<lambda>v. sn_StaleReason_update (\<lambda>_. of_PStr v))]"

definition pointer :: "string \<Rightarrow> string" where
  "pointer value = replace_all (replace_all value ''~'' ''~0'') ''/'' ''~1''"

definition diffRun :: "runState \<Rightarrow> runState \<Rightarrow> operation list" where
  "diffRun before after =
     (if before = after then []
      else if before\<lparr>rs_Partial := []\<rparr> = after\<lparr>rs_Partial := []\<rparr> \<and> prefix (rs_Partial before) (rs_Partial after)
      then [\<lparr>op_Op = ''append'', op_Path = ''/run/partial'', op_Value = PStr (drop (length (rs_Partial before)) (rs_Partial after))\<rparr>]
      else [\<lparr>op_Op = ''replace'', op_Path = ''/run'', op_Value = PRun after\<rparr>])"

definition upsert :: "chatEntry \<Rightarrow> operation" where
  "upsert e = \<lparr>op_Op = ''upsert'', op_Path = ''/chat/'' @ pointer (ch_Key e), op_Value = PEntry e\<rparr>"

definition append_text :: "chatEntry \<Rightarrow> string \<Rightarrow> string \<Rightarrow> string \<Rightarrow> operation" where
  "append_text e field old new =
     \<lparr>op_Op = ''append'', op_Path = ''/chat/'' @ pointer (ch_Key e) @ ''/'' @ field, op_Value = PStr (drop (length old) new)\<rparr>"

definition diff_last :: "chatEntry \<Rightarrow> chatEntry \<Rightarrow> operation" where
  \<comment> \<open>only the last entry changed and it kept its key\<close>
  "diff_last left right =
     (if left\<lparr>ch_Reasoning := []\<rparr> = right\<lparr>ch_Reasoning := []\<rparr> \<and> prefix (ch_Reasoning left) (ch_Reasoning right)
      then append_text right ''reasoning'' (ch_Reasoning left) (ch_Reasoning right)
      else if left\<lparr>ch_Text := []\<rparr> = right\<lparr>ch_Text := []\<rparr> \<and> prefix (ch_Text left) (ch_Text right)
      then append_text right ''text'' (ch_Text left) (ch_Text right)
      else upsert right)"

definition diffChat :: "chatEntry list \<Rightarrow> chatEntry list \<Rightarrow> operation list" where
  "diffChat before after =
     (if before = after then []
      else if length after = length before + 1 \<and> before = butlast after
      then [\<lparr>op_Op = ''append'', op_Path = ''/chat'', op_Value = PEntry (last after)\<rparr>]
      else if length after = length before \<and> after \<noteq> [] \<and> butlast before = butlast after \<and> ch_Key (last before) = ch_Key (last after)
      then [diff_last (last before) (last after)]
      else if length after = length before \<and> map ch_Key before = map ch_Key after
      then map (upsert \<circ> snd) (filter (\<lambda>(a, b). a \<noteq> b) (zip before after))
      else [\<lparr>op_Op = ''replace'', op_Path = ''/chat'', op_Value = PChat after\<rparr>])"

definition diffTimeline :: "event list \<Rightarrow> event list \<Rightarrow> operation list" where
  "diffTimeline before after =
     (if before = after then []
      else if length after = length before + 1 \<and> before = butlast after
      then [\<lparr>op_Op = ''append'', op_Path = ''/timeline'', op_Value = PEvent (last after)\<rparr>]
      else [\<lparr>op_Op = ''replace'', op_Path = ''/timeline'', op_Value = PTimeline after\<rparr>])"

definition changed_fields :: "field list \<Rightarrow> snapshot \<Rightarrow> snapshot \<Rightarrow> operation list" where
  "changed_fields fs before after = concat (map (\<lambda>(k, g, u). if g before = g after then []
     else [\<lparr>op_Op = ''replace'', op_Path = CHR ''/'' # k, op_Value = g after\<rparr>]) fs)"

definition diff :: "snapshot \<Rightarrow> snapshot \<Rightarrow> patch" where
  "diff before after =
     \<lparr>pa_SchemaVersion = SchemaVersion, pa_SessionID = sn_ID after, pa_PreviousCursor = sn_Cursor before, pa_Cursor = sn_Cursor after,
      pa_Operations = diffRun (sn_Run before) (sn_Run after) @ diffChat (sn_Chat before) (sn_Chat after)
        @ changed_fields snapshot_fields before after @ diffTimeline (sn_Timeline before) (sn_Timeline after)\<rparr>"

definition next_patch :: "event \<Rightarrow> snapshot \<Rightarrow> snapshot \<Rightarrow> patch" where
  \<comment> \<open>the patch that \<^verbatim>\<open>Next\<close> returns with the snapshot \<open>after\<close>\<close>
  "next_patch e previous after = diff (previous_after e previous) after"

section \<open>The client\<close>

definition unescape :: "string \<Rightarrow> string" where
  "unescape value = replace_all (replace_all value ''~1'' ''/'') ''~0'' ''~''"

definition path_parts :: "string \<Rightarrow> string list" where
  "path_parts path = map unescape (tl (split_char (CHR ''/'') path))"

definition answers_to :: "string \<Rightarrow> chatEntry \<Rightarrow> bool" where
  \<comment> \<open>\<^verbatim>\<open>value.key === key || value.id === key || value.name === key\<close>; an entry has no id, an empty name is absent\<close>
  "answers_to key e \<longleftrightarrow> ch_Key e = key \<or> ch_Name e \<noteq> [] \<and> ch_Name e = key"

definition upsert_entry :: "string \<Rightarrow> chatEntry \<Rightarrow> chatEntry list \<Rightarrow> chatEntry list" where
  "upsert_entry key e chat = (if \<exists>c \<in> set chat. answers_to key c then update_first (answers_to key) (\<lambda>_. e) chat else chat @ [e])"

definition client_replace :: "string \<Rightarrow> pvalue \<Rightarrow> snapshot \<Rightarrow> snapshot option" where
  "client_replace key v sn =
     (if key = ''run'' then Some (sn\<lparr>sn_Run := of_PRun v\<rparr>)
      else if key = ''chat'' then Some (sn\<lparr>sn_Chat := of_PChat v\<rparr>)
      else if key = ''timeline'' then Some (sn\<lparr>sn_Timeline := of_PTimeline v\<rparr>)
      else map_option (\<lambda>(g, u). u v sn) (map_of snapshot_fields key))"

definition client_append :: "string \<Rightarrow> pvalue \<Rightarrow> snapshot \<Rightarrow> snapshot option" where
  "client_append key v sn =
     (if key = ''chat'' then Some (sn\<lparr>sn_Chat := sn_Chat sn @ [of_PEntry v]\<rparr>)
      else if key = ''timeline'' then Some (sn\<lparr>sn_Timeline := sn_Timeline sn @ [of_PEvent v]\<rparr>) else None)"

definition client_append_text :: "string \<Rightarrow> string \<Rightarrow> string \<Rightarrow> snapshot \<Rightarrow> snapshot option" where
  "client_append_text key field t sn =
     (if \<not> (\<exists>c \<in> set (sn_Chat sn). answers_to key c) then None
      else if field = ''reasoning'' then Some (sn\<lparr>sn_Chat := update_first (answers_to key) (\<lambda>c. c\<lparr>ch_Reasoning := ch_Reasoning c @ t\<rparr>) (sn_Chat sn)\<rparr>)
      else if field = ''text'' then Some (sn\<lparr>sn_Chat := update_first (answers_to key) (\<lambda>c. c\<lparr>ch_Text := ch_Text c @ t\<rparr>) (sn_Chat sn)\<rparr>)
      else None)"

definition applyOperation :: "operation \<Rightarrow> snapshot \<Rightarrow> snapshot option" where
  "applyOperation op sn =
     (let v = op_Value op in
      case path_parts (op_Path op) of
        [k] \<Rightarrow> if op_Op op = ''replace'' then client_replace k v sn else if op_Op op = ''append'' then client_append k v sn else None
      | [p, k] \<Rightarrow> if p = ''chat'' \<and> op_Op op = ''upsert'' then Some (sn\<lparr>sn_Chat := upsert_entry k (of_PEntry v) (sn_Chat sn)\<rparr>)
          else if p = ''run'' \<and> k = ''partial'' \<and> op_Op op = ''append''
          then Some (sn\<lparr>sn_Run := (sn_Run sn)\<lparr>rs_Partial := rs_Partial (sn_Run sn) @ of_PStr v\<rparr>\<rparr>) else None
      | [p, k, f] \<Rightarrow> if p = ''chat'' \<and> op_Op op = ''append'' then client_append_text k f (of_PStr v) sn else None
      | _ \<Rightarrow> None)"

primrec applyOperations :: "operation list \<Rightarrow> snapshot \<Rightarrow> snapshot option" where
  "applyOperations [] sn = Some sn"
| "applyOperations (op # ops) sn = (case applyOperation op sn of None \<Rightarrow> None | Some sn1 \<Rightarrow> applyOperations ops sn1)"

definition applyProjectionPatch :: "patch \<Rightarrow> snapshot \<Rightarrow> snapshot option" where
  \<comment> \<open>\<open>None\<close> is \<^verbatim>\<open>resync\<close>\<close>
  "applyProjectionPatch p sn =
     (if pa_SchemaVersion p \<noteq> 1 \<or> sn_Cursor sn \<noteq> pa_PreviousCursor p then None
      else map_option (\<lambda>s. s\<lparr>sn_Cursor := pa_Cursor p\<rparr>) (applyOperations (pa_Operations p) sn))"

section \<open>Paths\<close>

lemma replace_all_Cons:
  assumes "p \<noteq> []"
  shows "replace_all (c # s) p r = (if prefix p (c # s) then r @ replace_all (drop (length p) (c # s)) p r else c # replace_all s p r)"
proof (cases "prefix p (c # s)")
  case True
  then have "str_index (c # s) p = Some 0" by simp
  with assms True show ?thesis by (subst replace_all.simps) simp
next
  case False
  show ?thesis
  proof (cases "str_index s p")
    case None
    with False show ?thesis by (simp add: replace_all_absent)
  next
    case (Some i)
    with False assms have "replace_all (c # s) p r = c # take i s @ r @ replace_all (drop (i + length p) s) p r" by (subst replace_all.simps) simp
    moreover from Some assms have "replace_all s p r = take i s @ r @ replace_all (drop (i + length p) s) p r" by (subst replace_all.simps) simp
    ultimately show ?thesis using False by simp
  qed
qed

lemma replace_all_empty: "p \<noteq> [] \<Longrightarrow> replace_all [] p r = []"
  by (simp add: replace_all_absent)

lemma replace_char: "replace_all s [x] r = concat (map (\<lambda>c. if c = x then r else [c]) s)"
  by (induction s) (auto simp: replace_all_empty replace_all_Cons)

definition escaped :: "char \<Rightarrow> string" where
  "escaped c = (if c = CHR ''~'' then ''~0'' else if c = CHR ''/'' then ''~1'' else [c])"

lemma pointer_escaped: "pointer s = concat (map escaped s)"
proof -
  have "concat (map (\<lambda>c. if c = CHR ''/'' then ''~1'' else [c]) (concat (map (\<lambda>c. if c = CHR ''~'' then ''~0'' else [c]) s))) = concat (map escaped s)"
    by (induction s) (auto simp: escaped_def)
  then show ?thesis by (simp add: pointer_def replace_char)
qed

lemma unescape_pointer [simp]: "unescape (pointer s) = s"
proof -
  let ?half = "concat (map (\<lambda>c. if c = CHR ''~'' then ''~0'' else [c]) s)"
  have "replace_all (concat (map escaped s)) ''~1'' ''/'' = ?half"
    by (induction s) (auto simp: escaped_def replace_all_Cons replace_all_empty)
  moreover have "replace_all ?half ''~0'' ''~'' = s"
    by (induction s) (auto simp: replace_all_Cons replace_all_empty)
  ultimately show ?thesis by (simp add: unescape_def pointer_escaped)
qed

lemma pointer_no_slash: "CHR ''/'' \<notin> set (pointer s)"
  by (auto simp: pointer_escaped escaped_def)

lemma unescape_plain: "CHR ''~'' \<notin> set s \<Longrightarrow> unescape s = s"
proof -
  assume "CHR ''~'' \<notin> set s"
  then have "replace_all s (CHR ''~'' # p) r = s" for p r
    by (induction s) (auto simp: replace_all_Cons replace_all_empty)
  then show ?thesis by (simp add: unescape_def)
qed

lemma path_parts_field: "CHR ''/'' \<notin> set k \<Longrightarrow> CHR ''~'' \<notin> set k \<Longrightarrow> path_parts (CHR ''/'' # k) = [k]"
  by (simp add: path_parts_def split_char_absent unescape_plain)

lemma path_parts_entry: "path_parts (''/chat/'' @ pointer key) = [''chat'', key]"
  by (simp add: path_parts_def split_char_absent pointer_no_slash unescape_plain)

lemma path_parts_text:
  assumes "CHR ''/'' \<notin> set f" "CHR ''~'' \<notin> set f"
  shows "path_parts (''/chat/'' @ pointer key @ ''/'' @ f) = [''chat'', key, f]"
  using assms by (simp add: path_parts_def split_char_append_sep split_char_absent pointer_no_slash unescape_plain)

section \<open>Fields\<close>

definition merge :: "'a \<Rightarrow> 'a \<Rightarrow> 'a \<Rightarrow> 'a" where
  "merge old new here = (if old = new then here else new)"

lemma merge_here [simp]: "merge old new old = new"
  by (simp add: merge_def)

definition put_changed :: "snapshot \<Rightarrow> snapshot \<Rightarrow> field list \<Rightarrow> snapshot \<Rightarrow> snapshot" where
  "put_changed before after = fold (\<lambda>(k, g, u) s. u (merge (g before) (g after) (g s)) s)"

lemma put_changed_fields:
  "put_changed before after snapshot_fields (before\<lparr>sn_Run := r, sn_Chat := c\<rparr>) = after\<lparr>sn_Run := r, sn_Chat := c, sn_Timeline := sn_Timeline before,
     sn_SchemaVersion := sn_SchemaVersion before, sn_Cursor := sn_Cursor before\<rparr>"
  by (simp add: put_changed_def snapshot_fields_def)

definition writable :: "field \<Rightarrow> bool" where
  \<comment> \<open>the client finds the field under its path, and writing what is there changes nothing\<close>
  "writable f \<longleftrightarrow> path_parts (CHR ''/'' # fst f) = [fst f] \<and> fst f \<notin> {''run'', ''chat'', ''timeline''} \<and> map_of snapshot_fields (fst f) = Some (snd f)
     \<and> (\<forall>s. snd (snd f) (fst (snd f) s) s = s)"

lemma writable_fields: "\<forall>f \<in> set snapshot_fields. writable f"
proof
  have "\<forall>k \<in> set (map fst snapshot_fields). CHR ''/'' \<notin> set k \<and> CHR ''~'' \<notin> set k \<and> k \<notin> {''run'', ''chat'', ''timeline''}"
    by (simp add: snapshot_fields_def)
  moreover have "distinct (map fst snapshot_fields)" by (simp add: snapshot_fields_def)
  moreover have "\<forall>f \<in> set snapshot_fields. \<forall>s. snd (snd f) (fst (snd f) s) s = s" by (simp add: snapshot_fields_def)
  moreover fix f assume "f \<in> set snapshot_fields"
  ultimately show "writable f" unfolding writable_def by (cases f) (auto intro!: path_parts_field map_of_is_SomeI)
qed

lemma apply_changed:
  "\<forall>f \<in> set fs. writable f \<Longrightarrow> applyOperations (changed_fields fs before after) s = Some (put_changed before after fs s)"
proof (induction fs arbitrary: s)
  case (Cons f fs)
  obtain k g u where f: "f = (k, g, u)" by (cases f) auto
  from Cons.prems f show ?case
    by (auto simp: changed_fields_def put_changed_def merge_def writable_def applyOperation_def client_replace_def
        Cons.IH[unfolded changed_fields_def put_changed_def])
qed (simp add: changed_fields_def put_changed_def)

lemma applyOperations_append [simp]:
  "applyOperations (xs @ ys) s = (case applyOperations xs s of None \<Rightarrow> None | Some s1 \<Rightarrow> applyOperations ys s1)"
  by (induction xs arbitrary: s) (auto split: option.splits)

section \<open>Runs, entries, events\<close>

lemma path_parts_parts:
  "path_parts ''/run/partial'' = [''run'', ''partial'']" "path_parts ''/run'' = [''run'']" "path_parts ''/chat'' = [''chat'']"
  "path_parts ''/timeline'' = [''timeline'']"
  by (simp_all add: path_parts_def split_char_absent unescape_plain)

lemma apply_part:
  "applyOperation \<lparr>op_Op = ''append'', op_Path = ''/run/partial'', op_Value = PStr t\<rparr> s = Some (s\<lparr>sn_Run := (sn_Run s)\<lparr>rs_Partial := rs_Partial (sn_Run s) @ t\<rparr>\<rparr>)"
  "applyOperation \<lparr>op_Op = ''replace'', op_Path = ''/run'', op_Value = PRun r\<rparr> s = Some (s\<lparr>sn_Run := r\<rparr>)"
  "applyOperation \<lparr>op_Op = ''append'', op_Path = ''/chat'', op_Value = PEntry e\<rparr> s = Some (s\<lparr>sn_Chat := sn_Chat s @ [e]\<rparr>)"
  "applyOperation \<lparr>op_Op = ''replace'', op_Path = ''/chat'', op_Value = PChat c\<rparr> s = Some (s\<lparr>sn_Chat := c\<rparr>)"
  "applyOperation \<lparr>op_Op = ''append'', op_Path = ''/timeline'', op_Value = PEvent v\<rparr> s = Some (s\<lparr>sn_Timeline := sn_Timeline s @ [v]\<rparr>)"
  "applyOperation \<lparr>op_Op = ''replace'', op_Path = ''/timeline'', op_Value = PTimeline vs\<rparr> s = Some (s\<lparr>sn_Timeline := vs\<rparr>)"
  by (simp_all add: applyOperation_def client_replace_def client_append_def path_parts_parts)

lemma apply_one: "applyOperations [op] s = applyOperation op s"
  by (simp split: option.splits)

lemma same_but_partial:
  assumes "r\<lparr>rs_Partial := []\<rparr> = (r1 :: runState)\<lparr>rs_Partial := []\<rparr>"
  shows "r\<lparr>rs_Partial := rs_Partial r1\<rparr> = r1"
proof -
  from assms have "(r\<lparr>rs_Partial := []\<rparr>)\<lparr>rs_Partial := rs_Partial r1\<rparr> = (r1\<lparr>rs_Partial := []\<rparr>)\<lparr>rs_Partial := rs_Partial r1\<rparr>" by (rule arg_cong)
  then show ?thesis by simp
qed

lemma same_but_reasoning:
  assumes "l\<lparr>ch_Reasoning := []\<rparr> = (r :: chatEntry)\<lparr>ch_Reasoning := []\<rparr>"
  shows "l\<lparr>ch_Reasoning := ch_Reasoning r\<rparr> = r"
proof -
  from assms have "(l\<lparr>ch_Reasoning := []\<rparr>)\<lparr>ch_Reasoning := ch_Reasoning r\<rparr> = (r\<lparr>ch_Reasoning := []\<rparr>)\<lparr>ch_Reasoning := ch_Reasoning r\<rparr>" by (rule arg_cong)
  then show ?thesis by simp
qed

lemma same_but_text:
  assumes "l\<lparr>ch_Text := []\<rparr> = (r :: chatEntry)\<lparr>ch_Text := []\<rparr>"
  shows "l\<lparr>ch_Text := ch_Text r\<rparr> = r"
proof -
  from assms have "(l\<lparr>ch_Text := []\<rparr>)\<lparr>ch_Text := ch_Text r\<rparr> = (r\<lparr>ch_Text := []\<rparr>)\<lparr>ch_Text := ch_Text r\<rparr>" by (rule arg_cong)
  then show ?thesis by simp
qed

lemma prefix_drop: "prefix p s \<Longrightarrow> p @ drop (length p) s = s"
  by (auto simp: prefix_def)

lemma butlast_grown: "length ys = length xs + 1 \<and> xs = butlast ys \<Longrightarrow> xs @ [last ys] = ys"
  by (cases ys rule: rev_cases) auto

lemma apply_run: "applyOperations (diffRun (sn_Run s) after) s = Some (s\<lparr>sn_Run := after\<rparr>)"
proof (cases "sn_Run s = after")
  case True then show ?thesis by (auto simp: diffRun_def)
next
  case changed: False
  show ?thesis
  proof (cases "sn_Run s\<lparr>rs_Partial := []\<rparr> = after\<lparr>rs_Partial := []\<rparr> \<and> prefix (rs_Partial (sn_Run s)) (rs_Partial after)")
    case True
    show ?thesis unfolding diffRun_def if_not_P[OF changed] if_P[OF True] apply_one apply_part
        prefix_drop[OF conjunct2[OF True]] same_but_partial[OF conjunct1[OF True]] ..
  next
    case False
    show ?thesis unfolding diffRun_def if_not_P[OF changed] if_not_P[OF False] apply_one apply_part ..
  qed
qed

lemma apply_timeline: "applyOperations (diffTimeline (sn_Timeline s) after) s = Some (s\<lparr>sn_Timeline := after\<rparr>)"
proof (cases "sn_Timeline s = after")
  case True then show ?thesis by (auto simp: diffTimeline_def)
next
  case changed: False
  show ?thesis
  proof (cases "length after = length (sn_Timeline s) + 1 \<and> sn_Timeline s = butlast after")
    case True
    show ?thesis unfolding diffTimeline_def if_not_P[OF changed] if_P[OF True] apply_one apply_part butlast_grown[OF True] ..
  next
    case False
    show ?thesis unfolding diffTimeline_def if_not_P[OF changed] if_not_P[OF False] apply_one apply_part ..
  qed
qed

definition addressable :: "chatEntry list \<Rightarrow> chatEntry list \<Rightarrow> bool" where
  \<comment> \<open>a key names one entry, and no tool is called like an entry's key\<close>
  "addressable before after \<longleftrightarrow> distinct (map ch_Key after)
     \<and> (\<forall>c \<in> set before \<union> set after. ch_Name c = [] \<or> ch_Name c \<notin> ch_Key ` set after)"

lemma addressable_apart:
  assumes "addressable before (xs @ r # ys)" "x \<in> set xs"
  shows "\<not> answers_to (ch_Key r) x"
proof -
  have "ch_Key r \<notin> ch_Key ` set xs" using assms(1) by (simp add: addressable_def)
  then have "ch_Key x \<noteq> ch_Key r" using assms(2) by (metis imageI)
  moreover have "ch_Name x = [] \<or> ch_Name x \<noteq> ch_Key r" using assms unfolding addressable_def by auto
  ultimately show ?thesis by (simp add: answers_to_def)
qed

lemma update_first_append: "\<forall>x \<in> set xs. \<not> P x \<Longrightarrow> update_first P f (xs @ ys) = xs @ update_first P f ys"
  by (induction xs) auto

lemma update_first_at: "\<forall>x \<in> set xs. \<not> P x \<Longrightarrow> P y \<Longrightarrow> update_first P f (xs @ y # ys) = xs @ f y # ys"
  by (simp add: update_first_append)

lemma apply_upsert: "applyOperation (upsert e) s = Some (s\<lparr>sn_Chat := upsert_entry (ch_Key e) e (sn_Chat s)\<rparr>)"
  using path_parts_entry[of "ch_Key e"] by (simp add: upsert_def applyOperation_def)

lemma upsert_at: "\<forall>x \<in> set xs. \<not> answers_to k x \<Longrightarrow> answers_to k y \<Longrightarrow> upsert_entry k e (xs @ y # ys) = xs @ e # ys"
  by (simp add: upsert_entry_def update_first_at)

lemma apply_append_reasoning:
  assumes "sn_Chat s = xs @ [l]" "\<forall>x \<in> set xs. \<not> answers_to (ch_Key r) x" "answers_to (ch_Key r) l"
  shows "applyOperation (append_text r ''reasoning'' old new) s = Some (s\<lparr>sn_Chat := xs @ [l\<lparr>ch_Reasoning := ch_Reasoning l @ drop (length old) new\<rparr>]\<rparr>)"
  using assms path_parts_text[of "''reasoning''" "ch_Key r"] update_first_at[OF assms(2,3), of _ "[]"]
  by (simp add: append_text_def applyOperation_def client_append_text_def)

lemma apply_append_text:
  assumes "sn_Chat s = xs @ [l]" "\<forall>x \<in> set xs. \<not> answers_to (ch_Key r) x" "answers_to (ch_Key r) l"
  shows "applyOperation (append_text r ''text'' old new) s = Some (s\<lparr>sn_Chat := xs @ [l\<lparr>ch_Text := ch_Text l @ drop (length old) new\<rparr>]\<rparr>)"
  using assms path_parts_text[of "''text''" "ch_Key r"] update_first_at[OF assms(2,3), of _ "[]"]
  by (simp add: append_text_def applyOperation_def client_append_text_def)

lemma apply_diff_last:
  assumes "sn_Chat s = xs @ [l]" "ch_Key l = ch_Key r" "\<forall>x \<in> set xs. \<not> answers_to (ch_Key r) x"
  shows "applyOperation (diff_last l r) s = Some (s\<lparr>sn_Chat := xs @ [r]\<rparr>)"
proof -
  have hit: "answers_to (ch_Key r) l" using assms(2) by (simp add: answers_to_def)
  show ?thesis
  proof (cases "l\<lparr>ch_Reasoning := []\<rparr> = r\<lparr>ch_Reasoning := []\<rparr> \<and> prefix (ch_Reasoning l) (ch_Reasoning r)")
    case True
    show ?thesis unfolding diff_last_def if_P[OF True] apply_append_reasoning[OF assms(1,3) hit]
        prefix_drop[OF conjunct2[OF True]] same_but_reasoning[OF conjunct1[OF True]] ..
  next
    case notR: False
    show ?thesis
    proof (cases "l\<lparr>ch_Text := []\<rparr> = r\<lparr>ch_Text := []\<rparr> \<and> prefix (ch_Text l) (ch_Text r)")
      case True
      show ?thesis unfolding diff_last_def if_not_P[OF notR] if_P[OF True] apply_append_text[OF assms(1,3) hit]
          prefix_drop[OF conjunct2[OF True]] same_but_text[OF conjunct1[OF True]] ..
    next
      case False
      show ?thesis unfolding diff_last_def if_not_P[OF notR] if_not_P[OF False] apply_upsert assms(1) upsert_at[OF assms(3) hit] ..
    qed
  qed
qed

lemma apply_upserts:
  assumes "length bs = length as" "map ch_Key bs = map ch_Key as" "addressable (pre @ bs) (pre @ as)"
  shows "applyOperations (map (upsert \<circ> snd) (filter (\<lambda>(a, b). a \<noteq> b) (zip bs as))) (s\<lparr>sn_Chat := pre @ bs\<rparr>) = Some (s\<lparr>sn_Chat := pre @ as\<rparr>)"
  using assms
proof (induction bs as arbitrary: pre rule: list_induct2)
  case (Cons b bs a as)
  have apart: "\<forall>x \<in> set pre. \<not> answers_to (ch_Key a) x" using addressable_apart[OF Cons.prems(2)] by blast
  have hit: "answers_to (ch_Key a) b" using Cons.prems(1) by (simp add: answers_to_def)
  have "addressable ((pre @ [a]) @ bs) ((pre @ [a]) @ as)" using Cons.prems(2) by (simp add: addressable_def)
  moreover have "map ch_Key bs = map ch_Key as" using Cons.prems(1) by simp
  ultimately have IH: "applyOperations (map (upsert \<circ> snd) (filter (\<lambda>(a, b). a \<noteq> b) (zip bs as))) (s\<lparr>sn_Chat := pre @ a # bs\<rparr>) = Some (s\<lparr>sn_Chat := pre @ a # as\<rparr>)"
    using Cons.IH[of "pre @ [a]"] by (simp add: comp_def)
  show ?case
  proof (cases "b = a")
    case True with IH show ?thesis by (simp add: comp_def)
  next
    case False
    have "applyOperation (upsert a) (s\<lparr>sn_Chat := pre @ b # bs\<rparr>) = Some (s\<lparr>sn_Chat := pre @ a # bs\<rparr>)"
      using upsert_at[OF apart hit, of a bs] by (simp add: apply_upsert)
    with False IH show ?thesis by (simp add: comp_def)
  qed
qed simp

lemma apply_chat:
  assumes "addressable (sn_Chat s) after"
  shows "applyOperations (diffChat (sn_Chat s) after) s = Some (s\<lparr>sn_Chat := after\<rparr>)"
proof -
  let ?before = "sn_Chat s"
  let ?tail = "length after = length ?before \<and> after \<noteq> [] \<and> butlast ?before = butlast after \<and> ch_Key (last ?before) = ch_Key (last after)"
  consider (same) "?before = after" | (grown) "?before \<noteq> after" "length after = length ?before + 1 \<and> ?before = butlast after"
    | (tail) "?before \<noteq> after" "\<not> (length after = length ?before + 1 \<and> ?before = butlast after)" ?tail
    | (upserts) "?before \<noteq> after" "\<not> (length after = length ?before + 1 \<and> ?before = butlast after)" "\<not> ?tail"
        "length after = length ?before \<and> map ch_Key ?before = map ch_Key after"
    | (whole) "?before \<noteq> after" "\<not> (length after = length ?before + 1 \<and> ?before = butlast after)" "\<not> ?tail"
        "\<not> (length after = length ?before \<and> map ch_Key ?before = map ch_Key after)"
    by blast
  then show ?thesis
  proof cases
    case same then show ?thesis by (auto simp: diffChat_def)
  next
    case grown
    show ?thesis unfolding diffChat_def if_not_P[OF grown(1)] if_P[OF grown(2)] apply_one apply_part butlast_grown[OF grown(2)] ..
  next
    case tail
    define xs l r where "xs = butlast after" and "l = last ?before" and "r = last after"
    from tail(3) have before: "?before = xs @ [l]" and after: "after = xs @ [r]" and key: "ch_Key l = ch_Key r"
      unfolding xs_def l_def r_def by (metis append_butlast_last_id length_0_conv)+
    have "\<forall>x \<in> set xs. \<not> answers_to (ch_Key r) x" using addressable_apart assms after by blast
    from apply_diff_last[OF before key this] show ?thesis
      unfolding diffChat_def if_not_P[OF tail(1)] if_not_P[OF tail(2)] if_P[OF tail(3)] apply_one l_def r_def after[symmetric, unfolded r_def] .
  next
    case upserts
    have "applyOperations (map (upsert \<circ> snd) (filter (\<lambda>(a, b). a \<noteq> b) (zip ?before after))) (s\<lparr>sn_Chat := [] @ ?before\<rparr>) = Some (s\<lparr>sn_Chat := [] @ after\<rparr>)"
      by (rule apply_upserts) (use upserts(4) assms in \<open>auto\<close>)
    then show ?thesis
      unfolding diffChat_def if_not_P[OF upserts(1)] if_not_P[OF upserts(2)] if_not_P[OF upserts(3)] if_P[OF upserts(4)] by simp
  next
    case whole
    show ?thesis
      unfolding diffChat_def if_not_P[OF whole(1)] if_not_P[OF whole(2)] if_not_P[OF whole(3)] if_not_P[OF whole(4)] apply_one apply_part ..
  qed
qed

section \<open>Properties\<close>

text \<open>
  Patches reproduce the snapshot.  A client that holds the snapshot before an event and applies the patch of the event
  holds exactly the snapshot after it, cursor included, whatever the two snapshots are, as long as the keys of the new
  conversation are distinct and no tool is called like a key.
\<close>
lemma patch_reproduces:
  assumes "sn_SchemaVersion before = SchemaVersion" "sn_SchemaVersion after = SchemaVersion" "addressable (sn_Chat before) (sn_Chat after)"
  shows "applyProjectionPatch (diff before after) before = Some after"
proof -
  let ?s1 = "before\<lparr>sn_Run := sn_Run after\<rparr>" and ?s2 = "before\<lparr>sn_Run := sn_Run after, sn_Chat := sn_Chat after\<rparr>"
  let ?s3 = "after\<lparr>sn_Timeline := sn_Timeline before, sn_SchemaVersion := sn_SchemaVersion before, sn_Cursor := sn_Cursor before\<rparr>"
  have "applyOperations (diffChat (sn_Chat before) (sn_Chat after)) ?s1 = Some ?s2"
    using apply_chat[of ?s1 "sn_Chat after"] assms(3) by simp
  moreover have "applyOperations (changed_fields snapshot_fields before after) ?s2 = Some ?s3"
    using apply_changed[OF writable_fields, of before after ?s2] put_changed_fields by simp
  moreover have "applyOperations (diffTimeline (sn_Timeline before) (sn_Timeline after)) ?s3 = Some (?s3\<lparr>sn_Timeline := sn_Timeline after\<rparr>)"
    using apply_timeline[of ?s3 "sn_Timeline after"] by simp
  ultimately have "applyOperations (pa_Operations (diff before after)) before = Some (after\<lparr>sn_SchemaVersion := sn_SchemaVersion before, sn_Cursor := sn_Cursor before\<rparr>)"
    using apply_run[of before "sn_Run after"] by (simp add: diff_def)
  then show ?thesis using assms(1,2) by (simp add: applyProjectionPatch_def diff_def SchemaVersion_def)
qed

end
