(* ===== verification/Projection_Follow.thy ===== *)
theory Projection_Follow
  imports Projection_Patch
begin

text \<open>
  Clients follow the projector: the keys of the chat entries stay distinct while events bring new keys, the interface
  of the patch protocol (\<open>patch_protocol\<close>), and what happens when a model server uses a call id again.
\<close>

section \<open>Keys\<close>

definition tags :: "chatEntry list \<Rightarrow> (string \<times> string) list" where
  "tags = map (\<lambda>c. (ch_Key c, ch_Name c))"

definition tags_ok :: "(string \<times> string) list \<Rightarrow> bool" where
  \<comment> \<open>distinct keys, every key has a colon, no name has one\<close>
  "tags_ok ts \<longleftrightarrow> distinct (map fst ts) \<and> (\<forall>(k, n) \<in> set ts. CHR '':'' \<in> set k \<and> CHR '':'' \<notin> set n)"



lemma tags_ok_append: "tags_ok (ts @ [(k, n)]) \<longleftrightarrow> tags_ok ts \<and> k \<notin> fst ` set ts \<and> CHR '':'' \<in> set k \<and> CHR '':'' \<notin> set n"
  by (auto simp: tags_ok_def)

lemma tags_ok_filter: "tags_ok (tags xs) \<Longrightarrow> tags_ok (tags (filter P xs))"
  unfolding tags_ok_def tags_def by (induction xs) auto

lemma tags_ok_rev [simp]: "tags_ok (rev ts) = tags_ok ts"
  by (simp add: tags_ok_def rev_map [symmetric])

lemma tags_simps [simp]: "tags [] = []" "tags (x # xs) = (ch_Key x, ch_Name x) # tags xs" "tags (xs @ ys) = tags xs @ tags ys"
  "tags (rev xs) = rev (tags xs)"
  by (simp_all add: tags_def rev_map)

lemma fst_tags: "fst ` set (tags xs) = ch_Key ` set xs"
  by (simp add: tags_def image_image)

lemma tags_ok_Cons: "tags_ok ((k, n) # ts) \<longleftrightarrow> k \<notin> fst ` set ts \<and> CHR '':'' \<in> set k \<and> CHR '':'' \<notin> set n \<and> tags_ok ts"
  by (auto simp: tags_ok_def)

lemma tags_clone [simp]: "tags (cloneChat xs) = tags xs"
  by (simp add: tags_def cloneChat_def clone_entry_def comp_def)

lemma tags_update_first: "(\<And>c. ch_Key (f c) = ch_Key c \<and> ch_Name (f c) = ch_Name c) \<Longrightarrow> tags (update_first P f xs) = tags xs"
  by (induction xs) auto

lemma tags_update_last: "(\<And>c. ch_Key (f c) = ch_Key c \<and> ch_Name (f c) = ch_Name c) \<Longrightarrow> tags (update_last P f xs) = tags xs"
  by (simp add: update_last_def tags_update_first)

lemma tags_map: "(\<And>c. ch_Key (f c) = ch_Key c \<and> ch_Name (f c) = ch_Name c) \<Longrightarrow> tags (map f xs) = tags xs"
  by (simp add: tags_def)

lemma tags_remove_first: "tags_ok (tags xs) \<Longrightarrow> tags_ok (tags (remove_first P xs))"
proof (induction xs)
  case (Cons x xs)
  have "set (remove_first P xs) \<subseteq> set xs" for xs :: "chatEntry list" by (induction xs) auto
  then have "ch_Key ` set (remove_first P xs) \<subseteq> ch_Key ` set xs" by (rule image_mono)
  with Cons show ?case by (auto simp: tags_ok_Cons fst_tags)
qed simp

lemma tags_removals:
  assumes "tags_ok (tags xs)"
  shows "tags_ok (tags (removeChatKey xs k))" "tags_ok (tags (removeAssistantTurn xs t))"
  using assms tags_remove_first[of "rev xs"] by (simp_all add: removeChatKey_def removeAssistantTurn_def tags_ok_filter)



lemmas keeps_tags = tags_update_first tags_update_last tags_map tags_removals tags_ok_filter tags_ok_append fst_tags

section \<open>Handlers\<close>

lemma colon_in_keys [simp]: "CHR '':'' \<in> set (''turn:'' @ k)" "CHR '':'' \<in> set (''tool:'' @ k)" "CHR '':'' \<in> set (''message:'' @ k)"
  "CHR '':'' \<in> set (event_key e)"
  by (simp_all add: event_key_def)

lemma entry_fields [simp]: "ch_Key (agent_entry e data) = ''turn:'' @ turnKey e data" "ch_Name (agent_entry e data) = []" "ch_Name no_entry = []"
  by (simp_all add: agent_entry_def no_entry_def)

lemma quiet_handlers [simp]:
  "sn_Chat (on_updated d sn) = sn_Chat sn" "sn_Chat (on_instructions d sn) = sn_Chat sn" "sn_Chat (on_policy_approved v d sn) = sn_Chat sn"
  "sn_Chat (on_workspace_bound d sn) = sn_Chat sn" "sn_Chat (on_memory_cleared d sn) = sn_Chat sn" "sn_Chat (on_memory_noted d sn) = sn_Chat sn"
  "sn_Chat (on_reset d sn) = []" "sn_Chat (on_run_queued e d sn) = sn_Chat sn" "sn_Chat (on_run_started e d sn) = sn_Chat sn"
  "sn_Chat (on_run_stopped e d sn) = sn_Chat sn" "sn_Chat (on_stage d sn) = sn_Chat sn" "sn_Chat (on_tool_toggled d sn) = sn_Chat sn"
  "sn_Chat (on_approval_required e sn) = sn_Chat sn" "sn_Chat (on_compaction d sn) = sn_Chat sn"
  by (simp_all add: on_updated_def on_instructions_def on_policy_approved_def on_workspace_bound_def on_memory_cleared_def on_memory_noted_def
      on_reset_def on_run_queued_def on_run_started_def on_run_stopped_def on_stage_def on_tool_toggled_def on_approval_required_def
      on_compaction_def Let_def split: gores.split)

lemma tags_approval [simp]: "tags (sn_Chat (on_approval_decided d sn)) = tags (sn_Chat sn)"
  by (simp add: on_approval_decided_def Let_def tags_update_last)

lemma tags_delta [simp]: "tags (sn_Chat (on_delta ms e d sn)) = tags (sn_Chat sn)"
  by (simp add: on_delta_def tags_update_last delta_entry_def Let_def)

lemma tags_result [simp]: "tags (sn_Chat (on_tool_result d sn)) = tags (sn_Chat sn)"
  by (simp add: on_tool_result_def tags_update_last)

lemma tags_resolved [simp]: "tags (resolveModelUnreachableNotice xs h) = tags xs"
  by (simp add: resolveModelUnreachableNotice_def tags_update_last)

lemma tags_updated [simp]: "tags (sn_Chat (on_message_updated d sn)) = tags (sn_Chat sn)"
proof -
  have "tags (fold (\<lambda>m chat. update_last (is_turn_any (msg_Turn m)) (\<lambda>c. c\<lparr>ch_ToolCallIDs := []\<rparr>) (cloneChat chat)) hits chat) = tags chat" for hits :: "message list" and chat
    by (induction hits arbitrary: chat) (simp_all add: tags_update_last)
  then show ?thesis by (simp add: on_message_updated_def Let_def)
qed









section \<open>The step\<close>

lemma named_chat [simp]: "sn_Chat (named e sn) = sn_Chat sn"
  by (simp add: named_def)






lemma tags_rest [simp]: "tags (sn_Chat (add_timeline e (finish_entries e sn))) = tags (sn_Chat sn)"
proof -
  have "tags (map (\<lambda>c. if ch_Type c = ''agent'' \<and> ch_RunID c = ev_RunID e then c\<lparr>ch_Done := True\<rparr> else c) xs) = tags xs" for xs
    by (rule tags_map) simp
  then show ?thesis by (simp add: add_timeline_def finish_entries_def Let_def)
qed


lemma schema_kept [simp]:
  "sn_SchemaVersion (on_updated d sn) = sn_SchemaVersion sn" "sn_SchemaVersion (on_instructions d sn) = sn_SchemaVersion sn"
  "sn_SchemaVersion (on_policy_approved v d sn) = sn_SchemaVersion sn" "sn_SchemaVersion (on_workspace_bound d sn) = sn_SchemaVersion sn"
  "sn_SchemaVersion (on_memory_cleared d sn) = sn_SchemaVersion sn" "sn_SchemaVersion (on_memory_noted d sn) = sn_SchemaVersion sn"
  "sn_SchemaVersion (on_reset d sn) = sn_SchemaVersion sn" "sn_SchemaVersion (on_run_queued e d sn) = sn_SchemaVersion sn"
  "sn_SchemaVersion (on_run_started e d sn) = sn_SchemaVersion sn" "sn_SchemaVersion (on_run_stopped e d sn) = sn_SchemaVersion sn"
  "sn_SchemaVersion (on_stage d sn) = sn_SchemaVersion sn" "sn_SchemaVersion (on_tool_toggled d sn) = sn_SchemaVersion sn"
  "sn_SchemaVersion (on_approval_required e sn) = sn_SchemaVersion sn" "sn_SchemaVersion (on_compaction d sn) = sn_SchemaVersion sn"
  "sn_SchemaVersion (on_approval_decided d sn) = sn_SchemaVersion sn" "sn_SchemaVersion (on_delta ms e d sn) = sn_SchemaVersion sn"
  "sn_SchemaVersion (on_tool_result d sn) = sn_SchemaVersion sn" "sn_SchemaVersion (on_message_updated d sn) = sn_SchemaVersion sn"
  "sn_SchemaVersion (on_message_removed d sn) = sn_SchemaVersion sn" "sn_SchemaVersion (on_request ms e d sn) = sn_SchemaVersion sn"
  "sn_SchemaVersion (on_response ms e d sn) = sn_SchemaVersion sn" "sn_SchemaVersion (on_tool_call d sn) = sn_SchemaVersion sn"
  "sn_SchemaVersion (named e sn) = sn_SchemaVersion sn" "sn_SchemaVersion (add_notice e sn) = sn_SchemaVersion sn"
  "sn_SchemaVersion (finish_entries e sn) = sn_SchemaVersion sn" "sn_SchemaVersion (add_timeline e sn) = sn_SchemaVersion sn"
  by (simp_all add: on_updated_def on_instructions_def on_policy_approved_def on_workspace_bound_def on_memory_cleared_def on_memory_noted_def
      on_reset_def on_run_queued_def on_run_started_def on_run_stopped_def on_stage_def on_tool_toggled_def on_approval_required_def
      on_compaction_def on_approval_decided_def on_delta_def on_tool_result_def on_message_updated_def on_message_removed_def on_request_def
      on_response_def on_tool_call_def named_def add_notice_def finish_entries_def add_timeline_def Let_def split: gores.split)

lemma schema_run_event [simp]: "sn_SchemaVersion (on_run_event ms e d sn) = sn_SchemaVersion sn"
  by (simp add: on_run_event_def on_session_event_def Let_def)



section \<open>What the patch does not see\<close>







section \<open>The patch protocol\<close>










text \<open>A \<^verbatim>\<open>workspace.bound\<close> event whose policy is decoded into the one the session already has: the patch does not mention
  the policy, so clients keep the old one, because the previous snapshot was overwritten before it was compared.\<close>

lemma part_paths:
  "op \<in> set (diffRun r r') \<Longrightarrow> op_Path op \<noteq> ''/repo_policy''" "op \<in> set (diffChat c c') \<Longrightarrow> op_Path op \<noteq> ''/repo_policy''"
  "op \<in> set (diffTimeline t t') \<Longrightarrow> op_Path op \<noteq> ''/repo_policy''"
  by (auto simp: diffRun_def diffChat_def diffTimeline_def diff_last_def append_text_def upsert_def split: if_splits)

lemma field_paths:
  assumes "op \<in> set (changed_fields snapshot_fields before after)" "op_Path op = ''/repo_policy''"
  shows "sn_RepoPolicy before \<noteq> sn_RepoPolicy after"
proof -
  from assms obtain g u where "(''repo_policy'', g, u) \<in> set snapshot_fields" "g before \<noteq> g after"
    by (auto simp: changed_fields_def split: if_splits)
  then show ?thesis by (auto simp: snapshot_fields_def)
qed

theorem bound_policy_is_not_sent:
  assumes "ev_Type e = ''workspace.bound''" "project ms sn cursor e = Ok sn1" "sn_RepoPolicy sn = Some p" "sn_RepoPolicy sn1 \<noteq> None"
  shows "\<forall>op \<in> set (pa_Operations (next_patch e sn sn1)). op_Path op \<noteq> ''/repo_policy''"
proof -
  let ?d = "eventMap (ev_Data e)"
  have "sn_RepoPolicy sn1 = policy_pointer (gget ?d ''repo_policy'') (Some p)"
    using assms(1-3) by (auto simp: project_def on_event_def on_run_event_def on_session_event_def on_workspace_bound_def Let_def
        add_notice_def notice_types_def finish_entries_def add_timeline_def named_def)
  moreover with assms(4) have "json_any (gget ?d ''repo_policy'') \<noteq> GNil" by (auto simp: policy_pointer_def)
  ultimately have "sn_RepoPolicy (previous_after e sn) = sn_RepoPolicy sn1"
    using assms(1,3) by (simp add: previous_after_def bound_previous_def policy_written_def)
  then show ?thesis using field_paths part_paths by (auto simp: next_patch_def diff_def)
qed



definition sample_request :: event where
  "sample_request = events_New ''model.request'' ''s'' ''r-1'' (GMap [(''turn'', GInt 1)])"

definition sample_call :: event where
  "sample_call = events_New ''tool.call'' ''s'' ''r-1'' (GMap [(''call_id'', GStr ''c/1''), (''name'', GStr ''shell'')])"

lemma sample_type [simp]: "ev_Type sample_request = ''model.request''" "ev_Type sample_call = ''tool.call''"
  by (simp_all add: sample_request_def sample_call_def)



section \<open>Call ids that come back\<close>

text \<open>C37. A call id the model server uses again.  The key of a tool entry is the call id alone: when a later entry with the same
  key gets its result, the server changes the last entry of that key and the client the first one, so the
  patch is accepted and the client shows the new result at the old call and none at the new one.
\<close>
theorem reused_call_id_reaches_the_old_entry:
  assumes "sn_Chat before = xs @ e0 # ys @ [e1]" "sn_Chat after = xs @ e0 # ys @ [e2]"
    and "ch_Key e0 = ch_Key e2" "ch_Key e1 = ch_Key e2" "\<forall>x \<in> set xs. \<not> answers_to (ch_Key e2) x"
    and "ch_Content e1 \<noteq> ch_Content e2" "e0 \<noteq> e2"
    and "sn_SchemaVersion before = SchemaVersion"
  shows "\<exists>sn. applyProjectionPatch (diff before after) before = Some sn \<and> sn_Chat sn = xs @ e2 # ys @ [e1] \<and> sn_Chat sn \<noteq> sn_Chat after"
proof -
  let ?chat = "xs @ e2 # ys @ [e1]"
  let ?s2 = "before\<lparr>sn_Run := sn_Run after, sn_Chat := ?chat\<rparr>"
  let ?s3 = "after\<lparr>sn_Chat := ?chat, sn_Timeline := sn_Timeline before, sn_SchemaVersion := sn_SchemaVersion before, sn_Cursor := sn_Cursor before\<rparr>"
  have differ: "e1 \<noteq> e2" "e1\<lparr>ch_Reasoning := []\<rparr> \<noteq> e2\<lparr>ch_Reasoning := []\<rparr>" "e1\<lparr>ch_Text := []\<rparr> \<noteq> e2\<lparr>ch_Text := []\<rparr>"
    using assms(6) by (auto dest: arg_cong[of _ _ ch_Content])
  then have "diff_last e1 e2 = upsert e2" unfolding diff_last_def by (simp only: simp_thms if_False)
  then have "diffChat (sn_Chat before) (sn_Chat after) = [upsert e2]"
    using differ(1) assms(4) by (simp add: assms(1,2) diffChat_def butlast_append)
  then have chat: "applyOperations (diffChat (sn_Chat before) (sn_Chat after)) (before\<lparr>sn_Run := sn_Run after\<rparr>) = Some ?s2"
    using upsert_at[OF assms(5), of e0 e2 "ys @ [e1]"] assms(3) by (simp add: apply_upsert assms(1) answers_to_def)
  have "applyOperations (changed_fields snapshot_fields before after) ?s2 = Some ?s3"
    using apply_changed[OF writable_fields, of before after ?s2] put_changed_fields[of before after ?chat "sn_Run after"] by simp
  moreover have "applyOperations (diffTimeline (sn_Timeline before) (sn_Timeline after)) ?s3 = Some (?s3\<lparr>sn_Timeline := sn_Timeline after\<rparr>)"
    using apply_timeline[of ?s3 "sn_Timeline after"] by simp
  ultimately have "applyOperations (pa_Operations (diff before after)) before = Some (?s3\<lparr>sn_Timeline := sn_Timeline after\<rparr>)"
    using apply_run[of before "sn_Run after"] chat by (simp add: diff_def)
  then have "applyProjectionPatch (diff before after) before = Some (?s3\<lparr>sn_Timeline := sn_Timeline after, sn_Cursor := sn_Cursor after\<rparr>)"
    using assms(8) by (simp add: applyProjectionPatch_def diff_def SchemaVersion_def)
  moreover have "?chat \<noteq> sn_Chat after" using assms(2,7) by simp
  ultimately show ?thesis by simp
qed

definition twice_called :: "chatEntry \<Rightarrow> snapshot" where
  "twice_called e = (emptySnapshot ''s'')\<lparr>sn_Chat := [no_entry\<lparr>ch_Type := ''tool'', ch_Key := ''tool:0'', ch_CallID := ''0'', ch_Content := ''old''\<rparr>, e]\<rparr>"

theorem reused_call_id_reaches_the_old_entry_witness:
  "let e1 = no_entry\<lparr>ch_Type := ''tool'', ch_Key := ''tool:0'', ch_CallID := ''0''\<rparr>; e2 = e1\<lparr>ch_Content := ''new''\<rparr> in
   \<exists>sn. applyProjectionPatch (diff (twice_called e1) (twice_called e2)) (twice_called e1) = Some sn \<and> sn_Chat sn = [e2, e1]"
  using reused_call_id_reaches_the_old_entry[of "twice_called (no_entry\<lparr>ch_Type := ''tool'', ch_Key := ''tool:0'', ch_CallID := ''0''\<rparr>)" "[]"
      "no_entry\<lparr>ch_Type := ''tool'', ch_Key := ''tool:0'', ch_CallID := ''0'', ch_Content := ''old''\<rparr>" "[]"
      "no_entry\<lparr>ch_Type := ''tool'', ch_Key := ''tool:0'', ch_CallID := ''0''\<rparr>"
      "twice_called (no_entry\<lparr>ch_Type := ''tool'', ch_Key := ''tool:0'', ch_CallID := ''0'', ch_Content := ''new''\<rparr>)"
      "no_entry\<lparr>ch_Type := ''tool'', ch_Key := ''tool:0'', ch_CallID := ''0'', ch_Content := ''new''\<rparr>"]
  by (auto simp: twice_called_def emptySnapshot_def seed_snapshot_def no_entry_def Let_def)

section \<open>Stopped runs\<close>

text \<open>C29. A stopped run leaves nothing open.  After \<^verbatim>\<open>run.stopped\<close> the session is idle or held, no agent entry of the run is
  unfinished, no fragment of its stream is in the timeline and no approval of the run is pending.
\<close>
theorem stopped_run_leaves_nothing_open:
  assumes "project ms sn cursor e = Ok sn1" "ev_Type e = ''run.stopped''"
  shows "rs_Status (sn_Run sn1) \<in> {''idle'', ''held''} \<and> rs_Partial (sn_Run sn1) = []
    \<and> (\<forall>c \<in> set (sn_Chat sn1). ch_Type c = ''agent'' \<and> ch_RunID c = ev_RunID e \<longrightarrow> ch_Done c)
    \<and> (\<forall>v \<in> set (sn_Timeline sn1). \<not> stream_event (ev_RunID e) v)
    \<and> (\<forall>p. sn_PendingApproval sn1 = Some p \<longrightarrow> ch_RunID p \<noteq> ev_RunID e)"
proof -
  let ?sn0 = "named e (sn\<lparr>sn_SchemaVersion := SchemaVersion, sn_Cursor := cursor\<rparr>)" and ?d = "eventMap (ev_Data e)"
  have sn1: "sn1 = (add_timeline e (finish_entries e (add_notice e (on_run_stopped e ?d ?sn0))))\<lparr>sn_Cursor := cursor\<rparr>"
    using assms by (simp add: project_def on_event_def on_run_event_def Let_def)
  have run: "sn_Run (add_notice e s) = sn_Run s" "sn_PendingApproval (add_notice e s) = sn_PendingApproval s" for s
    by (simp_all add: add_notice_def Let_def)
  have chat: "\<forall>c \<in> set (sn_Chat (finish_entries e s)). ch_Type c = ''agent'' \<and> ch_RunID c = ev_RunID e \<longrightarrow> ch_Done c" for s
    using assms(2) by (auto simp: finish_entries_def)
  have timeline: "\<forall>v \<in> set (sn_Timeline (add_timeline e s)). \<not> stream_event (ev_RunID e) v" for s
    using assms(2) by (simp add: add_timeline_def Let_def discardRunStream_def)
  have same: "sn_Chat (add_timeline e s) = sn_Chat s" "sn_Run (add_timeline e s) = sn_Run s" "sn_PendingApproval (add_timeline e s) = sn_PendingApproval s"
    "sn_Run (finish_entries e s) = sn_Run s" "sn_PendingApproval (finish_entries e s) = sn_PendingApproval s" for s
    by (simp_all add: add_timeline_def finish_entries_def Let_def)
  have "rs_Status (sn_Run (on_run_stopped e ?d s)) \<in> {''idle'', ''held''}" "rs_Partial (sn_Run (on_run_stopped e ?d s)) = []"
    "\<forall>p. sn_PendingApproval (on_run_stopped e ?d s) = Some p \<longrightarrow> ch_RunID p \<noteq> ev_RunID e" for s
    by (auto simp: on_run_stopped_def Let_def emptyRunState_def split: option.splits if_splits)
  then show ?thesis using chat timeline unfolding sn1 by (simp add: run same)
qed

theorem stopped_run_leaves_nothing_open_witness:
  "\<exists>sn1. project (\<lambda>_. 0) (emptySnapshot ''s'') no_cursor (events_New ''run.stopped'' ''s'' ''r-1'' (GMap [(''reason'', GStr ''completed'')])) = Ok sn1
     \<and> rs_Partial (sn_Run sn1) = []"
proof -
  let ?e = "events_New ''run.stopped'' ''s'' ''r-1'' (GMap [(''reason'', GStr ''completed'')])"
  have "ev_Type ?e = ''run.stopped''" by (simp add: events_New_def)
  moreover then obtain sn1 where "project (\<lambda>_. 0) (emptySnapshot ''s'') no_cursor ?e = Ok sn1"
    by (simp add: project_def on_event_def on_run_event_def Let_def)
  ultimately show ?thesis using stopped_run_leaves_nothing_open by blast
qed

end
