(* ===== verification/Projection_Mirror.thy ===== *)
theory Projection_Mirror
  imports Projection_Follow Compaction
begin

text \<open>
  The projection mirrors the conversation: the events that appending, superseding, eliding and summarising publish bring
  the message list of a snapshot to the message list of the session, as long as message ids are distinct.

  \<open>same_view\<close> leaves out \<^verbatim>\<open>estimated\<close>, which the patch of \<^verbatim>\<open>message.updated\<close> does not carry.  Sequence numbers and time stamps
  are the bus's (\<open>logged\<close>); \<open>mirrored_operation\<close> is what an operation on the conversation owes to the projection.
\<close>

section \<open>What the projector does to the message list\<close>

definition message_step :: "event \<Rightarrow> message list \<Rightarrow> message list" where
  "message_step e ms =
     (let data = eventMap (ev_Data e) in
      if ev_Type e = ''message.updated''
      then map (\<lambda>m. if msg_ID m = text_of data ''id'' then patch_message (eventMap (gget data ''patch'')) m else m) ms
      else if ev_Type e = ''message.appended'' then insert_message (message_of (gget (obj (json_any (ev_Data e))) ''message'')) ms
      else if ev_Type e = ''compaction'' \<and> text_of data ''kind'' = ''summarize''
      then filter (\<lambda>m. msg_ID m \<notin> set (stringValues (gget data ''affected_ids''))) ms
      else ms)"

definition conversation_event :: "event \<Rightarrow> bool" where
  \<comment> \<open>the events of the conversation, with data that decodes\<close>
  "conversation_event e \<longleftrightarrow> ev_Type e = ''message.updated'' \<or> ev_Type e = ''compaction''
     \<or> ev_Type e = ''message.appended'' \<and> is_obj (conforms [(''message'', message_ok)]) (json_any (ev_Data e))
     \<or> ev_Type e = ''compaction.summary'' \<and> summary_ok (json_any (ev_Data e))"

lemma frame_messages [simp]:
  "sn_Messages (named e sn) = sn_Messages sn" "sn_Messages (add_notice e sn) = sn_Messages sn"
  "sn_Messages (finish_entries e sn) = sn_Messages sn" "sn_Messages (add_timeline e sn) = sn_Messages sn"
  by (simp_all add: named_def add_notice_def finish_entries_def add_timeline_def Let_def)

lemma project_messages:
  assumes "conversation_event e"
  shows "\<exists>sn1. project t sn c e = Ok sn1 \<and> sn_Messages sn1 = message_step e (sn_Messages sn)"
proof -
  consider "ev_Type e = ''message.updated''" | "ev_Type e = ''compaction''"
    | "ev_Type e = ''message.appended''" "is_obj (conforms [(''message'', message_ok)]) (json_any (ev_Data e))"
    | "ev_Type e = ''compaction.summary''" "summary_ok (json_any (ev_Data e))"
    using assms by (auto simp: conversation_event_def)
  then show ?thesis
    by cases (simp_all add: project_def on_event_def on_run_event_def on_message_updated_def on_compaction_def on_appended_def on_summary_def
        unmarshal_def message_step_def Let_def)
qed

definition logged :: "(projCursor \<times> event) list \<Rightarrow> event list \<Rightarrow> bool" where
  "logged = list_all2 (\<lambda>r e. ev_Type (snd r) = ev_Type e \<and> ev_Data (snd r) = ev_Data e)"

lemma message_step_cong: "ev_Type e = ev_Type e1 \<Longrightarrow> ev_Data e = ev_Data e1 \<Longrightarrow> message_step e = message_step e1"
  by (simp add: message_step_def fun_eq_iff cong: if_cong)

lemma replay_messages:
  "list_all conversation_event evs \<Longrightarrow> logged rs evs
    \<Longrightarrow> \<exists>sn1. project_all t sn rs = Ok sn1 \<and> sn_Messages sn1 = fold message_step evs (sn_Messages sn)"
proof (induction evs arbitrary: rs sn)
  case (Cons e evs)
  from Cons.prems(2) obtain r rs1 where rs: "rs = r # rs1" "ev_Type (snd r) = ev_Type e" "ev_Data (snd r) = ev_Data e" "logged rs1 evs"
    by (auto simp: logged_def list_all2_Cons2)
  have "conversation_event (snd r)" using Cons.prems(1) rs by (simp add: conversation_event_def)
  from project_messages[OF this] obtain sn1 where "project t sn (fst r) (snd r) = Ok sn1" "sn_Messages sn1 = message_step e (sn_Messages sn)"
    using message_step_cong[OF rs(2,3)] by metis
  with Cons.IH[of rs1 sn1] Cons.prems(1) rs(1,4) show ?case by auto
qed (simp add: logged_def)

section \<open>Views\<close>

definition blur :: "message \<Rightarrow> message" where
  "blur m = m\<lparr>msg_Estimated := False\<rparr>"

definition same_view :: "message list \<Rightarrow> message list \<Rightarrow> bool" where
  "same_view v ms \<longleftrightarrow> map blur v = map blur ms"

lemma blur_fields [simp]: "msg_ID (blur m) = msg_ID m" "msg_Category (blur m) = msg_Category m"
  by (simp_all add: blur_def)

lemma same_view_refl [simp]: "same_view ms ms"
  by (simp add: same_view_def)

lemma same_view_nth: "same_view v ms \<longleftrightarrow> length v = length ms \<and> (\<forall>i < length ms. blur (v ! i) = blur (ms ! i))"
  by (auto simp: same_view_def list_eq_iff_nth_eq)

lemma same_view_filter:
  assumes "same_view v ms"
  shows "same_view (filter (\<lambda>m. P (msg_ID m)) v) (filter (\<lambda>m. P (msg_ID m)) ms)"
proof -
  have "map blur (filter (\<lambda>m. P (msg_ID m)) xs) = filter (\<lambda>m. P (msg_ID m)) (map blur xs)" for xs
    by (simp add: filter_map comp_def)
  with assms show ?thesis by (simp add: same_view_def)
qed

lemma same_view_insert: "same_view v ms \<Longrightarrow> same_view (insert_message m v) (insert_message m ms)"
  by (simp add: same_view_def insert_message_def take_map [symmetric] drop_map [symmetric])

lemma updated_data:
  "ev_Type (updated s r m) = ''message.updated''" "text_of (eventMap (ev_Data (updated s r m))) ''id'' = msg_ID m"
  "eventMap (gget (eventMap (ev_Data (updated s r m))) ''patch'') =
     [(''content'', GStr (msg_Content m)), (''tokens'', GInt (msg_Tokens m)), (''elided'', GBool True)]"
  by (simp_all add: updated_def events_New_def eventMap_def text_of_def)

lemma elide_id [simp]: "msg_ID (elide J m raw rdl count) = msg_ID m"
  by (simp add: elide_def Let_def)

lemma blur_patch:
  assumes "blur x = blur m"
  shows "blur (patch_message [(''content'', GStr c), (''tokens'', GInt n), (''elided'', GBool True)] x)
    = blur (m\<lparr>msg_Content := c, msg_Elided := True, msg_Tokens := n, msg_Estimated := b\<rparr>)"
  using assms by (cases x; cases m) (simp add: blur_def patch_message_def ghas_def text_of_def num_def)

lemma elide_shape:
  "elide J m raw rdl count = m\<lparr>msg_Content := msg_Content (elide J m raw rdl count), msg_Elided := True,
     msg_Tokens := msg_Tokens (elide J m raw rdl count), msg_Estimated := msg_Estimated (elide J m raw rdl count)\<rparr>"
  by (simp add: elide_def Let_def)

lemma updated_step:
  assumes "same_view v ms" "distinct (map msg_ID ms)" "p < length ms"
  shows "same_view (message_step (updated s r (elide J (ms ! p) raw rdl count)) v) (ms[p := elide J (ms ! p) raw rdl count])"
proof -
  let ?m = "elide J (ms ! p) raw rdl count"
  have ids: "msg_ID (v ! i) = msg_ID (ms ! i)" if "i < length ms" for i
    using assms(1) that by (metis blur_fields(1) same_view_nth)
  have "blur (v ! p) = blur (ms ! p)" using assms by (simp add: same_view_nth)
  then have "blur (patch_message [(''content'', GStr (msg_Content ?m)), (''tokens'', GInt (msg_Tokens ?m)), (''elided'', GBool True)] (v ! p)) = blur ?m"
    using blur_patch elide_shape[of J "ms ! p" raw rdl count] by metis
  moreover have "msg_ID (ms ! i) = msg_ID (ms ! p) \<longleftrightarrow> i = p" if "i < length ms" for i
    using assms(2,3) that by (metis distinct_conv_nth length_map nth_map)
  moreover have step: "message_step (updated s r ?m) v = map (\<lambda>x. if msg_ID x = msg_ID (ms ! p)
      then patch_message [(''content'', GStr (msg_Content ?m)), (''tokens'', GInt (msg_Tokens ?m)), (''elided'', GBool True)] x else x) v"
    unfolding message_step_def Let_def updated_data elide_id by simp
  moreover have "blur (v ! i) = blur (ms ! i)" "i < length v" if "i < length ms" for i using assms(1) that by (simp_all add: same_view_nth)
  ultimately have "blur (message_step (updated s r ?m) v ! i) = blur (ms[p := ?m] ! i)" if "i < length ms" for i
    using that ids[OF that] by (cases "i = p") simp_all
  moreover have "length (message_step (updated s r ?m) v) = length ms" using assms(1) by (simp add: step same_view_nth)
  ultimately show ?thesis unfolding same_view_nth by simp
qed

section \<open>The elision passes\<close>

definition followed :: "message list \<Rightarrow> message list \<Rightarrow> elision \<Rightarrow> bool" where
  \<comment> \<open>replaying the updates published so far turns \<open>v\<close>, a view of \<open>ms0\<close>, into a view of the edited copy\<close>
  "followed v ms0 st \<longleftrightarrow> (case st of (ms, affected, evs) \<Rightarrow>
     same_view (fold message_step evs v) ms \<and> map msg_ID ms = map msg_ID ms0 \<and> list_all conversation_event evs
       \<and> (affected = [] \<longrightarrow> ms = ms0))"

lemma map_update_ids: "p < length ms \<Longrightarrow> map msg_ID (ms[p := elide J (ms ! p) raw rdl count]) = map msg_ID ms"
  by (rule nth_equalityI) (auto simp: nth_list_update)

lemma followed_update:
  assumes "followed v ms0 (ms, affected, evs)" "distinct (map msg_ID ms0)" "p < length ms" "aff \<noteq> []"
  shows "followed v ms0 (ms[p := elide J (ms ! p) raw rdl count], aff, evs @ [updated s r (elide J (ms ! p) raw rdl count)])"
proof -
  from assms have "same_view (fold message_step evs v) ms" "distinct (map msg_ID ms)" by (simp_all add: followed_def)
  from updated_step[OF this assms(3)] assms(1,3,4) show ?thesis
    by (simp add: followed_def map_update_ids conversation_event_def updated_data)
qed

lemma followed_length: "followed v ms0 (ms, affected, evs) \<Longrightarrow> length ms = length ms0"
  unfolding followed_def by (auto dest: map_eq_imp_length_eq)

lemma followed_try:
  assumes "followed v ms0 st" "distinct (map msg_ID ms0)" "p < length ms0"
  shows "followed v ms0 (try_supersede J s r rdl count item cc p st)"
proof -
  obtain ms affected evs where st: "st = (ms, affected, evs)" by (cases st) auto
  from assms show ?thesis
    unfolding st try_supersede_eq stub_at_def using followed_update followed_length by auto
qed

lemma followed_try_all:
  "followed v ms0 st \<Longrightarrow> distinct (map msg_ID ms0) \<Longrightarrow> \<forall>p \<in> set ps. p < length ms0
    \<Longrightarrow> followed v ms0 (fold (try_supersede J s r rdl count item cc) ps st)"
proof (induction ps arbitrary: st)
  case (Cons p ps)
  then have "followed v ms0 (try_supersede J s r rdl count item cc p st)" by (simp add: followed_try)
  with Cons show ?case by simp
qed simp

lemma followed_current:
  assumes "followed v ms0 st" "distinct (map msg_ID ms0)" "p \<le> length ms0"
  shows "followed v ms0 (supersede_current J s r turn rdl count p st)"
  using assms by (auto simp: supersede_current_def Let_def split_beta intro!: followed_try_all)

lemma followed_supersede:
  "followed v ms0 st \<Longrightarrow> distinct (map msg_ID ms0) \<Longrightarrow> \<forall>p \<in> set ps. p < length ms0
    \<Longrightarrow> followed v ms0 (fold (supersede_current J s r turn rdl count) ps st)"
proof (induction ps arbitrary: st)
  case (Cons p ps)
  then have "followed v ms0 (supersede_current J s r turn rdl count p st)" by (simp add: followed_current)
  with Cons show ?case by simp
qed simp

lemma followed_elide_from:
  "followed v ms0 st \<Longrightarrow> distinct (map msg_ID ms0) \<Longrightarrow> \<forall>p \<in> set ps. p < length ms0
    \<Longrightarrow> followed v ms0 (snd (elide_from J s r target rdl count skip ps used st))"
proof (induction J s r target rdl count skip ps used st rule: elide_from.induct)
  case (2 J s r target rdl count skip i js used st)
  obtain ms affected evs where st: "st = (ms, affected, evs)" by (cases st) auto
  have "i < length ms" using "2.prems" followed_length st by auto
  then show ?case using 2 followed_update unfolding st by (simp add: Let_def)
qed simp

section \<open>Operations on the conversation\<close>

datatype conversation_op =
    Appending string message
  | Superseding string int int
  | ElidingOld string int int int
  | Summarizing string message compactionSummaryData

locale mirrored_operation =
  fixes run :: "session \<Rightarrow> 'op \<Rightarrow> session \<times> event list" and allowed :: "session \<Rightarrow> 'op \<Rightarrow> bool"
  assumes decodable: "distinct (map msg_ID (s_Messages s)) \<Longrightarrow> list_all conversation_event (snd (run s x))"
    and ids_stay_distinct: "distinct (map msg_ID (s_Messages s)) \<Longrightarrow> allowed s x \<Longrightarrow> distinct (map msg_ID (s_Messages (fst (run s x))))"
    and mirrored: "distinct (map msg_ID (s_Messages s)) \<Longrightarrow> allowed s x \<Longrightarrow> same_view v (s_Messages s)
      \<Longrightarrow> same_view (fold message_step (snd (run s x)) v) (s_Messages (fst (run s x)))"

primrec run_all :: "(session \<Rightarrow> 'op \<Rightarrow> session \<times> event list) \<Rightarrow> session \<Rightarrow> 'op list \<Rightarrow> session \<times> event list" where
  "run_all run s [] = (s, [])"
| "run_all run s (x # xs) = (let (s1, evs) = run s x; (s2, evs2) = run_all run s1 xs in (s2, evs @ evs2))"

primrec all_allowed :: "(session \<Rightarrow> 'op \<Rightarrow> session \<times> event list) \<Rightarrow> (session \<Rightarrow> 'op \<Rightarrow> bool) \<Rightarrow> session \<Rightarrow> 'op list \<Rightarrow> bool" where
  "all_allowed run allowed s [] = True"
| "all_allowed run allowed s (x # xs) = (allowed s x \<and> all_allowed run allowed (fst (run s x)) xs)"

context mirrored_operation begin

lemma mirrored_all:
  "distinct (map msg_ID (s_Messages s)) \<Longrightarrow> all_allowed run allowed s xs \<Longrightarrow> same_view v (s_Messages s)
    \<Longrightarrow> list_all conversation_event (snd (run_all run s xs)) \<and> same_view (fold message_step (snd (run_all run s xs)) v) (s_Messages (fst (run_all run s xs)))"
proof (induction xs arbitrary: s v)
  case (Cons x xs)
  obtain s1 evs where x: "run s x = (s1, evs)" by (cases "run s x") auto
  obtain s2 evs2 where xs: "run_all run s1 xs = (s2, evs2)" by (cases "run_all run s1 xs") auto
  from Cons.prems x have "distinct (map msg_ID (s_Messages s1))" "same_view (fold message_step evs v) (s_Messages s1)"
    using ids_stay_distinct[of s x] mirrored[of s x v] by simp_all
  from Cons.IH[OF this(1) _ this(2)] Cons.prems(2) x xs decodable[OF Cons.prems(1), of x] show ?case by simp
qed simp

end

definition run_op :: "compact_json \<Rightarrow> counter \<Rightarrow> session \<Rightarrow> conversation_op \<Rightarrow> session \<times> event list" where
  "run_op J count s x = (case x of
     Appending r m \<Rightarrow> (Append s m, [appended_event s r m])
   | Superseding r turn rdl \<Rightarrow> snd (Supersede J s r turn rdl count)
   | ElidingOld r used target rdl \<Rightarrow> snd (ElideOld J s r used target rdl count)
   | Summarizing r m source \<Rightarrow> (case Summarize s r m source of (ok, s1, evs) \<Rightarrow> (s1, evs @ (if ok then [appended_event s1 r m] else []))))"

definition new_id :: "session \<Rightarrow> conversation_op \<Rightarrow> bool" where
  \<comment> \<open>a message that is added has an id of its own; exactly summaries are added as summaries\<close>
  "new_id s x \<longleftrightarrow> (case x of
     Appending r m \<Rightarrow> msg_ID m \<notin> msg_ID ` set (s_Messages s) \<and> msg_Category m \<noteq> ''summary''
   | Summarizing r m source \<Rightarrow> msg_ID m \<notin> msg_ID ` set (s_Messages s) \<and> msg_Category m = ''summary''
   | _ \<Rightarrow> True)"

lemma s_Messages_simps [simp]:
  "s_Messages (RecordCompaction s d) = s_Messages s" "s_Messages (ReplaceMessages s ms) = ms" "s_Messages (Append s m) = s_Messages s @ [m]"
  by (simp_all add: RecordCompaction_def ReplaceMessages_def Append_def)

lemma quiet_compaction: "kind \<noteq> ''summarize'' \<Longrightarrow> message_step (compaction_event s r kind b a aff extra) ms = ms"
  by (simp add: message_step_def compaction_event_def events_New_def eventMap_def text_of_def Let_def)

lemma compaction_decodable [simp]: "conversation_event (compaction_event s r kind b a aff extra)"
  by (simp add: conversation_event_def compaction_event_def events_New_def)

lemma updated_decodable [simp]: "conversation_event (updated s r m)"
  by (simp add: conversation_event_def updated_data)

lemma appended_decodable [simp]: "conversation_event (appended_event s r m)"
  by (simp add: conversation_event_def appended_event_def events_New_def conforms_def)

lemma appended_step: "message_step (appended_event s r m) ms = insert_message m ms"
  by (simp add: message_step_def appended_event_def events_New_def Let_def)

lemma pass_mirrored:
  assumes "followed v (s_Messages s) (ms1, affected, evs)"
    and "s1 = (if affected = [] then s else RecordCompaction (ReplaceMessages s ms1) d)"
    and "evs1 = evs @ (if affected = [] then [] else [compaction_event s r ''elide'' b a affected []])"
  shows "same_view (fold message_step evs1 v) (s_Messages s1)" "map msg_ID (s_Messages s1) = map msg_ID (s_Messages s)"
    "list_all conversation_event evs1"
  using assms by (cases "affected = []"; simp add: followed_def quiet_compaction)+

lemma run_superseding:
  assumes "distinct (map msg_ID (s_Messages s))" "same_view v (s_Messages s)" "run_op J count s (Superseding r turn rdl) = (s1, evs1)"
  shows "same_view (fold message_step evs1 v) (s_Messages s1)" "map msg_ID (s_Messages s1) = map msg_ID (s_Messages s)" "list_all conversation_event evs1"
proof -
  let ?ms = "s_Messages s"
  obtain ms1 affected evs where st: "fold (supersede_current J s r turn rdl count) [0..<length ?ms] (?ms, [], []) = (ms1, affected, evs)" by (metis prod_cases3)
  have "followed v ?ms (?ms, [], [])" using assms(2) by (simp add: followed_def)
  then have f: "followed v ?ms (ms1, affected, evs)"
    using followed_supersede[of v ?ms "(?ms, [], [])" "[0..<length ?ms]" J s r turn rdl count] assms(1) by (simp add: st)
  have "s1 = (if affected = [] then s else RecordCompaction (ReplaceMessages s ms1) (tokenSum ms1 - tokenSum ?ms))"
    "evs1 = evs @ (if affected = [] then [] else [compaction_event s r ''elide'' (tokenSum ?ms) (tokenSum ms1) affected []])"
    using assms(3) by (auto simp: run_op_def Supersede_def st Let_def split: if_splits)
  from pass_mirrored[OF f this] show "same_view (fold message_step evs1 v) (s_Messages s1)"
    "map msg_ID (s_Messages s1) = map msg_ID (s_Messages s)" "list_all conversation_event evs1" .
qed

lemma run_eliding_old:
  assumes "distinct (map msg_ID (s_Messages s))" "same_view v (s_Messages s)" "run_op J count s (ElidingOld r used target rdl) = (s1, evs1)"
  shows "same_view (fold message_step evs1 v) (s_Messages s1)" "map msg_ID (s_Messages s1) = map msg_ID (s_Messages s)" "list_all conversation_event evs1"
proof -
  let ?ms = "s_Messages s"
  obtain used1 ms1 affected evs where st: "elide_from J s r target rdl count (kept_results ?ms) [0..<length ?ms] used (?ms, [], []) = (used1, ms1, affected, evs)"
    by (metis prod_cases4)
  have "followed v ?ms (?ms, [], [])" using assms(2) by (simp add: followed_def)
  then have f: "followed v ?ms (ms1, affected, evs)"
    using followed_elide_from[of v ?ms "(?ms, [], [])" "[0..<length ?ms]" J s r target rdl count "kept_results ?ms" used] assms(1) by (simp add: st)
  have "s1 = (if affected = [] then s else RecordCompaction (ReplaceMessages s ms1) (used1 - used))"
    "evs1 = evs @ (if affected = [] then [] else [compaction_event s r ''elide'' used used1 affected []])"
    using assms(3) by (auto simp: run_op_def ElideOld_def st Let_def split: if_splits)
  from pass_mirrored[OF f this] show "same_view (fold message_step evs1 v) (s_Messages s1)"
    "map msg_ID (s_Messages s1) = map msg_ID (s_Messages s)" "list_all conversation_event evs1" .
qed

lemma kept_after_summary:
  assumes "distinct (map msg_ID ms)" "ms \<noteq> []"
  shows "filter (\<lambda>m. msg_ID m \<notin> set (map (\<lambda>i. msg_ID (ms ! i)) (filter (\<lambda>i. \<not> keep i) [1..<length ms]))) ms
    = ms ! 0 # map ((!) ms) (filter keep [1..<length ms])"
proof -
  have inj: "msg_ID (ms ! i) = msg_ID (ms ! j) \<longleftrightarrow> i = j" if "i < length ms" "j < length ms" for i j
    using assms(1) that by (metis distinct_conv_nth length_map nth_map)
  let ?gone = "set (map (\<lambda>i. msg_ID (ms ! i)) (filter (\<lambda>i. \<not> keep i) [1..<length ms]))"
  have gone: "msg_ID (ms ! i) \<in> ?gone \<longleftrightarrow> 0 < i \<and> \<not> keep i" if "i < length ms" for i
    using that inj by (auto simp: image_iff)
  have "filter (\<lambda>m. msg_ID m \<notin> ?gone) ms = filter (\<lambda>m. msg_ID m \<notin> ?gone) (map ((!) ms) [0..<length ms])" by (simp only: map_nth)
  also have "\<dots> = map ((!) ms) (filter (\<lambda>i. msg_ID (ms ! i) \<notin> ?gone) [0..<length ms])" by (simp only: filter_map comp_def)
  also have "filter (\<lambda>i. msg_ID (ms ! i) \<notin> ?gone) [0..<length ms] = filter (\<lambda>i. i = 0 \<or> keep i) [0..<length ms]"
  proof (rule filter_cong[OF refl])
    fix i assume "i \<in> set [0..<length ms]"
    then have "i < length ms" by simp
    from gone[OF this] show "(msg_ID (ms ! i) \<notin> ?gone) = (i = 0 \<or> keep i)" by (metis gr0I less_irrefl)
  qed
  also have "[0..<length ms] = 0 # [1..<length ms]" using assms(2) by (simp add: upt_conv_Cons)
  also have "filter (\<lambda>i. i = 0 \<or> keep i) (0 # [1..<length ms]) = 0 # filter keep [1..<length ms]"
    by (auto intro: filter_cong)
  finally show ?thesis by simp
qed

lemma run_appending:
  assumes "same_view v (s_Messages s)" "msg_Category m \<noteq> ''summary''" "run_op J count s (Appending r m) = (s1, evs1)"
  shows "same_view (fold message_step evs1 v) (s_Messages s1)"
  using assms by (auto simp: run_op_def appended_step insert_message_def same_view_def)

lemma summary_step:
  "message_step (events_New ''compaction.summary'' sid r d) ms = ms" "conversation_event (events_New ''compaction.summary'' sid r (GSummary d1))"
  by (simp_all add: message_step_def conversation_event_def events_New_def Let_def)

lemma summarize_step:
  "message_step (compaction_event s r ''summarize'' b a affected extra) ms = filter (\<lambda>m. msg_ID m \<notin> set affected) ms"
  by (simp add: message_step_def compaction_event_def events_New_def eventMap_def text_of_def stringValues_def Let_def)

lemma run_summarizing:
  assumes "distinct (map msg_ID (s_Messages s))" "same_view v (s_Messages s)" "msg_Category m = ''summary''"
    and "run_op J count s (Summarizing r m source) = (s1, evs1)"
  shows "same_view (fold message_step evs1 v) (s_Messages s1)"
proof -
  let ?ms = "s_Messages s" and ?n = "length (s_Messages s)"
  obtain ok s2 evs where z: "Summarize s r m source = (ok, s2, evs)" by (metis prod_cases3)
  show ?thesis
  proof (cases ok)
    case False
    then have "s2 = s \<and> fold message_step evs v = v"
      using z by (auto simp: Summarize_def Let_def summary_step split: if_splits)
    with False z assms(2,4) show ?thesis by (simp add: run_op_def)
  next
    case True
    let ?kept = "map ((!) ?ms) (filter (summary_keep ?n) [1..<?n])"
    let ?gone = "map (\<lambda>i. msg_ID (?ms ! i)) (filter (\<lambda>i. \<not> summary_keep ?n i) [1..<?n])"
    have n: "7 < ?n" using z True by (auto simp: Summarize_def Let_def split: if_splits)
    have s2: "s_Messages s2 = ?ms ! 0 # m # ?kept" and evs: "fold message_step evs v = filter (\<lambda>x. msg_ID x \<notin> set ?gone) v"
      using z True n by (auto simp: Summarize_def Let_def summary_step summarize_step split: if_splits)
    have "same_view (filter (\<lambda>x. msg_ID x \<notin> set ?gone) v) (?ms ! 0 # ?kept)"
      using same_view_filter[OF assms(2), of "\<lambda>i. i \<notin> set ?gone"] kept_after_summary[OF assms(1), of "summary_keep ?n"] n by fastforce
    from same_view_insert[OF this, of m] have "same_view (insert_message m (filter (\<lambda>x. msg_ID x \<notin> set ?gone) v)) (s_Messages s2)"
      using assms(3) by (simp add: s2 insert_message_def)
    moreover have "fold message_step evs1 v = insert_message m (filter (\<lambda>x. msg_ID x \<notin> set ?gone) v)" "s1 = s2"
      using assms(4) True z by (auto simp: run_op_def evs appended_step)
    ultimately show ?thesis by simp
  qed
qed

lemma run_op_mirrored:
  assumes "distinct (map msg_ID (s_Messages s))" "new_id s x" "same_view v (s_Messages s)"
  shows "same_view (fold message_step (snd (run_op J count s x)) v) (s_Messages (fst (run_op J count s x)))"
proof (cases "run_op J count s x")
  case (Pair s1 evs)
  then show ?thesis
    using assms run_appending[OF assms(3)] run_superseding(1)[OF assms(1,3)] run_eliding_old(1)[OF assms(1,3)] run_summarizing[OF assms(1,3)]
    by (cases x) (auto simp: new_id_def)
qed

lemma run_op_ids:
  assumes "distinct (map msg_ID (s_Messages s))" "new_id s x"
  shows "distinct (map msg_ID (s_Messages (fst (run_op J count s x))))"
proof (cases x)
  case (Appending r m)
  with assms show ?thesis by (simp add: run_op_def new_id_def)
next
  case (Superseding r turn rdl)
  with assms(1) show ?thesis using run_superseding(2)[OF assms(1) same_view_refl, of J count r turn rdl] by (metis prod.collapse)
next
  case (ElidingOld r used target rdl)
  with assms(1) show ?thesis using run_eliding_old(2)[OF assms(1) same_view_refl, of J count r used target rdl] by (metis prod.collapse)
next
  case (Summarizing r m source)
  let ?ms = "s_Messages s"
  obtain ok s1 evs where z: "Summarize s r m source = (ok, s1, evs)" by (metis prod_cases3)
  show ?thesis
  proof (cases ok)
    case True
    have "Summarize s r m source = (True, s1, evs)" using z True by simp
    from Summarize_messages[OF this] have n: "7 < length ?ms" "s_Messages s1 = hd ?ms # m # drop (length ?ms - 6) ?ms" by simp_all
    then obtain x xs where ms: "?ms = x # xs" by (cases ?ms) auto
    have "set (drop (length ?ms - 6) ?ms) \<subseteq> set xs" using n(1) by (simp add: ms drop_Cons' set_drop_subset)
    moreover have "distinct (map msg_ID (drop (length ?ms - 6) ?ms))" using assms(1) by (metis distinct_drop drop_map)
    ultimately have "distinct (map msg_ID (s_Messages s1))"
      using assms n(2) Summarizing by (auto simp: ms new_id_def)
    with z True Summarizing show ?thesis by (simp add: run_op_def)
  next
    case False
    then have "s1 = s" using z by (auto simp: Summarize_def Let_def split: if_splits)
    with z False Summarizing assms(1) show ?thesis by (simp add: run_op_def)
  qed
qed

lemma run_op_decodable:
  assumes "distinct (map msg_ID (s_Messages s))"
  shows "list_all conversation_event (snd (run_op J count s x))"
proof (cases x)
  case (Appending r m)
  then show ?thesis by (simp add: run_op_def)
next
  case (Superseding r turn rdl)
  then show ?thesis using run_superseding(3)[OF assms same_view_refl, of J count r turn rdl] by (metis prod.collapse)
next
  case (ElidingOld r used target rdl)
  then show ?thesis using run_eliding_old(3)[OF assms same_view_refl, of J count r used target rdl] by (metis prod.collapse)
next
  case (Summarizing r m source)
  then show ?thesis by (simp add: run_op_def Summarize_def Let_def summary_step)
qed

interpretation conversation: mirrored_operation "run_op J count" new_id for J count
  by unfold_locales (rule run_op_decodable run_op_ids run_op_mirrored; assumption)+

text \<open>C12. The projection mirrors the conversation.  Whatever sequence of appended messages, supersede passes, elide-old passes and
  summaries a session goes through, projecting the events they published succeeds and the message list of the snapshot is the
  session's again, apart from \<^verbatim>\<open>estimated\<close>, which no patch carries and \<open>same_view\<close> does not compare.  This holds when the messages have
  distinct ids, every added message has an id that none of them has, and exactly the summaries are added with category
  \<^verbatim>\<open>summary\<close> (\<open>new_id\<close>); with an id used twice it fails, as \<open>shared_id_overwrites_another_message\<close> below shows.\<close>
theorem projection_mirrors_the_conversation:
  assumes "distinct (map msg_ID (s_Messages s))" "all_allowed (run_op J count) new_id s ops" "same_view (sn_Messages sn) (s_Messages s)"
    and "logged rs (snd (run_all (run_op J count) s ops))"
  shows "\<exists>sn1. project_all t sn rs = Ok sn1 \<and> same_view (sn_Messages sn1) (s_Messages (fst (run_all (run_op J count) s ops)))"
  using replay_messages[OF _ assms(4)] conversation.mirrored_all[OF assms(1-3)] by metis

lemma logged_self [simp]: "logged (map (Pair c) evs) evs"
  by (simp add: logged_def list.rel_map list_all2_same)

definition demo_ops :: "conversation_op list" where
  "demo_ops = [Appending ''r'' (emptyMessage\<lparr>msg_ID := ''m-9'', msg_Role := ''user'', msg_Content := ''hi''\<rparr>), ElidingOld ''r'' 300 200 4096]"

lemma demo_ops_allowed: "distinct (map msg_ID (s_Messages demo_chat))" "all_allowed (run_op demo_json demo_count) new_id demo_chat demo_ops"
  subgoal by code_simp
  subgoal by (simp add: demo_ops_def new_id_def demo_chat_messages demo_messages_def demo_call_def demo_result_def emptyMessage_def)
  done

theorem projection_mirrors_the_conversation_witness:
  "\<exists>sn1. project_all (\<lambda>_. 0) ((emptySnapshot ''s'')\<lparr>sn_Messages := s_Messages demo_chat\<rparr>)
      (map (Pair no_cursor) (snd (run_all (run_op demo_json demo_count) demo_chat demo_ops))) = Ok sn1
    \<and> same_view (sn_Messages sn1) (s_Messages (fst (run_all (run_op demo_json demo_count) demo_chat demo_ops)))"
proof -
  let ?s = "(emptySnapshot ''s'')\<lparr>sn_Messages := s_Messages demo_chat\<rparr>"
  let ?run = "run_all (run_op demo_json demo_count) demo_chat demo_ops"
  have "same_view (sn_Messages ?s) (s_Messages demo_chat)" by simp
  from projection_mirrors_the_conversation[OF demo_ops_allowed(1,2) this logged_self]
  obtain sn1 where sn1: "project_all (\<lambda>_. 0) ?s (map (Pair no_cursor) (snd ?run)) = Ok sn1" "same_view (sn_Messages sn1) (s_Messages (fst ?run))" by blast
  then show ?thesis by blast
qed

section \<open>Where the mirror breaks\<close>

text \<open>C38. An id that two messages share.  The projector changes every message that has the id of a \<^verbatim>\<open>message.updated\<close>, the session only
  the one it elides: the text of the other message, which may be the operator's, is replaced by the stub in every client
  and in what is restored later.
\<close>
theorem shared_id_overwrites_another_message:
  assumes "p < length (sn_Messages sn)" "q < length (sn_Messages sn)" "p \<noteq> q" "msg_ID (sn_Messages sn ! q) = msg_ID (sn_Messages sn ! p)"
    and "stub = elide J (sn_Messages sn ! p) raw rdl count" "logged [r] [updated s run stub]"
  shows "\<exists>sn1. project t sn (fst r) (snd r) = Ok sn1 \<and> msg_Content (sn_Messages sn1 ! q) = msg_Content stub \<and> msg_Elided (sn_Messages sn1 ! q)
    \<and> (sn_Messages sn)[p := stub] ! q = sn_Messages sn ! q"
proof -
  from assms(6) have e: "ev_Type (snd r) = ev_Type (updated s run stub)" "ev_Data (snd r) = ev_Data (updated s run stub)" by (simp_all add: logged_def)
  then have "conversation_event (snd r)" by (simp add: conversation_event_def updated_data)
  from project_messages[OF this, of t sn "fst r"] message_step_cong[OF e]
  obtain sn1 where sn1: "project t sn (fst r) (snd r) = Ok sn1" "sn_Messages sn1 = message_step (updated s run stub) (sn_Messages sn)" by auto
  have "msg_ID stub = msg_ID (sn_Messages sn ! q)" using assms(4,5) by simp
  then have "sn_Messages sn1 ! q = patch_message [(''content'', GStr (msg_Content stub)), (''tokens'', GInt (msg_Tokens stub)), (''elided'', GBool True)] (sn_Messages sn ! q)"
    using assms(2) unfolding sn1(2) message_step_def Let_def updated_data by simp
  with sn1(1) assms(3) show ?thesis by (simp add: patch_message_def ghas_def text_of_def)
qed

theorem shared_id_overwrites_another_message_witness:
  "let ask = emptyMessage\<lparr>msg_ID := ''m-1'', msg_Role := ''user'', msg_Content := ''keep this''\<rparr>;
       result = (demo_result ''1'' 1)\<lparr>msg_ID := ''m-1''\<rparr>; stub = elide demo_json result ''{}'' 4096 demo_count in
   \<exists>sn1. project (\<lambda>_. 0) ((emptySnapshot ''s'')\<lparr>sn_Messages := [result, ask]\<rparr>) no_cursor (updated demo_chat ''r'' stub) = Ok sn1
     \<and> msg_Content (sn_Messages sn1 ! 1) = msg_Content stub \<and> msg_Elided (sn_Messages sn1 ! 1)"
  unfolding Let_def
  using shared_id_overwrites_another_message[of 0 "(emptySnapshot ''s'')\<lparr>sn_Messages := [(demo_result ''1'' 1)\<lparr>msg_ID := ''m-1''\<rparr>,
        emptyMessage\<lparr>msg_ID := ''m-1'', msg_Role := ''user'', msg_Content := ''keep this''\<rparr>]\<rparr>" 1
      "elide demo_json ((demo_result ''1'' 1)\<lparr>msg_ID := ''m-1''\<rparr>) ''{}'' 4096 demo_count" demo_json "''{}''" 4096 demo_count
      "(no_cursor, updated demo_chat ''r'' (elide demo_json ((demo_result ''1'' 1)\<lparr>msg_ID := ''m-1''\<rparr>) ''{}'' 4096 demo_count))" demo_chat "''r''" "\<lambda>_. 0"]
  by (auto simp: logged_def)

lemma updates_keep_calls:
  "\<forall>e \<in> set evs. (\<exists>m. e = updated s r m) \<or> (\<exists>b a aff. e = compaction_event s r ''settled'' b a aff [])
    \<Longrightarrow> list_all conversation_event evs
      \<and> map (\<lambda>m. (msg_ToolCalls m, msg_Reasoning m)) (fold message_step evs v) = map (\<lambda>m. (msg_ToolCalls m, msg_Reasoning m)) v"
proof (induction evs arbitrary: v)
  case (Cons e evs)
  have "map (\<lambda>m. (msg_ToolCalls m, msg_Reasoning m)) (message_step (updated s r m) v) = map (\<lambda>m. (msg_ToolCalls m, msg_Reasoning m)) v" for m
    unfolding message_step_def Let_def updated_data by (simp add: patch_message_def ghas_def)
  then have "map (\<lambda>m. (msg_ToolCalls m, msg_Reasoning m)) (message_step e v) = map (\<lambda>m. (msg_ToolCalls m, msg_Reasoning m)) v" "conversation_event e"
    using Cons.prems by (auto simp: quiet_compaction)
  with Cons.IH[of "message_step e v"] Cons.prems show ?case by simp
qed simp

text \<open>Settled messages keep their calls in the projection.  Settling removes the tool calls and the reasoning of a message
  in the session; the events it publishes leave both in the projection, so a client and a restored session have them again.
\<close>
theorem settled_calls_stay_in_the_projection:
  assumes "same_view (sn_Messages sn) (s_Messages s)" "Settle s r ptr ids count = (True, s1, evs)" "logged rs evs"
    and "i < length (s_Messages s)" "msg_ID (s_Messages s ! i) \<in> set ids" "trim_space (msg_ID (s_Messages s ! i)) \<noteq> []"
    and "\<not> msg_Elided (s_Messages s ! i)" "msg_Role (s_Messages s ! i) = ''assistant''"
  shows "\<exists>sn1. project_all t sn rs = Ok sn1 \<and> msg_ToolCalls (s_Messages s1 ! i) = [] \<and> msg_Reasoning (s_Messages s1 ! i) = []
    \<and> msg_ToolCalls (sn_Messages sn1 ! i) = msg_ToolCalls (s_Messages s ! i) \<and> msg_Reasoning (sn_Messages sn1 ! i) = msg_Reasoning (s_Messages s ! i)"
proof -
  have "\<forall>e \<in> set evs. (\<exists>m. e = updated s r m) \<or> (\<exists>b a aff. e = compaction_event s r ''settled'' b a aff [])"
    using assms(2) by (auto simp: Settle_def Let_def split: if_splits)
  note kept = updates_keep_calls[OF this, of "sn_Messages sn"]
  from replay_messages[OF conjunct1[OF kept] assms(3), of t sn] obtain sn1
    where sn1: "project_all t sn rs = Ok sn1" "sn_Messages sn1 = fold message_step evs (sn_Messages sn)" by blast
  have len: "i < length (sn_Messages sn)" using assms(1,4) by (simp add: same_view_nth)
  have "map (\<lambda>m. (msg_ToolCalls m, msg_Reasoning m)) (sn_Messages sn1) = map (\<lambda>m. (msg_ToolCalls m, msg_Reasoning m)) (sn_Messages sn)"
    using kept sn1(2) by simp
  then have "(msg_ToolCalls (sn_Messages sn1 ! i), msg_Reasoning (sn_Messages sn1 ! i)) = (msg_ToolCalls (sn_Messages sn ! i), msg_Reasoning (sn_Messages sn ! i))"
    using len by (metis (no_types, lifting) length_map nth_map)
  moreover have "blur (sn_Messages sn ! i) = blur (s_Messages s ! i)" using assms(1,4) by (simp add: same_view_nth)
  then have "msg_ToolCalls (sn_Messages sn ! i) = msg_ToolCalls (s_Messages s ! i) \<and> msg_Reasoning (sn_Messages sn ! i) = msg_Reasoning (s_Messages s ! i)"
    by (cases "sn_Messages sn ! i"; cases "s_Messages s ! i") (simp add: blur_def)
  moreover have "s_Messages s1 ! i = settle_message ptr count (s_Messages s ! i)"
    using assms(2,4-8) by (auto simp: Settle_def Let_def split: if_splits)
  ultimately show ?thesis using sn1(1) by (simp add: settle_message_def)
qed

lemma demo_settled: "fst (Settle demo_chat ''r'' ''[settled]'' [''a1''] demo_count)"
  by code_simp

theorem settled_calls_stay_in_the_projection_witness:
  "\<exists>sn1. project_all (\<lambda>_. 0) ((emptySnapshot ''s'')\<lparr>sn_Messages := s_Messages demo_chat\<rparr>)
      (map (Pair no_cursor) (snd (snd (Settle demo_chat ''r'' ''[settled]'' [''a1''] demo_count)))) = Ok sn1
    \<and> msg_ToolCalls (s_Messages (fst (snd (Settle demo_chat ''r'' ''[settled]'' [''a1''] demo_count))) ! 1) = []
    \<and> length (msg_ToolCalls (sn_Messages sn1 ! 1)) = 1"
proof -
  obtain s1 evs where settled: "Settle demo_chat ''r'' ''[settled]'' [''a1''] demo_count = (True, s1, evs)"
    by (cases "Settle demo_chat ''r'' ''[settled]'' [''a1''] demo_count") (use demo_settled in simp)
  have view: "same_view (sn_Messages ((emptySnapshot ''s'')\<lparr>sn_Messages := s_Messages demo_chat\<rparr>)) (s_Messages demo_chat)" by simp
  have m: "s_Messages demo_chat ! 1 = demo_call ''1''" "1 < length (s_Messages demo_chat)" by (simp_all add: demo_chat_messages demo_messages_def)
  have call: "msg_ID (demo_call ''1'') = ''a1''" "trim_space ''a1'' \<noteq> []" "\<not> msg_Elided (demo_call ''1'')" "msg_Role (demo_call ''1'') = ''assistant''"
    "length (msg_ToolCalls (demo_call ''1'')) = 1"
    by code_simp+
  from settled_calls_stay_in_the_projection[OF view settled logged_self[of no_cursor] m(2), where t = "\<lambda>_. 0"] m(1) call settled
  show ?thesis by auto
qed

end
