(* ===== verification/Progress.thy ===== *)
theory Progress
  imports Scheduler Go_JSON Go_Float Go_Strings "HOL-Library.AList"
begin

text \<open>
  The progress detectors (\<^verbatim>\<open>internal/progress/progress.go\<close>): seven shadow evaluators that watch the events of a run and
  are published when it stops.

  \<open>normalizers\<close> are the seven compiled patterns of \<^verbatim>\<open>NormalizeResult\<close> with their replacements and \<^verbatim>\<open>json.Marshal\<close> to text,
  parameters of the model; the pattern for timeouts is modelled.  Maps are lists (of the keys that are true, or of pairs).
\<close>

section \<open>State\<close>

record normalizers =
  nz_rfcTime :: "string \<Rightarrow> string"
  nz_clockTime :: "string \<Rightarrow> string"
  nz_pidValue :: "string \<Rightarrow> string"
  nz_durationValue :: "string \<Rightarrow> string"
  nz_offsetValue :: "string \<Rightarrow> string"
  nz_windowsTemp :: "string \<Rightarrow> string"
  nz_unixTemp :: "string \<Rightarrow> string"
  nz_marshal :: "gval \<Rightarrow> string"

record thresholds =
  th_NoNovelTurns :: int
  th_RepeatCount :: nat
  th_RepeatWindow :: nat
  th_TimeoutCount :: nat
  th_TimeoutWindow :: nat
  th_StuckAdmissions :: nat
  th_ErrorWindow :: nat
  th_ErrorRatio :: rat
  th_BaselineTurns :: nat
  th_DurationMultiplier :: rat
  th_AuxEveryTurns :: int

definition GuessedThresholds :: thresholds where
  "GuessedThresholds = \<lparr>th_NoNovelTurns = 5, th_RepeatCount = 5, th_RepeatWindow = 8, th_TimeoutCount = 3, th_TimeoutWindow = 5,
     th_StuckAdmissions = 2, th_ErrorWindow = 10, th_ErrorRatio = fl (6 / 10), th_BaselineTurns = 3, th_DurationMultiplier = 2, th_AuxEveryTurns = 10\<rparr>"

record progressRecord =
  pr_Detector :: string
  pr_Armed :: bool
  pr_Available :: bool
  pr_WouldFire :: bool
  pr_Guess :: bool
  pr_Threshold :: gmap
  pr_Values :: gmap

record progressState =
  ps_armed :: "string list"
  ps_firstFire :: "(string \<times> int) list"
  ps_seenCalls :: "string list"
  ps_seenReads :: "string list"
  ps_novelTurns :: "int list"
  ps_turnTools :: "(int \<times> string) list"
  ps_results :: "string list"
  ps_timeouts :: "bool list"
  ps_errors :: "bool list"
  ps_reasoningKnown :: bool
  ps_reasoningOn :: bool
  ps_reasoning :: string
  ps_durations :: "(int \<times> rat) list"
  ps_auxKnown :: bool
  ps_auxStuck :: bool
  ps_maxTurn :: int

definition newRunState :: "string list \<Rightarrow> progressState" where
  "newRunState armed = \<lparr>ps_armed = armed, ps_firstFire = [], ps_seenCalls = [], ps_seenReads = [], ps_novelTurns = [], ps_turnTools = [],
     ps_results = [], ps_timeouts = [], ps_errors = [], ps_reasoningKnown = False, ps_reasoningOn = False, ps_reasoning = [],
     ps_durations = [], ps_auxKnown = False, ps_auxStuck = False, ps_maxTurn = 0\<rparr>"

section \<open>Reading events\<close>

definition dataMap :: "gval \<Rightarrow> gmap" where
  "dataMap v = (case v of GNil \<Rightarrow> [] | GMap m \<Rightarrow> m | _ \<Rightarrow> obj (json_any v))"

definition progress_string :: "normalizers \<Rightarrow> gval \<Rightarrow> string" where
  \<comment> \<open>\<^verbatim>\<open>stringValue\<close> and \<^verbatim>\<open>toString\<close>\<close>
  "progress_string N v = (if v = GNil then []
     else trim_space (filter (\<lambda>c. c \<noteq> CHR 0x00) (trim_space (case v of GStr s \<Rightarrow> s | _ \<Rightarrow> nz_marshal N v))))"

definition floatValue :: "gval \<Rightarrow> rat" where
  "floatValue v = (case v of GFloat q \<Rightarrow> q | GInt n \<Rightarrow> fl (of_int n) | _ \<Rightarrow> 0)"

definition sliceStrings :: "normalizers \<Rightarrow> gval \<Rightarrow> string list" where
  "sliceStrings N v = (case v of GStrs ss \<Rightarrow> ss | GList vs \<Rightarrow> map (progress_string N) vs | _ \<Rightarrow> [])"

definition NormalizeResult :: "normalizers \<Rightarrow> string \<Rightarrow> string" where
  "NormalizeResult N value =
     str_join '' '' (str_fields (to_lower (nz_unixTemp N (nz_windowsTemp N (nz_offsetValue N (nz_durationValue N (nz_pidValue N
       (nz_clockTime N (nz_rfcTime N (replace_all value [CHR 0x0D, CHR 0x0A] [CHR 0x0A]))))))))))"

definition timed_out :: "string \<Rightarrow> bool" where
  \<comment> \<open>\<^verbatim>\<open>(?i)timed? out|timeout|deadline exceeded\<close>\<close>
  "timed_out preview \<longleftrightarrow> (\<exists>p \<in> set [''timed out'', ''time out'', ''timeout'', ''deadline exceeded'']. str_contains (to_lower preview) p)"

definition add_new :: "'a \<Rightarrow> 'a list \<Rightarrow> 'a list" where
  "add_new x xs = (if x \<in> set xs then xs else xs @ [x])"

section \<open>Observing\<close>

definition observe_call :: "normalizers \<Rightarrow> int \<Rightarrow> gmap \<Rightarrow> progressState \<Rightarrow> progressState" where
  "observe_call N turn data st =
     (let name = progress_string N (gget data ''name''); args = gget data ''args'';
          signature = name @ [CHR 0x00] @ nz_marshal N args;
          path = to_lower (replace_all (progress_string N (gget (dataMap args) ''path'')) [CHR 0x5C] ''/'');
          novel = (if name = ''write_file'' \<or> name = ''edit_file'' then True
            else if name = ''read_file'' then path \<noteq> [] \<and> path \<notin> set (ps_seenReads st) else signature \<notin> set (ps_seenCalls st))
      in st\<lparr>ps_seenCalls := add_new signature (ps_seenCalls st),
            ps_seenReads := (if name = ''read_file'' then add_new path (ps_seenReads st) else ps_seenReads st),
            ps_novelTurns := (if novel then add_new turn (ps_novelTurns st) else ps_novelTurns st),
            ps_turnTools := add_new (turn, name) (ps_turnTools st)\<rparr>)"

definition observe_result :: "normalizers \<Rightarrow> gmap \<Rightarrow> progressState \<Rightarrow> progressState" where
  "observe_result N data st =
     (let preview = progress_string N (gget data ''preview'') in
      st\<lparr>ps_results := ps_results st @ [NormalizeResult N preview], ps_timeouts := ps_timeouts st @ [timed_out preview],
         ps_errors := ps_errors st @ [\<not> as_bool (gget data ''ok'')]\<rparr>)"

definition observe :: "normalizers \<Rightarrow> event \<Rightarrow> progressState \<Rightarrow> progressState" where
  "observe N e st0 =
     (let data = dataMap (ev_Data e); turn = num (gget data ''turn''); ty = ev_Type e; st = st0\<lparr>ps_maxTurn := max turn (ps_maxTurn st0)\<rparr> in
      if ty = ''model.request'' then st\<lparr>ps_reasoningKnown := True,
          ps_reasoningOn := as_bool (gget (dataMap (gget (dataMap (gget data ''params'')) ''reasoning'')) ''enabled'')\<rparr>
      else if ty = ''model.delta'' then (if gget data ''kind'' = GStr ''reasoning''
          then st\<lparr>ps_reasoning := ps_reasoning st @ to_lower (progress_string N (gget data ''text''))\<rparr> else st)
      else if ty = ''tool.call'' then observe_call N turn data st
      else if ty = ''tool.result'' then observe_result N data st
      else if ty = ''model.response'' then st\<lparr>ps_durations := AList.update turn (floatValue (gget data ''duration_ms'')) (ps_durations st)\<rparr>
      else if ty = ''progress.aux'' then st\<lparr>ps_auxKnown := as_bool (gget data ''available''),
          ps_auxStuck := equal_fold (progress_string N (gget data ''verdict'')) ''stuck''\<rparr>
      else st)"

section \<open>Evaluating\<close>

primrec no_novel_before :: "int list \<Rightarrow> nat \<Rightarrow> int" where
  \<comment> \<open>the loop from the last turn down to the last novel one\<close>
  "no_novel_before ns 0 = 0"
| "no_novel_before ns (Suc n) = (if int (Suc n) \<in> set ns then 0 else 1 + no_novel_before ns n)"

definition tail_of :: "nat \<Rightarrow> 'a list \<Rightarrow> 'a list" where
  \<comment> \<open>\<^verbatim>\<open>tailStrings\<close>, \<^verbatim>\<open>tailBools\<close>, \<^verbatim>\<open>tailInts\<close>\<close>
  "tail_of n xs = drop (length xs - n) xs"

definition countTrue :: "bool list \<Rightarrow> nat" where
  "countTrue bs = length (filter id bs)"

definition max_repeat :: "string list \<Rightarrow> nat" where
  "max_repeat rs = fold (\<lambda>r n. max n (count_list rs r)) rs 0"

definition sortedTurns :: "(int \<times> rat) list \<Rightarrow> int list" where
  "sortedTurns ds = sort (map fst ds)"

definition averageTurns :: "(int \<times> rat) list \<Rightarrow> int list \<Rightarrow> rat" where
  "averageTurns ds turns = (if turns = [] then 0
     else fl (fold (\<lambda>t total. fl (total + (case map_of ds t of None \<Rightarrow> 0 | Some d \<Rightarrow> d))) turns 0 / of_nat (length turns)))"

definition stuck_phrases :: "string list" where
  "stuck_phrases = [''i'' @ [CHR 0x27] @ ''m stuck'', ''i am stuck'', ''tried several'', ''doesn'' @ [CHR 0x27] @ ''t seem to be working'', ''not making progress'']"

definition diversity :: "progressState \<Rightarrow> int list \<Rightarrow> string list" where
  "diversity st turns = remdups (map snd (filter (\<lambda>(t, n). t \<in> set turns) (ps_turnTools st)))"

definition recent_turns :: "progressState \<Rightarrow> int list" where
  "recent_turns st = tail_of (th_BaselineTurns GuessedThresholds) (sortedTurns (ps_durations st))"

definition deviation :: "progressState \<Rightarrow> bool" where
  "deviation st =
     (let T = GuessedThresholds; turns = sortedTurns (ps_durations st);
          baseline = averageTurns (ps_durations st) (take (th_BaselineTurns T) turns); recent = averageTurns (ps_durations st) (recent_turns st)
      in 2 * th_BaselineTurns T \<le> length turns \<and> 0 < baseline \<and> fl (baseline * th_DurationMultiplier T) \<le> recent
         \<and> length (diversity st (recent_turns st)) \<le> 1)"

definition no_novel :: "progressState \<Rightarrow> int" where
  "no_novel st = no_novel_before (ps_novelTurns st) (nat (ps_maxTurn st))"

definition stuck_count :: "progressState \<Rightarrow> nat" where
  "stuck_count st = sum_list (map (str_count (ps_reasoning st)) stuck_phrases)"

definition error_ratio :: "progressState \<Rightarrow> rat" where
  "error_ratio st = (let w = tail_of (th_ErrorWindow GuessedThresholds) (ps_errors st) in
     if w = [] then 0 else fl (of_nat (countTrue w) / of_nat (length w)))"

definition would_fire :: "progressState \<Rightarrow> string \<Rightarrow> bool" where
  \<comment> \<open>the conditions of the seven records\<close>
  "would_fire st d =
     (let T = GuessedThresholds in
      if d = ''novel_action'' then th_NoNovelTurns T \<le> no_novel st
      else if d = ''result_repetition'' then th_RepeatCount T \<le> max_repeat (tail_of (th_RepeatWindow T) (ps_results st))
      else if d = ''repeated_timeouts'' then th_TimeoutCount T \<le> countTrue (tail_of (th_TimeoutWindow T) (ps_timeouts st))
      else if d = ''model_says_stuck'' then th_StuckAdmissions T \<le> stuck_count st
      else if d = ''error_success_ratio'' then th_ErrorWindow T \<le> length (ps_errors st) \<and> th_ErrorRatio T \<le> error_ratio st
      else if d = ''baseline_deviation'' then deviation st
      else if d = ''aux_progress'' then ps_auxKnown st \<and> ps_auxStuck st else False)"

definition is_available :: "progressState \<Rightarrow> string \<Rightarrow> bool" where
  "is_available st d =
     (if d = ''model_says_stuck'' then ps_reasoningKnown st \<and> ps_reasoningOn st
      else if d = ''baseline_deviation'' then 2 * th_BaselineTurns GuessedThresholds \<le> length (ps_durations st)
      else if d = ''aux_progress'' then ''aux_progress'' \<in> set (ps_armed st) \<and> ps_auxKnown st else True)"

definition threshold_values :: "string \<Rightarrow> gmap" where
  "threshold_values d =
     (let T = GuessedThresholds; n = (\<lambda>x. GInt (int x)) in
      if d = ''novel_action'' then [(''consecutive_turns'', GInt (th_NoNovelTurns T))]
      else if d = ''result_repetition'' then [(''count'', n (th_RepeatCount T)), (''window'', n (th_RepeatWindow T))]
      else if d = ''repeated_timeouts'' then [(''count'', n (th_TimeoutCount T)), (''window'', n (th_TimeoutWindow T))]
      else if d = ''model_says_stuck'' then [(''admissions'', n (th_StuckAdmissions T))]
      else if d = ''error_success_ratio'' then [(''ratio'', GFloat (th_ErrorRatio T)), (''window'', n (th_ErrorWindow T))]
      else if d = ''baseline_deviation'' then [(''baseline_turns'', n (th_BaselineTurns T)),
          (''duration_multiplier'', GFloat (th_DurationMultiplier T)), (''recent_tool_diversity_max'', GInt 1)]
      else [(''every_turns'', GInt (th_AuxEveryTurns T)), (''soft'', GBool True)])"

definition record_values :: "progressState \<Rightarrow> string \<Rightarrow> gmap" where
  "record_values st d =
     (let T = GuessedThresholds; n = (\<lambda>x. GInt (int x)); tl_results = tail_of (th_RepeatWindow T) (ps_results st); turns = sortedTurns (ps_durations st) in
      if d = ''novel_action'' then [(''consecutive_without_novel_action'', GInt (no_novel st))]
      else if d = ''result_repetition'' then [(''largest_repeat'', n (max_repeat tl_results)), (''observed'', n (length tl_results))]
      else if d = ''repeated_timeouts'' then [(''timeouts'', n (countTrue (tail_of (th_TimeoutWindow T) (ps_timeouts st)))),
          (''observed'', n (min (length (ps_timeouts st)) (th_TimeoutWindow T)))]
      else if d = ''model_says_stuck'' then [(''admissions'', n (stuck_count st)), (''reasoning_enabled'', GBool (ps_reasoningOn st))]
      else if d = ''error_success_ratio'' then [(''errors'', n (countTrue (tail_of (th_ErrorWindow T) (ps_errors st)))),
          (''observed'', n (min (length (ps_errors st)) (th_ErrorWindow T))), (''ratio'', GFloat (error_ratio st))]
      else if d = ''baseline_deviation'' then [(''baseline_duration_ms'', GFloat (averageTurns (ps_durations st) (take (th_BaselineTurns T) turns))),
          (''recent_duration_ms'', GFloat (averageTurns (ps_durations st) (recent_turns st))), (''recent_tool_diversity'', n (length (diversity st (recent_turns st))))]
      else [(''verdict_available'', GBool (ps_auxKnown st)), (''verdict_stuck'', GBool (ps_auxStuck st))])"

definition current_record :: "progressState \<Rightarrow> string \<Rightarrow> progressRecord" where
  "current_record st d = \<lparr>pr_Detector = d, pr_Armed = d \<in> set (ps_armed st), pr_Available = is_available st d, pr_WouldFire = would_fire st d,
     pr_Guess = True, pr_Threshold = threshold_values d, pr_Values = record_values st d\<rparr>"

definition evaluateCurrent :: "progressState \<Rightarrow> progressRecord list" where
  "evaluateCurrent st = map (current_record st) DetectorNames"

definition first_fire :: "progressState \<Rightarrow> string \<Rightarrow> int" where
  "first_fire st d = (case map_of (ps_firstFire st) d of None \<Rightarrow> 0 | Some t \<Rightarrow> t)"

definition recordFirstFires :: "progressState \<Rightarrow> progressState" where
  "recordFirstFires st = st\<lparr>ps_firstFire := ps_firstFire st
     @ map (\<lambda>r. (pr_Detector r, max 1 (ps_maxTurn st))) (filter (\<lambda>r. pr_Available r \<and> pr_WouldFire r \<and> first_fire st (pr_Detector r) = 0) (evaluateCurrent st))\<rparr>"

definition Evaluate :: "progressState \<Rightarrow> progressRecord list" where
  "Evaluate st = map (\<lambda>r. let first = first_fire st (pr_Detector r) in
     if 0 < first then r\<lparr>pr_WouldFire := True, pr_Values := pr_Values r @ [(''first_fire_turn'', GInt first)]\<rparr> else r) (evaluateCurrent st)"

definition watch :: "normalizers \<Rightarrow> event \<Rightarrow> progressState \<Rightarrow> progressState" where
  "watch N e st = recordFirstFires (observe N e st)"

definition run_boundary :: "event \<Rightarrow> bool" where
  "run_boundary e \<longleftrightarrow> ev_Type e = ''run.started'' \<or> ev_Type e = ''run.stopped''"

definition EvaluateEvents :: "normalizers \<Rightarrow> event list \<Rightarrow> string list \<Rightarrow> progressRecord list" where
  "EvaluateEvents N evs armed = Evaluate (fold (watch N) (filter (\<lambda>e. \<not> run_boundary e) evs) (newRunState armed))"

section \<open>The live consumer\<close>

type_synonym progress_runs = "string \<Rightarrow> progressState option"

definition run_key :: "event \<Rightarrow> string" where
  "run_key e = ev_SessionID e @ [CHR 0x00] @ ev_RunID e"

definition Consume :: "normalizers \<Rightarrow> event \<Rightarrow> progress_runs \<Rightarrow> progress_runs \<times> (string \<times> string \<times> progressRecord) list" where
  \<comment> \<open>the published records with session and run\<close>
  "Consume N e runs =
     (if ev_SessionID e = [] \<or> ev_RunID e = [] then (runs, [])
      else let k = run_key e;
               runs1 = (if ev_Type e = ''run.started'' then runs(k \<mapsto> newRunState (sliceStrings N (gget (dataMap (ev_Data e)) ''armed_detectors''))) else runs)
           in case runs1 k of None \<Rightarrow> (runs1, [])
              | Some st \<Rightarrow> if ev_Type e = ''run.stopped''
                  then (runs1(k := None), map (\<lambda>r. (ev_SessionID e, ev_RunID e, r)) (Evaluate (recordFirstFires st)))
                  else (runs1(k \<mapsto> watch N e st), []))"

primrec Consume_all :: "normalizers \<Rightarrow> event list \<Rightarrow> progress_runs \<Rightarrow> progress_runs" where
  "Consume_all N [] runs = runs"
| "Consume_all N (e # es) runs = Consume_all N es (fst (Consume N e runs))"

section \<open>Latching\<close>

definition latched :: "progressState \<Rightarrow> bool" where
  \<comment> \<open>every detector that fires now has its first turn recorded\<close>
  "latched st \<longleftrightarrow> (\<forall>(d, t) \<in> set (ps_firstFire st). 0 < t)
     \<and> (\<forall>d \<in> set DetectorNames. is_available st d \<and> would_fire st d \<longrightarrow> 0 < first_fire st d)"

lemma first_fire_nonneg: "\<forall>(d, t) \<in> set (ps_firstFire st). 0 < t \<Longrightarrow> 0 \<le> first_fire st d"
  by (auto simp: first_fire_def split: option.split dest!: map_of_SomeD)

lemma evaluation_ignores_fires [simp]:
  "is_available (st\<lparr>ps_firstFire := f\<rparr>) d = is_available st d" "would_fire (st\<lparr>ps_firstFire := f\<rparr>) d = would_fire st d"
  "record_values (st\<lparr>ps_firstFire := f\<rparr>) d = record_values st d"
  by (simp_all add: is_available_def would_fire_def record_values_def no_novel_def stuck_count_def error_ratio_def deviation_def recent_turns_def
      diversity_def Let_def cong: if_cong)

lemma fired_now:
  "filter (\<lambda>r. pr_Available r \<and> pr_WouldFire r \<and> first_fire st (pr_Detector r) = 0) (evaluateCurrent st)
     = map (current_record st) (filter (\<lambda>d. is_available st d \<and> would_fire st d \<and> first_fire st d = 0) DetectorNames)"
  by (simp add: evaluateCurrent_def filter_map comp_def current_record_def)

lemma record_fires:
  "recordFirstFires st = st\<lparr>ps_firstFire := ps_firstFire st
     @ map (\<lambda>d. (d, max 1 (ps_maxTurn st))) (filter (\<lambda>d. is_available st d \<and> would_fire st d \<and> first_fire st d = 0) DetectorNames)\<rparr>"
  unfolding recordFirstFires_def fired_now by (simp add: comp_def current_record_def)

lemma first_fire_recorded:
  assumes "\<forall>(d, t) \<in> set (ps_firstFire st). 0 < t"
  shows "first_fire (recordFirstFires st) d = (if first_fire st d = 0 \<and> d \<in> set DetectorNames \<and> is_available st d \<and> would_fire st d
     then max 1 (ps_maxTurn st) else first_fire st d)"
proof (cases "map_of (ps_firstFire st) d")
  case None
  have "map_of (map (\<lambda>d. (d, t)) ds) d = (if d \<in> set ds then Some t else None)" for ds and t :: int
    by (induction ds) auto
  with None show ?thesis by (simp add: record_fires first_fire_def map_add_def)
next
  case (Some t)
  with assms have "0 < t" by (auto dest: map_of_SomeD)
  with Some show ?thesis by (simp add: record_fires first_fire_def map_add_Some_iff)
qed

lemma latched_record: "\<forall>(d, t) \<in> set (ps_firstFire st). 0 < t \<Longrightarrow> latched (recordFirstFires st)"
  unfolding latched_def using first_fire_recorded[of st] first_fire_nonneg[of st]
  by (auto simp: record_fires order.order_iff_strict)

lemma latched_idem: "latched st \<Longrightarrow> recordFirstFires st = st"
proof -
  assume "latched st"
  then have "filter (\<lambda>d. is_available st d \<and> would_fire st d \<and> first_fire st d = 0) DetectorNames = []"
    by (auto simp: latched_def filter_empty_conv)
  then show ?thesis unfolding record_fires by simp
qed

lemma observe_fires [simp]: "ps_firstFire (observe N e st) = ps_firstFire st"
  by (simp add: observe_def observe_call_def observe_result_def Let_def)

lemma latched_new: "latched (newRunState armed)"
proof -
  have "str_count [] p = 0" for p by (subst str_count.simps) (cases p, simp_all)
  then show ?thesis
    by (simp add: latched_def newRunState_def DetectorNames_def would_fire_def GuessedThresholds_def no_novel_def stuck_count_def stuck_phrases_def
        max_repeat_def tail_of_def countTrue_def deviation_def sortedTurns_def Let_def)
qed

lemma latched_watch: "latched st \<Longrightarrow> latched (watch N e st)"
  unfolding watch_def by (rule latched_record) (simp add: latched_def)

lemma latched_fold: "latched st \<Longrightarrow> latched (fold (watch N) es st)"
  by (induction es arbitrary: st) (simp_all add: latched_watch)

lemma first_fire_watch: "latched st \<Longrightarrow> first_fire st d \<noteq> 0 \<Longrightarrow> first_fire (watch N e st) d = first_fire st d"
  using first_fire_recorded[of "observe N e st"] by (simp add: watch_def latched_def first_fire_def)

lemma first_fire_stays: "latched st \<Longrightarrow> first_fire st d \<noteq> 0 \<Longrightarrow> first_fire (fold (watch N) es st) d = first_fire st d"
  by (induction es arbitrary: st) (simp_all add: latched_watch first_fire_watch)

lemma evaluated:
  "r \<in> set (Evaluate st) \<Longrightarrow> \<exists>d \<in> set DetectorNames. pr_Detector r = d \<and> (pr_WouldFire r \<longleftrightarrow> 0 < first_fire st d \<or> would_fire st d)
     \<and> (0 < first_fire st d \<longrightarrow> gget (pr_Values r) ''first_fire_turn'' = GInt (first_fire st d))"
proof -
  have "map_of (record_values st d) ''first_fire_turn'' = None" for d by (simp add: record_values_def Let_def)
  then show "r \<in> set (Evaluate st) \<Longrightarrow> ?thesis"
    by (auto simp: Evaluate_def evaluateCurrent_def current_record_def Let_def gget_def map_add_def split: if_splits)
qed

section \<open>Live and offline\<close>

locale keyed_consumer =
  fixes step :: "'e \<Rightarrow> ('k \<Rightarrow> 's option) \<Rightarrow> 'k \<Rightarrow> 's option" and concerns :: "'k \<Rightarrow> 'e \<Rightarrow> bool" and own :: "'e \<Rightarrow> 's \<Rightarrow> 's" and edge :: "'e \<Rightarrow> bool"
  assumes apart: "\<not> concerns k e \<Longrightarrow> step e m k = m k"
    and owned: "concerns k e \<Longrightarrow> \<not> edge e \<Longrightarrow> m k = Some s \<Longrightarrow> step e m k = Some (own e s)"
begin

lemma isolated:
  "m k = Some s \<Longrightarrow> \<forall>e \<in> set es. concerns k e \<longrightarrow> \<not> edge e \<Longrightarrow> fold step es m k = Some (fold own (filter (concerns k) es) s)"
proof (induction es arbitrary: m s)
  case (Cons e es)
  show ?case
  proof (cases "concerns k e")
    case True
    with Cons.prems have "step e m k = Some (own e s)" by (simp add: owned)
    with Cons True show ?thesis by simp
  next
    case False
    with Cons.prems have "step e m k = Some s" by (simp add: apart)
    with Cons False show ?thesis by simp
  qed
qed simp

end

definition of_run :: "string \<Rightarrow> event \<Rightarrow> bool" where
  "of_run k e \<longleftrightarrow> ev_SessionID e \<noteq> [] \<and> ev_RunID e \<noteq> [] \<and> run_key e = k"

interpretation live: keyed_consumer "\<lambda>e runs. fst (Consume N e runs)" of_run "watch N" run_boundary for N
  by unfold_locales (auto simp: Consume_def of_run_def run_boundary_def Let_def split: option.split)

lemma Consume_all_fold: "Consume_all N es runs = fold (\<lambda>e runs. fst (Consume N e runs)) es runs"
  by (induction es arbitrary: runs) simp_all

lemma watch_started:
  assumes "ev_Type e = ''run.started''" "num (gget (dataMap (ev_Data e)) ''turn'') \<le> 0"
  shows "watch N e (newRunState armed) = newRunState armed"
proof -
  have "observe N e (newRunState armed) = newRunState armed"
    using assms by (simp add: observe_def Let_def) (simp add: newRunState_def)
  then show ?thesis using latched_idem[OF latched_new] by (simp add: watch_def)
qed

text \<open>C30. The live verdict is the offline verdict.  What is published when a run stops, whatever events of other runs and
  sessions came in between, is exactly what \<^verbatim>\<open>EvaluateEvents\<close> computes from the recorded events of that run.\<close>
theorem live_verdict_is_offline_verdict:
  assumes "ev_Type e0 = ''run.started''" "ev_Type e1 = ''run.stopped''" "of_run k e0" "of_run k e1"
    and "\<forall>e \<in> set mid. of_run k e \<longrightarrow> \<not> run_boundary e" "num (gget (dataMap (ev_Data e0)) ''turn'') \<le> 0"
  shows "snd (Consume N e1 (Consume_all N (e0 # mid) runs))
    = map (\<lambda>r. (ev_SessionID e1, ev_RunID e1, r))
        (EvaluateEvents N (filter (of_run k) mid) (sliceStrings N (gget (dataMap (ev_Data e0)) ''armed_detectors'')))"
proof -
  let ?new = "newRunState (sliceStrings N (gget (dataMap (ev_Data e0)) ''armed_detectors''))"
  let ?st = "fold (watch N) (filter (of_run k) mid) ?new"
  have "fst (Consume N e0 runs) k = Some ?new"
    using assms(1,3,6) by (simp add: Consume_def of_run_def Let_def watch_started)
  from live.isolated[where m = "fst (Consume N e0 runs)" and k = k and es = mid and N = N, OF this assms(5)] have "Consume_all N (e0 # mid) runs k = Some ?st" by (simp add: Consume_all_fold)
  then have "snd (Consume N e1 (Consume_all N (e0 # mid) runs))
    = map (\<lambda>r. (ev_SessionID e1, ev_RunID e1, r)) (Evaluate (recordFirstFires ?st))"
    using assms(2,4) by (simp add: Consume_def of_run_def Let_def)
  moreover have "recordFirstFires ?st = ?st" by (rule latched_idem) (rule latched_fold[OF latched_new])
  moreover have "filter (\<lambda>e. \<not> run_boundary e) (filter (of_run k) mid) = filter (of_run k) mid"
    by (rule filter_True) (use assms(5) in auto)
  ultimately show ?thesis unfolding EvaluateEvents_def by simp
qed

section \<open>Detectors that have fired\<close>

lemma watched_latch:
  assumes "latched st" "d \<in> set DetectorNames" "is_available st d" "would_fire st d"
  shows "\<exists>r \<in> set (Evaluate (fold (watch N) es st)). pr_Detector r = d \<and> pr_WouldFire r
    \<and> gget (pr_Values r) ''first_fire_turn'' = GInt (first_fire st d)"
proof -
  have "0 < first_fire st d" using assms by (simp add: latched_def)
  then have fire: "0 < first_fire (fold (watch N) es st) d" "first_fire (fold (watch N) es st) d = first_fire st d"
    using first_fire_stays[OF assms(1), of d N es] by simp_all
  let ?r = "let r = current_record (fold (watch N) es st) d in r\<lparr>pr_WouldFire := True, pr_Values := pr_Values r @ [(''first_fire_turn'', GInt (first_fire st d))]\<rparr>"
  have "?r \<in> set (Evaluate (fold (watch N) es st))"
    using assms(2) fire by (auto simp: Evaluate_def evaluateCurrent_def current_record_def Let_def image_iff intro!: bexI[of _ d])
  moreover have "map_of (record_values s d) ''first_fire_turn'' = None" for s by (simp add: record_values_def Let_def)
  then have "gget (pr_Values ?r) ''first_fire_turn'' = GInt (first_fire st d)"
    by (simp add: gget_def map_add_def current_record_def Let_def)
  moreover have "pr_Detector ?r = d" "pr_WouldFire ?r" by (simp_all add: current_record_def Let_def)
  ultimately show ?thesis by blast
qed

lemma max_turn_watch: "ps_maxTurn (watch N e st) = max (num (gget (dataMap (ev_Data e)) ''turn'')) (ps_maxTurn st)"
proof -
  have "ps_maxTurn (observe_call N i d s) = ps_maxTurn s" "ps_maxTurn (observe_result N d s) = ps_maxTurn s" for i d s
    by (simp_all add: observe_call_def observe_result_def Let_def)
  then have "ps_maxTurn (observe N e st) = max (num (gget (dataMap (ev_Data e)) ''turn'')) (ps_maxTurn st)" by (simp add: observe_def Let_def)
  then show ?thesis by (simp add: watch_def recordFirstFires_def)
qed

lemma fires_bounded:
  assumes "\<forall>(d, t) \<in> set (ps_firstFire st). 0 < t \<and> t \<le> max 1 (ps_maxTurn st)"
  shows "\<forall>(d, t) \<in> set (ps_firstFire (fold (watch N) es st)). 0 < t \<and> t \<le> max 1 (ps_maxTurn (fold (watch N) es st))"
  using assms
proof (induction es arbitrary: st)
  case (Cons e es)
  let ?new = "observe N e st"
  have later: "ps_maxTurn st \<le> ps_maxTurn ?new" "ps_maxTurn (watch N e st) = ps_maxTurn ?new"
    using max_turn_watch[of N e st] by (simp_all add: watch_def record_fires)
  have "0 < t \<and> t \<le> max 1 (ps_maxTurn (watch N e st))" if "(d, t) \<in> set (ps_firstFire (watch N e st))" for d t
  proof -
    from that consider "(d, t) \<in> set (ps_firstFire st)" | "t = max 1 (ps_maxTurn ?new)"
      unfolding watch_def record_fires by auto
    then show ?thesis
    proof cases
      case 1
      with Cons.prems have "0 < t \<and> t \<le> max 1 (ps_maxTurn st)" by blast
      with later show ?thesis by linarith
    next
      case 2
      with later(2) show ?thesis by simp
    qed
  qed
  then have "\<forall>(d, t) \<in> set (ps_firstFire (watch N e st)). 0 < t \<and> t \<le> max 1 (ps_maxTurn (watch N e st))" by blast
  from Cons.IH[OF this] show ?case by simp
qed simp

lemma first_fire_bounded:
  assumes "st = fold (watch N) es (newRunState armed)"
  shows "first_fire st d \<le> max 1 (ps_maxTurn st)"
proof -
  have "\<forall>(d, t) \<in> set (ps_firstFire st). 0 < t \<and> t \<le> max 1 (ps_maxTurn st)"
    unfolding assms by (rule fires_bounded) (simp add: newRunState_def)
  then show ?thesis by (force simp: first_fire_def split: option.split dest: map_of_SomeD)
qed

lemma no_novel_nonneg: "0 \<le> no_novel_before ns n"
  by (induction n) simp_all

text \<open>The novelty alarm counts the turn that has only begun.  When a request opens turn n + 1 after four turns without a novel
  action, the five-turn detector has fired for good, whatever novel actions turn n + 1 then takes.\<close>
theorem novelty_alarm_is_one_turn_early:
  assumes "st = fold (watch N) (filter (\<lambda>e. \<not> run_boundary e) before) (newRunState armed)" "ps_maxTurn st = int n" "4 \<le> n"
    and "\<forall>t \<in> {int n - 3 .. int n + 1}. t \<notin> set (ps_novelTurns st)"
    and "ev_Type e = ''model.request''" "num (gget (dataMap (ev_Data e)) ''turn'') = int n + 1"
  shows "\<exists>r \<in> set (EvaluateEvents N (before @ e # after) armed). pr_Detector r = ''novel_action'' \<and> pr_WouldFire r
    \<and> (\<exists>t \<le> int n + 1. gget (pr_Values r) ''first_fire_turn'' = GInt t)"
proof -
  let ?st = "watch N e st"
  have novel: "ps_novelTurns ?st = ps_novelTurns st" using assms(5) by (simp add: watch_def recordFirstFires_def observe_def Let_def)
  have turn: "ps_maxTurn ?st = int n + 1" using assms(2,6) by (simp add: max_turn_watch)
  obtain m where n: "n = Suc (Suc (Suc (Suc m)))" by (rule that[of "n - 4"]) (use assms(3) in arith)
  have "no_novel_before (ps_novelTurns st) (Suc n) = 5 + no_novel_before (ps_novelTurns st) m"
    using assms(4) by (simp add: n)
  then have "5 \<le> no_novel ?st"
    using no_novel_nonneg[of "ps_novelTurns st" m] turn novel by (simp add: no_novel_def nat_add_distrib)
  then have fires: "is_available ?st ''novel_action''" "would_fire ?st ''novel_action''"
    by (simp_all add: is_available_def would_fire_def GuessedThresholds_def)
  have kept: "\<not> run_boundary e" using assms(5) by (simp add: run_boundary_def)
  then have all: "?st = fold (watch N) (filter (\<lambda>e. \<not> run_boundary e) (before @ [e])) (newRunState armed)" by (simp add: assms(1))
  have "latched ?st" unfolding assms(1) by (intro latched_watch latched_fold latched_new)
  from watched_latch[OF this _ fires, of N "filter (\<lambda>e. \<not> run_boundary e) after"]
  obtain r where "r \<in> set (EvaluateEvents N (before @ e # after) armed)" "pr_Detector r = ''novel_action''" "pr_WouldFire r"
    "gget (pr_Values r) ''first_fire_turn'' = GInt (first_fire ?st ''novel_action'')"
    using kept by (auto simp: EvaluateEvents_def assms(1) DetectorNames_def)
  moreover have "first_fire ?st ''novel_action'' \<le> int n + 1" using first_fire_bounded[OF all] turn by simp
  ultimately show ?thesis by blast
qed

section \<open>Admissions in a token stream\<close>

definition fragments_without_blanks :: "normalizers \<Rightarrow> event \<Rightarrow> bool" where
  "fragments_without_blanks N e \<longleftrightarrow> (ev_Type e = ''model.delta'' \<and> gget (dataMap (ev_Data e)) ''kind'' = GStr ''reasoning''
     \<longrightarrow> CHR '' '' \<notin> set (progress_string N (gget (dataMap (ev_Data e)) ''text'')))"

lemma lower_blank: "CHR '' '' \<in> set (to_lower s) \<longleftrightarrow> CHR '' '' \<in> set s"
proof -
  have "c = CHR '' ''" if "lower_char c = CHR '' ''" for c
  proof (rule ccontr)
    assume "c \<noteq> CHR '' ''"
    with that have "65 \<le> (of_char c :: nat) \<and> (of_char c :: nat) \<le> 90" "char_of ((of_char c :: nat) + 32) = CHR '' ''"
      by (auto simp: lower_char_def split: if_splits)
    moreover from this(2) have "((of_char c :: nat) + 32) mod 256 = of_char (CHR '' '')" by (metis of_char_of)
    ultimately show False by simp
  qed
  moreover have "lower_char (CHR '' '') = CHR '' ''" by code_simp
  ultimately show ?thesis unfolding to_lower_def set_map by (metis (no_types) imageE image_eqI)
qed

lemma no_blank_no_admission:
  assumes "CHR '' '' \<notin> set s"
  shows "sum_list (map (str_count s) stuck_phrases) = 0"
proof -
  have "str_count s p = 0" if "p \<noteq> []" "CHR '' '' \<in> set p" for p
    using that assms by (auto simp: str_count_0 str_index_None)
  then show ?thesis by (simp add: stuck_phrases_def)
qed

definition silent :: "progressState \<Rightarrow> bool" where
  "silent st \<longleftrightarrow> CHR '' '' \<notin> set (ps_reasoning st) \<and> ''model_says_stuck'' \<notin> fst ` set (ps_firstFire st)"

lemma silent_no_fire: "silent st \<Longrightarrow> \<not> would_fire st ''model_says_stuck''"
  by (simp add: silent_def would_fire_def stuck_count_def no_blank_no_admission GuessedThresholds_def)

lemma silent_watch:
  assumes "silent st" "fragments_without_blanks N e"
  shows "silent (watch N e st)"
proof -
  have "silent (observe N e st)"
    using assms by (auto simp: silent_def fragments_without_blanks_def observe_def observe_call_def observe_result_def lower_blank Let_def)
  with silent_no_fire[OF this] show ?thesis by (auto simp: watch_def record_fires silent_def)
qed

text \<open>C39. Admissions are lost in a token stream.  The fragments of the reasoning are trimmed before they are joined: when no fragment has
  a blank inside, as when a model streams word by word, \<^verbatim>\<open>model_says_stuck\<close> never fires, whatever the model says and however often.\<close>
theorem token_streams_never_admit:
  assumes "\<forall>e \<in> set evs. fragments_without_blanks N e" "r \<in> set (EvaluateEvents N evs armed)" "pr_Detector r = ''model_says_stuck''"
  shows "\<not> pr_WouldFire r \<and> gget (pr_Values r) ''admissions'' = GInt 0"
proof -
  have "silent (fold (watch N) es (newRunState armed))" if "\<forall>e \<in> set es. fragments_without_blanks N e" for es
  proof -
    have "silent st \<Longrightarrow> silent (fold (watch N) es st)" for st
      using that by (induction es arbitrary: st) (auto intro: silent_watch)
    then show ?thesis by (simp add: silent_def newRunState_def)
  qed
  then have s: "silent (fold (watch N) (filter (\<lambda>e. \<not> run_boundary e) evs) (newRunState armed))" using assms(1) by simp
  then have "first_fire (fold (watch N) (filter (\<lambda>e. \<not> run_boundary e) evs) (newRunState armed)) ''model_says_stuck'' = 0"
    by (auto simp: silent_def first_fire_def image_iff split: option.split dest!: map_of_SomeD)
  then obtain st where st: "silent st" "first_fire st ''model_says_stuck'' = 0" "r \<in> set (Evaluate st)"
    using s assms(2) unfolding EvaluateEvents_def by blast
  then obtain d where "r = (let r = current_record st d in if 0 < first_fire st (pr_Detector r) then r\<lparr>pr_WouldFire := True,
      pr_Values := pr_Values r @ [(''first_fire_turn'', GInt (first_fire st (pr_Detector r)))]\<rparr> else r)"
    unfolding Evaluate_def evaluateCurrent_def Let_def by fastforce
  moreover from this assms(3) have "d = ''model_says_stuck''" by (simp add: current_record_def Let_def split: if_splits)
  ultimately have "r = current_record st ''model_says_stuck''" using st(2) by (simp add: current_record_def Let_def)
  moreover have "stuck_count st = 0" using st(1) by (simp add: stuck_count_def silent_def no_blank_no_admission)
  ultimately show ?thesis using silent_no_fire[OF st(1)] by (simp add: current_record_def record_values_def)
qed

section \<open>Examples\<close>

definition plain_normalizers :: normalizers where
  "plain_normalizers = \<lparr>nz_rfcTime = id, nz_clockTime = id, nz_pidValue = id, nz_durationValue = id, nz_offsetValue = id, nz_windowsTemp = id,
     nz_unixTemp = id, nz_marshal = (\<lambda>_. ''{}'')\<rparr>"

definition demo_event :: "string \<Rightarrow> string \<Rightarrow> gmap \<Rightarrow> event" where
  "demo_event ty rid m = events_New ty ''s'' rid (GMap m)"

theorem live_verdict_is_offline_verdict_witness:
  "snd (Consume plain_normalizers (demo_event ''run.stopped'' ''r'' [])
      (Consume_all plain_normalizers [demo_event ''run.started'' ''r'' [(''armed_detectors'', GStrs [''novel_action''])],
         demo_event ''run.started'' ''q'' [], demo_event ''tool.result'' ''r'' [(''turn'', GInt 1)], demo_event ''run.stopped'' ''q'' []] (\<lambda>_. None)))
    = map (\<lambda>r. (''s'', ''r'', r)) (EvaluateEvents plain_normalizers [demo_event ''tool.result'' ''r'' [(''turn'', GInt 1)]] [''novel_action''])"
  using live_verdict_is_offline_verdict[of "demo_event ''run.started'' ''r'' [(''armed_detectors'', GStrs [''novel_action''])]"
      "demo_event ''run.stopped'' ''r'' []" "''s'' @ [CHR 0x00] @ ''r''"
      "[demo_event ''run.started'' ''q'' [], demo_event ''tool.result'' ''r'' [(''turn'', GInt 1)], demo_event ''run.stopped'' ''q'' []]"
      plain_normalizers "\<lambda>_. None"]
  by (simp add: demo_event_def of_run_def run_key_def run_boundary_def dataMap_def sliceStrings_def events_New_def)

definition four_turns :: "event list" where
  "four_turns = map (\<lambda>t. demo_event ''model.request'' ''r'' [(''turn'', GInt t)]) [1, 2, 3, 4]"

lemma request_keeps_novel: "ev_Type e \<noteq> ''tool.call'' \<Longrightarrow> ps_novelTurns (watch N e st) = ps_novelTurns st"
  by (simp add: watch_def recordFirstFires_def observe_def observe_result_def Let_def)

lemma four_turns_state:
  "ps_maxTurn (fold (watch plain_normalizers) (filter (\<lambda>e. \<not> run_boundary e) four_turns) (newRunState [])) = int 4"
  "\<forall>t \<in> {int 4 - 3 .. int 4 + 1}. t \<notin> set (ps_novelTurns (fold (watch plain_normalizers) (filter (\<lambda>e. \<not> run_boundary e) four_turns) (newRunState [])))"
  by (simp_all add: four_turns_def demo_event_def run_boundary_def events_New_def max_turn_watch request_keeps_novel dataMap_def num_def newRunState_def)

theorem novelty_alarm_is_one_turn_early_witness:
  "\<exists>r \<in> set (EvaluateEvents plain_normalizers (four_turns @ demo_event ''model.request'' ''r'' [(''turn'', GInt 5)]
      # [demo_event ''tool.call'' ''r'' [(''turn'', GInt 5), (''name'', GStr ''write_file'')]]) []). pr_Detector r = ''novel_action'' \<and> pr_WouldFire r"
proof -
  have "ev_Type (demo_event ''model.request'' ''r'' [(''turn'', GInt 5)]) = ''model.request''"
    "num (gget (dataMap (ev_Data (demo_event ''model.request'' ''r'' [(''turn'', GInt 5)]))) ''turn'') = int 4 + 1"
    by (simp_all add: demo_event_def events_New_def dataMap_def num_def)
  from novelty_alarm_is_one_turn_early[OF refl four_turns_state(1) order_refl four_turns_state(2) this] show ?thesis by blast
qed

definition spoken :: "string list \<Rightarrow> event list" where
  "spoken ws = map (\<lambda>w. demo_event ''model.delta'' ''r'' [(''kind'', GStr ''reasoning''), (''text'', GStr w)]) ws"

lemma spoken_fragments: "\<forall>e \<in> set (spoken [''i'', '' am'', '' stuck'']). fragments_without_blanks plain_normalizers e"
  by code_simp

theorem token_streams_never_admit_witness:
  "\<exists>r \<in> set (EvaluateEvents plain_normalizers (spoken [''i'', '' am'', '' stuck'']) []). pr_Detector r = ''model_says_stuck''
     \<and> gget (pr_Values r) ''admissions'' = GInt 0"
proof -
  have "\<exists>r \<in> set (Evaluate st). pr_Detector r = ''model_says_stuck''" for st
    by (simp add: Evaluate_def evaluateCurrent_def current_record_def DetectorNames_def Let_def)
  then obtain r where "r \<in> set (EvaluateEvents plain_normalizers (spoken [''i'', '' am'', '' stuck'']) [])" "pr_Detector r = ''model_says_stuck''"
    by (auto simp: EvaluateEvents_def)
  with token_streams_never_admit[OF spoken_fragments] show ?thesis by blast
qed

end
