(* ===== verification/History.thy ===== *)
theory History
  imports Go_JSON Go_UTF8
begin

text \<open>
  The history of compacted and elided messages (\<^verbatim>\<open>internal/events/history.go\<close>, with \<^verbatim>\<open>decode.go\<close>): the index over the message
  events of a session, the archive a replay keeps, and the resolution of a reference to a manifest or to a message.

  Maps whose keys are enumerated are association lists, sets are lists of their members; a lineage of length zero is the
  nil slice.  \<open>text_env\<close> holds \<^verbatim>\<open>json.Unmarshal\<close> into an \<^verbatim>\<open>any\<close> and \<^verbatim>\<open>json.Marshal\<close>, as text.
\<close>

section \<open>State\<close>

record text_env =
  te_parse :: "string \<Rightarrow> gval option"
  te_print :: "gval \<Rightarrow> string option"

record historyCall =
  hc_ID :: string
  hc_Name :: string
  hc_Arguments :: string

record historyEntry =
  he_Ref :: string
  he_Role :: string
  he_Category :: string
  he_Turn :: int
  he_Name :: string
  he_Call :: "historyCall option"
  he_Calls :: "historyCall list"
  he_OK :: "bool option"
  he_Elided :: bool
  he_Compacted :: bool

datatype historyLookup = Manifest string "historyEntry list" | FoundMessage string message

record historyLocation =
  hl_path :: string
  hl_offset :: nat
  hl_length :: nat

record historyRecord =
  hr_meta :: message
  hr_location :: historyLocation
  hr_full :: "message option"

record historyIndex =
  hi_records :: "string \<Rightarrow> historyRecord option"
  hi_order :: "string list"
  hi_lineage :: "(string \<times> string list) list"
  hi_latest :: string
  hi_elided :: "string list"
  hi_compacted :: "string list"
  hi_calls :: "string \<Rightarrow> historyCall option"

definition newHistoryIndex :: historyIndex where
  "newHistoryIndex = \<lparr>hi_records = (\<lambda>_. None), hi_order = [], hi_lineage = [], hi_latest = [], hi_elided = [], hi_compacted = [],
     hi_calls = (\<lambda>_. None)\<rparr>"

definition no_location :: historyLocation where "no_location = \<lparr>hl_path = [], hl_offset = 0, hl_length = 0\<rparr>"

definition kids :: "(string \<times> string list) list \<Rightarrow> string \<Rightarrow> string list" where
  \<comment> \<open>\<^verbatim>\<open>h.lineage[id]\<close>\<close>
  "kids L mid = (case map_of L mid of None \<Rightarrow> [] | Some ids \<Rightarrow> ids)"

section \<open>Sanitised arguments\<close>

fun rune_take :: "nat \<Rightarrow> string \<Rightarrow> string" where
  \<comment> \<open>\<^verbatim>\<open>string([]rune(text)[:n])\<close> of a valid text\<close>
  "rune_take 0 s = []"
| "rune_take (Suc n) s = (if s = [] then [] else take (decode_width s) s @ rune_take n (drop (decode_width s) s))"

definition cut_text :: "string \<Rightarrow> string" where
  "cut_text t = (let head = rune_take 256 t in if head = t then t else head @ [CHR 0xE2, CHR 0x80, CHR 0xA6])"

definition secret_keys :: "string list" where
  "secret_keys = [''content'', ''new_string'', ''note'', ''old_string'']"

fun sanitizeHistoryValue :: "gval \<Rightarrow> gval" where
  "sanitizeHistoryValue (GMap m) = GMap (map (\<lambda>(k, v). (k, if k \<in> set secret_keys then GStr ''[omitted]''
     else case v of GStr t \<Rightarrow> GStr (cut_text t) | _ \<Rightarrow> sanitizeHistoryValue v)) m)"
| "sanitizeHistoryValue (GList vs) = GList (map sanitizeHistoryValue vs)"
| "sanitizeHistoryValue v = v"

definition unavailable :: string where "unavailable = [CHR 0x22] @ ''unavailable'' @ [CHR 0x22]"

definition sanitizeHistoryArguments :: "text_env \<Rightarrow> string \<Rightarrow> string" where
  "sanitizeHistoryArguments T raw =
     (if trim_space raw = [] then ''{}''
      else case te_parse T raw of None \<Rightarrow> unavailable
         | Some v \<Rightarrow> (case te_print T (sanitizeHistoryValue v) of None \<Rightarrow> unavailable | Some s \<Rightarrow> s))"

section \<open>Indexing\<close>

definition compact_call :: "text_env \<Rightarrow> toolCall \<Rightarrow> historyCall" where
  "compact_call T c = \<lparr>hc_ID = tc_ID c, hc_Name = tc_Name c, hc_Arguments = sanitizeHistoryArguments T (tc_Arguments c)\<rparr>"

definition index_append :: "text_env \<Rightarrow> message \<Rightarrow> historyLocation \<Rightarrow> bool \<Rightarrow> historyIndex \<Rightarrow> historyIndex" where
  "index_append T m location keepFull h =
     (if msg_ID m = [] then h
      else let meta = m\<lparr>msg_Content := [], msg_Reasoning := [],
               msg_ToolCalls := map (\<lambda>c. c\<lparr>tc_Arguments := sanitizeHistoryArguments T (tc_Arguments c)\<rparr>) (msg_ToolCalls m)\<rparr>
           in h\<lparr>hi_calls := fold (\<lambda>c calls. calls(tc_ID c \<mapsto> compact_call T c)) (msg_ToolCalls m) (hi_calls h),
                hi_order := (if hi_records h (msg_ID m) = None then hi_order h @ [msg_ID m] else hi_order h),
                hi_records := (hi_records h)(msg_ID m \<mapsto>
                  \<lparr>hr_meta = meta, hr_location = location, hr_full = (if keepFull then Some m else None)\<rparr>)\<rparr>)"

definition forget_calls :: "message \<Rightarrow> historyIndex \<Rightarrow> historyIndex" where
  "forget_calls m h = h\<lparr>hi_calls := fold (\<lambda>c calls. calls(tc_ID c := None)) (msg_ToolCalls m) (hi_calls h)\<rparr>"

definition patched_calls :: "gval \<Rightarrow> toolCall list" where
  \<comment> \<open>\<^verbatim>\<open>decodeValue(calls, &updated)\<close> with the error ignored: nothing unless a list of calls\<close>
  "patched_calls v = (let j = json_any v in if is_items call_ok j then map call_of (items j) else [])"

definition index_update :: "string \<Rightarrow> gmap \<Rightarrow> historyIndex \<Rightarrow> historyIndex" where
  "index_update mid patch h0 =
     (let h = (if as_bool (gget patch ''elided'') then h0\<lparr>hi_elided := List.insert mid (hi_elided h0)\<rparr> else h0) in
      if \<not> ghas patch ''tool_calls'' then h
      else case hi_records h mid of None \<Rightarrow> h
        | Some r \<Rightarrow> let updated = patched_calls (gget patch ''tool_calls'') in
            (forget_calls (hr_meta r) h)\<lparr>hi_records := (hi_records h)(mid \<mapsto> r\<lparr>hr_meta := (hr_meta r)\<lparr>msg_ToolCalls := updated\<rparr>,
               hr_full := map_option (\<lambda>m. m\<lparr>msg_ToolCalls := updated\<rparr>) (hr_full r)\<rparr>)\<rparr>)"

definition index_remove :: "string \<Rightarrow> historyIndex \<Rightarrow> historyIndex" where
  "index_remove mid h =
     (case hi_records h mid of None \<Rightarrow> h
      | Some r \<Rightarrow> (forget_calls (hr_meta r) h)\<lparr>hi_records := (hi_records h)(mid := None),
          hi_lineage := filter (\<lambda>(k, _). k \<noteq> mid) (hi_lineage h), hi_elided := removeAll mid (hi_elided h),
          hi_compacted := removeAll mid (hi_compacted h), hi_order := removeAll mid (hi_order h)\<rparr>)"

definition index_compact :: "string \<Rightarrow> string list \<Rightarrow> historyIndex \<Rightarrow> historyIndex" where
  "index_compact summaryID affected h =
     (if summaryID = [] then h
      else h\<lparr>hi_latest := summaryID, hi_lineage := (summaryID, affected) # hi_lineage h,
             hi_compacted := fold List.insert affected (hi_compacted h)\<rparr>)"

definition valueMap :: "gval \<Rightarrow> gmap" where
  "valueMap v = (case v of GMap m \<Rightarrow> m | _ \<Rightarrow> [])"

definition valueStrings :: "gval \<Rightarrow> string list" where
  "valueStrings v = (case v of GStrs ss \<Rightarrow> ss | GList vs \<Rightarrow> map str_or_empty vs | _ \<Rightarrow> [])"

definition appended_message :: "gval \<Rightarrow> message option" where
  \<comment> \<open>\<^verbatim>\<open>decodeValue(event.Data, &wrapper)\<close>\<close>
  "appended_message d = (let j = json_any d in if is_obj (conforms [(''message'', message_ok)]) j then Some (message_of (gget (obj j) ''message'')) else None)"

definition index_event :: "text_env \<Rightarrow> bool \<Rightarrow> event \<Rightarrow> historyLocation \<Rightarrow> historyIndex \<Rightarrow> historyIndex" where
  \<comment> \<open>\<^verbatim>\<open>historyIndex.record\<close>, and the body of \<^verbatim>\<open>HistoryArchive.Record\<close>\<close>
  "index_event T keepFull e location h =
     (let data = valueMap (ev_Data e); ty = ev_Type e in
      if ty = ''message.appended'' then (case appended_message (ev_Data e) of None \<Rightarrow> h | Some m \<Rightarrow> index_append T m location keepFull h)
      else if ty = ''message.updated'' then index_update (str_or_empty (gget data ''id'')) (valueMap (gget data ''patch'')) h
      else if ty = ''message.removed'' then index_remove (str_or_empty (gget data ''id'')) h
      else if ty = ''compaction'' \<and> gget data ''kind'' = GStr ''summarize''
        then index_compact (str_or_empty (gget data ''summary_message_id'')) (valueStrings (gget data ''affected_ids'')) h
      else h)"

definition archive_Record :: "text_env \<Rightarrow> event \<Rightarrow> historyIndex \<Rightarrow> historyIndex" where
  "archive_Record T e h = (if ev_Type e = ''session.reset'' then newHistoryIndex else index_event T True e no_location h)"

section \<open>Resolving a reference\<close>

lemma kids_values: "x \<in> set (kids L i) \<Longrightarrow> \<exists>e \<in> set L. x \<in> set (snd e)"
  by (cases "map_of L i") (force simp: kids_def dest: map_of_SomeD)+

function walk_lineage :: "(string \<times> string list) list \<Rightarrow> string list \<Rightarrow> string list \<Rightarrow> string list" where
  \<comment> \<open>\<^verbatim>\<open>walk\<close>, with the identifiers still to visit in order\<close>
  "walk_lineage L [] selected = selected"
| "walk_lineage L (mid # todo) selected =
     (if mid \<in> set selected then walk_lineage L todo selected else walk_lineage L (kids L mid @ todo) (mid # selected))"
  by pat_completeness auto
termination
proof (relation "(\<lambda>(L, todo, selected). card ((\<Union>(set ` snd ` set L) \<union> set todo) - set selected)) <*mlex*> measure (\<lambda>(L, todo, _). length todo)")
  fix L :: "(string \<times> string list) list" and mid :: string and todo selected :: "string list" assume "mid \<notin> set selected"
  then have "(\<Union>(set ` snd ` set L) \<union> set (kids L mid @ todo)) - set (mid # selected) \<subset> (\<Union>(set ` snd ` set L) \<union> set (mid # todo)) - set selected"
    by (auto dest: kids_values)
  then show "((L, kids L mid @ todo, mid # selected), L, mid # todo, selected)
    \<in> (\<lambda>(L, todo, selected). card ((\<Union>(set ` snd ` set L) \<union> set todo) - set selected)) <*mlex*> measure (\<lambda>(L, todo, _). length todo)"
    by (intro mlex_less) (auto intro!: psubset_card_mono)
next
  fix L :: "(string \<times> string list) list" and mid :: string and todo selected :: "string list"
  show "((L, todo, selected), L, mid # todo, selected)
    \<in> (\<lambda>(L, todo, selected). card ((\<Union>(set ` snd ` set L) \<union> set todo) - set selected)) <*mlex*> measure (\<lambda>(L, todo, _). length todo)"
    by (rule mlex_leq) (auto intro!: card_mono)
qed (simp add: wf_mlex)

definition historyEntry_of :: "message \<Rightarrow> historyIndex \<Rightarrow> historyEntry" where
  "historyEntry_of m h = \<lparr>he_Ref = msg_ID m, he_Role = msg_Role m, he_Category = msg_Category m, he_Turn = msg_Turn m, he_Name = msg_Name m,
     he_Call = hi_calls h (msg_ToolCallID m),
     he_Calls = map (\<lambda>c. case hi_calls h (tc_ID c) of None \<Rightarrow> \<lparr>hc_ID = [], hc_Name = [], hc_Arguments = []\<rparr> | Some x \<Rightarrow> x) (msg_ToolCalls m),
     he_OK = msg_OK m, he_Elided = False, he_Compacted = False\<rparr>"

definition selected_ids :: "historyIndex \<Rightarrow> string \<Rightarrow> string list" where
  "selected_ids h ref =
     (let latest = ref = ''latest''; origin = (if latest then hi_latest h else ref);
          reached = (if origin = [] then [] else walk_lineage (hi_lineage h) (kids (hi_lineage h) origin) [])
      in if latest then reached @ hi_compacted h @ hi_elided h else reached)"

definition manifest_entries :: "historyIndex \<Rightarrow> string list \<Rightarrow> historyEntry list" where
  "manifest_entries h selected = List.map_filter (\<lambda>mid. if mid \<notin> set selected then None
     else map_option (\<lambda>r. (historyEntry_of (hr_meta r) h)\<lparr>he_Elided := mid \<in> set (hi_elided h), he_Compacted := mid \<in> set (hi_compacted h)\<rparr>) (hi_records h mid)) (hi_order h)"

definition is_manifest :: "historyIndex \<Rightarrow> string \<Rightarrow> bool" where
  "is_manifest h ref \<longleftrightarrow> ref = ''latest'' \<or> kids (hi_lineage h) ref \<noteq> []"

definition resolve_with :: "(historyRecord \<Rightarrow> message gores) \<Rightarrow> historyIndex \<Rightarrow> string \<Rightarrow> historyLookup gores" where
  "resolve_with load h ref =
     (if is_manifest h ref then
        let entries = manifest_entries h (selected_ids h ref) in
        if entries = [] then Err ''no compacted history is available'' else Ok (Manifest (if ref = ''latest'' then hi_latest h else ref) entries)
      else case hi_records h ref of None \<Rightarrow> Err ''history ref is not available''
         | Some r \<Rightarrow> if ref \<notin> set (hi_elided h) \<and> ref \<notin> set (hi_compacted h) then Err ''history ref is not available''
             else gores_bind (load r) (\<lambda>m. Ok (FoundMessage ref m)))"

definition resolveReplay :: "historyIndex \<Rightarrow> string \<Rightarrow> historyLookup gores" where
  "resolveReplay = resolve_with (\<lambda>r. case hr_full r of None \<Rightarrow> Err ''recorded history body is unavailable'' | Some m \<Rightarrow> Ok m)"

section \<open>The lineage of a summary\<close>

definition lineage_of :: "historyIndex \<Rightarrow> (string \<times> string) set" where
  \<comment> \<open>a summary and a message it replaced\<close>
  "lineage_of h = {(a, b). b \<in> set (kids (hi_lineage h) a)}"

lemma walk_lineage_set:
  assumes "\<forall>a \<in> set selected. set (kids L a) \<subseteq> set selected \<union> set todo"
  shows "set (walk_lineage L todo selected) = set selected \<union> {b. \<exists>a \<in> set todo. (a, b) \<in> {(a, b). b \<in> set (kids L a)}\<^sup>*}"
  using assms
proof (induction L todo selected rule: walk_lineage.induct)
  case (2 L i todo selected)
  let ?R = "{(a, b). b \<in> set (kids L a)}\<^sup>*"
  show ?case
  proof (cases "i \<in> set selected")
    case True
    have "b \<in> set selected \<union> {b. \<exists>a \<in> set todo. (a, b) \<in> ?R}" if "(i, b) \<in> ?R" for b
      using that
    proof (induction rule: rtrancl_induct)
      case (step y z)
      then consider "y \<in> set selected" | a where "a \<in> set todo" "(a, y) \<in> ?R" by blast
      then show ?case
      proof cases
        case 1
        with 2(3) step(2) True have "z \<in> set selected \<or> z \<in> set todo" by auto
        then show ?thesis by auto
      next
        case 2
        with step(2) have "(a, z) \<in> ?R" by (meson rtrancl.rtrancl_into_rtrancl)
        with 2 show ?thesis by blast
      qed
    qed (use True in simp)
    moreover have "\<forall>a \<in> set selected. set (kids L a) \<subseteq> set selected \<union> set todo" using 2(3) True by auto
    ultimately show ?thesis using 2(1)[OF True] True by auto
  next
    case False
    have "(i, b) \<in> ?R \<longleftrightarrow> b = i \<or> (\<exists>a \<in> set (kids L i). (a, b) \<in> ?R)" for b
      by (auto elim: converse_rtranclE intro: converse_rtrancl_into_rtrancl)
    moreover have "\<forall>a \<in> set (i # selected). set (kids L a) \<subseteq> set (i # selected) \<union> set (kids L i @ todo)" using 2(3) by auto
    ultimately show ?thesis using 2(2)[OF False] False by auto
  qed
qed simp

lemma reached_ids: "i \<in> set (walk_lineage (hi_lineage h) (kids (hi_lineage h) origin) []) \<longleftrightarrow> (origin, i) \<in> (lineage_of h)\<^sup>+"
  by (auto simp: walk_lineage_set lineage_of_def trancl_unfold_left)

definition index_ok :: "historyIndex \<Rightarrow> bool" where
  "index_ok h \<longleftrightarrow> distinct (hi_order h) \<and> (\<forall>i. i \<in> set (hi_order h) \<longleftrightarrow> hi_records h i \<noteq> None) \<and> kids (hi_lineage h) [] = []
     \<and> (\<forall>i r. hi_records h i = Some r \<longrightarrow> msg_ID (hr_meta r) = i \<and> (\<forall>m. hr_full r = Some m \<longrightarrow> msg_ID m = i))"

lemma forget_calls_simps [simp]:
  "hi_records (forget_calls m h) = hi_records h" "hi_order (forget_calls m h) = hi_order h" "hi_lineage (forget_calls m h) = hi_lineage h"
  "hi_elided (forget_calls m h) = hi_elided h" "hi_compacted (forget_calls m h) = hi_compacted h" "hi_latest (forget_calls m h) = hi_latest h"
  by (simp_all add: forget_calls_def)

lemma kids_filter [simp]: "kids (filter (\<lambda>(k, _). k \<noteq> i) L) j = (if j = i then [] else kids L j)"
  by (induction L) (auto simp: kids_def)

lemma kids_Cons [simp]: "kids ((k, v) # L) j = (if j = k then v else kids L j)"
  by (simp add: kids_def)

lemma index_ok_new: "index_ok newHistoryIndex"
  by (simp add: index_ok_def newHistoryIndex_def kids_def)

lemma index_ok_append: "index_ok h \<Longrightarrow> index_ok (index_append T m location keep h)"
  by (simp add: index_ok_def index_append_def Let_def)

lemma index_ok_update: "index_ok h \<Longrightarrow> index_ok (index_update mid patch h)"
  by (simp add: index_ok_def index_update_def Let_def split: option.split) (auto split: if_splits)

lemma index_ok_remove: "index_ok h \<Longrightarrow> index_ok (index_remove mid h)"
  by (auto simp: index_ok_def index_remove_def distinct_removeAll split: option.split if_splits)

lemma index_ok_compact: "index_ok h \<Longrightarrow> index_ok (index_compact s affected h)"
  by (auto simp: index_ok_def index_compact_def)

lemma index_ok_event: "index_ok h \<Longrightarrow> index_ok (index_event T keep e location h)"
  by (simp add: index_event_def index_ok_append index_ok_update index_ok_remove index_ok_compact Let_def split: option.split)

lemma index_ok_archive: "index_ok h \<Longrightarrow> index_ok (fold (archive_Record T) evs h)"
  by (induction evs arbitrary: h) (auto simp: archive_Record_def index_ok_event index_ok_new)

lemma entries_refs:
  assumes "index_ok h"
  shows "map he_Ref (manifest_entries h selected) = filter (\<lambda>i. i \<in> set selected \<and> hi_records h i \<noteq> None) (hi_order h)"
proof -
  have "map he_Ref (List.map_filter (\<lambda>i. if i \<notin> set selected then None else map_option (\<lambda>r. (historyEntry_of (hr_meta r) h)\<lparr>he_Elided := P i,
      he_Compacted := Q i\<rparr>) (hi_records h i)) xs) = filter (\<lambda>i. i \<in> set selected \<and> hi_records h i \<noteq> None) xs" for P Q xs
    using assms by (induction xs) (auto simp: List.map_filter_simps historyEntry_of_def index_ok_def)
  then show ?thesis by (simp add: manifest_entries_def)
qed

text \<open>C31. A manifest lists a summary's whole lineage.  After any events, the manifest of a summary names, each once and in the order
  in which they were first said, exactly the recorded messages that the summary replaced, directly or through the summaries it
  replaced; the manifest of the latest summary adds every other message that was compacted or elided.\<close>
theorem manifests_list_the_lineage:
  assumes "h = fold (archive_Record T) evs newHistoryIndex" "is_manifest h ref" "origin = (if ref = ''latest'' then hi_latest h else ref)"
    and "expected = filter (\<lambda>i. (origin, i) \<in> (lineage_of h)\<^sup>+ \<or> ref = ''latest'' \<and> i \<in> set (hi_compacted h) \<union> set (hi_elided h)) (hi_order h)"
  shows "distinct expected \<and> (if expected = [] then resolveReplay h ref = Err ''no compacted history is available''
    else \<exists>es. resolveReplay h ref = Ok (Manifest origin es) \<and> map he_Ref es = expected)"
proof -
  have ok: "index_ok h" unfolding assms(1) by (rule index_ok_archive[OF index_ok_new])
  have none: "(origin, i) \<notin> (lineage_of h)\<^sup>+" if "origin = []" for i
    using ok that by (auto simp: index_ok_def lineage_of_def trancl_unfold_left elim: converse_rtranclE)
  have "i \<in> set (selected_ids h ref) \<longleftrightarrow> (origin, i) \<in> (lineage_of h)\<^sup>+ \<or> ref = ''latest'' \<and> i \<in> set (hi_compacted h) \<union> set (hi_elided h)" for i
    using none by (auto simp: selected_ids_def assms(3) reached_ids Let_def)
  moreover have "hi_records h i \<noteq> None" if "i \<in> set (hi_order h)" for i using ok that by (simp add: index_ok_def)
  ultimately have refs: "map he_Ref (manifest_entries h (selected_ids h ref)) = expected"
    unfolding entries_refs[OF ok] assms(4) by (intro filter_cong) auto
  have "distinct expected" using ok by (simp add: assms(4) index_ok_def)
  with refs assms(2,3) show ?thesis by (auto simp: resolveReplay_def resolve_with_def Let_def)
qed

section \<open>Examples\<close>

lemma appended_message_of [simp]: "appended_message (GMap [(''message'', GMessage m)]) = Some m"
  by (simp add: appended_message_def conforms_def)

definition plain_text :: text_env where
  "plain_text = \<lparr>te_parse = (\<lambda>_. None), te_print = (\<lambda>_. None)\<rparr>"

definition said :: "string \<Rightarrow> event" where
  "said i = events_New ''message.appended'' ''s'' ''r'' (GMap [(''message'', GMessage (emptyMessage\<lparr>msg_ID := i\<rparr>))])"

definition summed_up :: "string \<Rightarrow> string list \<Rightarrow> event" where
  "summed_up i affected = events_New ''compaction'' ''s'' ''r''
     (GMap [(''kind'', GStr ''summarize''), (''summary_message_id'', GStr i), (''affected_ids'', GStrs affected)])"

definition two_summaries :: "event list" where
  \<comment> \<open>the second summary replaces the first\<close>
  "two_summaries = [said ''a'', said ''b'', summed_up ''c'' [''a''], said ''c'', summed_up ''d'' [''c'', ''b''], said ''d'']"

lemma two_summaries_index:
  assumes "h = fold (archive_Record plain_text) two_summaries newHistoryIndex"
  shows "hi_order h = [''a'', ''b'', ''c'', ''d'']" "hi_lineage h = [(''d'', [''c'', ''b'']), (''c'', [''a''])]"
  by (simp_all add: assms two_summaries_def said_def summed_up_def archive_Record_def index_event_def events_New_def valueMap_def index_append_def
      index_compact_def valueStrings_def newHistoryIndex_def emptyMessage_def Let_def)

theorem manifests_list_the_lineage_witness:
  "\<exists>es. resolveReplay (fold (archive_Record plain_text) two_summaries newHistoryIndex) ''d'' = Ok (Manifest ''d'' es) \<and> ''a'' \<in> set (map he_Ref es)"
proof -
  define h where "h = fold (archive_Record plain_text) two_summaries newHistoryIndex"
  note shape = two_summaries_index[OF h_def]
  have "(''d'', ''c'') \<in> lineage_of h" "(''c'', ''a'') \<in> lineage_of h" by (simp_all add: lineage_of_def shape kids_def)
  then have a: "(''d'', ''a'') \<in> (lineage_of h)\<^sup>+" by (meson trancl.intros)
  have "is_manifest h ''d''" by (simp add: is_manifest_def shape kids_def)
  from manifests_list_the_lineage[OF h_def this refl refl] obtain es where
    "resolveReplay h ''d'' = Ok (Manifest ''d'' es)" "''a'' \<in> set (map he_Ref es)"
    using a shape(1) by (auto split: if_splits)
  then show ?thesis unfolding h_def by blast
qed

end
