(* ===== verification/Journal.thy ===== *)
theory Journal
  imports Event_Bus Projector History
begin

text \<open>
  The journal of events (\<^verbatim>\<open>internal/events/jsonl.go\<close>) and its readers (\<^verbatim>\<open>internal/projection/file.go\<close>): one line of JSON per event,
  in the generation of its session and in the retained chat of the session; a cursor is the offset behind a line.

  A file is a byte string, a disk is a map from paths to files, and an open file is its path (the program opens a path once and
  appends).  \<open>journal_env\<close> holds \<^verbatim>\<open>json.Marshal\<close> and \<^verbatim>\<open>json.Unmarshal\<close> of an event, as text, and \<^verbatim>\<open>filepath\<close>; what the operating
  system answers to an operation is an argument of it.  The mutex makes every operation one step.  Reading a file does not fail.
\<close>

section \<open>State\<close>

record journal_env =
  je_marshal :: "event \<Rightarrow> string option"
  je_unmarshal :: "string \<Rightarrow> event option"
  je_join :: "string \<Rightarrow> string \<Rightarrow> string"
  je_base :: "string \<Rightarrow> string"
  je_dir :: "string \<Rightarrow> string"
  je_text :: text_env

type_synonym disk = "string \<Rightarrow> string option"

record writers =
  wr_dir :: string
  wr_chatDir :: string
  wr_global :: string
  wr_sessions :: "string \<Rightarrow> string option"
  wr_chats :: "string \<Rightarrow> string option"
  wr_paths :: "string \<Rightarrow> string option"
  wr_sizes :: "string \<Rightarrow> nat"
  wr_history :: "string \<Rightarrow> historyIndex option"

record write_io =
  \<comment> \<open>the answers to the operations of one \<^verbatim>\<open>WriteRecord\<close>: bytes written with the error, and errors\<close>
  wi_chatOpen :: "string option"
  wi_file :: "nat \<times> string option"
  wi_chat :: "nat \<times> string option"
  wi_fileSync :: "string option"
  wi_chatSync :: "string option"

definition path_of :: "writers \<Rightarrow> string \<Rightarrow> string" where
  \<comment> \<open>\<^verbatim>\<open>w.paths[id]\<close>\<close>
  "path_of w sid = (case wr_paths w sid of None \<Rightarrow> [] | Some p \<Rightarrow> p)"

definition no_logCursor :: logCursor where "no_logCursor = \<lparr>lc_Generation = [], lc_Offset = 0, lc_Path = []\<rparr>"

definition append_bytes :: "string \<Rightarrow> string \<Rightarrow> disk \<Rightarrow> disk" where
  "append_bytes p bs fs = fs(p \<mapsto> (case fs p of None \<Rightarrow> [] | Some old \<Rightarrow> old) @ bs)"

section \<open>Writing\<close>

definition chat_path :: "journal_env \<Rightarrow> writers \<Rightarrow> string \<Rightarrow> string" where
  "chat_path J w sid = je_join J (wr_chatDir w) (sid @ ''.jsonl'')"

definition durableChatLocked :: "journal_env \<Rightarrow> string option \<Rightarrow> string \<Rightarrow> writers \<Rightarrow> disk \<Rightarrow> (writers \<times> disk \<times> string) gores" where
  "durableChatLocked J openErr sid w fs =
     (if je_base J sid \<noteq> sid \<or> sid = ''.'' \<or> sid = [] then Err ''invalid session id''
      else case wr_chats w sid of Some p \<Rightarrow> Ok (w, fs, p)
         | None \<Rightarrow> (case openErr of Some err \<Rightarrow> Err err
             | None \<Rightarrow> Ok (w\<lparr>wr_chats := (wr_chats w)(sid \<mapsto> chat_path J w sid)\<rparr>, append_bytes (chat_path J w sid) [] fs, chat_path J w sid)))"

definition write_failed :: "nat \<times> string option \<Rightarrow> string \<Rightarrow> string option" where
  "write_failed answer line = (case snd answer of Some err \<Rightarrow> Some err
     | None \<Rightarrow> if fst answer \<noteq> length line then Some ''short write'' else None)"

definition log_file :: "writers \<Rightarrow> string \<Rightarrow> string" where
  \<comment> \<open>the file of the session, or the global one\<close>
  "log_file w sid = (case wr_sessions w sid of Some p \<Rightarrow> if sid = [] then wr_global w else p | None \<Rightarrow> wr_global w)"

definition log_path :: "writers \<Rightarrow> string \<Rightarrow> string" where
  "log_path w sid = (if sid \<noteq> [] \<and> wr_sessions w sid \<noteq> None then path_of w sid else [])"

definition recorded :: "journal_env \<Rightarrow> event \<Rightarrow> nat \<Rightarrow> nat \<Rightarrow> writers \<Rightarrow> writers" where
  \<comment> \<open>the size of the generation and the history index, once the lines are written\<close>
  "recorded J e offset written w =
     (let sid = ev_SessionID e; w1 = (if sid \<noteq> [] \<and> wr_sessions w sid = Some (log_file w sid)
            then w\<lparr>wr_sizes := (wr_sizes w)(sid := wr_sizes w sid + written)\<rparr> else w)
      in case wr_history w1 sid of None \<Rightarrow> w1
         | Some h \<Rightarrow> w1\<lparr>wr_history := (wr_history w1)(sid \<mapsto> index_event (je_text J) False e
             \<lparr>hl_path = path_of w1 sid, hl_offset = offset, hl_length = written\<rparr> h)\<rparr>)"

definition sync_failed :: "write_io \<Rightarrow> event \<Rightarrow> string option" where
  "sync_failed io e = (if ev_Type e \<noteq> ''run.stopped'' then None
     else case wi_fileSync io of Some err \<Rightarrow> Some err | None \<Rightarrow> if ev_SessionID e = [] then None else wi_chatSync io)"

definition write_lines :: "journal_env \<Rightarrow> write_io \<Rightarrow> event \<Rightarrow> string \<Rightarrow> string option \<Rightarrow> writers \<Rightarrow> disk \<Rightarrow> writers \<times> disk \<times> logCursor \<times> string option" where
  \<comment> \<open>\<^verbatim>\<open>WriteRecord\<close> once the line is encoded and the chat file, if any, is open\<close>
  "write_lines J io e line chat w fs =
     (let sid = ev_SessionID e; file_path = log_file w sid; path = log_path w sid; offset = wr_sizes w sid;
          fs1 = append_bytes file_path (take (fst (wi_file io)) line) fs
      in case write_failed (wi_file io) line of Some err \<Rightarrow> (w, fs1, no_logCursor, Some err)
       | None \<Rightarrow>
         let fs2 = (case chat of None \<Rightarrow> fs1 | Some p \<Rightarrow> append_bytes p (take (fst (wi_chat io)) line) fs1) in
         if chat \<noteq> None \<and> write_failed (wi_chat io) line \<noteq> None then (w, fs2, no_logCursor, write_failed (wi_chat io) line)
         else let w1 = recorded J e offset (length line) w in
           case sync_failed io e of Some err \<Rightarrow> (w1, fs2, no_logCursor, Some err)
           | None \<Rightarrow> (w1, fs2, (if sid = [] \<or> path = [] then no_logCursor
               else \<lparr>lc_Generation = je_base J path, lc_Offset = int (offset + length line), lc_Path = path\<rparr>), None))"

definition WriteRecord :: "journal_env \<Rightarrow> write_io \<Rightarrow> event \<Rightarrow> writers \<Rightarrow> disk \<Rightarrow> writers \<times> disk \<times> logCursor \<times> string option" where
  "WriteRecord J io e w fs =
     (case je_marshal J e of None \<Rightarrow> (w, fs, no_logCursor, Some ''json: unsupported value'')
      | Some data \<Rightarrow>
        let line = data @ [CHR 0x0A] in
        if ev_SessionID e = [] then write_lines J io e line None w fs
        else case durableChatLocked J (wi_chatOpen io) (ev_SessionID e) w fs of
            Ok (w1, fs1, chat) \<Rightarrow> write_lines J io e line (Some chat) w1 fs1
          | Err err \<Rightarrow> (w, fs, no_logCursor, Some err)
          | Panic \<Rightarrow> (w, fs, no_logCursor, None))"

section \<open>Generations\<close>

record rotate_io =
  ri_sync :: "string option"
  ri_close :: "string option"
  ri_open :: "string option"
  ri_stat :: "string option"
  ri_names :: "string list"
  \<comment> \<open>the file names for the current time and the following nanoseconds, as many as the loop tries (\<open>Panic\<close> if all are taken)\<close>

definition RotateSession :: "journal_env \<Rightarrow> rotate_io \<Rightarrow> string \<Rightarrow> writers \<Rightarrow> disk \<Rightarrow> writers \<times> disk \<times> (string \<times> logCursor) gores" where
  "RotateSession J io sid w fs =
     (let predecessor = \<lparr>lc_Generation = je_base J (path_of w sid), lc_Offset = int (wr_sizes w sid), lc_Path = path_of w sid\<rparr> in
      if wr_sessions w sid \<noteq> None \<and> ri_sync io \<noteq> None then (w, fs, Err (the (ri_sync io)))
      else if wr_sessions w sid \<noteq> None \<and> ri_close io \<noteq> None then (w, fs, Err (the (ri_close io)))
      else case ri_open io of Some err \<Rightarrow> (w, fs, Err err)
         | None \<Rightarrow> (case dropWhile (\<lambda>p. fs p \<noteq> None) (map (je_join J (wr_dir w)) (ri_names io)) of
             [] \<Rightarrow> (w, fs, Panic)
           | p # _ \<Rightarrow> if ri_stat io \<noteq> None then (w, append_bytes p [] fs, Err (the (ri_stat io)))
              else (w\<lparr>wr_sessions := (wr_sessions w)(sid \<mapsto> p), wr_paths := (wr_paths w)(sid \<mapsto> p), wr_sizes := (wr_sizes w)(sid := 0),
                wr_history := (wr_history w)(sid \<mapsto> newHistoryIndex)\<rparr>, append_bytes p [] fs, Ok (p, predecessor))))"

definition CloseSession :: "string option \<Rightarrow> string option \<Rightarrow> string \<Rightarrow> writers \<Rightarrow> writers \<times> string option" where
  "CloseSession syncErr closeErr sid w =
     (if wr_sessions w sid = None then (w, None)
      else ((if closeErr = None then w\<lparr>wr_sessions := (wr_sessions w)(sid := None), wr_paths := (wr_paths w)(sid := None),
               wr_sizes := (wr_sizes w)(sid := 0), wr_history := (wr_history w)(sid := None)\<rparr> else w),
            (if syncErr \<noteq> None then syncErr else closeErr)))"

definition SessionCursors :: "journal_env \<Rightarrow> writers \<Rightarrow> string \<Rightarrow> logCursor option" where
  "SessionCursors J w sid = map_option (\<lambda>p. \<lparr>lc_Generation = je_base J p, lc_Offset = int (wr_sizes w sid), lc_Path = p\<rparr>) (wr_paths w sid)"

section \<open>Reading\<close>

definition maxRecordBytes :: nat where "maxRecordBytes = 64 * 1024 * 1024"

type_synonym log_record = "projCursor \<times> event"

definition first_chunk :: "string \<Rightarrow> string" where
  \<comment> \<open>\<^verbatim>\<open>ReadBytes\<close>: up to and with the next line end, or the rest\<close>
  "first_chunk src = takeWhile (\<lambda>c. c \<noteq> CHR 0x0A) src @ (if CHR 0x0A \<in> set src then [CHR 0x0A] else [])"

lemma first_chunk_nonempty: "first_chunk src = [] \<longleftrightarrow> src = []"
  by (cases src) (auto simp: first_chunk_def)

lemma first_chunk_length: "src \<noteq> [] \<Longrightarrow> length src - length (first_chunk src) < length src"
  by (simp add: first_chunk_nonempty)

function read_loop :: "journal_env \<Rightarrow> string \<Rightarrow> nat \<Rightarrow> nat \<Rightarrow> log_record list \<Rightarrow> string \<Rightarrow> log_record list \<times> nat \<times> string option" where
  \<comment> \<open>records, offset and error; \<open>through\<close> 0 stands for no bound\<close>
  "read_loop J generation through offset result src =
     (let chunk = first_chunk src; eof = CHR 0x0A \<notin> set src; next = offset + length chunk in
      if src = [] then (if 0 < through \<and> offset \<noteq> through then ([], offset, Some ''byte offset exceeds durable log end'') else (result, offset, None))
      else if eof \<and> 0 < through then ([], offset, Some ''byte offset is not a JSONL record boundary'')
      else if maxRecordBytes < length chunk then ([], offset, Some ''line exceeds the limit'')
      else if 0 < through \<and> through < next then ([], offset, Some ''byte offset is not a JSONL record boundary'')
      else let trimmed = trim_space chunk in
        case (if trimmed = [] then Some result
              else map_option (\<lambda>e. result @ [(\<lparr>pc_Generation = generation, pc_Offset = int next\<rparr>, e)]) (je_unmarshal J trimmed)) of
          None \<Rightarrow> ([], offset, Some ''invalid JSON'')
        | Some result1 \<Rightarrow>
            if 0 < through \<and> next = through then (result1, next, None)
            else if eof then (result1, next, None)
            else read_loop J generation through next result1 (drop (length chunk) src))"
  by pat_completeness auto
termination
  by (relation "measure (\<lambda>(J, generation, through, offset, result, src). length src)") (simp_all add: first_chunk_length)

declare read_loop.simps [simp del]

definition ReadFile :: "journal_env \<Rightarrow> disk \<Rightarrow> string \<Rightarrow> nat \<Rightarrow> log_record list \<times> nat \<times> string option" where
  "ReadFile J fs path through =
     (case fs path of None \<Rightarrow> ([], 0, Some ''no such file'')
      | Some bytes \<Rightarrow> read_loop J (je_base J path) through 0 [] (if 0 < through then take through bytes else bytes))"

definition predecessorCursor :: "log_record list \<Rightarrow> projCursor option" where
  "predecessorCursor rs =
     (case rs of [] \<Rightarrow> None
      | (_, e) # _ \<Rightarrow> if ev_Type e \<noteq> ''session.reset'' then None
          else let m = eventMap (gget (eventMap (ev_Data e)) ''predecessor'');
                   cursor = \<lparr>pc_Generation = text_of m ''generation'', pc_Offset = num (gget m ''offset'')\<rparr>
               in if pc_Generation cursor \<noteq> [] \<and> 0 < pc_Offset cursor then Some cursor else None)"

definition log_sessionID :: "log_record list \<Rightarrow> string" where
  \<comment> \<open>\<^verbatim>\<open>sessionID\<close>\<close>
  "log_sessionID rs = (case filter (\<lambda>r. ev_SessionID (snd r) \<noteq> []) rs of [] \<Rightarrow> [] | r # _ \<Rightarrow> ev_SessionID (snd r))"

fun ProjectFile :: "nat \<Rightarrow> journal_env \<Rightarrow> (string \<Rightarrow> int) \<Rightarrow> disk \<Rightarrow> string \<Rightarrow> nat \<Rightarrow> snapshot gores option" where
  \<comment> \<open>the first argument bounds the chain of predecessors, which need not end: \<open>None\<close> when it is used up\<close>
  "ProjectFile 0 J ms fs path through = None"
| "ProjectFile (Suc fuel) J ms fs path through =
     (case ReadFile J fs path through of
        (_, _, Some err) \<Rightarrow> Some (Err err)
      | (records, offset, None) \<Rightarrow>
          let finish = (\<lambda>state. gores_bind (project_all ms state records)
                (\<lambda>sn. Ok (if records = [] then sn\<lparr>sn_Cursor := \<lparr>pc_Generation = je_base J path, pc_Offset = int offset\<rparr>\<rparr> else sn))) in
          case predecessorCursor records of
            None \<Rightarrow> Some (finish (emptySnapshot (log_sessionID records)))
          | Some c \<Rightarrow> (case ProjectFile fuel J ms fs (je_join J (je_dir J path) (pc_Generation c)) (nat (pc_Offset c)) of
                None \<Rightarrow> None
              | Some previous \<Rightarrow> Some (gores_bind previous finish)))"

section \<open>Looking history up\<close>

definition readHistoryMessage :: "journal_env \<Rightarrow> disk \<Rightarrow> historyLocation \<Rightarrow> message gores" where
  "readHistoryMessage J fs l =
     (case fs (hl_path l) of None \<Rightarrow> Err ''no such file''
      | Some bytes \<Rightarrow> case je_unmarshal J (let data = take (hl_length l) (drop (hl_offset l) bytes)
            in data @ replicate (hl_length l - length data) (CHR 0x00)) of None \<Rightarrow> Err ''invalid JSON''
          | Some e \<Rightarrow> if ev_Type e \<noteq> ''message.appended'' then Err ''recorded history location is another event''
              else case appended_message (ev_Data e) of None \<Rightarrow> Err ''json: cannot unmarshal'' | Some m \<Rightarrow> Ok m)"

definition ResolveHistory :: "journal_env \<Rightarrow> writers \<Rightarrow> disk \<Rightarrow> string \<Rightarrow> string \<Rightarrow> historyLookup gores" where
  "ResolveHistory J w fs sid ref =
     (case wr_history w sid of None \<Rightarrow> Err ''history is not available for this session''
      | Some h \<Rightarrow> gores_bind (resolve_with (\<lambda>_. Ok emptyMessage) h ref) (\<lambda>lookup. case lookup of
            Manifest origin es \<Rightarrow> Ok lookup
          | FoundMessage origin _ \<Rightarrow> gores_bind (readHistoryMessage J fs (hr_location (the (hi_records h ref))))
              (\<lambda>m. if msg_ID m \<noteq> ref then Err ''recorded history ref mismatch'' else Ok (FoundMessage origin m))))"

end
