(* ===== verification/Journal_Trace.thy ===== *)
theory Journal_Trace
  imports Journal
begin

text \<open>
  What a journal gives back: the bytes of a generation are the lines of its events, and reading it through a cursor gives
  exactly the events up to that cursor.  \<open>journal_at\<close> is the state of a generation after some events, \<open>apart\<close> says that its
  file belongs to no other writer.
\<close>

section \<open>Lines\<close>

definition reread :: "event \<Rightarrow> event" where
  \<comment> \<open>what is read back: the data are untyped JSON\<close>
  "reread e = e\<lparr>ev_Data := json_any (ev_Data e)\<rparr>"

definition log_line :: "journal_env \<Rightarrow> event \<Rightarrow> string" where
  "log_line J e = (case je_marshal J e of None \<Rightarrow> [] | Some s \<Rightarrow> s @ [NL])"

definition line_ok :: "journal_env \<Rightarrow> event \<Rightarrow> bool" where
  \<comment> \<open>what \<^verbatim>\<open>encoding/json\<close> does with the event: one line of text, white space around it ignored, decoded to the same event\<close>
  "line_ok J e \<longleftrightarrow> (\<exists>s. je_marshal J e = Some s \<and> s \<noteq> [] \<and> NL \<notin> set s \<and> length s < maxRecordBytes \<and> trim_space (s @ [NL]) = s
     \<and> je_unmarshal J s = Some (reread e) \<and> je_unmarshal J (s @ [NL]) = Some (reread e))"

definition log_lines :: "journal_env \<Rightarrow> event list \<Rightarrow> string" where
  "log_lines J es = concat (map (log_line J) es)"

lemma log_lines_simps [simp]:
  "log_lines J [] = []" "log_lines J (e # es) = log_line J e @ log_lines J es" "log_lines J (es @ fs) = log_lines J es @ log_lines J fs"
  by (simp_all add: log_lines_def)

primrec log_from :: "journal_env \<Rightarrow> string \<Rightarrow> nat \<Rightarrow> event list \<Rightarrow> log_record list" where
  "log_from J g off [] = []"
| "log_from J g off (e # es) = (\<lparr>pc_Generation = g, pc_Offset = int (off + length (log_line J e))\<rparr>, reread e)
     # log_from J g (off + length (log_line J e)) es"

lemma log_from_append: "log_from J g off (es @ es') = log_from J g off es @ log_from J g (off + length (log_lines J es)) es'"
  by (induction es arbitrary: off) (simp_all add: add.assoc)

lemma log_from_simps [simp]:
  "length (log_from J g off es) = length es" "log_from J g off es = [] \<longleftrightarrow> es = []" "map snd (log_from J g off es) = map reread es"
  by (induction es arbitrary: off) simp_all

lemma log_from_nth: "n < length es \<Longrightarrow> pc_Offset (fst (log_from J g off es ! n)) = int (off + length (log_lines J (take (Suc n) es)))"
  by (induction es arbitrary: off n) (auto simp: nth_Cons split: nat.split)

lemma line_okD:
  assumes "line_ok J e"
  obtains s where "je_marshal J e = Some s" "log_line J e = s @ [NL]" "s \<noteq> []" "NL \<notin> set s" "length s < maxRecordBytes" "trim_space (s @ [NL]) = s"
    "je_unmarshal J s = Some (reread e)" "je_unmarshal J (s @ [NL]) = Some (reread e)"
  using assms by (auto simp: line_ok_def log_line_def)

lemma line_ok_nonempty: "line_ok J e \<Longrightarrow> log_line J e \<noteq> []"
  by (erule line_okD) simp

section \<open>Reading lines back\<close>

lemma first_chunk_line: "line_ok J e \<Longrightarrow> first_chunk (log_line J e @ rest) = log_line J e"
  by (erule line_okD) (auto simp: first_chunk_def takeWhile_append)

lemma read_line:
  assumes "line_ok J e" "through = 0 \<or> off + length (log_line J e) \<le> through"
  shows "read_loop J g through off acc (log_line J e @ rest) =
    (let next = off + length (log_line J e); acc1 = acc @ [(\<lparr>pc_Generation = g, pc_Offset = int next\<rparr>, reread e)]
     in if 0 < through \<and> next = through then (acc1, next, None) else read_loop J g through next acc1 rest)"
proof -
  from assms(1) obtain s where s: "log_line J e = s @ [NL]" "s \<noteq> []" "NL \<notin> set s" "length s < maxRecordBytes" "trim_space (s @ [NL]) = s"
    "je_unmarshal J s = Some (reread e)" by (rule line_okD)
  show ?thesis
    unfolding read_loop.simps[of J g through off acc] first_chunk_line[OF assms(1)]
    using s assms(2) by (auto simp: Let_def)
qed

lemma read_lines:
  assumes "\<forall>e \<in> set es. line_ok J e" "through = 0 \<or> through = off + length (log_lines J es)" "off = through \<longrightarrow> through = 0 \<or> es = []"
  shows "read_loop J g through off acc (log_lines J es) = (acc @ log_from J g off es, off + length (log_lines J es), None)"
  using assms
proof (induction es arbitrary: off acc)
  case (Cons e es)
  from Cons.prems(1) have e: "line_ok J e" by simp
  show ?case
  proof (cases "es = []")
    case True
    with Cons.prems(2) show ?thesis using read_line[OF e, of through off g acc "[]"] by (auto simp: Let_def read_loop.simps[where src = "[]"])
  next
    case False
    then have "0 < length (log_lines J es)" using Cons.prems(1) line_ok_nonempty by (cases es) auto
    with Cons.prems(2) have "\<not> (0 < through \<and> off + length (log_line J e) = through)" unfolding log_lines_simps length_append by arith
    moreover have "through = 0 \<or> off + length (log_line J e) \<le> through" using Cons.prems(2) by auto
    moreover have "read_loop J g through (off + length (log_line J e)) acc1 (log_lines J es)
      = (acc1 @ log_from J g (off + length (log_line J e)) es, off + length (log_line J e) + length (log_lines J es), None)" for acc1
      using Cons.prems calculation(1) by (intro Cons.IH) auto
    ultimately show ?thesis by (auto simp: read_line[OF e] Let_def add.assoc)
  qed
qed (auto simp: read_loop.simps[where src = "[]"])

lemma take_log_lines: "n \<le> length es \<Longrightarrow> take (length (log_lines J (take n es))) (log_lines J es) = log_lines J (take n es)"
  by (metis append_take_drop_id append_eq_conv_conj log_lines_simps(3))

lemma read_through:
  assumes "fs p = Some (log_lines J es @ rest)" "\<forall>e \<in> set es. line_ok J e" "0 < n" "n \<le> length es"
  shows "ReadFile J fs p (length (log_lines J (take n es))) = (take n (log_from J (je_base J p) 0 es), length (log_lines J (take n es)), None)"
proof -
  have ne: "take n es \<noteq> []" using assms(3,4) by auto
  have ok: "\<forall>e \<in> set (take n es). line_ok J e" using assms(2) by (meson in_set_takeD)
  then have pos: "0 < length (log_lines J (take n es))" using ne line_ok_nonempty by (cases "take n es") auto
  have "take (length (log_lines J (take n es))) (log_lines J es @ rest) = log_lines J (take n es)"
    using take_log_lines[OF assms(4), of J] by (metis append_take_drop_id append_assoc append_eq_conv_conj log_lines_simps(3))
  moreover have "take n (log_from J (je_base J p) 0 es) = log_from J (je_base J p) 0 (take n es)"
    by (metis append_take_drop_id append_eq_conv_conj length_take log_from_append log_from_simps(1) min_absorb2 assms(4))
  ultimately show ?thesis using ok pos ne assms(1) by (simp add: ReadFile_def read_lines)
qed

lemma read_all:
  assumes "fs p = Some (log_lines J es)" "\<forall>e \<in> set es. line_ok J e"
  shows "ReadFile J fs p 0 = (log_from J (je_base J p) 0 es, length (log_lines J es), None)"
  using assms by (simp add: ReadFile_def read_lines)

lemma read_torn:
  assumes "\<forall>e \<in> set es. line_ok J e" "part \<noteq> []" "NL \<notin> set part" "through = off + length (log_lines J es @ part)" "0 < through"
  shows "snd (snd (read_loop J g through off acc (log_lines J es @ part))) \<noteq> None"
  using assms(1,4,5)
proof (induction es arbitrary: off acc)
  case Nil
  then show ?case using assms(2,3) by (simp add: read_loop.simps[where src = part])
next
  case (Cons e es)
  then have e: "line_ok J e" by simp
  have "off + length (log_line J e) < through" using Cons.prems(2) assms(2) by simp
  with Cons e show ?case by (simp add: read_line Let_def add.assoc)
qed

section \<open>Writing lines\<close>

definition io_ok :: "journal_env \<Rightarrow> write_io \<Rightarrow> event \<Rightarrow> bool" where
  \<comment> \<open>no operation fails\<close>
  "io_ok J io e \<longleftrightarrow> wi_chatOpen io = None \<and> wi_file io = (length (log_line J e), None) \<and> wi_chat io = (length (log_line J e), None)
     \<and> wi_fileSync io = None \<and> wi_chatSync io = None"

definition session_name :: "journal_env \<Rightarrow> string \<Rightarrow> bool" where
  "session_name J sid \<longleftrightarrow> je_base J sid = sid \<and> sid \<noteq> ''.'' \<and> sid \<noteq> []"

definition journal_has :: "string \<Rightarrow> string \<Rightarrow> string \<Rightarrow> nat \<Rightarrow> writers \<Rightarrow> disk \<Rightarrow> bool" where
  "journal_has sid p bytes n w fs \<longleftrightarrow> wr_sessions w sid = Some p \<and> wr_paths w sid = Some p \<and> fs p = Some bytes \<and> wr_sizes w sid = n"

definition journal_at :: "journal_env \<Rightarrow> string \<Rightarrow> string \<Rightarrow> event list \<Rightarrow> writers \<Rightarrow> disk \<Rightarrow> bool" where
  "journal_at J sid p es w fs \<longleftrightarrow> journal_has sid p (log_lines J es) (length (log_lines J es)) w fs"

definition apart :: "journal_env \<Rightarrow> string \<Rightarrow> string \<Rightarrow> writers \<Rightarrow> bool" where
  "apart J sid p w \<longleftrightarrow> p \<noteq> [] \<and> wr_global w \<noteq> p \<and> (\<forall>s. s \<noteq> sid \<longrightarrow> wr_sessions w s \<noteq> Some p) \<and> (\<forall>s. chat_path J w s \<noteq> p)
     \<and> (\<forall>s q. wr_chats w s = Some q \<longrightarrow> q = chat_path J w s)"

lemma append_bytes_simps [simp]: "append_bytes q bs fs p = (if p = q then Some ((case fs p of None \<Rightarrow> [] | Some old \<Rightarrow> old) @ bs) else fs p)"
  by (simp add: append_bytes_def)

lemma chat_path_simps [simp]: "chat_path J (w\<lparr>wr_chats := c\<rparr>) s = chat_path J w s" by (simp add: chat_path_def)

lemma recorded_simps [simp]:
  "wr_sessions (recorded J e off n w) = wr_sessions w" "wr_paths (recorded J e off n w) = wr_paths w" "wr_global (recorded J e off n w) = wr_global w"
  "wr_chats (recorded J e off n w) = wr_chats w" "chat_path J' (recorded J e off n w) s = chat_path J' w s"
  "wr_sizes (recorded J e off n w) = (if ev_SessionID e \<noteq> [] \<and> wr_sessions w (ev_SessionID e) \<noteq> None
     then (wr_sizes w)(ev_SessionID e := wr_sizes w (ev_SessionID e) + n) else wr_sizes w)"
  by (auto simp: recorded_def log_file_def chat_path_def Let_def split: option.split)

lemma opened_chat:
  assumes "apart J sid p w" "durableChatLocked J openErr s w fs = Ok (w1, fs1, chat)"
  shows "apart J sid p w1" "chat = chat_path J w s" "chat \<noteq> p" "fs1 p = fs p" "wr_sessions w1 = wr_sessions w" "wr_paths w1 = wr_paths w"
    "wr_sizes w1 = wr_sizes w" "wr_global w1 = wr_global w" "wr_history w1 = wr_history w"
  using assms by (auto simp: durableChatLocked_def apart_def split: if_splits option.splits)

lemma write_lines_ok:
  assumes "io_ok J io e"
  shows "write_lines J io e (log_line J e) chat w fs = (recorded J e (wr_sizes w (ev_SessionID e)) (length (log_line J e)) w,
    (case chat of None \<Rightarrow> append_bytes (log_file w (ev_SessionID e)) (log_line J e) fs
     | Some q \<Rightarrow> append_bytes q (log_line J e) (append_bytes (log_file w (ev_SessionID e)) (log_line J e) fs)),
    (if ev_SessionID e = [] \<or> log_path w (ev_SessionID e) = [] then no_logCursor
     else \<lparr>lc_Generation = je_base J (log_path w (ev_SessionID e)), lc_Offset = int (wr_sizes w (ev_SessionID e) + length (log_line J e)),
        lc_Path = log_path w (ev_SessionID e)\<rparr>), None)"
  using assms by (simp add: write_lines_def Let_def io_ok_def write_failed_def sync_failed_def split: option.split)

lemma recorded_history [simp]:
  "wr_history (recorded J e off n w) s = (if s = ev_SessionID e
     then map_option (index_event (je_text J) False e \<lparr>hl_path = path_of w s, hl_offset = off, hl_length = n\<rparr>) (wr_history w s) else wr_history w s)"
  by (auto simp: recorded_def path_of_def Let_def split: option.split)

lemma apart_recorded [simp]: "apart J sid p (recorded J' e off n w) = apart J sid p w"
  unfolding apart_def by simp

lemma write_lines_own:
  assumes "apart J sid p w" "journal_has sid p bytes n w fs" "sid \<noteq> []" "ev_SessionID e = sid" "chat \<noteq> Some p" "io_ok J io e"
  shows "\<exists>w1 fs1. write_lines J io e (log_line J e) chat w fs = (w1, fs1,
      \<lparr>lc_Generation = je_base J p, lc_Offset = int (n + length (log_line J e)), lc_Path = p\<rparr>, None)
    \<and> apart J sid p w1 \<and> journal_has sid p (bytes @ log_line J e) (n + length (log_line J e)) w1 fs1
    \<and> wr_history w1 sid = map_option (index_event (je_text J) False e \<lparr>hl_path = p, hl_offset = n, hl_length = length (log_line J e)\<rparr>) (wr_history w sid)"
proof -
  have f: "log_file w sid = p" "log_path w sid = p" "path_of w sid = p" "p \<noteq> []" using assms(1-3) by (simp_all add: log_file_def log_path_def path_of_def journal_has_def apart_def)
  show ?thesis unfolding write_lines_ok[OF assms(6)] using assms f by (cases chat) (simp_all add: journal_has_def)
qed

lemma write_lines_other:
  assumes "apart J sid p w" "journal_has sid p bytes n w fs" "ev_SessionID e \<noteq> sid" "chat \<noteq> Some p" "io_ok J io e"
  shows "\<exists>w1 fs1 c. write_lines J io e (log_line J e) chat w fs = (w1, fs1, c, None) \<and> apart J sid p w1 \<and> journal_has sid p bytes n w1 fs1
    \<and> wr_history w1 sid = wr_history w sid"
proof -
  have "log_file w (ev_SessionID e) \<noteq> p" using assms(1,3) by (auto simp: log_file_def apart_def split: option.splits)
  then show ?thesis unfolding write_lines_ok[OF assms(5)] using assms(1-4) by (cases chat) (simp_all add: journal_has_def)
qed

lemma WriteRecord_lines:
  assumes "apart J sid p w" "journal_has sid p bytes n w fs" "line_ok J e" "io_ok J io e" "ev_SessionID e = [] \<or> session_name J (ev_SessionID e)"
  obtains chat w1 fs1 where "WriteRecord J io e w fs = write_lines J io e (log_line J e) chat w1 fs1" "chat \<noteq> Some p"
    "apart J sid p w1" "journal_has sid p bytes n w1 fs1" "wr_history w1 = wr_history w"
proof -
  from assms(3) obtain s where s: "je_marshal J e = Some s" "log_line J e = s @ [NL]" by (rule line_okD)
  show thesis
  proof (cases "ev_SessionID e = []")
    case True
    with s show thesis by (intro that[of None w fs]) (simp_all add: WriteRecord_def assms)
  next
    case False
    with assms(4,5) obtain w1 fs1 chat where o: "durableChatLocked J (wi_chatOpen io) (ev_SessionID e) w fs = Ok (w1, fs1, chat)"
      by (cases "wr_chats w (ev_SessionID e)") (auto simp: durableChatLocked_def session_name_def io_ok_def)
    note f = opened_chat[OF assms(1) o]
    from f assms(2) s o False show thesis by (intro that[of "Some chat" w1 fs1]) (simp_all add: WriteRecord_def journal_has_def)
  qed
qed

lemma write_ok:
  assumes "apart J sid p w" "journal_has sid p bytes n w fs" "sid \<noteq> []" "line_ok J e" "io_ok J io e" "ev_SessionID e = [] \<or> session_name J (ev_SessionID e)"
  shows "\<exists>w1 fs1 c. WriteRecord J io e w fs = (w1, fs1, c, None) \<and> apart J sid p w1
    \<and> (if ev_SessionID e = sid then journal_has sid p (bytes @ log_line J e) (n + length (log_line J e)) w1 fs1
         \<and> c = \<lparr>lc_Generation = je_base J p, lc_Offset = int (n + length (log_line J e)), lc_Path = p\<rparr>
         \<and> wr_history w1 sid = map_option (index_event (je_text J) False e \<lparr>hl_path = p, hl_offset = n, hl_length = length (log_line J e)\<rparr>) (wr_history w sid)
       else journal_has sid p bytes n w1 fs1 \<and> wr_history w1 sid = wr_history w sid)"
proof -
  from WriteRecord_lines[OF assms(1,2,4-6)] obtain chat w1 fs1 where w: "WriteRecord J io e w fs = write_lines J io e (log_line J e) chat w1 fs1"
    "chat \<noteq> Some p" "apart J sid p w1" "journal_has sid p bytes n w1 fs1" "wr_history w1 = wr_history w" by metis
  show ?thesis
  proof (cases "ev_SessionID e = sid")
    case True
    from write_lines_own[OF w(3,4) assms(3) True w(2) assms(5)] w(1,5) True show ?thesis by auto
  next
    case False
    from write_lines_other[OF w(3,4) False w(2) assms(5)] w(1,5) False show ?thesis by auto
  qed
qed

primrec write_all :: "journal_env \<Rightarrow> (write_io \<times> event) list \<Rightarrow> writers \<Rightarrow> disk \<Rightarrow> writers \<times> disk \<times> (event \<times> logCursor \<times> string option) list" where
  "write_all J [] w fs = (w, fs, [])"
| "write_all J (x # xs) w fs = (let (w1, fs1, c, err) = WriteRecord J (fst x) (snd x) w fs; (w2, fs2, rs) = write_all J xs w1 fs1
     in (w2, fs2, (snd x, c, err) # rs))"

definition write_allowed :: "journal_env \<Rightarrow> write_io \<times> event \<Rightarrow> bool" where
  "write_allowed J x \<longleftrightarrow> line_ok J (snd x) \<and> io_ok J (fst x) (snd x) \<and> (ev_SessionID (snd x) = [] \<or> session_name J (ev_SessionID (snd x)))"

definition events_of :: "string \<Rightarrow> (write_io \<times> event) list \<Rightarrow> event list" where
  "events_of sid xs = filter (\<lambda>e. ev_SessionID e = sid) (map snd xs)"

definition cursors_of :: "string \<Rightarrow> (event \<times> logCursor \<times> string option) list \<Rightarrow> projCursor list" where
  "cursors_of sid rs = map (\<lambda>(_, c, _). \<lparr>pc_Generation = lc_Generation c, pc_Offset = lc_Offset c\<rparr>) (filter (\<lambda>r. ev_SessionID (fst r) = sid) rs)"

primrec index_log :: "journal_env \<Rightarrow> string \<Rightarrow> nat \<Rightarrow> event list \<Rightarrow> historyIndex \<Rightarrow> historyIndex" where
  "index_log J p off [] h = h"
| "index_log J p off (e # es) h = index_log J p (off + length (log_line J e)) es
     (index_event (je_text J) False e \<lparr>hl_path = p, hl_offset = off, hl_length = length (log_line J e)\<rparr> h)"

lemma written_journal:
  assumes "apart J sid p w" "journal_at J sid p es w fs" "sid \<noteq> []" "list_all (write_allowed J) xs" "write_all J xs w fs = (w', fs', rs)"
    "wr_history w sid = Some h"
  shows "apart J sid p w' \<and> journal_at J sid p (es @ events_of sid xs) w' fs'
    \<and> cursors_of sid rs = map fst (log_from J (je_base J p) (length (log_lines J es)) (events_of sid xs)) \<and> list_all (\<lambda>(_, _, err). err = None) rs
    \<and> wr_history w' sid = Some (index_log J p (length (log_lines J es)) (events_of sid xs) h)"
  using assms
proof (induction xs arbitrary: es w fs rs h)
  case (Cons x xs)
  from Cons.prems(4) have x: "line_ok J (snd x)" "io_ok J (fst x) (snd x)" "ev_SessionID (snd x) = [] \<or> session_name J (ev_SessionID (snd x))"
    and rest: "list_all (write_allowed J) xs" by (simp_all add: write_allowed_def[of J x])
  let ?h = "index_event (je_text J) False (snd x) \<lparr>hl_path = p, hl_offset = length (log_lines J es), hl_length = length (log_line J (snd x))\<rparr> h"
  from write_ok[OF Cons.prems(1) Cons.prems(2)[unfolded journal_at_def] Cons.prems(3) x] Cons.prems(6) obtain w1 fs1 c
    where w1: "WriteRecord J (fst x) (snd x) w fs = (w1, fs1, c, None)" "apart J sid p w1"
    and own: "if ev_SessionID (snd x) = sid then journal_at J sid p (es @ [snd x]) w1 fs1
      \<and> c = \<lparr>lc_Generation = je_base J p, lc_Offset = int (length (log_lines J (es @ [snd x]))), lc_Path = p\<rparr> \<and> wr_history w1 sid = Some ?h
      else journal_at J sid p es w1 fs1 \<and> wr_history w1 sid = Some h"
    by (auto simp: journal_at_def split: if_splits)
  from Cons.prems(5) w1(1) obtain rs1 where rs1: "write_all J xs w1 fs1 = (w', fs', rs1)" "rs = (snd x, c, None) # rs1"
    by (auto split: prod.splits)
  show ?case
  proof (cases "ev_SessionID (snd x) = sid")
    case True
    with own have "journal_at J sid p (es @ [snd x]) w1 fs1" "wr_history w1 sid = Some ?h" by simp_all
    from Cons.IH[OF w1(2) this(1) Cons.prems(3) rest rs1(1) this(2)] True own rs1(2) show ?thesis by (simp add: events_of_def cursors_of_def)
  next
    case False
    with own have "journal_at J sid p es w1 fs1" "wr_history w1 sid = Some h" by simp_all
    from Cons.IH[OF w1(2) this(1) Cons.prems(3) rest rs1(1) this(2)] False rs1(2) show ?thesis by (simp add: events_of_def cursors_of_def)
  qed
qed (simp add: events_of_def cursors_of_def)

lemma dropWhile_head: "dropWhile P xs = y # ys \<Longrightarrow> \<not> P y"
  by (metis hd_dropWhile list.distinct(1) list.sel(1))

lemma fresh_generation:
  assumes "RotateSession J rio sid w0 fs0 = (w, fs, Ok (p, predecessor))"
  shows "journal_at J sid p [] w fs" "wr_history w sid = Some newHistoryIndex"
    "predecessor = \<lparr>lc_Generation = je_base J (path_of w0 sid), lc_Offset = int (wr_sizes w0 sid), lc_Path = path_of w0 sid\<rparr>"
  using assms by (auto simp: RotateSession_def journal_at_def journal_has_def Let_def dest!: dropWhile_head split: option.splits if_splits list.splits)

text \<open>C13. What was written is read back.  After a session's generation was opened, and whatever events of this and of other sessions
  were then written without an error, reading the file through the cursor of the n-th event of the session gives exactly its
  first n events, each with the cursor its writer was given; reading the whole file gives all of them.\<close>
theorem journals_are_read_back:
  assumes "RotateSession J rio sid w0 fs0 = (w, fs, Ok (p, predecessor))" "apart J sid p w" "sid \<noteq> []"
    and "list_all (write_allowed J) xs" "write_all J xs w fs = (w', fs', results)"
    and "records = zip (cursors_of sid results) (map reread (events_of sid xs))"
  shows "ReadFile J fs' p 0 = (records, wr_sizes w' sid, None) \<and> length records = length (events_of sid xs)
    \<and> list_all (\<lambda>n. ReadFile J fs' p (nat (pc_Offset (fst (records ! n)))) = (take (n + 1) records, nat (pc_Offset (fst (records ! n))), None)) [0..<length records]"
proof -
  from written_journal[OF assms(2) fresh_generation(1)[OF assms(1)] assms(3-5) fresh_generation(2)[OF assms(1)]] have j: "journal_at J sid p (events_of sid xs) w' fs'"
    and c: "cursors_of sid results = map fst (log_from J (je_base J p) 0 (events_of sid xs))" by simp_all
  have recs: "records = log_from J (je_base J p) 0 (events_of sid xs)"
    using zip_map_fst_snd[of "log_from J (je_base J p) 0 (events_of sid xs)"] by (simp add: assms(6) c)
  have ok: "\<forall>e \<in> set (events_of sid xs). line_ok J e"
    using assms(4) by (auto simp: events_of_def list_all_iff write_allowed_def)
  have fs': "fs' p = Some (log_lines J (events_of sid xs) @ [])" and n: "wr_sizes w' sid = length (log_lines J (events_of sid xs))"
    using j by (simp_all add: journal_at_def journal_has_def)
  show ?thesis using read_all[where fs = fs' and p = p, OF _ ok] fs' n by (simp add: recs list_all_iff log_from_nth read_through[where fs = fs' and p = p and es = "events_of sid xs" and rest = "[]", OF fs' ok] del: append_Nil2)
qed

section \<open>A failed write to the chat\<close>

lemma chat_write_fails:
  assumes "apart J sid p w" "journal_has sid p bytes n w fs" "line_ok J e" "ev_SessionID e = sid" "session_name J sid"
    and "wi_chatOpen io = None" "wi_file io = (length (log_line J e), None)" "snd (wi_chat io) = Some err"
  obtains w1 fs1 where "WriteRecord J io e w fs = (w1, fs1, no_logCursor, Some err)" "apart J sid p w1" "journal_has sid p (bytes @ log_line J e) n w1 fs1"
proof -
  from assms(3) obtain s where s: "je_marshal J e = Some s" "log_line J e = s @ [NL]" by (rule line_okD)
  from assms(5,6) obtain w1 fs1 chat where o: "durableChatLocked J (wi_chatOpen io) sid w fs = Ok (w1, fs1, chat)"
    by (cases "wr_chats w sid") (auto simp: durableChatLocked_def session_name_def)
  note f = opened_chat[OF assms(1) o]
  have "log_file w1 sid = p" using assms(2,5) f by (simp add: log_file_def journal_has_def session_name_def)
  then have "WriteRecord J io e w fs = (w1, append_bytes chat (take (fst (wi_chat io)) (log_line J e)) (append_bytes p (log_line J e) fs1), no_logCursor, Some err)"
    using assms(4,5,7,8) s o by (simp add: WriteRecord_def write_lines_def write_failed_def Let_def session_name_def)
  moreover have "journal_has sid p (bytes @ log_line J e) n w1
      (append_bytes chat (take (fst (wi_chat io)) (log_line J e)) (append_bytes p (log_line J e) fs1))"
    using assms(2) f(3-7) by (auto simp: journal_has_def)
  ultimately show thesis by (rule that[OF _ f(1)])
qed

text \<open>C40. A failed write to the retained chat shifts every later cursor.  The line is in the generation of the session, but its size is
  not counted: the cursor that the next event of another length is given is no boundary, and reading through it fails.\<close>
theorem failed_chat_write_shifts_cursors:
  assumes "apart J sid p w" "journal_at J sid p es w fs" "session_name J sid" "\<forall>x \<in> set (es @ [e, f]). line_ok J x"
    and "ev_SessionID e = sid" "ev_SessionID f = sid" "length (log_line J f) \<noteq> length (log_line J e)"
    and "wi_chatOpen io = None" "wi_file io = (length (log_line J e), None)" "snd (wi_chat io) = Some err" "io_ok J io' f"
    and "WriteRecord J io e w fs = (w1, fs1, c1, r1)" "WriteRecord J io' f w1 fs1 = (w2, fs2, c2, r2)"
  shows "r1 = Some err \<and> r2 = None \<and> c2 \<noteq> no_logCursor \<and> snd (snd (ReadFile J fs2 (lc_Path c2) (nat (lc_Offset c2)))) \<noteq> None"
proof -
  have ok: "line_ok J e" "line_ok J f" "\<forall>x \<in> set es. line_ok J x" and sid: "sid \<noteq> []" using assms(3,4) by (simp_all add: session_name_def)
  from chat_write_fails[OF assms(1) assms(2)[unfolded journal_at_def] ok(1) assms(5,3,8-10)] obtain w1' fs1' where
    1: "WriteRecord J io e w fs = (w1', fs1', no_logCursor, Some err)" "apart J sid p w1'"
      "journal_has sid p (log_lines J es @ log_line J e) (length (log_lines J es)) w1' fs1'" by metis
  have same: "w1' = w1" "fs1' = fs1" "r1 = Some err" using 1(1) assms(12) by simp_all
  define through where "through = length (log_lines J es) + length (log_line J f)"
  from write_ok[OF 1(2,3) sid ok(2) assms(11)] assms(3,6,13) same have
    2: "r2 = None" "c2 = \<lparr>lc_Generation = je_base J p, lc_Offset = int through, lc_Path = p\<rparr>"
      "fs2 p = Some (log_lines J es @ log_line J e @ log_line J f)" by (auto simp: journal_has_def through_def)
  obtain se where se: "log_line J e = se @ [NL]" "NL \<notin> set se" using ok(1) by (rule line_okD)
  obtain sf where sf: "log_line J f = sf @ [NL]" "NL \<notin> set sf" using ok(2) by (rule line_okD)
  have "snd (snd (read_loop J g through 0 [] (take through (log_lines J es @ log_line J e @ log_line J f)))) \<noteq> None" for g
  proof (cases "length (log_line J f) < length (log_line J e)")
    case True
    then have "take through (log_lines J es @ log_line J e @ log_line J f) = log_lines J es @ take (length (log_line J f)) se"
      using se sf by (simp add: through_def)
    moreover have "take (length (log_line J f)) se \<noteq> []" "NL \<notin> set (take (length (log_line J f)) se)" using True se sf by (auto dest: in_set_takeD)
    ultimately show ?thesis using True se sf ok(3) by (simp only:) (rule read_torn, auto simp: through_def)
  next
    case False
    with assms(7) have less: "length (log_line J e) < length (log_line J f)" by simp
    then have "take through (log_lines J es @ log_line J e @ log_line J f) = log_lines J (es @ [e]) @ take (length (log_line J f) - length (log_line J e)) sf"
      using se sf by (simp add: through_def Suc_diff_le)
    moreover have "take (length (log_line J f) - length (log_line J e)) sf \<noteq> []" "NL \<notin> set (take (length (log_line J f) - length (log_line J e)) sf)"
      using less se sf by (auto dest: in_set_takeD)
    ultimately show ?thesis using less se sf ok(1,3) by (simp only:) (rule read_torn, auto simp: through_def)
  qed
  moreover have "0 < through" by (simp add: through_def sf)
  ultimately show ?thesis using 2 same(3) by (simp add: ReadFile_def no_logCursor_def)
qed

end
