(* ===== verification/Journal_Recall.thy ===== *)
theory Journal_Recall
  imports Journal_Trace
begin

text \<open>
  Looking a message of the history up in the journal (\<^verbatim>\<open>Writers.ResolveHistory\<close>, by the location of its line) and in the archive
  that a replay of the same journal keeps (\<^verbatim>\<open>HistoryArchive.Resolve\<close>, in memory): when the two agree and where they do not.
\<close>

section \<open>Events that are read again\<close>

lemma json_any_idem [simp]: "json_any (json_any v) = json_any v"
proof (induction v rule: json_any.induct)
  case (3 vs)
  then show ?case by (induction vs) auto
next
  case (4 m)
  have "json_any (json_any v) = json_any v" if "(k, v) \<in> set m" for k v using 4[OF that refl] by simp
  then show ?case by auto
next
  case (6 m)
  have "json_any (GMap m1) = GMap m1 \<Longrightarrow> json_any (GMap m2) = GMap m2 \<Longrightarrow> json_any (GMap (m1 @ m2)) = GMap (m1 @ m2)" for m1 m2 by simp
  then show ?case
    by (auto simp: json_message_def unless_empty_def unless_no_def json_int_def json_call_def json_attachment_def json_proposal_def split: option.split)
qed (auto simp: json_int_def json_call_def json_usage_def json_summary_def unless_empty_def split: option.split)

lemma gget_json: "gget (map (\<lambda>(k, v). (k, json_any v)) m) k = (if gget m k = GNil then GNil else json_any (gget m k))"
  by (induction m) auto

lemma ghas_json: "ghas (map (\<lambda>(k, v). (k, json_any v)) m) k = ghas m k"
  by (induction m) (auto simp: ghas_def)

lemma appended_message_json [simp]: "appended_message (json_any d) = appended_message d"
  by (simp add: appended_message_def)

definition indexable :: "event \<Rightarrow> bool" where
  \<comment> \<open>the shape of the events that the program publishes, as far as the index reads them\<close>
  "indexable e \<longleftrightarrow> ev_Type e \<notin> {''message.updated'', ''message.removed'', ''compaction''} \<or> (case ev_Data e of GMap m \<Rightarrow> (case gget m ''patch'' of GMap _ \<Rightarrow> True | v \<Rightarrow> v = GNil)
     \<and> (case gget m ''affected_ids'' of GStrs _ \<Rightarrow> True | v \<Rightarrow> v = GNil) | _ \<Rightarrow> False)"

lemma json_scalars [simp]: "str_or_empty (json_any v) = str_or_empty v" "as_bool (json_any v) = as_bool v" "json_any v = GStr s \<longleftrightarrow> v = GStr s"
  by (cases v; simp add: str_or_empty_def json_int_def json_call_def json_message_def json_usage_def json_summary_def)+

lemma update_json: "index_update i (map (\<lambda>(k, v). (k, json_any v)) patch) h = index_update i patch h"
  by (auto simp: index_update_def ghas_json gget_json patched_calls_def Let_def split: option.split)

lemma reread_simps [simp]: "ev_Type (reread e) = ev_Type e" "ev_SessionID (reread e) = ev_SessionID e" "ev_RunID (reread e) = ev_RunID e"
  "ev_Data (reread e) = json_any (ev_Data e)"
  by (simp_all add: reread_def)

lemma index_reread:
  assumes "indexable e"
  shows "index_event T keep (reread e) l h = index_event T keep e l h"
proof (cases "ev_Type e \<in> {''message.updated'', ''message.removed'', ''compaction''}")
  case True
  with assms obtain m where m: "ev_Data e = GMap m" "(\<exists>q. gget m ''patch'' = GMap q) \<or> gget m ''patch'' = GNil"
    "(\<exists>ss. gget m ''affected_ids'' = GStrs ss) \<or> gget m ''affected_ids'' = GNil"
    by (auto simp: indexable_def split: gval.splits)
  have "valueStrings (if gget m ''affected_ids'' = GNil then GNil else json_any (gget m ''affected_ids'')) = valueStrings (gget m ''affected_ids'')"
    using m(3) by (auto simp: valueStrings_def comp_def)
  moreover have "index_update i (valueMap (if gget m ''patch'' = GNil then GNil else json_any (gget m ''patch''))) h = index_update i (valueMap (gget m ''patch'')) h" for i
    using m(2) by (auto simp: valueMap_def update_json)
  moreover have "appended_message (GMap (map (\<lambda>(k, v). (k, json_any v)) m)) = appended_message (GMap m)"
    using appended_message_json[of "GMap m"] by simp
  moreover have "valueMap (ev_Data (reread e)) = map (\<lambda>(k, v). (k, json_any v)) m" "valueMap (ev_Data e) = m" by (simp_all add: m(1) valueMap_def)
  ultimately show ?thesis by (simp add: index_event_def m(1) gget_json Let_def)
qed (simp add: index_event_def Let_def)

section \<open>The two indexes\<close>

definition same_index :: "historyIndex \<Rightarrow> historyIndex \<Rightarrow> bool" where
  "same_index h a \<longleftrightarrow> hi_order h = hi_order a \<and> hi_lineage h = hi_lineage a \<and> hi_latest h = hi_latest a \<and> hi_elided h = hi_elided a
     \<and> hi_compacted h = hi_compacted a \<and> hi_calls h = hi_calls a \<and> (\<forall>i. map_option hr_meta (hi_records h i) = map_option hr_meta (hi_records a i))"

definition held :: "journal_env \<Rightarrow> string \<Rightarrow> string \<Rightarrow> historyIndex \<Rightarrow> historyIndex \<Rightarrow> bool" where
  \<comment> \<open>every location of the live index holds the message that the archive keeps\<close>
  "held J p bytes h a \<longleftrightarrow> (\<forall>i r r'. hi_records h i = Some r \<and> hi_records a i = Some r' \<longrightarrow>
     (\<exists>e m. hl_path (hr_location r) = p \<and> hl_length (hr_location r) = length (log_line J e) \<and> line_ok J e \<and> ev_Type e = ''message.appended''
       \<and> take (length (log_line J e)) (drop (hl_offset (hr_location r)) bytes) = log_line J e
       \<and> appended_message (ev_Data e) = Some m \<and> hr_full r' = Some m \<and> msg_ID m = i))"

lemma same_records: "same_index h a \<Longrightarrow> hi_records h i = None \<longleftrightarrow> hi_records a i = None"
  unfolding same_index_def by (metis option.map_disc_iff)

definition patches_calls :: "event \<Rightarrow> bool" where
  "patches_calls e \<longleftrightarrow> ev_Type e = ''message.updated'' \<and> ghas (valueMap (gget (valueMap (ev_Data e)) ''patch'')) ''tool_calls''"

lemma same_append: "same_index h a \<Longrightarrow> same_index (index_append T m l k h) (index_append T m l' k' a)"
  using same_records[of h a "msg_ID m"] by (simp add: same_index_def index_append_def Let_def)

lemma same_remove: "same_index h a \<Longrightarrow> same_index (index_remove i h) (index_remove i a)"
  using same_records[of h a i]
  by (cases "hi_records h i"; cases "hi_records a i") (auto simp: same_index_def index_remove_def forget_calls_def dest!: spec[where x = i])

lemma same_event:
  assumes "same_index h a" "\<not> patches_calls e"
  shows "same_index (index_event T k e l h) (index_event T k' e l' a)"
proof -
  have "same_index (index_update i q h) (index_update i q a)" if "\<not> ghas q ''tool_calls''" for i q
    using that assms(1) by (simp add: index_update_def same_index_def Let_def)
  moreover have "same_index (index_compact i q h) (index_compact i q a)" for i q
    using assms(1) by (simp add: index_compact_def same_index_def)
  ultimately show ?thesis
    using assms by (simp add: index_event_def patches_calls_def same_append same_remove Let_def split: option.split)
qed

lemma held_event:
  assumes "held J p bytes h a" "same_index h a" "\<not> patches_calls e" "line_ok J e" "take (length (log_line J e)) (drop off bytes) = log_line J e"
  shows "held J p bytes (index_event T False e \<lparr>hl_path = p, hl_offset = off, hl_length = length (log_line J e)\<rparr> h) (index_event T True e no_location a)"
proof -
  have "held J p bytes (index_update i q h) (index_update i q a)" if "\<not> ghas q ''tool_calls''" for i q
    using that assms(1) by (simp add: index_update_def held_def Let_def)
  moreover have "held J p bytes (index_compact i q h) (index_compact i q a)" for i q
    using assms(1) by (simp add: index_compact_def held_def)
  moreover have "held J p bytes (index_remove i h) (index_remove i a)" for i
    using same_records[OF assms(2), of i] assms(1) by (cases "hi_records h i"; cases "hi_records a i") (auto simp: held_def index_remove_def)
  moreover have "held J p bytes (index_append T m \<lparr>hl_path = p, hl_offset = off, hl_length = length (log_line J e)\<rparr> False h) (index_append T m no_location True a)"
    if "ev_Type e = ''message.appended''" "appended_message (ev_Data e) = Some m" for m
    using that assms(1,4,5) by (auto simp: held_def index_append_def Let_def)
  ultimately show ?thesis using assms(1,3) by (simp add: index_event_def patches_calls_def Let_def split: option.split)
qed

lemma index_log_agrees:
  assumes "held J p bytes h a" "same_index h a" "\<forall>e \<in> set es. \<not> patches_calls e \<and> line_ok J e \<and> indexable e \<and> ev_Type e \<noteq> ''session.reset''"
    and "bytes = before @ log_lines J es" "off = length before"
  shows "held J p bytes (index_log J p off es h) (fold (archive_Record (je_text J)) (map reread es) a)
    \<and> same_index (index_log J p off es h) (fold (archive_Record (je_text J)) (map reread es) a)"
  using assms
proof (induction es arbitrary: h a off before)
  case (Cons e es)
  let ?h = "index_event (je_text J) False e \<lparr>hl_path = p, hl_offset = off, hl_length = length (log_line J e)\<rparr> h"
  have e: "\<not> patches_calls e" "line_ok J e" "indexable e" "ev_Type e \<noteq> ''session.reset''" using Cons.prems(3) by simp_all
  then have a: "archive_Record (je_text J) (reread e) a = index_event (je_text J) True e no_location a" by (simp add: archive_Record_def index_reread)
  have "take (length (log_line J e)) (drop off bytes) = log_line J e" by (simp add: Cons.prems(4,5))
  from held_event[OF Cons.prems(1,2) e(1,2) this] have "held J p bytes ?h (index_event (je_text J) True e no_location a)" .
  moreover have "same_index ?h (index_event (je_text J) True e no_location a)" by (rule same_event[OF Cons.prems(2) e(1)])
  ultimately show ?case
    using Cons.IH[of ?h "index_event (je_text J) True e no_location a" "before @ log_line J e" "off + length (log_line J e)"] Cons.prems(3-5)
    by (simp add: a)
qed simp

lemma same_manifest:
  assumes "same_index h a"
  shows "is_manifest h = is_manifest a" "manifest_entries h (selected_ids h ref) = manifest_entries a (selected_ids a ref)"
proof -
  have r: "map_option hr_meta (hi_records h i) = map_option hr_meta (hi_records a i)" for i using assms by (simp add: same_index_def)
  have "historyEntry_of m h = historyEntry_of m a" for m using assms by (simp add: historyEntry_of_def same_index_def)
  then have "map_option (\<lambda>x. (historyEntry_of (hr_meta x) h)\<lparr>he_Elided := P, he_Compacted := Q\<rparr>) (hi_records h i)
    = map_option (\<lambda>x. (historyEntry_of (hr_meta x) a)\<lparr>he_Elided := P, he_Compacted := Q\<rparr>) (hi_records a i)" for i P Q
    using r[of i] by (cases "hi_records h i"; cases "hi_records a i") simp_all
  moreover have "selected_ids h ref = selected_ids a ref" using assms by (simp add: selected_ids_def same_index_def Let_def)
  moreover have "hi_order h = hi_order a" "hi_elided h = hi_elided a" "hi_compacted h = hi_compacted a" using assms by (simp_all add: same_index_def)
  ultimately show "manifest_entries h (selected_ids h ref) = manifest_entries a (selected_ids a ref)"
    by (simp only: manifest_entries_def)
  show "is_manifest h = is_manifest a" using assms by (simp add: is_manifest_def same_index_def fun_eq_iff)
qed

lemma resolve_agrees:
  assumes "same_index h a" "held J p bytes h a" "fs p = Some bytes" "wr_history w sid = Some h"
  shows "ResolveHistory J w fs sid ref = resolveReplay a ref"
proof (cases "is_manifest a ref")
  case True
  then show ?thesis using assms(1,4) same_manifest[OF assms(1)]
    by (simp add: ResolveHistory_def resolveReplay_def resolve_with_def same_index_def Let_def)
next
  case False
  show ?thesis
  proof (cases "hi_records h ref")
    case None
    with False assms(4) same_records[OF assms(1), of ref] show ?thesis
      by (simp add: ResolveHistory_def resolveReplay_def resolve_with_def same_manifest(1)[OF assms(1)])
  next
    case (Some r)
    with same_records[OF assms(1), of ref] obtain r' where r': "hi_records a ref = Some r'" by auto
    with Some assms(2) obtain e m where em: "hl_path (hr_location r) = p" "hl_length (hr_location r) = length (log_line J e)" "line_ok J e"
      "ev_Type e = ''message.appended''" "take (length (log_line J e)) (drop (hl_offset (hr_location r)) bytes) = log_line J e"
      "appended_message (ev_Data e) = Some m" "hr_full r' = Some m" "msg_ID m = ref" unfolding held_def by blast
    obtain s where "log_line J e = s @ [NL]" "je_unmarshal J (s @ [NL]) = Some (reread e)" using em(3) by (rule line_okD)
    then have "readHistoryMessage J fs (hr_location r) = Ok m" using em assms(3) by (simp add: readHistoryMessage_def Let_def)
    with False Some r' em assms(1,4) show ?thesis
      by (simp add: ResolveHistory_def resolveReplay_def resolve_with_def same_manifest(1)[OF assms(1)] same_index_def)
  qed
qed

text \<open>C14. Live recall and replay agree.  After a session's generation was opened and any events were written without an error,
  looking a reference up by reading the journal at the indexed location gives exactly what the archive of a replay gives, which
  keeps the messages in memory: the same manifest, the same message, the same error.  The events of the session contain no \<^verbatim>\<open>session.reset\<close> (which opens another generation) and no patch of tool calls:
  such a patch changes the message a replay keeps, but not the line a location points to, and the two recalls then differ.\<close>
theorem live_recall_is_replayed_recall:
  assumes "RotateSession J rio sid w0 fs0 = (w, fs, Ok (p, predecessor))" "apart J sid p w" "sid \<noteq> []"
    and "list_all (write_allowed J) xs" "write_all J xs w fs = (w', fs', results)"
    and "list_all (\<lambda>e. indexable e \<and> \<not> patches_calls e \<and> ev_Type e \<noteq> ''session.reset'') (events_of sid xs)"
  shows "ResolveHistory J w' fs' sid ref = resolveReplay (fold (archive_Record (je_text J)) (map reread (events_of sid xs)) newHistoryIndex) ref"
proof -
  note gen = fresh_generation[OF assms(1)]
  from written_journal[OF assms(2) gen(1) assms(3-5) gen(2)] have j: "fs' p = Some (log_lines J (events_of sid xs))"
    and h: "wr_history w' sid = Some (index_log J p 0 (events_of sid xs) newHistoryIndex)" by (simp_all add: journal_at_def journal_has_def)
  have "\<forall>e \<in> set (events_of sid xs). \<not> patches_calls e \<and> line_ok J e \<and> indexable e \<and> ev_Type e \<noteq> ''session.reset''"
    using assms(4,6) by (auto simp: events_of_def list_all_iff write_allowed_def)
  moreover have "held J p (log_lines J (events_of sid xs)) newHistoryIndex newHistoryIndex" "same_index newHistoryIndex newHistoryIndex"
    by (simp_all add: held_def newHistoryIndex_def same_index_def)
  ultimately show ?thesis
    using index_log_agrees[where before = "[]" and off = 0 and bytes = "log_lines J (events_of sid xs)" and p = p and J = J]
    by (intro resolve_agrees[where fs = fs' and p = p and bytes = "log_lines J (events_of sid xs)", OF _ _ j h]) simp_all
qed

section \<open>Examples\<close>

definition hidden_event :: event where
  "hidden_event = events_New ''message.updated'' ''s'' ''r'' (GMap [(''id'', GStr ''m''), (''patch'', GMap [(''elided'', GBool True)])])"

definition other_event :: event where
  "other_event = events_New ''error'' ''t'' ''r'' (GMap [])"

definition three_texts :: journal_env where
  \<comment> \<open>an encoding of three events\<close>
  "three_texts = \<lparr>je_marshal = (\<lambda>e. if e = said ''m'' then Some ''x'' else if e = hidden_event then Some ''yy'' else if e = other_event then Some ''zzz'' else None),
     je_unmarshal = (\<lambda>s. let t = trim_space s in if t = ''x'' then Some (reread (said ''m'')) else if t = ''yy'' then Some (reread hidden_event)
       else if t = ''zzz'' then Some (reread other_event) else None),
     je_join = (\<lambda>d n. d @ ''/'' @ n), je_base = (\<lambda>p. rev (takeWhile (\<lambda>c. c \<noteq> CHR ''/'') (rev p))),
     je_dir = (\<lambda>p. rev (tl (dropWhile (\<lambda>c. c \<noteq> CHR ''/'') (rev p)))), je_text = plain_text\<rparr>"

lemma three_events: "hidden_event \<noteq> said ''m''" "other_event \<noteq> said ''m''" "other_event \<noteq> hidden_event"
  by (simp_all add: hidden_event_def other_event_def said_def events_New_def)

lemma short_texts: "trim_space ''x'' = ''x''" "trim_space ''yy'' = ''yy''" "trim_space ''zzz'' = ''zzz''"
  "trim_space (''x'' @ [NL]) = ''x''" "trim_space (''yy'' @ [NL]) = ''yy''" "trim_space (''zzz'' @ [NL]) = ''zzz''"
  by code_simp+

lemma three_lines:
  "log_line three_texts (said ''m'') = ''x'' @ [NL]" "log_line three_texts hidden_event = ''yy'' @ [NL]" "log_line three_texts other_event = ''zzz'' @ [NL]"
  using three_events by (simp_all add: log_line_def three_texts_def)

lemma three_lines_ok: "line_ok three_texts (said ''m'')" "line_ok three_texts hidden_event" "line_ok three_texts other_event"
  unfolding line_ok_def using three_events short_texts[unfolded append_Cons append_Nil] by (auto simp: three_texts_def Let_def maxRecordBytes_def)

definition no_fault :: "event \<Rightarrow> write_io \<times> event" where
  "no_fault e = (\<lparr>wi_chatOpen = None, wi_file = (length (log_line three_texts e), None), wi_chat = (length (log_line three_texts e), None),
     wi_fileSync = None, wi_chatSync = None\<rparr>, e)"

definition new_writers :: writers where
  "new_writers = \<lparr>wr_dir = ''l'', wr_chatDir = ''c'', wr_global = ''l/g'', wr_sessions = (\<lambda>_. None), wr_chats = (\<lambda>_. None), wr_paths = (\<lambda>_. None),
     wr_sizes = (\<lambda>_. 0), wr_history = (\<lambda>_. None)\<rparr>"

definition plain_rotation :: rotate_io where
  "plain_rotation = \<lparr>ri_sync = None, ri_close = None, ri_open = None, ri_stat = None, ri_names = [''a'']\<rparr>"

lemma opened:
  obtains w fs pr where "RotateSession three_texts plain_rotation ''s'' new_writers (\<lambda>_. None) = (w, fs, Ok (''l/a'', pr))" "apart three_texts ''s'' ''l/a'' w"
  by (rule that) (auto simp: RotateSession_def plain_rotation_def new_writers_def three_texts_def apart_def chat_path_def Let_def)

lemma no_fault_allowed:
  "write_allowed three_texts (no_fault (said ''m''))" "write_allowed three_texts (no_fault hidden_event)" "write_allowed three_texts (no_fault other_event)"
  using three_lines_ok by (simp_all add: write_allowed_def no_fault_def io_ok_def session_name_def said_def hidden_event_def other_event_def events_New_def three_texts_def)

definition three_writes :: "(write_io \<times> event) list" where
  "three_writes = [no_fault (said ''m''), no_fault other_event, no_fault hidden_event]"

lemma three_writes_simps: "list_all (write_allowed three_texts) three_writes" "events_of ''s'' three_writes = [said ''m'', hidden_event]"
  using no_fault_allowed by (simp_all add: three_writes_def events_of_def no_fault_def said_def hidden_event_def other_event_def events_New_def)

theorem journals_are_read_back_witness:
  "\<exists>w fs pr w' fs' rs. RotateSession three_texts plain_rotation ''s'' new_writers (\<lambda>_. None) = (w, fs, Ok (''l/a'', pr))
     \<and> write_all three_texts three_writes w fs = (w', fs', rs) \<and> length (fst (ReadFile three_texts fs' ''l/a'' 0)) = 2"
proof -
  obtain w fs pr where w: "RotateSession three_texts plain_rotation ''s'' new_writers (\<lambda>_. None) = (w, fs, Ok (''l/a'', pr))" "apart three_texts ''s'' ''l/a'' w"
    by (rule opened)
  obtain w' fs' rs where r: "write_all three_texts three_writes w fs = (w', fs', rs)" by (metis prod_cases3)
  have "(''s'' :: string) \<noteq> []" by simp
  from journals_are_read_back[OF w this three_writes_simps(1) r refl] w(1) r show ?thesis by (auto simp: three_writes_simps(2))
qed

theorem live_recall_is_replayed_recall_witness:
  "\<exists>w fs pr w' fs' rs. RotateSession three_texts plain_rotation ''s'' new_writers (\<lambda>_. None) = (w, fs, Ok (''l/a'', pr))
     \<and> write_all three_texts three_writes w fs = (w', fs', rs)
     \<and> ResolveHistory three_texts w' fs' ''s'' ''m'' = Ok (FoundMessage ''m'' (emptyMessage\<lparr>msg_ID := ''m''\<rparr>))"
proof -
  obtain w fs pr where w: "RotateSession three_texts plain_rotation ''s'' new_writers (\<lambda>_. None) = (w, fs, Ok (''l/a'', pr))" "apart three_texts ''s'' ''l/a'' w"
    by (rule opened)
  obtain w' fs' rs where r: "write_all three_texts three_writes w fs = (w', fs', rs)" by (metis prod_cases3)
  have ne: "(''s'' :: string) \<noteq> []" by simp
  have ix: "indexable (said ''m'')" "indexable hidden_event" by (simp_all add: indexable_def said_def hidden_event_def events_New_def)
  have "list_all (\<lambda>e. indexable e \<and> \<not> patches_calls e \<and> ev_Type e \<noteq> ''session.reset'') (events_of ''s'' three_writes)"
    using ix by (simp add: three_writes_simps(2) patches_calls_def said_def hidden_event_def events_New_def valueMap_def ghas_def)
  from live_recall_is_replayed_recall[OF w ne three_writes_simps(1) r this, of "''m''"]
  have "ResolveHistory three_texts w' fs' ''s'' ''m'' = resolveReplay (fold (archive_Record plain_text) (map reread [said ''m'', hidden_event]) newHistoryIndex) ''m''"
    by (simp add: three_writes_simps(2) three_texts_def)
  also have "\<dots> = Ok (FoundMessage ''m'' (emptyMessage\<lparr>msg_ID := ''m''\<rparr>))"
    using ix by (simp add: archive_Record_def index_reread) (simp add: index_event_def said_def hidden_event_def events_New_def valueMap_def index_append_def
      index_update_def resolveReplay_def resolve_with_def is_manifest_def newHistoryIndex_def kids_def emptyMessage_def ghas_def Let_def)
  finally show ?thesis using w(1) r by blast
qed

theorem failed_chat_write_shifts_cursors_witness:
  "\<exists>w fs pr w1 fs1 c1 r1 w2 fs2 c2 r2. RotateSession three_texts plain_rotation ''s'' new_writers (\<lambda>_. None) = (w, fs, Ok (''l/a'', pr))
     \<and> WriteRecord three_texts ((fst (no_fault (said ''m'')))\<lparr>wi_chat := (0, Some ''disk full'')\<rparr>) (said ''m'') w fs = (w1, fs1, c1, r1)
     \<and> WriteRecord three_texts (fst (no_fault hidden_event)) hidden_event w1 fs1 = (w2, fs2, c2, r2) \<and> r2 = None
     \<and> snd (snd (ReadFile three_texts fs2 (lc_Path c2) (nat (lc_Offset c2)))) \<noteq> None"
proof -
  let ?io = "(fst (no_fault (said ''m'')))\<lparr>wi_chat := (0, Some ''disk full'')\<rparr>"
  obtain w fs pr where w: "RotateSession three_texts plain_rotation ''s'' new_writers (\<lambda>_. None) = (w, fs, Ok (''l/a'', pr))" "apart three_texts ''s'' ''l/a'' w"
    by (rule opened)
  obtain w1 fs1 c1 r1 where r1: "WriteRecord three_texts ?io (said ''m'') w fs = (w1, fs1, c1, r1)" by (metis prod_cases4)
  obtain w2 fs2 c2 r2 where r2: "WriteRecord three_texts (fst (no_fault hidden_event)) hidden_event w1 fs1 = (w2, fs2, c2, r2)" by (metis prod_cases4)
  have s: "session_name three_texts ''s''" "ev_SessionID (said ''m'') = ''s''" "ev_SessionID hidden_event = ''s''"
    by (simp_all add: session_name_def three_texts_def said_def hidden_event_def events_New_def)
  have io: "wi_chatOpen ?io = None" "wi_file ?io = (length (log_line three_texts (said ''m'')), None)" "snd (wi_chat ?io) = Some ''disk full''"
    "io_ok three_texts (fst (no_fault hidden_event)) hidden_event" by (simp_all add: no_fault_def io_ok_def)
  have n: "length (log_line three_texts hidden_event) \<noteq> length (log_line three_texts (said ''m''))" by (simp add: three_lines)
  have l: "\<forall>x \<in> set ([] @ [said ''m'', hidden_event]). line_ok three_texts x" using three_lines_ok by simp
  from failed_chat_write_shifts_cursors[OF w(2) fresh_generation(1)[OF w(1)] s(1) l s(2,3) n io r1 r2] w(1) r1 r2 show ?thesis by blast
qed

end
