(* ===== verification/Spec2Isabelle.thy ===== *)
theory Spec2Isabelle
  imports Byte_Window Guards Event_Bus Session_Model Gate Grants Shell_Policy Tool_Exec Flight Scheduler Scheduler_Traces
    Compaction Edit_Text File_Search Tool_Window Budget Requests Summaries Plan_Proposals Run_Model Run_Loop Go_JSON Projection_Model
    Projector Projection_Patch Projection_Follow Projection_Mirror Progress
    History Journal Journal_Trace Journal_Recall
begin

text \<open>
  A verification development for Agent_b, a coding agent written in Go: sessions (chats) talk to a model
  server, the model answers with tool calls, and the harness decides whether, as whom and when each call runs,
  records everything as events and keeps the conversation within the model's context window.

  \<^bold>\<open>The program and its parts.\<close>  A message submitted to a session reaches the \<^emph>\<open>scheduler\<close>
  (\<^verbatim>\<open>internal/agent/scheduler.go\<close>), which starts a run, queues it, or holds it; a run calls the model and
  executes the tool calls it answers with.  \<^verbatim>\<open>executeTool\<close> (\<^verbatim>\<open>internal/agent/run.go\<close>) consults the \<^emph>\<open>standing
  grants\<close> (\<^verbatim>\<open>shell_grant.go\<close>, \<^verbatim>\<open>file_grant.go\<close>) and asks the operator through the \<^emph>\<open>approval gate\<close>
  (\<^verbatim>\<open>gate.go\<close>); shell commands pass the \<^emph>\<open>shell policy\<close> (\<^verbatim>\<open>internal/tools/shell_policy.go\<close>).  Results are
  fitted into what is left of the context (\<^verbatim>\<open>tool_window.go\<close>) and
  watched by the \<^emph>\<open>run guards\<close> (\<^verbatim>\<open>guards.go\<close>), the state of the run in flight is kept for an \<^emph>\<open>abort record\<close>
  (\<^verbatim>\<open>abort.go\<close>), and the conversation is \<^emph>\<open>compacted\<close> (\<^verbatim>\<open>internal/context/compact.go\<close>).  Every component publishes
  on the \<^emph>\<open>event bus\<close> (\<^verbatim>\<open>internal/events/bus.go\<close>) and changes the \<^emph>\<open>session\<close> (\<^verbatim>\<open>internal/session/session.go\<close>).

  \<^bold>\<open>Theories.\<close>
  \<^item> \<open>Go_Prelude\<close>, \<open>Go_Strings\<close>, \<open>Go_UTF8\<close>: results with errors and panics, 64-bit wrap-around, decimal printing, the
    functions of \<^verbatim>\<open>strings\<close> and \<^verbatim>\<open>unicode/utf8\<close> the sources use, and the locale \<open>invariant_system\<close> of a state
    machine with an invariant.
  \<^item> \<open>Events_Model\<close>, \<open>Human_Notice\<close>: messages, tool calls, events and dynamic values (\<^verbatim>\<open>events/event.go\<close>,
    \<^verbatim>\<open>events/human.go\<close>); the locale \<open>event_emitter\<close> of a component that publishes.
  \<^item> \<open>Event_Bus\<close> (\<^verbatim>\<open>events/bus.go\<close>): stamping, sinks, bounded channels.  A publication reaches every subscriber or
    unregisters it; two overlapping publications can send on a closed channel.
  \<^item> \<open>Session_Model\<close> (\<^verbatim>\<open>session/session.go\<close>, tool switches of \<^verbatim>\<open>session/registry.go\<close>): the session record and its
    operations; planner sessions keep the command tools off; closed sessions have no submission.
  \<^item> \<open>Gate\<close> (\<^verbatim>\<open>agent/gate.go\<close>): waits are objects on a heap, goroutines interleave as a step relation.  Exact
    acceptance, an accepted decision is the one returned, published once.  One pending decision per session in
    \<open>orderly_step\<close> runs, in which no call is asked about again while an earlier wait under its session and call id
    is blocked; the code does not check this, and a reused id orphans the first wait.
  \<^item> \<open>Grants\<close> (\<^verbatim>\<open>agent/shell_grant.go\<close>, \<^verbatim>\<open>agent/file_grant.go\<close>): the locale \<open>tracked_permission\<close> says that a permission
    holds exactly when its history says so; six interpretations, one per kind of grant.
  \<^item> \<open>Shell_Policy\<close> (\<^verbatim>\<open>tools/shell_policy.go\<close>): word splitting, forbidden commands, script provenance, file routing.
  \<^item> \<open>Tool_Exec\<close> (\<^verbatim>\<open>agent/run.go\<close>, \<^verbatim>\<open>agent/tool_redaction.go\<close>): \<^verbatim>\<open>executeTool\<close> with every branch over an
    environment of tool outcomes and operator answers; what runs, as whom and after which question is the list
    of effects the theorems speak about.
  \<^item> \<open>Flight\<close> (\<^verbatim>\<open>agent/abort.go\<close>): the in-flight record and abort records.
  \<^item> \<open>Scheduler\<close>, \<open>Scheduler_Traces\<close> (\<^verbatim>\<open>agent/scheduler.go\<close>): submissions, starts, finishes, stops and model
    outages as a step relation in which a started run finishes at any later moment; invariants by rule
    induction (slots are bounded, never idle while work waits, and each is held for an executing goroutine), and
    reachable states in which the code departs from its intent.  What is bounded are slots, not goroutines.
  \<^item> \<open>Guards\<close> (\<^verbatim>\<open>agent/guards.go\<close>): the bounded buffer refines a verdict on the history of calls and of
    the resets after the operator let a cycle continue.
  \<^item> \<open>Byte_Window\<close> (\<^verbatim>\<open>tools/byte_window.go\<close>, \<^verbatim>\<open>tools/read_file.go\<close>): windows over UTF-8 text; the locale \<open>pager\<close> for
    following cursors.
  \<^item> \<open>Compaction\<close> (\<^verbatim>\<open>context/compact.go\<close>): elision of superseded and old results, summaries, settled spans; the
    locale \<open>conversation_eliding\<close> for operations that only replace results by stubs.
  \<^item> \<open>Edit_Text\<close> (\<^verbatim>\<open>tools/edit_file.go\<close>): matching tiers, line endings, diff, similarity.
  \<^item> \<open>File_Search\<close> (\<^verbatim>\<open>tools/glob.go\<close>, \<^verbatim>\<open>tools/grep.go\<close>, \<^verbatim>\<open>tools/inaccessible.go\<close>): memoised patterns and directory
    walks; the locale \<open>tree_search\<close> is the contract of a walk callback, interpreted for both tools.
  \<^item> \<open>Tool_Window\<close> (\<^verbatim>\<open>agent/tool_window.go\<close>): results fitted into the remaining tokens, oversized reads clamped by
    bisection; the clamp reads back the header that \<open>Byte_Window\<close> writes.
  \<^item> \<open>Go_Float\<close>, \<open>Budget\<close> (\<^verbatim>\<open>agent/budget.go\<close>): float64 results as rationals rounded to 53 bits; the estimated, tokenized
    and exact measurement of a request, its caches and categories.
  \<^item> \<open>Requests\<close> (\<^verbatim>\<open>attachment/attachment.go\<close>, \<^verbatim>\<open>agent/attachments.go\<close>): attachment names and inline budgets, conversion
    of the conversation into a request, output limits.
  \<^item> \<open>Summaries\<close> (\<^verbatim>\<open>agent/compaction_summary.go\<close>): the choice of a summarising profile, the attempts, and the evidence
    block carried from one summary to the next.
  \<^item> \<open>Plan_Proposals\<close> (\<^verbatim>\<open>agent/plan_proposals.go\<close>): which blocks of an answer become proposals and leave the
    visible text, and the binding of their sources.
  \<^item> \<open>Run_Model\<close>, \<open>Run_Loop\<close> (\<^verbatim>\<open>agent/run.go\<close>, \<^verbatim>\<open>agent/truncation.go\<close>): \<^verbatim>\<open>Runner.Run\<close> composed of the components
    above, one function per part of a turn.  \<open>turn_env\<close> is what the world answers in one round; the loop runs for as
    many rounds as it is given environments, and a run that is not over yet returns \<open>None\<close>.  The locale
    \<open>run_invariant\<close> lifts what one round keeps to whole runs; it is interpreted for the limits, the calls executed, the requests sent
    and the shape of the conversation.
  \<^item> \<open>Go_JSON\<close>: \<^verbatim>\<open>encoding/json\<close> on the values events carry, with round trips for messages, usage and summary data.
  \<^item> \<open>Projection_Model\<close>, \<open>Projector\<close> (\<^verbatim>\<open>projection/projector.go\<close>): the fold of the event log into the snapshot of a session,
    one function per group of events.
  \<^item> \<open>Projection_Patch\<close>, \<open>Projection_Follow\<close> (the same file and \<^verbatim>\<open>web/js/bus.js\<close>): the patch of an event and the client that
    applies it; the locale \<open>patch_protocol\<close> lifts one patch to whole logs, and clients follow the log exactly while
    new entries bring new keys and \<^verbatim>\<open>workspace.bound\<close> hides no change: that event writes through pointers and a slice the
    new snapshot shares with the previous one (\<open>previous_after\<close>), which \<^verbatim>\<open>diff\<close> then compares with the new one.
  \<^item> \<open>Projection_Mirror\<close>: the composition of compaction, events and projection.  The locale \<open>mirrored_operation\<close> says what an
    operation on the conversation owes to the projection; further theorems show where the mirror breaks (a message id
    used twice, settled messages).
  \<^item> \<open>Progress\<close> (\<^verbatim>\<open>progress/progress.go\<close>): what the seven progress detectors observe, when they fire and stay fired, the
    live consumer of all runs (locale \<open>keyed_consumer\<close>) and the offline evaluation of one run.
  \<^item> \<open>History\<close> (\<^verbatim>\<open>events/history.go\<close>): the index of compacted and elided messages and the manifests of summaries.
  \<^item> \<open>Journal\<close>, \<open>Journal_Trace\<close>, \<open>Journal_Recall\<close> (\<^verbatim>\<open>events/jsonl.go\<close>, \<^verbatim>\<open>projection/file.go\<close>): records, generations and cursors
    over the bytes of a disk; what was written is read back, and recall by location agrees with recall in a replay.

  \<^bold>\<open>Modelling.\<close>  Go strings are byte lists; a mutex-protected operation is one step; goroutines and channels
  are step relations (gate, scheduler) or explicit buffers (bus).  \<^verbatim>\<open>int\<close> is \<open>int\<close> or \<open>nat\<close>, with the wrap-around
  written out where a caller chooses the operands of an addition; token counts are added up without it.  What lies outside the repository is a
  parameter: JSON encoding and decoding, digests, path operations, \<^verbatim>\<open>path.Match\<close>, regular expressions, token
  counts, tool outcomes, operator answers, iteration orders of maps.  Case mapping is the ASCII one.

  \<^bold>\<open>Bounds and fuel.\<close>  All functions are total.  The nesting of shell interpreters is followed to the depth the
  code has (three levels).  Paging is stated with fuel one larger than the text, which is enough because every
  window advances by at least one byte.  Loops over indexes are folds over index lists, and the memoised pattern
  match and the scanners terminate by measures.

  A cancelled context stays cancelled, so cancellation in a round is the first of its checkpoints that sees it.

  \<^bold>\<open>Not modelled.\<close>  Prompt rendering (a parameter of the run loop), plan registration (its outcome is a parameter),
  the automatic renaming and the auxiliary progress call of a turn (they change neither the conversation nor the
  control flow of a run), the raw bodies attached to model events, the directory
  listings of the journal, the live store of projections, the web server, configuration files, the model client, the network, process and
  file-system parts of the tools, Windows hardening, credentials and signing, the browser interface and the scripts.
  Of these the live store, the session registry and the validation of the
  configuration hold logic of their own; the rest is input and output.
\<close>

end
